(* ===== verification/Prelude.thy ===== *)
theory Prelude
  imports Main "HOL-Library.Word"
begin

text \<open>
  What the components share: the machine types, the outcome type in which a kernel panic, an
  undefined operation of the language and a loop that has not ended are values, the wrap-around of
  32-bit arithmetic on \<open>nat\<close>, the bit-counting functions of the header \<open>bit\<close> that the
  sources use, and the lemmas on words, lists and alignment that the component proofs rest on.

  Two named collections carry the automation. \<open>res_simps\<close> unfolds the outcome combinators;
  \<open>wordbits\<close> rewrites a word equation into an equation of bits.
\<close>

unbundle bit_operations_syntax

named_theorems res_simps
named_theorems wordbits

section \<open>Machine types and outcomes\<close>

type_synonym u8 = "8 word"
type_synonym u16 = "16 word"
type_synonym u32 = "32 word"
type_synonym u64 = "64 word"

text \<open>
  \<open>Panic\<close> is a call of \<^verbatim>\<open>Cpu::Panic\<close> or of a halt (the message is the format string),
  \<open>Undefined\<close> an operation the language gives no meaning to (a shift by the width or more, an
  index outside an array), and \<open>Diverges\<close> a loop that used up the fuel it was given.
\<close>

datatype fault = Panic string | Undefined string | Diverges

type_synonym 'a res = "fault + 'a"

definition rbind :: "'a res \<Rightarrow> ('a \<Rightarrow> 'b res) \<Rightarrow> 'b res" where
  "rbind m f = (case m of Inl e \<Rightarrow> Inl e | Inr x \<Rightarrow> f x)"

lemma rbind_Inl [simp, res_simps]: "rbind (Inl e) f = Inl e"
  by (simp add: rbind_def)

lemma rbind_Inr [simp, res_simps]: "rbind (Inr x) f = f x"
  by (simp add: rbind_def)

lemma rbind_cong [fundef_cong]:
  "\<lbrakk>m = m'; \<And>x. m' = Inr x \<Longrightarrow> f x = g x\<rbrakk> \<Longrightarrow> rbind m f = rbind m' g"
  by (cases m') auto

lemma rbind_eq_Inr: "rbind m f = Inr y \<longleftrightarrow> (\<exists>x. m = Inr x \<and> f x = Inr y)"
  by (cases m) auto

lemma rbind_eq_InrE [elim]:
  assumes "rbind m f = Inr y"
  obtains x where "m = Inr x" and "f x = Inr y"
  using assms by (auto simp: rbind_eq_Inr)

section \<open>32-bit arithmetic on natural numbers\<close>

text \<open>
  Indices and counts of type \<^verbatim>\<open>uint32_t\<close> are natural numbers below \<open>2 ^ 32\<close>; every addition,
  multiplication or truncation that may pass the width is written under \<open>wrap32\<close>.
\<close>

definition wrap32 :: "nat \<Rightarrow> nat" where
  "wrap32 n = n mod 4294967296"

definition not32 :: "nat \<Rightarrow> nat" where
  "not32 n = 4294967295 - n"

abbreviation UINT32_MAX :: nat where
  "UINT32_MAX \<equiv> 4294967295"

lemma wrap32_id [simp]: "n < 4294967296 \<Longrightarrow> wrap32 n = n"
  by (simp add: wrap32_def)

lemma wrap32_bound: "wrap32 n < 4294967296"
  by (simp add: wrap32_def)

section \<open>Counting bits from the ends of a word\<close>

definition countr_zero :: "'a::len word \<Rightarrow> nat" where
  "countr_zero w = length (takeWhile Not (map (bit w) [0..<LENGTH('a)]))"

definition countr_one :: "'a::len word \<Rightarrow> nat" where
  "countr_one w = length (takeWhile id (map (bit w) [0..<LENGTH('a)]))"

lemma length_takeWhile_upt_le: "length (takeWhile P (map f [0..<n])) \<le> n"
  by (metis length_map length_takeWhile_le length_upt minus_nat.diff_0)

lemma nth_takeWhile_upt:
  assumes "i < length (takeWhile P (map f [0..<n]))"
  shows "P (f i)"
proof -
  from assms have "i < n" using length_takeWhile_upt_le [of P f n] by simp
  then have "takeWhile P (map f [0..<n]) ! i = f i"
    using assms by (simp add: takeWhile_nth)
  moreover have "takeWhile P (map f [0..<n]) ! i \<in> set (takeWhile P (map f [0..<n]))"
    using assms by (rule nth_mem)
  ultimately show ?thesis by (metis set_takeWhileD)
qed

lemma nth_length_takeWhile_upt:
  assumes "length (takeWhile P (map f [0..<n])) < n"
  shows "\<not> P (f (length (takeWhile P (map f [0..<n]))))"
  using nth_length_takeWhile [of P "map f [0..<n]"] assms by simp

lemma countr_zero_le: "countr_zero (w :: 'a::len word) \<le> LENGTH('a)"
  by (simp only: countr_zero_def length_takeWhile_upt_le)

lemma countr_one_le: "countr_one (w :: 'a::len word) \<le> LENGTH('a)"
  by (simp only: countr_one_def length_takeWhile_upt_le)

lemma countr_zero_below: "i < countr_zero w \<Longrightarrow> \<not> bit w i"
  unfolding countr_zero_def using nth_takeWhile_upt by blast

lemma countr_one_below: "i < countr_one w \<Longrightarrow> bit w i"
  unfolding countr_one_def using nth_takeWhile_upt [of i id] by auto

lemma countr_zero_at:
  "countr_zero (w :: 'a::len word) < LENGTH('a) \<Longrightarrow> bit w (countr_zero w)"
  unfolding countr_zero_def using nth_length_takeWhile_upt by blast

lemma countr_one_at: "\<not> bit (w :: 'a::len word) (countr_one w)"
proof (cases "countr_one w < LENGTH('a)")
  case True
  then show ?thesis
    unfolding countr_one_def using nth_length_takeWhile_upt [of id "bit w"] by auto
next
  case False
  then show ?thesis using bit_imp_le_length not_less by blast
qed

lemma countr_zero_less: "w \<noteq> (0 :: 'a::len word) \<Longrightarrow> countr_zero w < LENGTH('a)"
proof (rule ccontr)
  assume nz: "w \<noteq> 0" and "\<not> countr_zero w < LENGTH('a)"
  then have "\<not> bit w i" if "i < LENGTH('a)" for i
    using that countr_zero_below [of i w] by simp
  then have "w = 0" by (intro bit_word_eqI) simp
  with nz show False by simp
qed

lemma countr_zero_eqI:
  "\<lbrakk>bit (w :: 'a::len word) n; \<And>i. i < n \<Longrightarrow> \<not> bit w i\<rbrakk> \<Longrightarrow> countr_zero w = n"
  by (metis bit_imp_le_length countr_zero_at countr_zero_below countr_zero_le le_neq_implies_less
      linorder_neqE_nat order_less_le_trans)

lemma countr_one_eqI:
  "\<lbrakk>\<not> bit (w :: 'a::len word) n; \<And>i. i < n \<Longrightarrow> bit w i\<rbrakk> \<Longrightarrow> countr_one w = n"
  by (metis countr_one_at countr_one_below linorder_neqE_nat)

section \<open>Shifts and masks of 64-bit words\<close>

text \<open>
  The language leaves a shift by 64 or more undefined; \<open>shr64\<close> and \<open>shl64\<close> make it a fault.
\<close>

definition shr64 :: "u64 \<Rightarrow> nat \<Rightarrow> u64 res" where
  "shr64 w n = (if n < 64 then Inr (drop_bit n w) else Inl (Undefined ''shift''))"

definition shl64 :: "u64 \<Rightarrow> nat \<Rightarrow> u64 res" where
  "shl64 w n = (if n < 64 then Inr (push_bit n w) else Inl (Undefined ''shift''))"

lemma shr64_lt [simp]: "n < 64 \<Longrightarrow> shr64 w n = Inr (drop_bit n w)"
  by (simp add: shr64_def)

lemma shl64_lt [simp]: "n < 64 \<Longrightarrow> shl64 w n = Inr (push_bit n w)"
  by (simp add: shl64_def)

lemma bit_u64_less: "bit (w :: u64) i \<Longrightarrow> i < 64"
  using bit_imp_le_length [of w i] by simp

lemma bit_u64_not_less: "64 \<le> i \<Longrightarrow> \<not> bit (w :: u64) i"
  using bit_u64_less [of w i] by auto

lemma u64_eqI: "(\<And>i. i < 64 \<Longrightarrow> bit (a :: u64) i = bit b i) \<Longrightarrow> a = b"
  by (intro bit_word_eqI) simp

lemma bit_minus_one_u64 [simp]: "bit (-1 :: u64) i \<longleftrightarrow> i < 64"
  by (simp add: bit_simps)

lemma bit_drop_u64 [simp, wordbits]: "bit (drop_bit n w :: u64) i \<longleftrightarrow> bit w (n + i)"
  by (simp add: bit_simps)

lemma bit_push_u64 [simp, wordbits]: "bit (push_bit n w :: u64) i \<longleftrightarrow> n \<le> i \<and> i < 64 \<and> bit w (i - n)"
  by (auto simp: bit_simps)

lemma bit_not_u64 [simp, wordbits]: "bit (NOT w :: u64) i \<longleftrightarrow> i < 64 \<and> \<not> bit w i"
  by (auto simp: bit_simps)

lemma bit_or_u64 [simp, wordbits]: "bit (a OR b :: u64) i \<longleftrightarrow> bit a i \<or> bit b i"
  by (simp add: bit_simps)

lemma bit_and_u64 [simp, wordbits]: "bit (a AND b :: u64) i \<longleftrightarrow> bit a i \<and> bit b i"
  by (simp add: bit_simps)

lemma bit_xor_u64 [simp, wordbits]: "bit (a XOR b :: u64) i \<longleftrightarrow> bit a i \<noteq> bit b i"
  by (simp add: bit_simps)

lemma bit_mask_u64 [simp, wordbits]: "bit (mask n :: u64) i \<longleftrightarrow> i < n \<and> i < 64"
  by (auto simp: bit_simps)

lemma bit_one_u64 [simp, wordbits]: "bit (1 :: u64) i \<longleftrightarrow> i = 0"
  by (simp add: bit_simps)

lemma bit_exp_u64 [simp, wordbits]: "bit (2 ^ n :: u64) i \<longleftrightarrow> i = n \<and> i < 64"
  by (auto simp: bit_simps)

lemma and_eq_0_iff_u64: "a AND b = (0 :: u64) \<longleftrightarrow> (\<forall>i<64. \<not> (bit a i \<and> bit b i))"
proof
  assume "a AND b = 0"
  then show "\<forall>i<64. \<not> (bit a i \<and> bit b i)"
    by (metis bit_0_eq bit_and_u64 bot_apply bot_bool_def)
next
  assume "\<forall>i<64. \<not> (bit a i \<and> bit b i)"
  then show "a AND b = 0" by (intro u64_eqI) simp
qed

lemma u64_eq_0_iff: "a = (0 :: u64) \<longleftrightarrow> (\<forall>i<64. \<not> bit a i)"
  using and_eq_0_iff_u64 [of a "-1"] by simp

lemma u64_eq_max_iff: "a = (-1 :: u64) \<longleftrightarrow> (\<forall>i<64. bit a i)"
  by (auto intro: u64_eqI)

lemma unat_ucast_u64: "unat (ucast x :: u64) = unat x" for x :: u32
proof -
  have "unat x < 2 ^ LENGTH(32)" by (rule unsigned_less)
  then show ?thesis by (simp add: unsigned_ucast_eq take_bit_nat_eq_self)
qed

section \<open>Powers of two and alignment\<close>

definition is_pow2 :: "nat \<Rightarrow> bool" where
  "is_pow2 n \<longleftrightarrow> (\<exists>k. n = 2 ^ k)"

lemma nat_double_and: "(2 * a) AND (2 * b) = 2 * (a AND b)" for a b :: nat
  by (rule bit_eqI) (auto simp: bit_simps)

lemma nat_even_and_odd: "(2 * a) AND (2 * b + 1) = 2 * (a AND b)" for a b :: nat
proof (rule bit_eqI)
  fix n
  show "bit ((2 * a) AND (2 * b + 1)) n = bit (2 * (a AND b)) n"
    unfolding bit_and_iff [of "2 * a"] by (cases n) (simp_all add: bit_0 bit_Suc bit_and_iff)
qed

lemma and_pred_eq_0_imp_pow2: "\<lbrakk>0 < n; n AND (n - 1) = 0\<rbrakk> \<Longrightarrow> is_pow2 n"
proof (induction n rule: less_induct)
  case (less n)
  show ?case
  proof (cases "even n")
    case True
    then obtain m where n: "n = 2 * m" by (auto elim: evenE)
    with less.prems have m: "0 < m" and pred: "n - 1 = 2 * (m - 1) + 1" by simp_all
    have "n AND (n - 1) = 2 * (m AND (m - 1))"
      unfolding pred unfolding n by (rule nat_even_and_odd)
    with less.prems have "m AND (m - 1) = 0" by simp
    with less.IH [of m] m n obtain k where "m = 2 ^ k" by (auto simp: is_pow2_def)
    with n have "n = 2 ^ Suc k" by simp
    then show ?thesis unfolding is_pow2_def by blast
  next
    case False
    then obtain m where n: "n = 2 * m + 1" by (auto elim: oddE)
    have "n AND (n - 1) = (2 * m) AND (2 * m + 1)" using n by (simp add: and.commute)
    also have "\<dots> = 2 * m" by (simp only: nat_even_and_odd and.idem)
    finally have "m = 0" using less.prems by simp
    with n have "n = 2 ^ 0" by simp
    then show ?thesis unfolding is_pow2_def by blast
  qed
qed

lemma and_pred_pow2: "n AND (2 ^ k - 1) = n mod 2 ^ k" for n :: nat
  by (metis mask_eq_exp_minus_1 take_bit_eq_mask take_bit_eq_mod)

lemma pow2_and_pred: "is_pow2 n \<Longrightarrow> n AND (n - 1) = 0"
  by (auto simp: is_pow2_def and_pred_pow2 simp del: One_nat_def)

lemma is_pow2_iff: "0 < n \<Longrightarrow> is_pow2 n \<longleftrightarrow> n AND (n - 1) = 0"
  using and_pred_eq_0_imp_pow2 pow2_and_pred by blast

lemma is_pow2_pos: "is_pow2 n \<Longrightarrow> 0 < n"
  by (auto simp: is_pow2_def)

lemma is_pow2_dvd: "\<lbrakk>is_pow2 a; is_pow2 b; a \<le> b\<rbrakk> \<Longrightarrow> a dvd b"
  by (auto simp: is_pow2_def le_imp_power_dvd)

lemma and_not32_pow2:
  assumes "is_pow2 a" and "a \<le> 2147483648" and "n < 4294967296"
  shows "n AND not32 (a - 1) = n - n mod a"
proof -
  from assms(1) obtain k where a: "a = 2 ^ k" by (auto simp: is_pow2_def)
  have "(2 :: nat) ^ k \<le> 2 ^ 31" using assms(2) by (simp add: a)
  then have k: "k \<le> 31" by (rule power_le_imp_le_exp [rotated]) simp
  have m: "not32 (a - 1) = push_bit k (mask (32 - k))"
  proof -
    have split: "(2 :: nat) ^ 32 = 2 ^ k * 2 ^ (32 - k)" using k by (simp flip: power_add)
    have "push_bit k (mask (32 - k)) = (2 ^ (32 - k) - 1) * (2 :: nat) ^ k"
      by (simp add: push_bit_eq_mult mask_eq_exp_minus_1)
    also have "\<dots> = 2 ^ 32 - 2 ^ k"
      by (simp only: diff_mult_distrib split mult.commute [of "2 ^ k" "2 ^ (32 - k)"] mult_1)
    finally show ?thesis by (simp add: not32_def a)
  qed
  have n: "\<not> bit n i" if "32 \<le> i" for i
  proof -
    have "n < 2 ^ 32" using assms(3) by simp
    then have "n < 2 ^ i" using that by (meson less_le_trans one_le_numeral power_increasing)
    then show ?thesis by (simp add: bit_iff_odd)
  qed
  have "n AND not32 (a - 1) = push_bit k (drop_bit k n)"
  proof (rule bit_eqI)
    fix i
    show "bit (n AND not32 (a - 1)) i = bit (push_bit k (drop_bit k n)) i"
      unfolding m using n [of i]
      by (cases "32 \<le> i") (auto simp: bit_and_iff bit_push_bit_iff bit_drop_bit_eq bit_mask_iff)
  qed
  also have "\<dots> = n - n mod a"
    by (simp add: push_bit_eq_mult drop_bit_eq_div a minus_mod_eq_div_mult)
  finally show ?thesis .
qed

end
