(* ===== verification/Circular_Fifo.thy ===== *)
theory Circular_Fifo
  imports Prelude
begin

text \<open>
  The ring buffer \<^verbatim>\<open>Containers::CircularFifo\<close> of \<^verbatim>\<open>src/Containers.h\<close>, which queues pending sparks
  and threads in the scheduler. The record keeps the array and the two indices as the struct does;
  \<open>fifo_list\<close> reads the queued items out of the ring. The interface \<open>bounded_queue\<close> states what
  its clients rely on, with the lemmas they use proved once, and is interpreted on the ring.
\<close>

section \<open>The interface of a bounded queue\<close>

fun push_all :: "('q \<Rightarrow> 'a \<Rightarrow> 'q res) \<Rightarrow> 'q \<Rightarrow> 'a list \<Rightarrow> 'q res" where
  "push_all push q [] = Inr q"
| "push_all push q (x # xs) = rbind (push q x) (\<lambda>q'. push_all push q' xs)"

fun pop_many :: "('q \<Rightarrow> ('a \<times> 'q) res) \<Rightarrow> nat \<Rightarrow> 'q \<Rightarrow> ('a list \<times> 'q) res" where
  "pop_many pop 0 q = Inr ([], q)"
| "pop_many pop (Suc n) q =
     rbind (pop q) (\<lambda>(x, q'). rbind (pop_many pop n q') (\<lambda>(xs, q''). Inr (x # xs, q'')))"

locale bounded_queue =
  fixes push :: "'q \<Rightarrow> 'a \<Rightarrow> 'q res"
    and pop :: "'q \<Rightarrow> ('a \<times> 'q) res"
    and is_empty :: "'q \<Rightarrow> bool"
    and contents :: "'q \<Rightarrow> 'a list"
    and room :: "'q \<Rightarrow> nat"
    and invar :: "'q \<Rightarrow> bool"
  assumes push_room: "\<lbrakk>invar q; length (contents q) < room q\<rbrakk> \<Longrightarrow>
      \<exists>q'. push q x = Inr q' \<and> invar q' \<and> contents q' = contents q @ [x] \<and> room q' = room q"
    and push_full: "\<lbrakk>invar q; room q \<le> length (contents q)\<rbrakk> \<Longrightarrow> \<exists>m. push q x = Inl (Panic m)"
    and pop_nonempty: "\<lbrakk>invar q; contents q \<noteq> []\<rbrakk> \<Longrightarrow>
      \<exists>q'. pop q = Inr (hd (contents q), q') \<and> invar q' \<and> contents q' = tl (contents q) \<and>
        room q' = room q"
    and pop_empty: "\<lbrakk>invar q; contents q = []\<rbrakk> \<Longrightarrow> \<exists>m. pop q = Inl (Panic m)"
    and is_empty_iff: "invar q \<Longrightarrow> is_empty q \<longleftrightarrow> contents q = []"
    and length_room: "invar q \<Longrightarrow> length (contents q) \<le> room q"
begin

lemma push_succeeds_iff:
  "invar q \<Longrightarrow> (\<exists>q'. push q x = Inr q') \<longleftrightarrow> length (contents q) < room q"
  using push_room [of q x] push_full [of q x] by (metis Inl_Inr_False linorder_not_less)

lemma push_all_room:
  "\<lbrakk>invar q; length (contents q) + length xs \<le> room q\<rbrakk> \<Longrightarrow>
   \<exists>q'. push_all push q xs = Inr q' \<and> invar q' \<and> contents q' = contents q @ xs \<and> room q' = room q"
proof (induction xs arbitrary: q)
  case Nil
  then show ?case by simp
next
  case (Cons x xs)
  then have "length (contents q) < room q" by simp
  with Cons.prems push_room [of q x] obtain q1
    where q1: "push q x = Inr q1" "invar q1" "contents q1 = contents q @ [x]" "room q1 = room q"
    by blast
  with Cons.prems Cons.IH [of q1] show ?case by auto
qed

lemma pop_many_contents:
  "\<lbrakk>invar q; n \<le> length (contents q)\<rbrakk> \<Longrightarrow>
   \<exists>q'. pop_many pop n q = Inr (take n (contents q), q') \<and> invar q' \<and>
     contents q' = drop n (contents q) \<and> room q' = room q"
proof (induction n arbitrary: q)
  case 0
  then show ?case by simp
next
  case (Suc n)
  then have ne: "contents q \<noteq> []" by auto
  with Suc.prems pop_nonempty [of q] obtain q1
    where q1: "pop q = Inr (hd (contents q), q1)" "invar q1" "contents q1 = tl (contents q)"
      "room q1 = room q"
    by blast
  moreover from Suc.prems q1(3) have "n \<le> length (contents q1)" by simp
  ultimately obtain q2 where "pop_many pop n q1 = Inr (take n (contents q1), q2)" "invar q2"
      "contents q2 = drop n (contents q1)" "room q2 = room q"
    using Suc.IH [of q1] by auto
  with q1 ne show ?case by (simp add: take_Suc drop_Suc)
qed

lemma pop_after_push_all:
  assumes "invar q" and "contents q = []" and "length xs \<le> room q"
  shows "\<exists>q1 q2. push_all push q xs = Inr q1 \<and> pop_many pop (length xs) q1 = Inr (xs, q2) \<and>
    is_empty q2"
proof -
  from assms push_all_room [of q xs] obtain q1
    where q1: "push_all push q xs = Inr q1" "invar q1" "contents q1 = xs" by auto
  then obtain q2 where "pop_many pop (length xs) q1 = Inr (xs, q2)" "invar q2" "contents q2 = []"
    using pop_many_contents [of q1 "length xs"] by auto
  with q1 is_empty_iff [of q2] show ?thesis by auto
qed

end

section \<open>The ring\<close>

record 'a fifo =
  Data :: "'a list"
  Head :: nat
  Tail :: nat

definition capacity :: "'a fifo \<Rightarrow> nat" where
  "capacity q = length (Data q)"

definition Push :: "'a fifo \<Rightarrow> 'a \<Rightarrow> 'a fifo res" where
  "Push q item =
     (if Head q < capacity q then
        (let q' = q\<lparr>Data := (Data q)[Head q := item], Head := wrap32 (Head q + 1) mod capacity q\<rparr>
         in if Head q' = Tail q' then Inl (Panic ''%s overflow'') else Inr q')
      else Inl (Undefined ''Data[Head]''))"

definition Pop :: "'a fifo \<Rightarrow> ('a \<times> 'a fifo) res" where
  "Pop q =
     (if Tail q = Head q then Inl (Panic ''%s is empty'')
      else if Tail q < capacity q then
        Inr (Data q ! Tail q, q\<lparr>Tail := wrap32 (Tail q + 1) mod capacity q\<rparr>)
      else Inl (Undefined ''Data[Tail]''))"

definition IsEmpty :: "'a fifo \<Rightarrow> bool" where
  "IsEmpty q \<longleftrightarrow> Tail q = Head q"

definition new_fifo :: "'a list \<Rightarrow> 'a fifo" where
  "new_fifo d = \<lparr>Data = d, Head = 0, Tail = 0\<rparr>"

section \<open>Its contents and its invariant\<close>

definition fifo_size :: "'a fifo \<Rightarrow> nat" where
  "fifo_size q = (Head q + capacity q - Tail q) mod capacity q"

definition fifo_list :: "'a fifo \<Rightarrow> 'a list" where
  "fifo_list q = map (\<lambda>i. Data q ! ((Tail q + i) mod capacity q)) [0..<fifo_size q]"

definition fifo_room :: "'a fifo \<Rightarrow> nat" where
  "fifo_room q = capacity q - 1"

definition fifo_ok :: "'a fifo \<Rightarrow> bool" where
  "fifo_ok q \<longleftrightarrow> capacity q < 4294967296 \<and> Head q < capacity q \<and> Tail q < capacity q"

lemma length_fifo_list [simp]: "length (fifo_list q) = fifo_size q"
  by (simp add: fifo_list_def)

lemma fifo_ok_new [simp]: "\<lbrakk>d \<noteq> []; length d < 4294967296\<rbrakk> \<Longrightarrow> fifo_ok (new_fifo d)"
  by (simp add: fifo_ok_def new_fifo_def capacity_def)

lemma fifo_list_new [simp]: "fifo_list (new_fifo d) = []"
  by (simp add: fifo_list_def fifo_size_def new_fifo_def capacity_def)

lemma ring_size_cases:
  fixes h c t :: nat
  assumes "h < c" and "t < c"
  shows "(h + c - t) mod c = (if t \<le> h then h - t else h + c - t)"
proof (cases "t \<le> h")
  case True
  then have "h + c - t = (h - t) + c" by simp
  with assms True show ?thesis by (metis less_imp_diff_less mod_add_self2 mod_less)
qed (use assms in auto)

lemma fifo_size_cases:
  "fifo_ok q \<Longrightarrow>
   fifo_size q = (if Tail q \<le> Head q then Head q - Tail q else Head q + capacity q - Tail q)"
  by (simp add: fifo_size_def fifo_ok_def ring_size_cases)

lemma fifo_size_le_room: "fifo_ok q \<Longrightarrow> fifo_size q \<le> fifo_room q"
  by (auto simp: fifo_size_cases fifo_room_def fifo_ok_def)

lemma ring_succ: "h < c \<Longrightarrow> c < 4294967296 \<Longrightarrow> wrap32 (h + 1) mod c = (if h + 1 = c then 0 else h + 1)"
  by auto

lemma mod_ring_index: "\<lbrakk>t < c; i < c\<rbrakk> \<Longrightarrow> (t + i) mod c = (if t + i < c then t + i else t + i - c)"
  for t c :: nat
  by (simp add: mod_if)

lemma Push_full_iff:
  "fifo_ok q \<Longrightarrow> wrap32 (Head q + 1) mod capacity q = Tail q \<longleftrightarrow> fifo_room q \<le> fifo_size q"
  by (simp only: fifo_size_cases fifo_room_def fifo_ok_def ring_succ) (auto split: if_splits)

lemma Push_room_ok:
  assumes "fifo_ok q" and "fifo_size q < fifo_room q"
  shows "\<exists>q'. Push q x = Inr q' \<and> fifo_ok q' \<and> fifo_list q' = fifo_list q @ [x] \<and>
    fifo_room q' = fifo_room q"
proof -
  let ?c = "capacity q"
  define h where "h = wrap32 (Head q + 1) mod ?c"
  define q' where "q' = q\<lparr>Data := (Data q)[Head q := x], Head := h\<rparr>"
  have ok: "?c < 4294967296" "Head q < ?c" "Tail q < ?c" using assms(1) by (auto simp: fifo_ok_def)
  then have h: "h = (if Head q + 1 = ?c then 0 else Head q + 1)"
    unfolding h_def by (intro ring_succ)
  have "h \<noteq> Tail q" unfolding h_def using assms Push_full_iff [of q] by simp
  then have push: "Push q x = Inr q'" using ok by (simp add: Push_def q'_def h_def Let_def)
  have cap: "capacity q' = ?c" by (simp add: q'_def capacity_def)
  have ok': "fifo_ok q'" using ok h by (auto simp: fifo_ok_def cap) (auto simp: q'_def)
  have size: "fifo_size q' = Suc (fifo_size q)"
    using ok h \<open>h \<noteq> Tail q\<close>
    by (auto simp: fifo_size_cases [OF ok'] fifo_size_cases [OF assms(1)] cap) (auto simp: q'_def)
  have last: "(Tail q + fifo_size q) mod ?c = Head q"
    using ok by (auto simp: fifo_size_cases [OF assms(1)])
  have old: "(Tail q + i) mod ?c \<noteq> Head q" if "i < fifo_size q" for i
    using that ok by (auto simp: fifo_size_cases [OF assms(1)] mod_ring_index split: if_splits)
  have "fifo_list q' = fifo_list q @ [x]"
  proof (rule nth_equalityI)
    fix i
    assume "i < length (fifo_list q')"
    then have i: "i \<le> fifo_size q" by (simp add: size)
    have "fifo_list q' ! i = (Data q)[Head q := x] ! ((Tail q + i) mod ?c)"
      using i by (simp add: fifo_list_def size cap del: upt_Suc) (simp add: q'_def)
    also have "\<dots> = (fifo_list q @ [x]) ! i"
      using i ok old [of i] last by (cases "i = fifo_size q")
        (auto simp: nth_append fifo_list_def capacity_def)
    finally show "fifo_list q' ! i = (fifo_list q @ [x]) ! i" .
  qed (simp add: size)
  with push ok' cap show ?thesis by (auto simp: fifo_room_def)
qed

lemma Push_full_panics:
  "\<lbrakk>fifo_ok q; fifo_room q \<le> fifo_size q\<rbrakk> \<Longrightarrow> Push q x = Inl (Panic ''%s overflow'')"
  using Push_full_iff [of q] by (auto simp: Push_def Let_def fifo_ok_def capacity_def)

lemma Pop_nonempty_ok:
  assumes "fifo_ok q" and "fifo_list q \<noteq> []"
  shows "\<exists>q'. Pop q = Inr (hd (fifo_list q), q') \<and> fifo_ok q' \<and> fifo_list q' = tl (fifo_list q) \<and>
    fifo_room q' = fifo_room q"
proof -
  let ?c = "capacity q"
  define t where "t = wrap32 (Tail q + 1) mod ?c"
  define q' where "q' = q\<lparr>Tail := t\<rparr>"
  have ok: "?c < 4294967296" "Head q < ?c" "Tail q < ?c" using assms(1) by (auto simp: fifo_ok_def)
  then have t: "t = (if Tail q + 1 = ?c then 0 else Tail q + 1)"
    unfolding t_def by (intro ring_succ)
  have pos: "0 < fifo_size q" using assms(2) by (metis length_fifo_list length_greater_0_conv)
  then have ne: "Tail q \<noteq> Head q" by (auto simp: fifo_size_cases [OF assms(1)])
  have cap: "capacity q' = ?c" by (simp add: q'_def capacity_def)
  have ok': "fifo_ok q'" using ok t by (auto simp: fifo_ok_def cap) (auto simp: q'_def)
  have size: "fifo_size q = Suc (fifo_size q')"
    using ok t ne
    by (auto simp: fifo_size_cases [OF ok'] fifo_size_cases [OF assms(1)] cap) (auto simp: q'_def)
  have idx: "(t + i) mod ?c = (Tail q + Suc i) mod ?c" for i
  proof (cases "Tail q + 1 = ?c")
    case True
    then have "(Tail q + Suc i) = i + ?c" by simp
    then show ?thesis using True by (simp only: t mod_add_self2) simp
  qed (simp add: t)
  have "fifo_list q = Data q ! Tail q # fifo_list q'"
  proof (rule nth_equalityI)
    fix i
    assume "i < length (fifo_list q)"
    then show "fifo_list q ! i = (Data q ! Tail q # fifo_list q') ! i"
      using ok idx by (cases i) (simp_all add: fifo_list_def size cap del: upt_Suc, simp add: q'_def)
  qed (simp add: size)
  moreover have "Pop q = Inr (Data q ! Tail q, q')"
    using ok ne by (simp add: Pop_def q'_def t_def)
  ultimately show ?thesis using ok' cap by (auto simp: fifo_room_def)
qed

lemma fifo_empty_iff: "fifo_ok q \<Longrightarrow> fifo_list q = [] \<longleftrightarrow> Tail q = Head q"
  using fifo_size_cases [of q]
  by (auto simp: fifo_ok_def simp flip: length_0_conv split: if_splits)

interpretation ring: bounded_queue Push Pop IsEmpty fifo_list fifo_room fifo_ok
proof
  fix q :: "'a fifo" and x :: 'a
  assume ok: "fifo_ok q"
  show "length (fifo_list q) \<le> fifo_room q" using ok by (simp add: fifo_size_le_room)
  show "IsEmpty q \<longleftrightarrow> fifo_list q = []" using ok by (simp add: IsEmpty_def fifo_empty_iff)
  show "\<exists>m. Pop q = Inl (Panic m)" if "fifo_list q = []"
    using that ok by (simp add: Pop_def fifo_empty_iff)
  show "\<exists>m. Push q x = Inl (Panic m)" if "fifo_room q \<le> length (fifo_list q)"
    using that ok by (simp add: Push_full_panics)
  show "\<exists>q'. Push q x = Inr q' \<and> fifo_ok q' \<and> fifo_list q' = fifo_list q @ [x] \<and>
      fifo_room q' = fifo_room q" if "length (fifo_list q) < fifo_room q"
    using that ok by (simp add: Push_room_ok)
  show "\<exists>q'. Pop q = Inr (hd (fifo_list q), q') \<and> fifo_ok q' \<and> fifo_list q' = tl (fifo_list q) \<and>
      fifo_room q' = fifo_room q" if "fifo_list q \<noteq> []"
    using that ok by (rule Pop_nonempty_ok [rotated])
qed

end
