(* ===== verification/Bit_Search.thy ===== *)
theory Bit_Search
  imports Prelude
begin

text \<open>
  The two searches for a run of clear bits in a 64-bit word, \<^verbatim>\<open>FindConsecutiveZeros\<close> and
  \<^verbatim>\<open>FindConsecutiveZerosAligned\<close> of \<^verbatim>\<open>src/Containers.h\<close>. Both skip over whole runs of ones and
  zeros instead of testing every position; the lemmas show that they still find the lowest
  position, with the word extended by zeros as the comments in the source promise.
\<close>

definition find_mask :: "nat \<Rightarrow> u64 res" where
  "find_mask N = shr64 (-1) (64 - N)"

function find_zeros_loop :: "u64 \<Rightarrow> u64 \<Rightarrow> nat \<Rightarrow> nat res" where
  "find_zeros_loop data msk pos =
     rbind (shr64 data pos) (\<lambda>datamask.
       if datamask AND msk = 0 then Inr pos
       else (let pos1 = pos + countr_zero datamask in
         rbind (shr64 data pos1) (\<lambda>d.
           let pos2 = pos1 + countr_one d in
           if 64 \<le> pos2 then Inr 64 else find_zeros_loop data msk pos2)))"
  by pat_completeness auto

lemma skip_to_one:
  assumes "drop_bit pos data AND msk \<noteq> (0 :: u64)"
  shows "bit data (pos + countr_zero (drop_bit pos data))"
    and "pos + countr_zero (drop_bit pos data) < 64"
proof -
  from assms have "drop_bit pos data \<noteq> 0" by auto
  then have "countr_zero (drop_bit pos data) < 64" using countr_zero_less [of "drop_bit pos data"] by simp
  then show *: "bit data (pos + countr_zero (drop_bit pos data))"
    using countr_zero_at [of "drop_bit pos data"] by simp
  then show "pos + countr_zero (drop_bit pos data) < 64" by (rule bit_u64_less)
qed

lemma countr_one_pos: "bit w 0 \<Longrightarrow> 0 < countr_one w"
  using countr_one_at [of w] by (cases "countr_one w") auto

termination find_zeros_loop
proof (relation "measure (\<lambda>(data, msk, pos). 64 - pos)", goal_cases)
  case 1
  show ?case by simp
next
  case (2 data msk pos dm pos1 d pos2)
  have "dm = drop_bit pos data" "d = drop_bit pos1 data"
    using 2 by (auto simp: rbind_def shr64_def split: if_splits sum.splits)
  with 2 have "bit d 0" using skip_to_one(1) [of pos data msk] by simp
  with 2 countr_one_pos [of d] show ?case by simp
qed

declare find_zeros_loop.simps [simp del]

definition FindConsecutiveZeros :: "u64 \<Rightarrow> nat \<Rightarrow> nat res" where
  "FindConsecutiveZeros data N =
     (if N = 0 then Inr 0
      else rbind (find_mask (min N 64)) (\<lambda>msk. find_zeros_loop data msk (countr_one data)))"

definition align_up32 :: "nat \<Rightarrow> nat \<Rightarrow> nat" where
  "align_up32 pos alignment = wrap32 (pos + alignment - 1) AND not32 (alignment - 1)"

fun find_aligned_loop :: "nat \<Rightarrow> u64 \<Rightarrow> u64 \<Rightarrow> nat \<Rightarrow> nat \<Rightarrow> nat res" where
  "find_aligned_loop 0 data msk alignment pos = Inl Diverges"
| "find_aligned_loop (Suc fuel) data msk alignment pos =
     rbind (shr64 data pos) (\<lambda>d.
       let pos1 = pos + countr_one d;
           pos2 = align_up32 pos1 alignment in
       if 64 \<le> pos2 then Inr 64
       else rbind (shr64 data pos2) (\<lambda>datamask.
         if datamask AND msk = 0 then Inr pos2
         else find_aligned_loop fuel data msk alignment (pos2 + countr_zero datamask)))"

definition FindConsecutiveZerosAligned :: "u64 \<Rightarrow> nat \<Rightarrow> nat \<Rightarrow> nat res" where
  "FindConsecutiveZerosAligned data N alignment =
     (if N = 0 then Inr 0
      else if alignment \<le> 1 then FindConsecutiveZeros data N
      else if alignment AND (alignment - 1) \<noteq> 0 then Inl (Panic ''Alignment must be a power of two'')
      else rbind (find_mask (min N 64)) (\<lambda>msk. find_aligned_loop 65 data msk alignment 0))"

section \<open>The specification\<close>

definition zeros_at :: "u64 \<Rightarrow> nat \<Rightarrow> nat \<Rightarrow> bool" where
  "zeros_at data pos N \<longleftrightarrow> (\<forall>i<N. \<not> bit data (pos + i))"

definition first_zeros :: "u64 \<Rightarrow> nat \<Rightarrow> nat \<Rightarrow> nat \<Rightarrow> bool" where
  "first_zeros data N a p \<longleftrightarrow>
     p \<le> 64 \<and> zeros_at data p N \<and> (p < 64 \<longrightarrow> a dvd p) \<and> (\<forall>q<p. a dvd q \<longrightarrow> \<not> zeros_at data q N)"

lemma zeros_at_64: "zeros_at data 64 N"
  by (simp add: zeros_at_def bit_u64_not_less)

lemma zeros_at_min: "zeros_at data p (min N 64) \<longleftrightarrow> zeros_at data p N"
proof -
  have "i < 64" if "bit data (p + i)" for i using bit_u64_less [OF that] by simp
  then show ?thesis by (auto simp: zeros_at_def)
qed

lemma not_zeros_at: "\<lbrakk>bit data j; q \<le> j; j < q + N\<rbrakk> \<Longrightarrow> \<not> zeros_at data q N"
  by (metis add_diff_inverse_nat add_less_cancel_left linorder_not_less zeros_at_def)

lemma find_mask_bits: "\<lbrakk>0 < N; N \<le> 64\<rbrakk> \<Longrightarrow> \<exists>m. find_mask N = Inr m \<and> (\<forall>i. bit m i \<longleftrightarrow> i < N)"
  by (auto simp: find_mask_def)

lemma drop_and_mask_eq_0:
  assumes "\<And>i. bit (m :: u64) i \<longleftrightarrow> i < N"
  shows "drop_bit p data AND m = 0 \<longleftrightarrow> zeros_at data p N"
  using bit_u64_less [of m] by (auto simp: and_eq_0_iff_u64 assms zeros_at_def)

lemma skip_zeros_le:
  assumes "\<And>i. bit (m :: u64) i \<longleftrightarrow> i < N" and "drop_bit p data AND m \<noteq> 0"
  shows "countr_zero (drop_bit p data) < N"
proof -
  from assms obtain i where "i < N" "bit data (p + i)"
    by (auto simp: drop_and_mask_eq_0 [of m N] zeros_at_def)
  then show ?thesis
    using countr_zero_below [of i "drop_bit p data"] by (cases "i < countr_zero (drop_bit p data)") auto
qed

lemma skipped_zeros:
  assumes "\<And>i. bit (m :: u64) i \<longleftrightarrow> i < N" and "drop_bit p data AND m \<noteq> 0"
    and "p \<le> q" and "q \<le> p + countr_zero (drop_bit p data)"
  shows "\<not> zeros_at data q N"
  using skip_to_one(1) [OF assms(2)] skip_zeros_le [OF assms(1,2)] assms(3,4)
  by (intro not_zeros_at [of data "p + countr_zero (drop_bit p data)"]) auto

lemma skipped_ones:
  assumes "0 < N" and "p \<le> q" and "q < p + countr_one (drop_bit p data)"
  shows "\<not> zeros_at data q N"
  using countr_one_below [of "q - p" "drop_bit p data"] assms
  by (intro not_zeros_at [of data q]) auto

lemma skip_ones_le: "p \<le> 64 \<Longrightarrow> p + countr_one (drop_bit p (data :: u64)) \<le> 64"
  using countr_one_below [of "64 - p" "drop_bit p data"] bit_u64_not_less [of 64 data]
  by (cases "64 - p < countr_one (drop_bit p data)") auto

section \<open>The plain search\<close>

lemma find_zeros_loop_correct:
  assumes N: "0 < N"
  shows "\<lbrakk>pos < 64; \<And>q. q < pos \<Longrightarrow> \<not> zeros_at data q N; \<And>i. bit msk i \<longleftrightarrow> i < N\<rbrakk> \<Longrightarrow>
    \<exists>p. find_zeros_loop data msk pos = Inr p \<and> first_zeros data N 1 p"
proof (induction data msk pos rule: find_zeros_loop.induct)
  case (1 data m pos)
  note IH = "1.IH" and pos = "1.prems"(1) and below = "1.prems"(2) and msk = "1.prems"(3)
  show ?case
  proof (cases "drop_bit pos data AND m = 0")
    case True
    then show ?thesis using pos below drop_and_mask_eq_0 [OF msk]
      by (subst find_zeros_loop.simps) (auto simp: first_zeros_def)
  next
    case False
    define p1 where "p1 = pos + countr_zero (drop_bit pos data)"
    define p2 where "p2 = p1 + countr_one (drop_bit p1 data)"
    have p1: "p1 < 64" unfolding p1_def by (rule skip_to_one(2) [OF False])
    have step: "find_zeros_loop data m pos = (if 64 \<le> p2 then Inr 64 else find_zeros_loop data m p2)"
      using pos p1 False by (subst find_zeros_loop.simps) (simp add: Let_def flip: p1_def p2_def)
    have below2: "\<not> zeros_at data q N" if "q < p2" for q
      using that below [of q] skipped_zeros [OF msk False, of q] skipped_ones [OF N, of p1 q data]
      unfolding p1_def p2_def by linarith
    show ?thesis
    proof (cases "64 \<le> p2")
      case True
      then have "first_zeros data N 1 64" using below2 by (simp add: first_zeros_def zeros_at_64)
      with True show ?thesis unfolding step by simp
    next
      case False': False
      have "\<exists>p. find_zeros_loop data m p2 = Inr p \<and> first_zeros data N 1 p"
        using pos p1 False False' below2 msk
        by (intro IH [of "drop_bit pos data" p1 "drop_bit p1 data" p2]) (auto simp: p1_def p2_def)
      with False' show ?thesis unfolding step by simp
    qed
  qed
qed

lemma FindConsecutiveZeros_correct:
  assumes "0 < N" and "data \<noteq> -1"
  shows "\<exists>p. FindConsecutiveZeros data N = Inr p \<and> first_zeros data N 1 p"
proof -
  obtain m where m: "find_mask (min N 64) = Inr m" "\<And>i. bit m i \<longleftrightarrow> i < min N 64"
    using find_mask_bits [of "min N 64"] assms(1) by auto
  have "countr_one data \<noteq> 64"
    using assms(2) countr_one_below [of _ data] by (auto simp: u64_eq_max_iff)
  then have pos: "countr_one data < 64" using countr_one_le [of data] by simp
  have below: "\<not> zeros_at data q (min N 64)" if "q < countr_one data" for q
    using that assms(1) skipped_ones [of "min N 64" 0 q data] by simp
  have "\<exists>p. find_zeros_loop data m (countr_one data) = Inr p \<and> first_zeros data (min N 64) 1 p"
    using pos below assms(1) m(2) by (intro find_zeros_loop_correct) auto
  then show ?thesis using assms(1) m(1)
    by (simp add: FindConsecutiveZeros_def first_zeros_def zeros_at_min)
qed

lemma FindConsecutiveZeros_full: "0 < N \<Longrightarrow> FindConsecutiveZeros (-1) N = Inl (Undefined ''shift'')"
proof -
  assume "0 < N"
  then obtain m where m: "find_mask (min N 64) = Inr m" using find_mask_bits [of "min N 64"] by auto
  have "countr_one (-1 :: u64) = 64" by (rule countr_one_eqI) auto
  with m \<open>0 < N\<close> show ?thesis
    by (simp add: FindConsecutiveZeros_def find_zeros_loop.simps [of "-1"] shr64_def)
qed

section \<open>The aligned search\<close>

lemma round_up_pow2:
  assumes "is_pow2 a" and "a \<le> 2147483648" and "p \<le> 64"
  shows "align_up32 p a = (p + a - 1) - (p + a - 1) mod a"
  using assms by (simp add: align_up32_def and_not32_pow2 del: One_nat_def)

lemma round_up_props:
  fixes p a :: nat
  assumes "0 < a" and "u = (p + a - 1) - (p + a - 1) mod a"
  shows "p \<le> u" and "a dvd u" and "\<And>q. \<lbrakk>p \<le> q; a dvd q\<rbrakk> \<Longrightarrow> u \<le> q"
proof -
  have u: "u = a * ((p + a - 1) div a)" using assms(2) by (simp add: minus_mod_eq_mult_div)
  show "a dvd u" by (simp add: u)
  have "(p + a - 1) mod a < a" using assms(1) by simp
  then show "p \<le> u" using assms by linarith
  show "u \<le> q" if "p \<le> q" "a dvd q" for q
  proof -
    from that(2) obtain k where k: "q = a * k" by (auto elim: dvdE)
    with that(1) assms(1) have "p + a - 1 < a * (k + 1)" by (simp add: algebra_simps)
    then have "(p + a - 1) div a < k + 1" using assms(1) by (simp add: less_mult_imp_div_less mult.commute)
    then show ?thesis by (simp add: u k)
  qed
qed

lemma find_aligned_loop_correct:
  assumes msk: "\<And>i. bit msk i \<longleftrightarrow> i < N" and N: "0 < N"
    and a: "is_pow2 a" "a \<le> 2147483648"
  shows "\<lbrakk>pos < 64; 64 - pos < fuel; \<And>q. \<lbrakk>q < pos; a dvd q\<rbrakk> \<Longrightarrow> \<not> zeros_at data q N\<rbrakk> \<Longrightarrow>
    \<exists>p. find_aligned_loop fuel data msk a pos = Inr p \<and> first_zeros data N a p"
proof (induction fuel arbitrary: pos)
  case 0
  then show ?case by simp
next
  case (Suc fuel)
  define p1 where "p1 = pos + countr_one (drop_bit pos data)"
  define p2 where "p2 = align_up32 p1 a"
  define p3 where "p3 = p2 + countr_zero (drop_bit p2 data)"
  have "p1 \<le> 64" unfolding p1_def using Suc.prems(1) by (intro skip_ones_le) simp
  then have "p2 = (p1 + a - 1) - (p1 + a - 1) mod a" unfolding p2_def by (intro round_up_pow2 a)
  note up = round_up_props [OF is_pow2_pos [OF a(1)] this]
  have below2: "\<not> zeros_at data q N" if "q < p2" "a dvd q" for q
    using that Suc.prems(3) [of q] up(3) [of q] skipped_ones [OF N, of pos q data]
    unfolding p1_def by (meson linorder_not_le)
  have step: "find_aligned_loop (Suc fuel) data msk a pos =
      (if 64 \<le> p2 then Inr 64 else if drop_bit p2 data AND msk = 0 then Inr p2
       else find_aligned_loop fuel data msk a p3)"
    using Suc.prems(1) by (simp add: Let_def flip: p1_def p2_def p3_def)
  consider "64 \<le> p2" | "p2 < 64" "drop_bit p2 data AND msk = 0"
    | "p2 < 64" "drop_bit p2 data AND msk \<noteq> 0" by linarith
  then show ?case
  proof cases
    case 1
    then have "first_zeros data N a 64" using below2 by (simp add: first_zeros_def zeros_at_64)
    with 1 show ?thesis unfolding step by simp
  next
    case 2
    then have "first_zeros data N a p2"
      using below2 up(2) drop_and_mask_eq_0 [OF msk] by (auto simp: first_zeros_def)
    with 2 show ?thesis unfolding step by simp
  next
    case 3
    have p3: "p3 < 64" unfolding p3_def by (rule skip_to_one(2) [OF 3(2)])
    have "pos < p3"
    proof (cases "pos = p2")
      case True
      then have "countr_one (drop_bit pos data) = 0" using up(1) unfolding p1_def by simp
      then have "\<not> bit data pos" using countr_one_at [of "drop_bit pos data"] by simp
      moreover have "bit data p3" unfolding p3_def by (rule skip_to_one(1) [OF 3(2)])
      moreover have "pos \<le> p3" using True p3_def by simp
      ultimately show ?thesis by (metis order_le_less)
    next
      case False
      then show ?thesis using up(1) unfolding p1_def p3_def by simp
    qed
    moreover have "\<not> zeros_at data q N" if "q < p3" "a dvd q" for q
      using that below2 [of q] skipped_zeros [OF msk 3(2), of q] unfolding p3_def
      by (meson linorder_not_le less_imp_le)
    ultimately show ?thesis using 3 p3 Suc.prems(1,2) Suc.IH [of p3] unfolding step by simp
  qed
qed

lemma FindConsecutiveZerosAligned_correct:
  assumes "0 < N" and "data \<noteq> -1" and "is_pow2 a" and "a \<le> 2147483648"
  shows "\<exists>p. FindConsecutiveZerosAligned data N a = Inr p \<and> first_zeros data N a p"
proof (cases "a \<le> 1")
  case True
  then have "a = 1" using is_pow2_pos [OF assms(3)] by simp
  then show ?thesis using FindConsecutiveZeros_correct [OF assms(1,2)] assms(1)
    by (simp add: FindConsecutiveZerosAligned_def)
next
  case False
  obtain m where m: "find_mask (min N 64) = Inr m" "\<And>i. bit m i \<longleftrightarrow> i < min N 64"
    using find_mask_bits [of "min N 64"] assms(1) by auto
  have "\<exists>p. find_aligned_loop 65 data m a 0 = Inr p \<and> first_zeros data (min N 64) a p"
    using assms by (intro find_aligned_loop_correct m(2)) auto
  then show ?thesis using False assms m(1) pow2_and_pred [OF assms(3)]
    by (simp add: FindConsecutiveZerosAligned_def first_zeros_def zeros_at_min)
qed

lemma FindConsecutiveZerosAligned_not_pow2:
  assumes "0 < N" and "1 < a" and "\<not> is_pow2 a"
  shows "FindConsecutiveZerosAligned data N a = Inl (Panic ''Alignment must be a power of two'')"
  using assms by (simp add: FindConsecutiveZerosAligned_def is_pow2_iff)

end
