(* ===== verification/Pool_Allocator.thy ===== *)
theory Pool_Allocator
  imports Bit_Search
begin

text \<open>
  \<^verbatim>\<open>Containers::PoolAllocator\<close> of \<^verbatim>\<open>src/Containers.h\<close>: a pool of units in 64-bit words, each with
  the bitmap of its allocated units and the bitmap of the units that start a block. The pool is
  shared between the cores and changed by compare-and-exchange only, so every atomic access of the
  model is preceded by what the other cores did meanwhile: an \<open>interference\<close> maps the number of the
  access and the words to the words this core then sees. The operation on one core alone is the
  interference \<open>quiet\<close>. Loops that wait for a successful exchange get fuel.
\<close>

section \<open>Words, atomic accesses and interference\<close>

record pool_word =
  bitmap :: u64
  starts :: u64

type_synonym pool = "pool_word list"
type_synonym interference = "nat \<Rightarrow> pool \<Rightarrow> pool"
type_synonym pstate = "nat \<times> pool"

definition quiet :: interference where
  "quiet n ws = ws"

definition empty_word :: pool_word where
  "empty_word = \<lparr>bitmap = 0, starts = 0\<rparr>"

definition full_word :: pool_word where
  "full_word = \<lparr>bitmap = -1, starts = 0\<rparr>"

definition atomic_load :: "interference \<Rightarrow> nat \<Rightarrow> pstate \<Rightarrow> (pool_word \<times> pstate) res" where
  "atomic_load env i st =
     (let ws = env (fst st) (snd st) in
      if i < length ws then Inr (ws ! i, (Suc (fst st), ws)) else Inl (Undefined ''Words[wordIndex]''))"

definition atomic_store :: "interference \<Rightarrow> nat \<Rightarrow> pool_word \<Rightarrow> pstate \<Rightarrow> pstate res" where
  "atomic_store env i v st =
     (let ws = env (fst st) (snd st) in
      if i < length ws then Inr (Suc (fst st), ws[i := v]) else Inl (Undefined ''Words[wordIndex]''))"

definition compare_exchange ::
    "interference \<Rightarrow> nat \<Rightarrow> pool_word \<Rightarrow> pool_word \<Rightarrow> pstate \<Rightarrow> (bool \<times> pool_word \<times> pstate) res" where
  "compare_exchange env i expected desired st =
     (let ws = env (fst st) (snd st) in
      if i < length ws then
        (if ws ! i = expected then Inr (True, expected, (Suc (fst st), ws[i := desired]))
         else Inr (False, ws ! i, (Suc (fst st), ws)))
      else Inl (Undefined ''Words[wordIndex]''))"

definition sub32 :: "nat \<Rightarrow> nat \<Rightarrow> nat" where
  "sub32 a b = wrap32 (a + 4294967296 - b)"

section \<open>The pool\<close>

definition WordCount :: "nat \<Rightarrow> nat" where
  "WordCount PoolSize = wrap32 (PoolSize + 63) div 64"

definition PoolAllocator :: "nat \<Rightarrow> pool" where
  "PoolAllocator PoolSize =
     (let ws = replicate (WordCount PoolSize) empty_word in
      if PoolSize mod 64 \<noteq> 0 then
        ws[PoolSize div 64 := \<lparr>bitmap = push_bit (PoolSize mod 64) (-1), starts = push_bit (PoolSize mod 64) 1\<rparr>]
      else ws)"

section \<open>Allocation\<close>

fun skip_free_words ::
    "interference \<Rightarrow> nat \<Rightarrow> nat \<Rightarrow> nat \<Rightarrow> pstate \<Rightarrow> (bool \<times> nat \<times> nat \<times> pstate) res" where
  "skip_free_words env wc countRemaining nextWordIndex st =
     (if 64 \<le> countRemaining then
        (if wc \<le> nextWordIndex then Inr (True, countRemaining, nextWordIndex, st)
         else rbind (atomic_load env nextWordIndex st) (\<lambda>(nextWord, st1).
           if bitmap nextWord \<noteq> 0 then Inr (False, countRemaining, nextWordIndex, st1)
           else skip_free_words env wc (countRemaining - 64) (nextWordIndex + 1) st1))
      else Inr (False, countRemaining, nextWordIndex, st))"

declare skip_free_words.simps [simp del]

definition commit_single ::
    "interference \<Rightarrow> nat \<Rightarrow> nat \<Rightarrow> nat \<Rightarrow> pool_word \<Rightarrow> nat \<Rightarrow> pstate \<Rightarrow> ((nat \<times> bool) \<times> pstate) res" where
  "commit_single env wordIndex bitIndex count currentWord result st =
     rbind (shr64 (-1) (sub32 64 count)) (\<lambda>m. rbind (shl64 m bitIndex) (\<lambda>bits.
     rbind (shl64 1 bitIndex) (\<lambda>one.
     rbind (compare_exchange env wordIndex currentWord
        \<lparr>bitmap = bitmap currentWord OR bits, starts = starts currentWord OR one\<rparr> st)
       (\<lambda>(ok, _, st1). Inr ((result, ok), st1)))))"

function commit_full_words ::
    "interference \<Rightarrow> nat \<Rightarrow> nat \<Rightarrow> pstate \<Rightarrow> (bool \<times> nat \<times> pstate) res" where
  "commit_full_words env nextWordIndex wordIndex st =
     (if wordIndex < nextWordIndex then
        rbind (compare_exchange env wordIndex empty_word full_word st) (\<lambda>(ok, _, st1).
          if ok then commit_full_words env nextWordIndex (wordIndex + 1) st1
          else Inr (True, wordIndex, st1))
      else Inr (False, wordIndex, st))"
  by pat_completeness auto
termination
  by (relation "measure (\<lambda>(env, n, w, st). n - w)") auto

declare commit_full_words.simps [simp del]

definition commit_last_word ::
    "interference \<Rightarrow> nat \<Rightarrow> nat \<Rightarrow> pstate \<Rightarrow> (bool \<times> pstate) res" where
  "commit_last_word env wordIndex countRemaining st =
     rbind (atomic_load env wordIndex st) (\<lambda>(w, st1).
     rbind (shr64 (-1) (64 - countRemaining)) (\<lambda>msk.
       let finalWord = \<lparr>bitmap = bitmap w AND NOT msk, starts = starts w AND NOT msk\<rparr>;
           newWord = \<lparr>bitmap = bitmap finalWord OR msk, starts = starts finalWord\<rparr> in
       rbind (compare_exchange env wordIndex finalWord newWord st1) (\<lambda>(ok, _, st2). Inr (ok, st2))))"

fun clear_words_down :: "interference \<Rightarrow> nat \<Rightarrow> nat \<Rightarrow> pstate \<Rightarrow> pstate res" where
  "clear_words_down env startWordIndex wordIndex st =
     (if wordIndex = startWordIndex then Inr st
      else rbind (atomic_store env wordIndex empty_word st) (\<lambda>st1.
        case wordIndex of 0 \<Rightarrow> Inl (Undefined ''Words[UINT32_MAX]'')
        | Suc w \<Rightarrow> clear_words_down env startWordIndex w st1))"

declare clear_words_down.simps [simp del]

fun undo_first_word ::
    "nat \<Rightarrow> interference \<Rightarrow> nat \<Rightarrow> nat \<Rightarrow> pool_word \<Rightarrow> pstate \<Rightarrow> pstate res" where
  "undo_first_word 0 env wordIndex bitIndex currentWord st = Inl Diverges"
| "undo_first_word (Suc fuel) env wordIndex bitIndex currentWord st =
     rbind (shl64 0x7FFFFFFFFFFFFFFF bitIndex) (\<lambda>bits. rbind (shl64 1 bitIndex) (\<lambda>one.
     rbind (compare_exchange env wordIndex currentWord
        \<lparr>bitmap = bitmap currentWord AND NOT bits, starts = starts currentWord AND NOT one\<rparr> st)
       (\<lambda>(ok, seen, st1).
          if ok then Inr st1 else undo_first_word fuel env wordIndex bitIndex seen st1)))"

definition commit_multi ::
    "nat \<Rightarrow> interference \<Rightarrow> nat \<Rightarrow> nat \<Rightarrow> nat \<Rightarrow> nat \<Rightarrow> pool_word \<Rightarrow> nat \<Rightarrow> pstate \<Rightarrow>
     ((nat \<times> bool) \<times> pstate) res" where
  "commit_multi fuel env startWordIndex bitIndex countRemaining nextWordIndex currentWord result st =
     rbind (shl64 (-1) bitIndex) (\<lambda>bits. rbind (shl64 1 bitIndex) (\<lambda>one.
     let newWord = \<lparr>bitmap = bitmap currentWord OR bits, starts = starts currentWord OR one\<rparr> in
     rbind (compare_exchange env startWordIndex currentWord newWord st) (\<lambda>(ok, _, st1).
     if \<not> ok then Inr ((result, False), st1)
     else rbind (commit_full_words env nextWordIndex (startWordIndex + 1) st1)
       (\<lambda>(cleanupNeeded, wordIndex, st2).
     if \<not> cleanupNeeded \<and> countRemaining = 0 then Inr ((result, True), st2)
     else rbind (if \<not> cleanupNeeded then commit_last_word env wordIndex countRemaining st2
                 else Inr (False, st2)) (\<lambda>(done, st3).
     if done then Inr ((result, True), st3)
     else rbind (clear_words_down env startWordIndex (wordIndex - 1) st3) (\<lambda>st4.
          rbind (undo_first_word fuel env startWordIndex bitIndex newWord st4) (\<lambda>st5.
            Inr ((result, False), st5))))))))"

definition word_alignment :: "nat \<Rightarrow> nat" where
  "word_alignment alignment = wrap32 (alignment + 63) div 64"

definition next_word_index :: "nat \<Rightarrow> nat \<Rightarrow> nat" where
  "next_word_index alignment wordIndex =
     wrap32 (wordIndex + word_alignment alignment) AND
     wrap32 (4294967295 * word_alignment alignment)"

text \<open>
  One iteration of the search loop either continues with the word after \<open>Continue k\<close> (the loop's
  increment is applied to \<open>k\<close>, which is how the source skips words) or returns.
\<close>

datatype loop_step = Continue nat | Return "nat \<times> bool"

definition alloc_across_words ::
    "nat \<Rightarrow> interference \<Rightarrow> nat \<Rightarrow> nat \<Rightarrow> nat \<Rightarrow> nat \<Rightarrow> pool_word \<Rightarrow> nat \<Rightarrow> pstate \<Rightarrow>
     (loop_step \<times> pstate) res" where
  "alloc_across_words fuel env wc count wordIndex bitIndex currentWord result st =
     rbind (skip_free_words env wc (sub32 count (64 - bitIndex)) (wordIndex + 1) st)
       (\<lambda>(exhausted, countRemaining, nextWordIndex, st1).
     let commit = (\<lambda>st2. rbind (commit_multi fuel env wordIndex bitIndex countRemaining nextWordIndex
           currentWord result st2) (\<lambda>(r, st3). Inr (Return r, st3))) in
     if exhausted then Inr (Return (UINT32_MAX, True), st1)
     else if 64 \<le> countRemaining then Inr (Continue (nextWordIndex - 1), st1)
     else if 0 < countRemaining
     then (if wc \<le> nextWordIndex then Inr (Return (UINT32_MAX, True), st1)
           else rbind (atomic_load env nextWordIndex st1) (\<lambda>(nextWordData, st2).
                rbind (shl64 (bitmap nextWordData) (64 - countRemaining)) (\<lambda>b.
                  if b \<noteq> 0 then Inr (Continue (nextWordIndex - 1), st2) else commit st2)))
     else commit st1)"

definition alloc_at_word ::
    "nat \<Rightarrow> interference \<Rightarrow> nat \<Rightarrow> nat \<Rightarrow> nat \<Rightarrow> nat \<Rightarrow> pstate \<Rightarrow> (loop_step \<times> pstate) res" where
  "alloc_at_word fuel env wc count alignment wordIndex st =
     rbind (atomic_load env wordIndex st) (\<lambda>(currentWord, st1).
     if bitmap currentWord = -1 then Inr (Continue wordIndex, st1)
     else rbind (FindConsecutiveZerosAligned (bitmap currentWord) count alignment) (\<lambda>bitIndex.
     if bitIndex = 64 then Inr (Continue wordIndex, st1)
     else let result = wrap32 (bitIndex + wordIndex * 64) in
     if wrap32 (bitIndex + count) \<le> 64
     then rbind (commit_single env wordIndex bitIndex count currentWord result st1)
            (\<lambda>(r, st2). Inr (Return r, st2))
     else alloc_across_words fuel env wc count wordIndex bitIndex currentWord result st1))"

fun alloc_loop ::
    "nat \<Rightarrow> interference \<Rightarrow> nat \<Rightarrow> nat \<Rightarrow> nat \<Rightarrow> nat \<Rightarrow> pstate \<Rightarrow> ((nat \<times> bool) \<times> pstate) res" where
  "alloc_loop 0 env wc count alignment wordIndex st = Inl Diverges"
| "alloc_loop (Suc fuel) env wc count alignment wordIndex st =
     (if wordIndex < wc then
        rbind (alloc_at_word fuel env wc count alignment wordIndex st) (\<lambda>(step, st1).
          case step of
            Continue k \<Rightarrow> alloc_loop fuel env wc count alignment (next_word_index alignment k) st1
          | Return r \<Rightarrow> Inr (r, st1))
      else Inr ((UINT32_MAX, True), st))"

definition AllocateInternal ::
    "nat \<Rightarrow> interference \<Rightarrow> nat \<Rightarrow> nat \<Rightarrow> nat \<Rightarrow> nat \<Rightarrow> pstate \<Rightarrow> ((nat \<times> bool) \<times> pstate) res" where
  "AllocateInternal fuel env PoolSize hint count alignment st =
     (if count = 0 then Inl (Panic ''%s invalid allocation size'')
      else if alignment = 0 then Inl (Panic ''%s invalid alignment'')
      else if 1 < alignment \<and> alignment AND (alignment - 1) \<noteq> 0
        then Inl (Panic ''%s alignment must be a power of two'')
      else if hint AND (alignment - 1) \<noteq> 0
        then Inl (Panic ''%s hint must be aligned to the alignment'')
      else alloc_loop fuel env (WordCount PoolSize) count alignment (hint div 64) st)"

fun allocate_retry ::
    "nat \<Rightarrow> nat \<Rightarrow> interference \<Rightarrow> nat \<Rightarrow> nat \<Rightarrow> nat \<Rightarrow> nat \<Rightarrow> pstate \<Rightarrow> (nat \<times> pstate) res" where
  "allocate_retry 0 fuel env PoolSize hint count alignment st = Inl Diverges"
| "allocate_retry (Suc tries) fuel env PoolSize hint count alignment st =
     rbind (AllocateInternal fuel env PoolSize hint count alignment st) (\<lambda>((result, done), st1).
       if done then Inr (result, st1)
       else allocate_retry tries fuel env PoolSize result count alignment st1)"

definition Allocate ::
    "nat \<Rightarrow> interference \<Rightarrow> nat \<Rightarrow> nat \<Rightarrow> nat \<Rightarrow> pstate \<Rightarrow> (nat \<times> pstate) res" where
  "Allocate fuel env PoolSize count alignment st =
     allocate_retry fuel fuel env PoolSize 0 count alignment st"

section \<open>Block sizes and deallocation\<close>

function block_size_loop ::
    "interference \<Rightarrow> nat \<Rightarrow> nat \<Rightarrow> nat \<Rightarrow> nat \<Rightarrow> pstate \<Rightarrow> (nat \<times> pstate) res" where
  "block_size_loop env wc wordIndex position count st =
     (if position = 64 \<and> wordIndex + 1 < wc then
        rbind (atomic_load env (wordIndex + 1) st) (\<lambda>(nextWord, st1).
          let position' = countr_one (bitmap nextWord XOR starts nextWord) in
          block_size_loop env wc (wordIndex + 1) position' (wrap32 (count + position')) st1)
      else Inr (count, st))"
  by pat_completeness auto
termination
  by (relation "measure (\<lambda>(env, wc, w, p, c, st). wc - w)") auto

declare block_size_loop.simps [simp del]

definition GetBlockSize :: "interference \<Rightarrow> nat \<Rightarrow> nat \<Rightarrow> pstate \<Rightarrow> (nat \<times> pstate) res" where
  "GetBlockSize env PoolSize blockStart st =
     (if PoolSize \<le> blockStart then Inl (Panic ''%s invalid block start'')
      else let wordIndex = blockStart div 64; bitIndex = blockStart mod 64 in
      rbind (atomic_load env wordIndex st) (\<lambda>(currentWord, st1).
      rbind (shl64 1 bitIndex) (\<lambda>one.
      if starts currentWord AND one = 0
      then Inl (Panic ''%s trying to get size of a block 0x%X that is not allocated'')
      else let count = 1 + (if bitIndex + 1 < 64
               then countr_one (drop_bit (bitIndex + 1) (bitmap currentWord XOR starts currentWord))
               else 0) in
      block_size_loop env (WordCount PoolSize) wordIndex (bitIndex + count) count st1)))"

fun clear_bits_loop ::
    "nat \<Rightarrow> interference \<Rightarrow> nat \<Rightarrow> u64 \<Rightarrow> u64 \<Rightarrow> pool_word \<Rightarrow> pstate \<Rightarrow> pstate res" where
  "clear_bits_loop 0 env wordIndex msk startBits currentWord st = Inl Diverges"
| "clear_bits_loop (Suc fuel) env wordIndex msk startBits currentWord st =
     (if bitmap currentWord AND NOT msk \<noteq> NOT msk \<or> starts currentWord AND NOT msk \<noteq> startBits
      then Inl (Panic ''%s trying to deallocate a block that is not allocated'')
      else rbind (compare_exchange env wordIndex currentWord
             \<lparr>bitmap = bitmap currentWord AND msk, starts = starts currentWord AND msk\<rparr> st)
           (\<lambda>(ok, seen, st1).
             if ok then Inr st1 else clear_bits_loop fuel env wordIndex msk startBits seen st1))"

definition clear_bits ::
    "nat \<Rightarrow> interference \<Rightarrow> nat \<Rightarrow> u64 \<Rightarrow> u64 \<Rightarrow> pstate \<Rightarrow> pstate res" where
  "clear_bits fuel env wordIndex msk startBits st =
     rbind (atomic_load env wordIndex st) (\<lambda>(currentWord, st1).
       clear_bits_loop fuel env wordIndex msk startBits currentWord st1)"

text \<open>The last word of a block that spans words: only its low bits are cleared, when it is not full.\<close>

definition clear_last ::
    "nat \<Rightarrow> interference \<Rightarrow> nat \<Rightarrow> nat \<Rightarrow> pstate \<Rightarrow> (nat \<times> pstate) res" where
  "clear_last fuel env e lastIndex st =
     (if e mod 64 \<noteq> 0
      then rbind (shl64 (-1) (e mod 64)) (\<lambda>msk.
           rbind (clear_bits fuel env lastIndex msk 0 st) (\<lambda>st2. Inr (lastIndex - 1, st2)))
      else Inr (lastIndex, st))"

definition Deallocate :: "nat \<Rightarrow> interference \<Rightarrow> nat \<Rightarrow> nat \<Rightarrow> pstate \<Rightarrow> pstate res" where
  "Deallocate fuel env PoolSize start st =
     (if PoolSize \<le> start then Inl (Panic ''%s invalid deallocation start'')
      else rbind (GetBlockSize env PoolSize start st) (\<lambda>(count, st1).
      let wordIndex = start div 64; bitIndex = start mod 64 in
      rbind (shl64 1 bitIndex) (\<lambda>one.
      if wrap32 (bitIndex + count) \<le> 64
      then rbind (shr64 (-1) (sub32 64 count)) (\<lambda>m. rbind (shl64 m bitIndex) (\<lambda>bits.
           clear_bits fuel env wordIndex (NOT bits) one st1))
      else let end = wrap32 (start + count); lastIndex = sub32 end 1 div 64 in
      if WordCount PoolSize \<le> lastIndex
      then Inl (Panic ''%s some math is wrong, we're trying to deallocate beyond the end of the pool'')
      else rbind (clear_last fuel env end lastIndex st1) (\<lambda>(downFrom, st2).
           rbind (clear_words_down env wordIndex downFrom st2) (\<lambda>st3.
           rbind (shl64 (-1) bitIndex) (\<lambda>bits.
           clear_bits fuel env wordIndex (NOT bits) one st3))))))"

end
