(* ===== verification/Pool_Correctness.thy ===== *)
theory Pool_Correctness
  imports Pool_Allocator
begin

text \<open>
  What the pool allocator does on one core: \<^verbatim>\<open>Allocate\<close> is a first-fit search at the requested
  alignment that fails only when no free run is long enough, \<^verbatim>\<open>GetBlockSize\<close> reads a block's
  length back out of the bitmaps, and \<^verbatim>\<open>Deallocate\<close> undoes \<^verbatim>\<open>Allocate\<close> exactly. The unit-level
  view of the words (\<open>ubit\<close>, \<open>sbit\<close>) carries the statements; the invariant \<open>pool_ok\<close> says that
  every allocated unit belongs to a block with a start.
\<close>

section \<open>Units, blocks and the invariant\<close>

definition ubit :: "pool \<Rightarrow> nat \<Rightarrow> bool" where
  "ubit ws i \<longleftrightarrow> bit (bitmap (ws ! (i div 64))) (i mod 64)"

definition sbit :: "pool \<Rightarrow> nat \<Rightarrow> bool" where
  "sbit ws i \<longleftrightarrow> bit (starts (ws ! (i div 64))) (i mod 64)"

definition units :: "pool \<Rightarrow> nat" where
  "units ws = 64 * length ws"

definition fits :: "pool \<Rightarrow> nat \<Rightarrow> nat \<Rightarrow> nat \<Rightarrow> bool" where
  "fits ws count a p \<longleftrightarrow> a dvd p \<and> p + count \<le> units ws \<and> (\<forall>i<count. \<not> ubit ws (p + i))"

definition marked :: "pool \<Rightarrow> nat \<Rightarrow> nat \<Rightarrow> pool \<Rightarrow> bool" where
  "marked ws r n ws' \<longleftrightarrow> length ws' = length ws \<and>
     (\<forall>i<units ws. (ubit ws' i \<longleftrightarrow> ubit ws i \<or> r \<le> i \<and> i < r + n) \<and>
       (sbit ws' i \<longleftrightarrow> sbit ws i \<or> i = r))"

definition starts_in_bitmap :: "pool \<Rightarrow> bool" where
  "starts_in_bitmap ws \<longleftrightarrow> (\<forall>i<units ws. sbit ws i \<longrightarrow> ubit ws i)"

lemma ubit_word: "b < 64 \<Longrightarrow> ubit ws (64 * k + b) \<longleftrightarrow> bit (bitmap (ws ! k)) b"
  by (simp add: ubit_def)

lemma sbit_word: "b < 64 \<Longrightarrow> sbit ws (64 * k + b) \<longleftrightarrow> bit (starts (ws ! k)) b"
  by (simp add: sbit_def)

lemma unit_split: obtains k b where "(i :: nat) = 64 * k + b" and "b < 64"
proof
  show "i = 64 * (i div 64) + i mod 64" by simp
  show "i mod 64 < 64" by simp
qed

lemma unit_eq_iff: "\<lbrakk>i < 64; b < 64\<rbrakk> \<Longrightarrow> 64 * k + i = 64 * w + b \<longleftrightarrow> k = w \<and> i = b" for i b k w :: nat
  by (cases k w rule: linorder_cases) simp_all

lemma unit_less_iff: "\<lbrakk>i < 64; b < 64\<rbrakk> \<Longrightarrow> 64 * k + i < 64 * w + b \<longleftrightarrow> k < w \<or> k = w \<and> i < b"
  for i b k w :: nat
  by (cases k w rule: linorder_cases) simp_all

lemma unit_le_iff: "\<lbrakk>i < 64; b < 64\<rbrakk> \<Longrightarrow> 64 * k + i \<le> 64 * w + b \<longleftrightarrow> k < w \<or> k = w \<and> i \<le> b"
  for i b k w :: nat
  by (cases k w rule: linorder_cases) simp_all

lemma unit_range_iff:
  fixes i b n k w :: nat
  assumes "i < 64" and "b + n \<le> 64"
  shows "64 * w + b \<le> 64 * k + i \<and> 64 * k + i < 64 * w + b + n \<longleftrightarrow> k = w \<and> b \<le> i \<and> i < b + n"
proof (cases k w rule: linorder_cases)
  case less
  then have "\<not> 64 * w + b \<le> 64 * k + i" using assms by linarith
  with less show ?thesis by simp
next
  case greater
  then have "\<not> 64 * k + i < 64 * w + b + n" using assms by linarith
  with greater show ?thesis by simp
qed simp

lemma pool_eqI:
  assumes "length ws = length vs"
    and "\<And>i. i < units ws \<Longrightarrow> ubit ws i = ubit vs i"
    and "\<And>i. i < units ws \<Longrightarrow> sbit ws i = sbit vs i"
  shows "ws = vs"
proof (rule nth_equalityI)
  fix k
  assume k: "k < length ws"
  have "bitmap (ws ! k) = bitmap (vs ! k)"
    using assms(2) k by (intro u64_eqI) (simp add: units_def flip: ubit_word)
  moreover have "starts (ws ! k) = starts (vs ! k)"
    using assms(3) k by (intro u64_eqI) (simp add: units_def flip: sbit_word)
  ultimately show "ws ! k = vs ! k" by simp
qed (rule assms(1))

lemma markedI:
  assumes "length ws' = length ws"
    and "\<And>k b. \<lbrakk>k < length ws; b < 64\<rbrakk> \<Longrightarrow>
      bit (bitmap (ws' ! k)) b \<longleftrightarrow> bit (bitmap (ws ! k)) b \<or> r \<le> 64 * k + b \<and> 64 * k + b < r + n"
    and "\<And>k b. \<lbrakk>k < length ws; b < 64\<rbrakk> \<Longrightarrow>
      bit (starts (ws' ! k)) b \<longleftrightarrow> bit (starts (ws ! k)) b \<or> 64 * k + b = r"
  shows "marked ws r n ws'"
proof -
  have "(ubit ws' i \<longleftrightarrow> ubit ws i \<or> r \<le> i \<and> i < r + n) \<and> (sbit ws' i \<longleftrightarrow> sbit ws i \<or> i = r)"
    if "i < units ws" for i
  proof -
    obtain k b where i: "i = 64 * k + b" "b < 64" by (rule unit_split)
    with that have "k < length ws" by (simp add: units_def)
    with assms(2,3) [of k b] i show ?thesis by (simp add: ubit_word sbit_word)
  qed
  with assms(1) show ?thesis by (simp add: marked_def)
qed

section \<open>Atomic accesses without interference\<close>

lemma atomic_load_quiet [simp]:
  "i < length ws \<Longrightarrow> atomic_load quiet i (t, ws) = Inr (ws ! i, Suc t, ws)"
  by (simp add: atomic_load_def quiet_def)

lemma atomic_store_quiet [simp]:
  "i < length ws \<Longrightarrow> atomic_store quiet i v (t, ws) = Inr (Suc t, ws[i := v])"
  by (simp add: atomic_store_def quiet_def)

lemma compare_exchange_quiet [simp]:
  "\<lbrakk>i < length ws; ws ! i = e\<rbrakk> \<Longrightarrow>
   compare_exchange quiet i e d (t, ws) = Inr (True, e, Suc t, ws[i := d])"
  by (simp add: compare_exchange_def quiet_def)

lemma sub32_le [simp]: "\<lbrakk>b \<le> a; a < 4294967296\<rbrakk> \<Longrightarrow> sub32 a b = a - b"
  by (simp add: sub32_def wrap32_def mod_if)

definition skipped :: "pool \<Rightarrow> nat \<Rightarrow> nat \<Rightarrow> bool \<Rightarrow> nat \<Rightarrow> nat \<Rightarrow> bool" where
  "skipped ws c n ex cr ni \<longleftrightarrow>
     n \<le> ni \<and> c = cr + 64 * (ni - n) \<and> (n < ni \<longrightarrow> ni \<le> length ws) \<and>
     (\<forall>k\<in>{n..<ni}. bitmap (ws ! k) = 0) \<and>
     (ex \<longrightarrow> 64 \<le> cr \<and> length ws \<le> ni) \<and>
     (\<not> ex \<and> 64 \<le> cr \<longrightarrow> ni < length ws \<and> bitmap (ws ! ni) \<noteq> 0)"

lemma skipped_step:
  assumes "skipped ws (c - 64) (n + 1) ex cr ni" and "64 \<le> c" and "n < length ws"
    and "bitmap (ws ! n) = 0"
  shows "skipped ws c n ex cr ni"
proof -
  have "c = cr + 64 * (ni - n)"
    using assms(1,2) unfolding skipped_def by (elim conjE) arith
  moreover have "bitmap (ws ! k) = 0" if "n \<le> k" "k < ni" for k
    using assms(1,4) that by (cases "k = n") (auto simp: skipped_def)
  ultimately show ?thesis using assms(1,3) by (auto simp: skipped_def)
qed

lemma skip_free_words_quiet:
  "\<exists>t' ex cr ni. skip_free_words quiet (length ws) c n (t, ws) = Inr (ex, cr, ni, t', ws) \<and>
     skipped ws c n ex cr ni"
proof (induction c arbitrary: n t rule: less_induct)
  case (less c)
  show ?case
  proof (cases "64 \<le> c \<and> n < length ws \<and> bitmap (ws ! n) = 0")
    case True
    then have "c - 64 < c" by simp
    from less.IH [OF this, of "n + 1" "Suc t"] obtain t' ex cr ni where
      IH: "skip_free_words quiet (length ws) (c - 64) (n + 1) (Suc t, ws) = Inr (ex, cr, ni, t', ws)"
        "skipped ws (c - 64) (n + 1) ex cr ni" by blast
    have "skip_free_words quiet (length ws) c n (t, ws) = Inr (ex, cr, ni, t', ws)"
      using True IH(1) by (subst skip_free_words.simps) simp
    with skipped_step [OF IH(2)] True show ?thesis by blast
  next
    case False
    consider "c < 64" | "64 \<le> c" "length ws \<le> n" | "64 \<le> c" "n < length ws" "bitmap (ws ! n) \<noteq> 0"
      using False by linarith
    then have "\<exists>t' ex. skip_free_words quiet (length ws) c n (t, ws) = Inr (ex, c, n, t', ws) \<and>
        skipped ws c n ex c n"
      by cases (auto simp: skip_free_words.simps [of _ _ c] skipped_def)
    then show ?thesis by blast
  qed
qed

lemma commit_full_words_quiet:
  "\<lbrakk>wi \<le> next; next \<le> length ws; \<And>k. \<lbrakk>wi \<le> k; k < next\<rbrakk> \<Longrightarrow> ws ! k = empty_word\<rbrakk> \<Longrightarrow>
   \<exists>t' ws'. commit_full_words quiet next wi (t, ws) = Inr (False, next, t', ws') \<and>
     length ws' = length ws \<and>
     (\<forall>k<length ws. ws' ! k = (if wi \<le> k \<and> k < next then full_word else ws ! k))"
proof (induction "next - wi" arbitrary: wi t ws)
  case 0
  then show ?case by (auto simp: commit_full_words.simps)
next
  case (Suc d)
  let ?ws = "ws[wi := full_word]"
  have "\<exists>t' ws'. commit_full_words quiet next (wi + 1) (Suc t, ?ws) = Inr (False, next, t', ws') \<and>
     length ws' = length ?ws \<and>
     (\<forall>k<length ?ws. ws' ! k = (if wi + 1 \<le> k \<and> k < next then full_word else ?ws ! k))"
    using Suc.hyps(2) Suc.prems by (intro Suc.hyps(1)) auto
  then obtain t' ws' where
    IH: "commit_full_words quiet next (wi + 1) (Suc t, ?ws) = Inr (False, next, t', ws')"
      "length ws' = length ws"
      "\<And>k. k < length ws \<Longrightarrow> ws' ! k = (if wi + 1 \<le> k \<and> k < next then full_word else ?ws ! k)"
    by auto
  have "wi < next" "wi < length ws" "ws ! wi = empty_word" using Suc.hyps(2) Suc.prems by auto
  then have "commit_full_words quiet next wi (t, ws) = Inr (False, next, t', ws')"
    using IH(1) by (subst commit_full_words.simps) simp
  moreover have "\<forall>k<length ws. ws' ! k = (if wi \<le> k \<and> k < next then full_word else ws ! k)"
    using IH(3) \<open>wi < next\<close> \<open>wi < length ws\<close> by (auto simp: nth_list_update)
  ultimately show ?case using IH(2) by blast
qed

section \<open>Committing an allocation\<close>

lemma mask_bits: "\<lbrakk>0 < n; n \<le> 64\<rbrakk> \<Longrightarrow> \<exists>m. shr64 (-1) (64 - n) = Inr m \<and> (\<forall>i. bit m i \<longleftrightarrow> i < n)"
  using find_mask_bits by (simp add: find_mask_def)

lemma commit_single_quiet:
  assumes "w < length ws" and "b < 64" and "0 < n" and "b + n \<le> 64"
  shows "\<exists>ws'. commit_single quiet w b n (ws ! w) r (t, ws) = Inr ((r, True), Suc t, ws') \<and>
    marked ws (64 * w + b) n ws'"
proof -
  from mask_bits [of n] assms obtain m
    where m: "shr64 (-1) (64 - n) = Inr m" "\<And>i. bit m i \<longleftrightarrow> i < n" by auto
  let ?v = "\<lparr>bitmap = bitmap (ws ! w) OR push_bit b m, starts = starts (ws ! w) OR push_bit b 1\<rparr>"
  have "marked ws (64 * w + b) n (ws[w := ?v])"
  proof (rule markedI)
    fix k i :: nat
    assume "k < length ws" and i: "i < 64"
    show "bit (bitmap (ws[w := ?v] ! k)) i \<longleftrightarrow>
        bit (bitmap (ws ! k)) i \<or> 64 * w + b \<le> 64 * k + i \<and> 64 * k + i < 64 * w + b + n"
    proof (cases "k = w")
      case True
      then show ?thesis using assms m(2) i by simp arith
    next
      case False
      then show ?thesis using unit_range_iff [OF i assms(4), of w k] by auto
    qed
    show "bit (starts (ws[w := ?v] ! k)) i \<longleftrightarrow> bit (starts (ws ! k)) i \<or> 64 * k + i = 64 * w + b"
      using unit_eq_iff [OF i assms(2), of k w] assms(1) i by (cases "k = w") auto
  qed simp
  moreover have "commit_single quiet w b n (ws ! w) r (t, ws) = Inr ((r, True), Suc t, ws[w := ?v])"
    using assms m(1) by (simp add: commit_single_def)
  ultimately show ?thesis by blast
qed

lemma starts_empty:
  assumes "starts_in_bitmap ws" and "k < length ws" and "bitmap (ws ! k) = 0"
  shows "ws ! k = empty_word"
proof -
  have "\<not> bit (starts (ws ! k)) i" if "i < 64" for i
  proof -
    have "64 * k + i < units ws" using assms(2) that by (simp add: units_def)
    then have "sbit ws (64 * k + i) \<longrightarrow> ubit ws (64 * k + i)"
      using assms(1) by (simp add: starts_in_bitmap_def)
    with assms(3) that show ?thesis by (simp add: ubit_word sbit_word)
  qed
  then have "starts (ws ! k) = 0" by (simp add: u64_eq_0_iff)
  with assms(3) show ?thesis by (simp add: empty_word_def)
qed

lemma commit_last_word_quiet:
  assumes "w < length ws" and "0 < n" and "n < 64" and "\<And>i. i < n \<Longrightarrow> \<not> bit (bitmap (ws ! w)) i"
    and "\<And>i. i < n \<Longrightarrow> \<not> bit (starts (ws ! w)) i"
  shows "\<exists>v t'. commit_last_word quiet w n (t, ws) = Inr (True, t', ws[w := v]) \<and>
    (\<forall>i<64. bit (bitmap v) i \<longleftrightarrow> bit (bitmap (ws ! w)) i \<or> i < n) \<and> starts v = starts (ws ! w)"
proof -
  from mask_bits [of n] assms obtain m
    where m: "shr64 (-1) (64 - n) = Inr m" "\<And>i. bit m i \<longleftrightarrow> i < n" by auto
  have "bitmap (ws ! w) AND NOT m = bitmap (ws ! w)" "starts (ws ! w) AND NOT m = starts (ws ! w)"
    by (rule u64_eqI, use assms(4,5) m(2) in auto)+
  then show ?thesis using assms(1) m by (auto simp: commit_last_word_def Let_def)
qed

lemma commit_multi_quiet:
  assumes w: "w < length ws" "b < 64" and ni: "w < ni" "ni \<le> length ws" and cr: "cr < 64"
    and n: "64 * w + b + n = 64 * ni + cr" and last: "0 < cr \<Longrightarrow> ni < length ws"
    and sb: "starts_in_bitmap ws" and free: "\<And>i. i < n \<Longrightarrow> \<not> ubit ws (64 * w + b + i)"
  shows "\<exists>t' ws'. commit_multi fuel quiet w b cr ni (ws ! w) r (t, ws) = Inr ((r, True), t', ws') \<and>
    marked ws (64 * w + b) n ws'"
proof -
  let ?v = "\<lparr>bitmap = bitmap (ws ! w) OR push_bit b (-1), starts = starts (ws ! w) OR push_bit b 1\<rparr>"
  let ?ws1 = "ws[w := ?v]"
  have free': "\<not> ubit ws j" if "64 * w + b \<le> j" "j < 64 * ni + cr" for j
    using free [of "j - (64 * w + b)"] that n by simp
  have middle: "ws ! k = empty_word" if "w + 1 \<le> k" "k < ni" for k
  proof (rule starts_empty [OF sb])
    show "k < length ws" using that ni by simp
    have "\<not> bit (bitmap (ws ! k)) i" if "i < 64" for i
      using free' [of "64 * k + i"] that \<open>w + 1 \<le> k\<close> \<open>k < ni\<close> w(2) by (simp add: ubit_word)
    then show "bitmap (ws ! k) = 0" by (simp add: u64_eq_0_iff)
  qed
  then have "\<exists>t2 ws2. commit_full_words quiet ni (w + 1) (Suc t, ?ws1) = Inr (False, ni, t2, ws2) \<and>
     length ws2 = length ?ws1 \<and>
     (\<forall>k<length ?ws1. ws2 ! k = (if w + 1 \<le> k \<and> k < ni then full_word else ?ws1 ! k))"
    using ni by (intro commit_full_words_quiet) auto
  then obtain t2 ws2 where ws2: "commit_full_words quiet ni (w + 1) (Suc t, ?ws1) = Inr (False, ni, t2, ws2)"
    "length ws2 = length ws" "\<And>k. k < length ws \<Longrightarrow>
       ws2 ! k = (if w < k \<and> k < ni then full_word else if k = w then ?v else ws ! k)"
    using w by auto
  show ?thesis
  proof (cases "cr = 0")
    case True
    have "marked ws (64 * w + b) n ws2"
    proof (rule markedI [OF ws2(2)])
      fix k i :: nat
      assume k: "k < length ws" and i: "i < 64"
      have range: "64 * w + b \<le> 64 * k + i \<and> 64 * k + i < 64 * w + b + n \<longleftrightarrow>
          k < ni \<and> (w < k \<or> k = w \<and> b \<le> i)"
        using unit_le_iff [OF w(2) i, of w k] i True by (auto simp: n)
      show "bit (bitmap (ws2 ! k)) i \<longleftrightarrow>
          bit (bitmap (ws ! k)) i \<or> 64 * w + b \<le> 64 * k + i \<and> 64 * k + i < 64 * w + b + n"
        unfolding range ws2(3) [OF k] using i ni by (auto simp: full_word_def)
      show "bit (starts (ws2 ! k)) i \<longleftrightarrow> bit (starts (ws ! k)) i \<or> 64 * k + i = 64 * w + b"
        unfolding unit_eq_iff [OF i w(2)] ws2(3) [OF k] using i ni middle [of k]
        by (auto simp: full_word_def empty_word_def)
    qed
    moreover have "commit_multi fuel quiet w b cr ni (ws ! w) r (t, ws) = Inr ((r, True), t2, ws2)"
      using w ws2(1) True by (simp add: commit_multi_def Let_def)
    ultimately show ?thesis by blast
  next
    case False
    then have ni': "ni < length ws" using last by simp
    have same: "ws2 ! ni = ws ! ni" using ws2(3) [OF ni'] ni by simp
    have nb: "\<not> bit (bitmap (ws2 ! ni)) i" if "i < cr" for i
      using free' [of "64 * ni + i"] that ni w(2) cr by (simp add: same ubit_word)
    moreover have "\<not> bit (starts (ws2 ! ni)) i" if "i < cr" for i
    proof -
      have "64 * ni + i < units ws" using that cr ni' by (simp add: units_def)
      with sb nb [OF that] that cr show ?thesis
        by (auto simp: starts_in_bitmap_def same simp flip: ubit_word sbit_word)
    qed
    ultimately obtain v t3 where v: "commit_last_word quiet ni cr (t2, ws2) = Inr (True, t3, ws2[ni := v])"
        "\<And>i. i < 64 \<Longrightarrow> bit (bitmap v) i \<longleftrightarrow> bit (bitmap (ws2 ! ni)) i \<or> i < cr"
        "starts v = starts (ws2 ! ni)"
      using commit_last_word_quiet [of ni ws2 cr t2] ni' ws2(2) False cr by auto
    have "marked ws (64 * w + b) n (ws2[ni := v])"
    proof (rule markedI)
      fix k i :: nat
      assume k: "k < length ws" and i: "i < 64"
      have range: "64 * w + b \<le> 64 * k + i \<and> 64 * k + i < 64 * w + b + n \<longleftrightarrow>
          (w < k \<or> k = w \<and> b \<le> i) \<and> (k < ni \<or> k = ni \<and> i < cr)"
        using unit_le_iff [OF w(2) i, of w k] unit_less_iff [OF i cr, of k ni] unfolding n by blast
      have upd: "ws2[ni := v] ! k = (if k = ni then v else ws2 ! k)"
        using k ws2(2) by (simp add: nth_list_update)
      show "bit (bitmap (ws2[ni := v] ! k)) i \<longleftrightarrow>
          bit (bitmap (ws ! k)) i \<or> 64 * w + b \<le> 64 * k + i \<and> 64 * k + i < 64 * w + b + n"
        unfolding range upd ws2(3) [OF k] using i ni v(2) same by (auto simp: full_word_def)
      show "bit (starts (ws2[ni := v] ! k)) i \<longleftrightarrow> bit (starts (ws ! k)) i \<or> 64 * k + i = 64 * w + b"
        unfolding unit_eq_iff [OF i w(2)] upd ws2(3) [OF k] using i ni middle [of k] v(3) same
        by (auto simp: full_word_def empty_word_def)
    qed (simp add: ws2(2))
    moreover have "commit_multi fuel quiet w b cr ni (ws ! w) r (t, ws) = Inr ((r, True), t3, ws2[ni := v])"
      using w ws2(1) v(1) False by (simp add: commit_multi_def Let_def)
    ultimately show ?thesis by blast
  qed
qed

section \<open>First fit\<close>

lemma word_alignment_cases:
  assumes "is_pow2 a" and "a \<le> 2147483648"
  shows "a \<le> 64 \<and> a dvd 64 \<and> word_alignment a = 1 \<or> a = 64 * word_alignment a \<and> is_pow2 (word_alignment a)"
proof -
  from assms(1) obtain k where k: "a = 2 ^ k" by (auto simp: is_pow2_def)
  have wa: "word_alignment a = (a + 63) div 64" using assms(2) by (simp add: word_alignment_def)
  show ?thesis
  proof (cases "k \<le> 6")
    case True
    then have "a dvd 2 ^ 6" unfolding k by (rule le_imp_power_dvd)
    moreover have "0 < a" using k by simp
    ultimately have "a dvd 64" "a \<le> 64" by (auto dest: dvd_imp_le)
    moreover have "(a + 63) div 64 = 1" using \<open>0 < a\<close> \<open>a \<le> 64\<close> by linarith
    ultimately show ?thesis by (simp add: wa)
  next
    case False
    then have "k = 6 + (k - 6)" by simp
    then have "a = 2 ^ 6 * 2 ^ (k - 6)" unfolding k by (metis power_add)
    then have "a = 64 * 2 ^ (k - 6)" by simp
    moreover from this have "word_alignment a = 2 ^ (k - 6)" unfolding wa by simp
    ultimately show ?thesis unfolding is_pow2_def by metis
  qed
qed

lemma word_alignment_pow2: "\<lbrakk>is_pow2 a; a \<le> 2147483648\<rbrakk> \<Longrightarrow> is_pow2 (word_alignment a)"
  using word_alignment_cases [of a] by (auto simp: is_pow2_def intro: exI [of _ 0])

lemma word_alignment_le: "a \<le> 2147483648 \<Longrightarrow> word_alignment a \<le> 33554432"
  by (simp add: word_alignment_def)

lemma aligned_in_word:
  assumes "is_pow2 a" and "a \<le> 2147483648" and "word_alignment a dvd w" and "q < 64"
  shows "a dvd 64 * w + q \<longleftrightarrow> a dvd q"
proof -
  have "a dvd 64 * w"
    using word_alignment_cases [OF assms(1,2)] assms(3) by (metis dvd_mult2 dvd_trans mult_dvd_mono dvd_refl)
  then show ?thesis by (simp add: dvd_add_right_iff)
qed

lemma next_word_index_eq:
  assumes "is_pow2 a" and "a \<le> 2147483648" and "w < 67108864"
  shows "next_word_index a w = (w + word_alignment a) - (w + word_alignment a) mod word_alignment a"
proof -
  let ?wa = "word_alignment a"
  have wa: "is_pow2 ?wa" "?wa \<le> 33554432" "0 < ?wa"
    using word_alignment_pow2 [OF assms(1,2)] word_alignment_le [OF assms(2)] is_pow2_pos by auto
  have "4294967295 * ?wa = (4294967296 - ?wa) + 4294967296 * (?wa - 1)"
    using wa(2,3) by (simp add: algebra_simps)
  then have "wrap32 (4294967295 * ?wa) = (4294967296 - ?wa) mod 4294967296"
    unfolding wrap32_def by (simp only: mod_mult_self2)
  also have "\<dots> = not32 (?wa - 1)" using wa by (simp add: not32_def)
  finally show ?thesis using wa assms(3) by (simp add: next_word_index_def and_not32_pow2 del: One_nat_def)
qed

lemma next_word_index_props:
  assumes "is_pow2 a" and "a \<le> 2147483648" and "w < 67108864"
  shows "w < next_word_index a w" and "word_alignment a dvd next_word_index a w"
    and "\<lbrakk>a dvd p; 64 * (w + 1) \<le> p\<rbrakk> \<Longrightarrow> 64 * next_word_index a w \<le> p"
proof -
  let ?wa = "word_alignment a"
  have wa: "0 < ?wa" using word_alignment_pow2 [OF assms(1,2)] is_pow2_pos by simp
  have nw: "next_word_index a w = ?wa * (w div ?wa + 1)"
  proof -
    have "next_word_index a w = ?wa * ((w + ?wa) div ?wa)"
      by (simp add: next_word_index_eq [OF assms] minus_mod_eq_mult_div del: mod_add_self2)
    then show ?thesis by (simp only: div_add_self2 [OF wa [THEN gr_implies_not0]])
  qed
  show "?wa dvd next_word_index a w" by (simp add: nw)
  have "w mod ?wa < ?wa" using wa by simp
  moreover have "w = ?wa * (w div ?wa) + w mod ?wa" by simp
  ultimately show "w < next_word_index a w" unfolding nw by (metis add_mult_distrib2 mult.right_neutral nat_add_left_cancel_less)
  assume p: "a dvd p" "64 * (w + 1) \<le> p"
  consider "?wa = 1" | "a = 64 * ?wa" using word_alignment_cases [OF assms(1,2)] by blast
  then show "64 * next_word_index a w \<le> p"
  proof cases
    case 1
    with p(2) show ?thesis by (simp add: nw)
  next
    case 2
    with p(1) obtain j where j: "p = 64 * ?wa * j" by (metis dvdE)
    with p(2) have "w < ?wa * j" by simp
    then have "w div ?wa < j" using wa by (simp add: less_mult_imp_div_less mult.commute)
    then have "?wa * (w div ?wa + 1) \<le> ?wa * j" by (intro mult_le_mono2) simp
    then show ?thesis unfolding nw j by simp
  qed
qed

definition alloc_result :: "pool \<Rightarrow> nat \<Rightarrow> nat \<Rightarrow> nat \<Rightarrow> pool \<Rightarrow> bool" where
  "alloc_result ws count a r ws' \<longleftrightarrow>
     (if r = UINT32_MAX then ws' = ws \<and> (\<forall>p. \<not> fits ws count a p)
      else fits ws count a r \<and> (\<forall>p<r. \<not> fits ws count a p) \<and> marked ws r count ws')"

lemma nofit_obstacle: "\<lbrakk>ubit ws j; p \<le> j; j < p + count\<rbrakk> \<Longrightarrow> \<not> fits ws count a p"
  unfolding fits_def by (metis add_diff_inverse_nat add_less_cancel_left linorder_not_less)

lemma nofit_beyond: "units ws < p + count \<Longrightarrow> \<not> fits ws count a p"
  by (simp add: fits_def)

lemma nofit_in_word:
  assumes "is_pow2 a" and "a \<le> 2147483648" and "word_alignment a dvd w"
    and "first_zeros (bitmap (ws ! w)) count a b" and "64 * w \<le> p" and "p < 64 * w + b"
  shows "\<not> fits ws count a p"
proof
  assume fit: "fits ws count a p"
  define q where "q = p - 64 * w"
  have q: "p = 64 * w + q" "q < b" "q < 64" using assms(4,5,6) by (auto simp: q_def first_zeros_def)
  have "a dvd q" using fit aligned_in_word [OF assms(1-3) q(3)] by (simp add: fits_def q)
  moreover have "zeros_at (bitmap (ws ! w)) q count"
    unfolding zeros_at_def
  proof (intro allI impI notI)
    fix i
    assume i: "i < count" and bit: "bit (bitmap (ws ! w)) (q + i)"
    have "q + i < 64" using bit by (rule bit_u64_less)
    with bit have "ubit ws (p + i)" by (simp add: q add.assoc ubit_word)
    with fit i show False by (simp add: fits_def)
  qed
  ultimately show False using assms(4) q(2) by (auto simp: first_zeros_def)
qed

lemma nofit_full_word:
  assumes "bitmap (ws ! w) = -1" and "0 < count" and "64 * w \<le> p" and "p < 64 * w + 64"
  shows "\<not> fits ws count a p"
proof (rule nofit_obstacle)
  have "p = 64 * w + (p - 64 * w)" using assms(3) by simp
  then show "ubit ws p" using ubit_word [of "p - 64 * w" ws w] assms by simp
qed (use assms(2) in simp_all)

fun step_post :: "pool \<Rightarrow> nat \<Rightarrow> nat \<Rightarrow> nat \<Rightarrow> loop_step \<Rightarrow> pool \<Rightarrow> bool" where
  "step_post ws count a w (Continue k) ws' \<longleftrightarrow>
     ws' = ws \<and> w \<le> k \<and> k < length ws \<and> (\<forall>p. p < 64 * (k + 1) \<longrightarrow> \<not> fits ws count a p)"
| "step_post ws count a w (Return (r, done)) ws' \<longleftrightarrow> done \<and> alloc_result ws count a r ws'"

lemma push_bit_top_0:
  assumes "cr < 64"
  shows "push_bit (64 - cr) (bitmap (ws ! k)) = 0 \<longleftrightarrow> (\<forall>i<cr. \<not> ubit ws (64 * k + i))"
proof -
  have "push_bit (64 - cr) (bitmap (ws ! k)) = 0 \<longleftrightarrow> (\<forall>i<cr. \<not> bit (bitmap (ws ! k)) i)"
  proof
    assume z: "push_bit (64 - cr) (bitmap (ws ! k)) = 0"
    show "\<forall>i<cr. \<not> bit (bitmap (ws ! k)) i"
    proof (intro allI impI)
      fix i
      assume "i < cr"
      then have "bit (push_bit (64 - cr) (bitmap (ws ! k))) (64 - cr + i) \<longleftrightarrow> bit (bitmap (ws ! k)) i"
        using assms by auto
      with z show "\<not> bit (bitmap (ws ! k)) i" by simp
    qed
  next
    assume z: "\<forall>i<cr. \<not> bit (bitmap (ws ! k)) i"
    show "push_bit (64 - cr) (bitmap (ws ! k)) = 0"
    proof (rule u64_eqI)
      fix i :: nat
      assume "i < 64"
      with z show "bit (push_bit (64 - cr) (bitmap (ws ! k))) i \<longleftrightarrow> bit (0 :: u64) i"
        using assms by auto
    qed
  qed
  with assms show ?thesis by (auto simp: ubit_word)
qed

lemma alloc_across_words_quiet:
  assumes count: "0 < count" "count \<le> 4294967232" and sb: "starts_in_bitmap ws"
    and w: "w < length ws" "b < 64" "64 < b + count" and al: "a dvd 64 * w + b"
    and r: "64 * w + b \<noteq> UINT32_MAX"
    and below: "\<And>p. p < 64 * w + b \<Longrightarrow> \<not> fits ws count a p"
    and head: "\<And>j. \<lbrakk>64 * w + b \<le> j; j < 64 * w + 64\<rbrakk> \<Longrightarrow> \<not> ubit ws j"
  shows "\<exists>x t' ws'. alloc_across_words fuel quiet (length ws) count w b (ws ! w) (64 * w + b) (t, ws) =
      Inr (x, t', ws') \<and> step_post ws count a w x ws'"
proof -
  let ?r = "64 * w + b"
  have c0: "sub32 count (64 - b) = count - (64 - b)" using w count by simp
  obtain t' ex cr ni where
    sk: "skip_free_words quiet (length ws) (count - (64 - b)) (w + 1) (t, ws) = Inr (ex, cr, ni, t', ws)"
      and sp: "skipped ws (count - (64 - b)) (w + 1) ex cr ni"
    using skip_free_words_quiet by blast
  have ni: "w < ni" "ni \<le> length ws" and e: "?r + count = 64 * ni + cr"
    using sp w by (auto simp: skipped_def)
  have mid: "\<not> ubit ws j" if "?r \<le> j" "j < 64 * ni" for j
  proof (cases "j < 64 * w + 64")
    case False
    obtain k i where j: "j = 64 * k + i" "i < 64" by (rule unit_split)
    then have "k \<in> {w + 1..<ni}" using False that(2) by auto
    with sp have "bitmap (ws ! k) = 0" by (simp add: skipped_def)
    with j show ?thesis by (simp add: ubit_word)
  qed (use head that in simp)
  have none: "alloc_result ws count a UINT32_MAX ws" if "length ws \<le> ni" "0 < cr"
  proof -
    have "units ws < ?r + count" using that e by (simp add: units_def)
    then have "\<not> fits ws count a p" for p
      using below [of p] nofit_beyond [of ws p count a] by (cases "p < ?r") auto
    then show ?thesis by (simp add: alloc_result_def)
  qed
  have blocked: "step_post ws count a w (Continue (ni - 1)) ws"
    if "ubit ws (64 * ni + i)" "i < cr" "ni < length ws" for i
  proof -
    have "\<not> fits ws count a p" if "p < 64 * ni" for p
      using below [of p] nofit_obstacle [of ws "64 * ni + i" p count a] e that
        \<open>ubit ws (64 * ni + i)\<close> \<open>i < cr\<close> by (cases "p < ?r") auto
    with ni that(3) show ?thesis by auto
  qed
  have commit: "\<exists>x t'' ws'. rbind (commit_multi fuel quiet w b cr ni (ws ! w) ?r (t1, ws))
      (\<lambda>(r, st3). Inr (Return r, st3)) = Inr (x, t'', ws') \<and> step_post ws count a w x ws'"
    if "cr < 64" "0 < cr \<Longrightarrow> ni < length ws" "\<And>i. i < cr \<Longrightarrow> \<not> ubit ws (64 * ni + i)" for t1
  proof -
    have free: "\<not> ubit ws (?r + i)" if "i < count" for i
      using mid [of "?r + i"] \<open>\<And>i. i < cr \<Longrightarrow> \<not> ubit ws (64 * ni + i)\<close> [of "?r + i - 64 * ni"] e that
      by (cases "?r + i < 64 * ni") simp_all
    have "?r + count \<le> units ws"
      using e that(1,2) ni(2) by (cases "cr = 0") (auto simp: units_def)
    with free al have "fits ws count a ?r" by (simp add: fits_def)
    then show ?thesis
      using commit_multi_quiet [OF w(1,2) ni that(1) e that(2) sb free, of fuel ?r t1] below r
      by (auto simp: alloc_result_def)
  qed
  have body: "alloc_across_words fuel quiet (length ws) count w b (ws ! w) ?r (t, ws) =
     (if ex then Inr (Return (UINT32_MAX, True), t', ws)
      else if 64 \<le> cr then Inr (Continue (ni - 1), t', ws)
      else if 0 < cr
      then (if length ws \<le> ni then Inr (Return (UINT32_MAX, True), t', ws)
            else if push_bit (64 - cr) (bitmap (ws ! ni)) \<noteq> 0 then Inr (Continue (ni - 1), Suc t', ws)
            else rbind (commit_multi fuel quiet w b cr ni (ws ! w) ?r (Suc t', ws))
              (\<lambda>(r, st3). Inr (Return r, st3)))
      else rbind (commit_multi fuel quiet w b cr ni (ws ! w) ?r (t', ws))
              (\<lambda>(r, st3). Inr (Return r, st3)))"
    unfolding alloc_across_words_def c0 sk by (simp add: Let_def)
  have top: "push_bit (64 - cr) (bitmap (ws ! ni)) = 0 \<longleftrightarrow> (\<forall>i<cr. \<not> ubit ws (64 * ni + i))"
    if "cr < 64"
    using that by (rule push_bit_top_0)
  consider "ex" | "\<not> ex" "64 \<le> cr" | "\<not> ex" "0 < cr" "cr < 64" "length ws \<le> ni"
    | "\<not> ex" "0 < cr" "cr < 64" "ni < length ws" | "\<not> ex" "cr = 0" by linarith
  then show ?thesis
  proof cases
    case 1
    with sp none show ?thesis unfolding body by (simp add: skipped_def)
  next
    case 2
    then have "ni < length ws" "bitmap (ws ! ni) \<noteq> 0" using sp by (auto simp: skipped_def)
    then obtain i where "i < 64" "ubit ws (64 * ni + i)" by (auto simp: u64_eq_0_iff ubit_word)
    with 2 blocked [of i] \<open>ni < length ws\<close> show ?thesis unfolding body by simp
  next
    case 3
    with none show ?thesis unfolding body by simp
  next
    case 4
    show ?thesis
    proof (cases "\<forall>i<cr. \<not> ubit ws (64 * ni + i)")
      case True
      with 4 commit [of "Suc t'"] top show ?thesis unfolding body by simp
    next
      case False
      with 4 blocked top show ?thesis unfolding body by auto
    qed
  next
    case 5
    with commit [of t'] show ?thesis unfolding body by simp
  qed
qed

lemma alloc_at_word_quiet:
  assumes a: "is_pow2 a" "a \<le> 2147483648" and count: "0 < count" "count \<le> 4294967232"
    and sb: "starts_in_bitmap ws" and len: "units ws \<le> 4294967232"
    and w: "w < length ws" and al: "word_alignment a dvd w"
    and below: "\<And>p. p < 64 * w \<Longrightarrow> \<not> fits ws count a p"
  shows "\<exists>x t' ws'. alloc_at_word fuel quiet (length ws) count a w (t, ws) = Inr (x, t', ws') \<and>
    step_post ws count a w x ws'"
proof (cases "bitmap (ws ! w) = -1")
  case True
  have "\<not> fits ws count a p" if "p < 64 * (w + 1)" for p
    using below [of p] nofit_full_word [OF True count(1), of p] that by (cases "p < 64 * w") auto
  with True w show ?thesis by (simp add: alloc_at_word_def)
next
  case notfull: False
  obtain b where b: "FindConsecutiveZerosAligned (bitmap (ws ! w)) count a = Inr b"
      "first_zeros (bitmap (ws ! w)) count a b"
    using FindConsecutiveZerosAligned_correct [OF count(1) notfull a] by blast
  have below_b: "\<not> fits ws count a p" if "p < 64 * w + b" for p
    using below [of p] nofit_in_word [OF a al b(2), of p] that by (cases "p < 64 * w") auto
  show ?thesis
  proof (cases "b = 64")
    case True
    then show ?thesis using w notfull b(1) below_b by (simp add: alloc_at_word_def)
  next
    case False
    have b64: "b < 64" and bz: "zeros_at (bitmap (ws ! w)) b count" and bal: "a dvd b"
      using b(2) False by (auto simp: first_zeros_def)
    let ?r = "64 * w + b"
    have r: "wrap32 (b + w * 64) = ?r" "?r \<noteq> UINT32_MAX" using w b64 len by (auto simp: units_def)
    have ral: "a dvd ?r" using aligned_in_word [OF a al b64] bal by simp
    have sum: "wrap32 (b + count) = b + count" using b64 count by simp
    have head: "\<not> ubit ws (?r + i)" if "i < count" "b + i < 64" for i
      using bz that by (simp add: zeros_at_def add.assoc ubit_word)
    show ?thesis
    proof (cases "b + count \<le> 64")
      case True
      have "fits ws count a ?r" using ral head True w by (auto simp: fits_def units_def)
      moreover obtain ws' where "commit_single quiet w b count (ws ! w) ?r (Suc t, ws) =
          Inr ((?r, True), Suc (Suc t), ws')" "marked ws ?r count ws'"
        using commit_single_quiet [OF w b64 count(1) True] by blast
      ultimately show ?thesis using True w notfull b(1) False below_b r sum
        by (simp add: alloc_at_word_def alloc_result_def)
    next
      case multi: False
      have "\<exists>x t' ws'. alloc_across_words fuel quiet (length ws) count w b (ws ! w) ?r (Suc t, ws) =
          Inr (x, t', ws') \<and> step_post ws count a w x ws'"
      proof (rule alloc_across_words_quiet [OF count sb w b64 _ ral r(2) below_b])
        show "64 < b + count" using multi by simp
        fix j assume "?r \<le> j" "j < 64 * w + 64"
        then show "\<not> ubit ws j" using head [of "j - ?r"] multi by simp
      qed
      then show ?thesis using w notfull b(1) False r(1) sum multi
        by (simp add: alloc_at_word_def Let_def)
    qed
  qed
qed

lemma alloc_loop_quiet:
  assumes a: "is_pow2 a" "a \<le> 2147483648" and count: "0 < count" "count \<le> 4294967232"
    and sb: "starts_in_bitmap ws" and len: "units ws \<le> 4294967232"
  shows "\<lbrakk>word_alignment a dvd w; length ws - w < fuel; \<And>p. p < 64 * w \<Longrightarrow> \<not> fits ws count a p\<rbrakk> \<Longrightarrow>
    \<exists>r t' ws'. alloc_loop fuel quiet (length ws) count a w (t, ws) = Inr ((r, True), t', ws') \<and>
      alloc_result ws count a r ws'"
proof (induction fuel arbitrary: w t)
  case 0
  then show ?case by simp
next
  case (Suc fuel)
  note below = Suc.prems(3)
  show ?case
  proof (cases "w < length ws")
    case False
    then have "\<not> fits ws count a p" for p
      using below [of p] count(1) by (cases "p < 64 * w") (auto simp: fits_def units_def)
    with False show ?thesis by (simp add: alloc_result_def)
  next
    case True
    obtain x t' ws' where x: "alloc_at_word fuel quiet (length ws) count a w (t, ws) = Inr (x, t', ws')"
        "step_post ws count a w x ws'"
      using alloc_at_word_quiet [OF assms True Suc.prems(1) below] by blast
    show ?thesis
    proof (cases x)
      case (Return r)
      with x True show ?thesis by (cases r) auto
    next
      case (Continue k)
      then have k: "ws' = ws" "w \<le> k" "k < length ws" and no: "\<And>p. p < 64 * (k + 1) \<Longrightarrow> \<not> fits ws count a p"
        using x(2) by auto
      have "k < 67108864" using k(3) len by (simp add: units_def)
      note np = next_word_index_props [OF a this]
      have "\<not> fits ws count a p" if "p < 64 * next_word_index a k" for p
        using that np(3) [of p] no [of p] by (meson fits_def linorder_not_le)
      with np(1,2) k True Suc.prems(2) Suc.IH [of "next_word_index a k" t'] x(1) Continue
      show ?thesis by simp
    qed
  qed
qed

lemma Allocate_quiet:
  assumes "is_pow2 a" and "a \<le> 2147483648" and "0 < count" and "count \<le> 4294967232"
    and "starts_in_bitmap ws" and "PoolSize \<le> 4294967232" and "length ws = WordCount PoolSize"
    and "length ws < fuel"
  shows "\<exists>r t' ws'. Allocate fuel quiet PoolSize count a (t, ws) = Inr (r, t', ws') \<and>
    alloc_result ws count a r ws'"
proof -
  have "units ws \<le> 4294967232"
  proof -
    have "(PoolSize + 63) div 64 \<le> 67108863" using assms(6) by linarith
    then show ?thesis using assms(6,7) by (simp add: units_def WordCount_def)
  qed
  then obtain r t' ws' where
    loop: "alloc_loop fuel quiet (length ws) count a 0 (t, ws) = Inr ((r, True), t', ws')"
      "alloc_result ws count a r ws'"
    using alloc_loop_quiet [OF assms(1-5), of 0 fuel t] assms(8) by auto
  have "a AND (a - 1) = 0" "0 < a" using assms(1) by (rule pow2_and_pred, rule is_pow2_pos)
  with loop(1) assms(3,7) have "AllocateInternal fuel quiet PoolSize 0 count a (t, ws) = Inr ((r, True), t', ws')"
    by (simp add: AllocateInternal_def del: One_nat_def)
  moreover obtain f where "fuel = Suc f" using assms(8) by (cases fuel) auto
  ultimately show ?thesis using loop(2) by (simp add: Allocate_def)
qed

lemma Allocate_panics:
  shows "0 < fuel \<Longrightarrow> Allocate fuel env PoolSize 0 a st = Inl (Panic ''%s invalid allocation size'')"
    and "\<lbrakk>0 < fuel; 0 < count\<rbrakk> \<Longrightarrow>
      Allocate fuel env PoolSize count 0 st = Inl (Panic ''%s invalid alignment'')"
    and "\<lbrakk>0 < fuel; 0 < count; 0 < a; \<not> is_pow2 a\<rbrakk> \<Longrightarrow>
      Allocate fuel env PoolSize count a st = Inl (Panic ''%s alignment must be a power of two'')"
proof -
  assume "0 < fuel"
  then obtain f where f: "fuel = Suc f" by (cases fuel) auto
  show "Allocate fuel env PoolSize 0 a st = Inl (Panic ''%s invalid allocation size'')"
    by (simp add: f Allocate_def AllocateInternal_def)
  assume c: "0 < count"
  then show "Allocate fuel env PoolSize count 0 st = Inl (Panic ''%s invalid alignment'')"
    by (simp add: f Allocate_def AllocateInternal_def)
  assume a: "0 < a" "\<not> is_pow2 a"
  then have "a AND (a - 1) \<noteq> 0" by (simp add: is_pow2_iff)
  moreover have "is_pow2 1" unfolding is_pow2_def by (rule exI [of _ 0]) simp
  then have "1 < a" using a by (cases "a = 1") auto
  ultimately show "Allocate fuel env PoolSize count a st = Inl (Panic ''%s alignment must be a power of two'')"
    using c by (simp add: f Allocate_def AllocateInternal_def del: One_nat_def)
qed

end
