(* ===== verification/Pool_Blocks.thy ===== *)
theory Pool_Blocks
  imports Pool_Correctness
begin

text \<open>
  Blocks of the pool allocator: the invariant \<open>pool_ok\<close> that ties the two bitmaps together, the
  length of a block as \<^verbatim>\<open>GetBlockSize\<close> reads it, and \<^verbatim>\<open>Deallocate\<close> as the exact inverse of
  \<^verbatim>\<open>Allocate\<close>. The interface \<open>block_allocator\<close> is what the heap and the page tables rely on.
\<close>

section \<open>The invariant\<close>

text \<open>
  Every start is allocated, every allocated unit that starts no block follows an allocated unit,
  and the units past \<open>PoolSize\<close> in the last word form one block, as the constructor leaves them.
\<close>

definition pool_ok :: "nat \<Rightarrow> pool \<Rightarrow> bool" where
  "pool_ok PoolSize ws \<longleftrightarrow> length ws = WordCount PoolSize \<and> starts_in_bitmap ws \<and>
     (\<forall>i<units ws. ubit ws i \<and> \<not> sbit ws i \<longrightarrow> 0 < i \<and> ubit ws (i - 1)) \<and>
     (\<forall>i<units ws. PoolSize \<le> i \<longrightarrow> ubit ws i \<and> (sbit ws i \<longleftrightarrow> i = PoolSize))"

text \<open>\<open>block ws s n\<close>: the \<open>n\<close> units from \<open>s\<close> are one allocated block.\<close>

definition block :: "pool \<Rightarrow> nat \<Rightarrow> nat \<Rightarrow> bool" where
  "block ws s n \<longleftrightarrow> 0 < n \<and> s + n \<le> units ws \<and> ubit ws s \<and> sbit ws s \<and>
     (\<forall>i. s < i \<and> i < s + n \<longrightarrow> ubit ws i \<and> \<not> sbit ws i) \<and>
     (s + n < units ws \<longrightarrow> ubit ws (s + n) \<longrightarrow> sbit ws (s + n))"

definition cleared :: "pool \<Rightarrow> nat \<Rightarrow> nat \<Rightarrow> pool \<Rightarrow> bool" where
  "cleared ws s n ws' \<longleftrightarrow> length ws' = length ws \<and>
     (\<forall>i<units ws. (ubit ws' i \<longleftrightarrow> ubit ws i \<and> \<not> (s \<le> i \<and> i < s + n)) \<and>
       (sbit ws' i \<longleftrightarrow> sbit ws i \<and> \<not> (s \<le> i \<and> i < s + n)))"

lemma clearedI:
  assumes "length ws' = length ws"
    and "\<And>k b. \<lbrakk>k < length ws; b < 64\<rbrakk> \<Longrightarrow> bit (bitmap (ws' ! k)) b \<longleftrightarrow>
      bit (bitmap (ws ! k)) b \<and> \<not> (s \<le> 64 * k + b \<and> 64 * k + b < s + n)"
    and "\<And>k b. \<lbrakk>k < length ws; b < 64\<rbrakk> \<Longrightarrow> bit (starts (ws' ! k)) b \<longleftrightarrow>
      bit (starts (ws ! k)) b \<and> \<not> (s \<le> 64 * k + b \<and> 64 * k + b < s + n)"
  shows "cleared ws s n ws'"
proof -
  have "(ubit ws' i \<longleftrightarrow> ubit ws i \<and> \<not> (s \<le> i \<and> i < s + n)) \<and>
      (sbit ws' i \<longleftrightarrow> sbit ws i \<and> \<not> (s \<le> i \<and> i < s + n))" if "i < units ws" for i
  proof -
    obtain k b where i: "i = 64 * k + b" "b < 64" by (rule unit_split)
    with that have "k < length ws" by (simp add: units_def)
    with assms(2,3) [of k b] i show ?thesis by (simp add: ubit_word sbit_word)
  qed
  with assms(1) show ?thesis by (simp add: cleared_def)
qed

lemma units_WordCount:
  assumes "P \<le> 4294967232" and "length ws = WordCount P"
  shows "P \<le> units ws" and "units ws < P + 64" and "units ws \<le> 4294967232"
proof -
  have wc: "length ws = (P + 63) div 64" using assms by (simp add: WordCount_def)
  show "P \<le> units ws" "units ws < P + 64" unfolding units_def wc by linarith+
  have "(P + 63) div 64 \<le> 67108863" using assms(1) by linarith
  then show "units ws \<le> 4294967232" unfolding units_def wc by linarith
qed

lemma pool_ok_new:
  assumes "P \<le> 4294967232"
  shows "pool_ok P (PoolAllocator P)"
proof -
  let ?ws = "PoolAllocator P"
  have len: "length ?ws = WordCount P" by (simp add: PoolAllocator_def Let_def)
  have word: "?ws ! k = (if P mod 64 \<noteq> 0 \<and> k = P div 64
      then \<lparr>bitmap = push_bit (P mod 64) (-1), starts = push_bit (P mod 64) 1\<rparr> else empty_word)"
    if "k < length ?ws" for k
    using that len by (auto simp: PoolAllocator_def Let_def nth_list_update simp del: push_bit_of_1 split: if_splits)
  have bits: "(ubit ?ws i \<longleftrightarrow> P \<le> i) \<and> (sbit ?ws i \<longleftrightarrow> i = P)" if "i < units ?ws" for i
  proof -
    obtain k b where i: "i = 64 * k + b" "b < 64" by (rule unit_split)
    have k: "k < length ?ws" using i that by (simp add: units_def)
    have P: "P = 64 * (P div 64) + P mod 64" by simp
    show ?thesis
    proof (cases "P mod 64 \<noteq> 0 \<and> k = P div 64")
      case True
      have "i = 64 * (P div 64) + b" using i True by simp
      then have "(P \<le> i \<longleftrightarrow> P mod 64 \<le> b) \<and> (i = P \<longleftrightarrow> b = P mod 64)" using P by linarith
      moreover have "b - P mod 64 = 0 \<longleftrightarrow> b \<le> P mod 64" by simp
      ultimately show ?thesis using i(2) True word [OF k]
        by (auto simp: i(1) ubit_word sbit_word)
    next
      case False
      have "64 * length ?ws < 64 * (P div 64) + P mod 64 + 64"
        using units_WordCount(2) [OF assms len] by (simp add: units_def)
      then have "length ?ws \<le> P div 64 + (if P mod 64 = 0 then 0 else 1)" by (auto split: if_splits)
      then have "k < P div 64" using k False by (auto split: if_splits)
      then have "i < P" using i P by linarith
      then show ?thesis using i(2) False word [OF k]
        by (auto simp: i(1) ubit_word sbit_word empty_word_def)
    qed
  qed
  have "P \<le> i - 1" if "P \<le> i" "i \<noteq> P" for i using that by simp
  then show ?thesis using len bits by (auto simp: pool_ok_def starts_in_bitmap_def)
qed

lemma pool_ok_marked:
  assumes ok: "pool_ok P ws" and P: "P \<le> 4294967232" and fit: "fits ws n a r" "0 < n"
    and m: "marked ws r n ws'"
  shows "pool_ok P ws'" and "block ws' r n" and "r + n \<le> P"
proof -
  have len: "length ws' = length ws" "units ws' = units ws" using m by (simp_all add: marked_def units_def)
  have free: "\<not> ubit ws i" if "r \<le> i" "i < r + n" for i
    using fit(1) that by (metis fits_def le_add_diff_inverse nat_add_left_cancel_less)
  have last: "\<not> ubit ws (r + n - 1)" by (rule free) (use fit(2) in auto)
  have bits: "ubit ws' i \<longleftrightarrow> ubit ws i \<or> r \<le> i \<and> i < r + n" "sbit ws' i \<longleftrightarrow> sbit ws i \<or> i = r"
    if "i < units ws" for i using m that by (simp_all add: marked_def)
  have sub: "sbit ws i \<Longrightarrow> ubit ws i" if "i < units ws" for i
    using ok that by (simp add: pool_ok_def starts_in_bitmap_def)
  have pred: "0 < i \<and> ubit ws (i - 1)" if "i < units ws" "ubit ws i" "\<not> sbit ws i" for i
    using ok that by (simp add: pool_ok_def)
  have tail: "ubit ws i \<and> (sbit ws i \<longleftrightarrow> i = P)" if "i < units ws" "P \<le> i" for i
    using ok that by (simp add: pool_ok_def)
  have top: "r + n \<le> units ws" using fit by (simp add: fits_def)
  show rP: "r + n \<le> P"
  proof (rule ccontr)
    assume "\<not> r + n \<le> P"
    then have "P \<le> r + n - 1" "r + n - 1 < units ws" using top fit(2) by auto
    with tail [of "r + n - 1"] last show False by blast
  qed
  have pred': "0 < i \<and> ubit ws' (i - 1)" if i: "i < units ws" "ubit ws' i" "\<not> sbit ws' i" for i
  proof (cases "ubit ws i")
    case True
    with pred [of i] i bits [of i] bits [of "i - 1"] show ?thesis by auto
  next
    case False
    with i bits [of i] have "r < i" "i < r + n" by auto
    with i(1) bits(1) [of "i - 1"] show ?thesis by auto
  qed
  have "starts_in_bitmap ws'"
    using sub bits fit(2) unfolding starts_in_bitmap_def len(2) by auto
  then show "pool_ok P ws'" using ok pred' tail bits rP fit(2) len by (auto simp: pool_ok_def)
  show "block ws' r n"
    unfolding block_def len(2)
  proof (intro conjI allI impI)
    fix i
    assume i: "r < i \<and> i < r + n"
    with top have "i < units ws" by simp
    with i bits [of i] sub [of i] free [of i] show "ubit ws' i" "\<not> sbit ws' i" by auto
  next
    assume e: "r + n < units ws" "ubit ws' (r + n)"
    with bits have u: "ubit ws (r + n)" by simp
    have "sbit ws (r + n)"
    proof (rule ccontr)
      assume "\<not> sbit ws (r + n)"
      with pred [OF e(1) u] last show False by blast
    qed
    with bits e show "sbit ws' (r + n)" by simp
  qed (use top fit(2) bits [of r] in auto)
qed

lemma pool_ok_cleared:
  assumes ok: "pool_ok P ws" and b: "block ws s n" "s < P" and P: "P \<le> units ws" and c: "cleared ws s n ws'"
  shows "pool_ok P ws'"
proof -
  have len: "length ws' = length ws" "units ws' = units ws" using c by (simp_all add: cleared_def units_def)
  have bits: "ubit ws' i \<longleftrightarrow> ubit ws i \<and> \<not> (s \<le> i \<and> i < s + n)"
    "sbit ws' i \<longleftrightarrow> sbit ws i \<and> \<not> (s \<le> i \<and> i < s + n)"
    if "i < units ws" for i using c that by (simp_all add: cleared_def)
  have tail: "ubit ws i \<and> (sbit ws i \<longleftrightarrow> i = P)" if "i < units ws" "P \<le> i" for i
    using ok that by (simp add: pool_ok_def)
  have "\<not> P < s + n"
  proof
    assume "P < s + n"
    with b have "P < units ws" "\<not> sbit ws P" by (auto simp: block_def)
    with tail [of P] show False by simp
  qed
  then have sP: "s + n \<le> P" by simp
  have "0 < i \<and> ubit ws' (i - 1)" if i: "i < units ws" "ubit ws' i" "\<not> sbit ws' i" for i
  proof -
    have "\<not> sbit ws i" "ubit ws i" "\<not> (s \<le> i \<and> i < s + n)" using i bits [of i] by auto
    then have "0 < i" "ubit ws (i - 1)" using ok i(1) by (auto simp: pool_ok_def)
    moreover have "i \<noteq> s + n" using b(1) i(1) \<open>ubit ws i\<close> \<open>\<not> sbit ws i\<close> by (auto simp: block_def)
    ultimately show ?thesis using bits(1) [of "i - 1"] i(1) \<open>\<not> (s \<le> i \<and> i < s + n)\<close> by auto
  qed
  moreover have "starts_in_bitmap ws'"
    using ok bits by (auto simp: pool_ok_def starts_in_bitmap_def len)
  ultimately show ?thesis using ok tail bits sP len by (auto simp: pool_ok_def)
qed

section \<open>Block sizes\<close>

lemma block_unique: "\<lbrakk>block ws s n; block ws s m\<rbrakk> \<Longrightarrow> n = m"
proof (induction n m rule: linorder_wlog)
  case (le n m)
  show ?case
  proof (rule ccontr)
    assume "n \<noteq> m"
    then have "s < s + n" "s + n < s + m" using le by (auto simp: block_def)
    with le show False unfolding block_def by (metis order_less_le_trans)
  qed
qed simp

text \<open>The units from \<open>s\<close> to before \<open>e\<close> are in the block that starts at \<open>s\<close>.\<close>

definition covers :: "pool \<Rightarrow> nat \<Rightarrow> nat \<Rightarrow> bool" where
  "covers ws s e \<longleftrightarrow> s < e \<and> ubit ws s \<and> sbit ws s \<and> (\<forall>i. s < i \<and> i < e \<longrightarrow> ubit ws i \<and> \<not> sbit ws i)"

lemma covers_extend:
  assumes "covers ws s (64 * k + b)" and "b + m \<le> 64" and sb: "starts_in_bitmap ws" "k < length ws"
    and "m = countr_one (drop_bit b (bitmap (ws ! k) XOR starts (ws ! k)))"
  shows "covers ws s (64 * k + b + m)"
    and "b + m < 64 \<Longrightarrow> ubit ws (64 * k + b + m) \<longrightarrow> sbit ws (64 * k + b + m)"
proof -
  have x: "bit (bitmap (ws ! k) XOR starts (ws ! k)) i \<longleftrightarrow> ubit ws (64 * k + i) \<and> \<not> sbit ws (64 * k + i)"
    if "i < 64" for i
  proof -
    have "64 * k + i < units ws" using that sb(2) by (simp add: units_def)
    then have "sbit ws (64 * k + i) \<longrightarrow> ubit ws (64 * k + i)" using sb(1) by (simp add: starts_in_bitmap_def)
    then show ?thesis using that by (auto simp: ubit_word sbit_word)
  qed
  have "ubit ws i \<and> \<not> sbit ws i" if "64 * k + b \<le> i" "i < 64 * k + b + m" for i
  proof -
    define j where "j = i - (64 * k + b)"
    have j: "i = 64 * k + (b + j)" "j < m" using that by (auto simp: j_def)
    have "bit (drop_bit b (bitmap (ws ! k) XOR starts (ws ! k))) j"
      by (rule countr_one_below) (use j(2) assms(5) in simp)
    then have "bit (bitmap (ws ! k) XOR starts (ws ! k)) (b + j)" unfolding bit_drop_u64 .
    with x [of "b + j"] j assms(2) show ?thesis by simp
  qed
  then show "covers ws s (64 * k + b + m)" using assms(1) by (auto simp: covers_def not_less) (metis not_less)+
  assume bm: "b + m < 64"
  have "\<not> bit (drop_bit b (bitmap (ws ! k) XOR starts (ws ! k))) m"
    unfolding assms(5) by (rule countr_one_at)
  with x [OF bm] show "ubit ws (64 * k + b + m) \<longrightarrow> sbit ws (64 * k + b + m)"
    by (simp add: add.assoc)
qed

lemma block_from_covers:
  assumes "covers ws s e" and "e \<le> units ws" and "e < units ws \<Longrightarrow> ubit ws e \<longrightarrow> sbit ws e"
  shows "block ws s (e - s)"
  using assms by (auto simp: covers_def block_def)

lemma block_size_loop_quiet:
  assumes sb: "starts_in_bitmap ws" and u: "units ws < 4294967296"
  shows "\<lbrakk>w < length ws; pos \<le> 64; covers ws s (64 * w + pos);
    pos < 64 \<Longrightarrow> ubit ws (64 * w + pos) \<longrightarrow> sbit ws (64 * w + pos)\<rbrakk> \<Longrightarrow>
    \<exists>n t'. block_size_loop quiet (length ws) w pos (64 * w + pos - s) (t, ws) = Inr (n, t', ws) \<and>
      block ws s n"
proof (induction "length ws - w" arbitrary: w pos t rule: less_induct)
  case less
  show ?case
  proof (cases "pos = 64 \<and> w + 1 < length ws")
    case True
    define m where "m = countr_one (bitmap (ws ! (w + 1)) XOR starts (ws ! (w + 1)))"
    have m: "m \<le> 64" using countr_one_le [of "bitmap (ws ! (w + 1)) XOR starts (ws ! (w + 1))"]
      by (simp add: m_def)
    have c: "covers ws s (64 * (w + 1) + 0)" using less.prems(3) True by (simp add: algebra_simps)
    note ext = covers_extend [OF c _ sb, of m]
    have "s < 64 * (w + 1)" using c by (simp add: covers_def)
    moreover have "64 * (w + 1) + m \<le> units ws" using True m by (simp add: units_def)
    ultimately have e: "wrap32 (64 * w + pos - s + m) = 64 * (w + 1) + m - s" using True u by simp
    have "\<exists>n t'. block_size_loop quiet (length ws) (w + 1) m (64 * (w + 1) + m - s) (Suc t, ws) =
        Inr (n, t', ws) \<and> block ws s n"
      using True m ext by (intro less.hyps) (auto simp: m_def)
    then show ?thesis using True e
      by (simp add: block_size_loop.simps [of _ _ w] m_def Let_def del: wrap32_id)
  next
    case False
    let ?e = "64 * w + pos"
    have "block ws s (?e - s)"
    proof (rule block_from_covers [OF less.prems(3)])
      show "?e \<le> units ws" using less.prems by (simp add: units_def)
      assume "?e < units ws"
      then have "pos < 64" using False less.prems(1,2) by (auto simp: units_def)
      then show "ubit ws ?e \<longrightarrow> sbit ws ?e" by (rule less.prems(4))
    qed
    with False show ?thesis by (auto simp: block_size_loop.simps [of _ _ w])
  qed
qed

lemma start_bit_set:
  "b < 64 \<Longrightarrow> (w AND push_bit b (1 :: u64) = 0) \<longleftrightarrow> \<not> bit w b"
  by (auto simp: and_eq_0_iff_u64)

lemma GetBlockSize_quiet:
  assumes ok: "pool_ok P ws" and P: "P \<le> 4294967232" and s: "s < P" "sbit ws s"
  shows "\<exists>n t'. GetBlockSize quiet P s (t, ws) = Inr (n, t', ws) \<and> block ws s n"
proof -
  have sb: "starts_in_bitmap ws" and len: "length ws = WordCount P" using ok by (simp_all add: pool_ok_def)
  note u = units_WordCount [OF P len]
  let ?w = "s div 64" and ?b = "s mod 64"
  have e: "s = 64 * ?w + ?b" by simp
  have w: "?w < length ws" using s u by (simp add: units_def)
  have "ubit ws s" using s u sb by (simp add: starts_in_bitmap_def)
  then have c1: "covers ws s (64 * ?w + (?b + 1))" using s e by (auto simp: covers_def)
  define m where "m = (if ?b + 1 < 64 then countr_one (drop_bit (?b + 1) (bitmap (ws ! ?w) XOR starts (ws ! ?w))) else 0)"
  have m64: "?b + 1 + m \<le> 64"
  proof (cases "m = 0")
    case True
    then show ?thesis by simp
  next
    case False
    then have "bit (drop_bit (?b + 1) (bitmap (ws ! ?w) XOR starts (ws ! ?w))) (m - 1)"
      by (intro countr_one_below) (auto simp: m_def split: if_splits)
    then have "?b + 1 + (m - 1) < 64" unfolding bit_drop_u64 by (rule bit_u64_less)
    then show ?thesis using False by simp
  qed
  have c2: "covers ws s (64 * ?w + (?b + 1 + m))" and
    stop: "?b + 1 + m < 64 \<Longrightarrow> ubit ws (64 * ?w + (?b + 1 + m)) \<longrightarrow> sbit ws (64 * ?w + (?b + 1 + m))"
    using covers_extend [OF c1 m64 sb w] c1 by (auto simp: m_def add.assoc split: if_splits)
  have cnt: "64 * ?w + (?b + 1 + m) - s = 1 + m" using e by linarith
  have bit: "starts (ws ! ?w) AND push_bit ?b 1 \<noteq> 0" using s by (simp add: sbit_def start_bit_set del: push_bit_of_1)
  obtain n t' where n: "block_size_loop quiet (length ws) ?w (?b + 1 + m) (1 + m) (Suc t, ws) = Inr (n, t', ws)"
      "block ws s n"
    using block_size_loop_quiet [OF sb _ w m64 c2 stop, of "Suc t"] u unfolding cnt by auto
  have "GetBlockSize quiet P s (t, ws) = block_size_loop quiet (WordCount P) ?w (?b + (1 + m)) (1 + m) (Suc t, ws)"
    using bit w s by (simp add: GetBlockSize_def Let_def m_def del: push_bit_of_1)
  then show ?thesis using n len by (simp add: add.assoc)
qed

section \<open>Deallocation\<close>

definition and_word :: "nat \<Rightarrow> u64 \<Rightarrow> pool \<Rightarrow> pool" where
  "and_word w msk ws = ws[w := \<lparr>bitmap = bitmap (ws ! w) AND msk, starts = starts (ws ! w) AND msk\<rparr>]"

lemma length_and_word [simp]: "length (and_word w msk ws) = length ws"
  by (simp add: and_word_def)

lemma and_word_other [simp]: "w \<noteq> k \<Longrightarrow> and_word w msk ws ! k = ws ! k"
  by (simp add: and_word_def)

lemma bit_and_word:
  assumes "w < length ws"
  shows "bit (bitmap (and_word w msk ws ! k)) i \<longleftrightarrow> bit (bitmap (ws ! k)) i \<and> (k = w \<longrightarrow> bit msk i)"
    and "bit (starts (and_word w msk ws ! k)) i \<longleftrightarrow> bit (starts (ws ! k)) i \<and> (k = w \<longrightarrow> bit msk i)"
  using assms by (auto simp: and_word_def nth_list_update)

lemma clear_bits_quiet:
  assumes "w < length ws" and "0 < fuel"
    and "\<And>i. \<lbrakk>i < 64; \<not> bit msk i\<rbrakk> \<Longrightarrow> bit (bitmap (ws ! w)) i"
    and "\<And>i. \<lbrakk>i < 64; \<not> bit msk i\<rbrakk> \<Longrightarrow> bit (starts (ws ! w)) i \<longleftrightarrow> bit sb i"
    and "\<And>i. \<lbrakk>i < 64; bit msk i\<rbrakk> \<Longrightarrow> \<not> bit sb i"
  shows "clear_bits fuel quiet w msk sb (t, ws) = Inr (Suc (Suc t), and_word w msk ws)"
proof -
  obtain f where f: "fuel = Suc f" using assms(2) by (cases fuel) auto
  have "bitmap (ws ! w) AND NOT msk = NOT msk" "starts (ws ! w) AND NOT msk = sb"
    by (rule u64_eqI, use assms(3-5) in auto)+
  then show ?thesis using assms(1) by (simp add: clear_bits_def and_word_def f)
qed

lemma clear_words_down_quiet:
  "\<lbrakk>w \<le> d; d < length ws\<rbrakk> \<Longrightarrow> \<exists>t' ws'. clear_words_down quiet w d (t, ws) = Inr (t', ws') \<and>
     length ws' = length ws \<and>
     (\<forall>k<length ws. ws' ! k = (if w < k \<and> k \<le> d then empty_word else ws ! k))"
proof (induction d arbitrary: t ws)
  case 0
  then show ?case by (simp add: clear_words_down.simps)
next
  case (Suc d)
  show ?case
  proof (cases "w = Suc d")
    case True
    then show ?thesis by (auto simp: clear_words_down.simps)
  next
    case False
    then obtain t' ws' where IH: "clear_words_down quiet w d (Suc t, ws[Suc d := empty_word]) = Inr (t', ws')"
      "length ws' = length ws" "\<And>k. k < length ws \<Longrightarrow>
        ws' ! k = (if w < k \<and> k \<le> d then empty_word else ws[Suc d := empty_word] ! k)"
      using Suc.IH [of "ws[Suc d := empty_word]" "Suc t"] Suc.prems by auto
    have "clear_words_down quiet w (Suc d) (t, ws) = Inr (t', ws')"
      using False Suc.prems IH(1) by (simp add: clear_words_down.simps [of _ _ "Suc d"])
    moreover have "\<forall>k<length ws. ws' ! k = (if w < k \<and> k \<le> Suc d then empty_word else ws ! k)"
      using IH(3) Suc.prems False by (auto simp: nth_list_update)
    ultimately show ?thesis using IH(2) by blast
  qed
qed

lemma block_bits:
  assumes "block ws s n" and "k < length ws" and "i < 64" and "s \<le> 64 * k + i" and "64 * k + i < s + n"
  shows "bit (bitmap (ws ! k)) i" and "bit (starts (ws ! k)) i \<longleftrightarrow> 64 * k + i = s"
proof -
  have "ubit ws (64 * k + i)" using assms by (cases "64 * k + i = s") (auto simp: block_def)
  then show "bit (bitmap (ws ! k)) i" using assms(3) by (simp add: ubit_word)
  have "sbit ws (64 * k + i) \<longleftrightarrow> 64 * k + i = s" using assms by (cases "64 * k + i = s") (auto simp: block_def)
  then show "bit (starts (ws ! k)) i \<longleftrightarrow> 64 * k + i = s" using assms(3) by (simp add: sbit_word)
qed

lemma dealloc_single_word:
  assumes bl: "block ws s n" and s: "s = 64 * w + b" "b < 64" "b + n \<le> 64" and w: "w < length ws"
    and f: "0 < fuel"
  shows "\<exists>t' ws'. rbind (shr64 (-1) (sub32 64 n)) (\<lambda>m. rbind (shl64 m b) (\<lambda>bits.
     clear_bits fuel quiet w (NOT bits) (push_bit b 1) (t, ws))) = Inr (t', ws') \<and> cleared ws s n ws'"
proof -
  have n: "0 < n" "n \<le> 64" using bl s by (auto simp: block_def)
  obtain m where m: "shr64 (-1) (64 - n) = Inr m" "\<And>i. bit m i \<longleftrightarrow> i < n" using mask_bits [OF n] by auto
  let ?msk = "NOT (push_bit b m)"
  have msk: "bit ?msk i \<longleftrightarrow> \<not> (b \<le> i \<and> i < b + n)" if "i < 64" for i
  proof -
    have "b \<le> i \<Longrightarrow> i - b < n \<longleftrightarrow> i < b + n" by linarith
    then show ?thesis using that by (auto simp: m(2))
  qed
  have inr: "s \<le> 64 * k + i \<and> 64 * k + i < s + n \<longleftrightarrow> k = w \<and> b \<le> i \<and> i < b + n" if "i < 64" for k i
    using unit_range_iff [OF that s(3)] s(1) by simp
  have "clear_bits fuel quiet w ?msk (push_bit b 1) (t, ws) = Inr (Suc (Suc t), and_word w ?msk ws)"
  proof (rule clear_bits_quiet [OF w f])
    fix i :: nat
    assume i: "i < 64"
    show "\<not> bit (push_bit b (1 :: u64)) i" if "bit ?msk i"
      using that i n unfolding msk [OF i] by auto
    assume "\<not> bit ?msk i"
    then have r: "s \<le> 64 * w + i" "64 * w + i < s + n" unfolding msk [OF i] using s by auto
    show "bit (bitmap (ws ! w)) i" by (rule block_bits(1) [OF bl w i r])
    show "bit (starts (ws ! w)) i \<longleftrightarrow> bit (push_bit b (1 :: u64)) i"
      unfolding block_bits(2) [OF bl w i r] s(1) using i by auto
  qed
  moreover have "cleared ws s n (and_word w ?msk ws)"
    by (rule clearedI) (auto simp: bit_and_word [OF w] inr msk simp del: bit_not_u64)
  ultimately show ?thesis using m(1) n s(2) by simp
qed

lemma pred_div_64: "(x - 1) div 64 = x div 64" if "x mod 64 \<noteq> 0" for x :: nat
proof -
  have "x - 1 = 64 * (x div 64) + (x mod 64 - 1)" using that by simp
  moreover have "x mod 64 - 1 < 64" by (simp add: less_imp_diff_less)
  ultimately show ?thesis by (metis div_mult_self4 div_less add.right_neutral zero_neq_numeral)
qed

lemma pred_div_64_full: "x = 64 * ((x - 1) div 64) + 64" if x: "x mod 64 = 0" "0 < x" for x :: nat
proof -
  obtain q where "x = 64 * q" using x(1) by (metis mod_0_imp_dvd dvdE)
  with x(2) obtain p where "x = 64 * Suc p" by (cases q) auto
  then have "x = 64 * p + 64" "x - 1 = 64 * p + 63" by simp_all
  then show ?thesis by simp
qed

lemma clear_last_quiet:
  assumes bl: "block ws s n" and f: "0 < fuel" and l: "l = (s + n - 1) div 64" "s < 64 * l"
  obtains (full) "s + n = 64 * l + 64" "clear_last fuel quiet (s + n) l (t, ws) = Inr (l, t, ws)"
  | (part) e where "0 < e" "e < 64" "s + n = 64 * l + e"
      "clear_last fuel quiet (s + n) l (t, ws) =
       Inr (l - 1, Suc (Suc t), and_word l (push_bit e (-1)) ws)"
proof (cases "(s + n) mod 64 = 0")
  case True
  moreover from this bl have "s + n = 64 * l + 64"
    unfolding l(1) by (intro pred_div_64_full) (auto simp: block_def)
  ultimately show ?thesis by (intro full) (auto simp: clear_last_def)
next
  case False
  define e where "e = (s + n) mod 64"
  let ?msk = "push_bit e (-1 :: u64)"
  have e: "s + n = 64 * l + e" "0 < e" "e < 64"
    using False unfolding l(1) pred_div_64 [OF False] by (simp_all add: e_def)
  have llen: "l < length ws" using bl e by (simp add: block_def units_def)
  have "clear_bits fuel quiet l ?msk 0 (t, ws) = Inr (Suc (Suc t), and_word l ?msk ws)"
  proof (rule clear_bits_quiet [OF llen f])
    fix i :: nat
    assume i: "i < 64" "\<not> bit ?msk i"
    then have r: "s \<le> 64 * l + i" "64 * l + i < s + n" "64 * l + i \<noteq> s"
      using l(2) e by auto
    show "bit (bitmap (ws ! l)) i" by (rule block_bits(1) [OF bl llen i(1) r(1,2)])
    show "bit (starts (ws ! l)) i \<longleftrightarrow> bit 0 i" using block_bits(2) [OF bl llen i(1) r(1,2)] r(3) by simp
  qed simp
  with e False show ?thesis by (intro part [of e]) (simp_all add: clear_last_def flip: e_def)
qed

lemma clear_first_quiet:
  assumes bl: "block ws s n" and s: "s = 64 * w + b" "b < 64" "64 < b + n" and f: "0 < fuel"
    and w: "w < length ws" "length ws2 = length ws" "ws2 ! w = ws ! w"
  shows "clear_bits fuel quiet w (NOT (push_bit b (-1))) (push_bit b 1) (t, ws2) =
    Inr (Suc (Suc t), and_word w (NOT (push_bit b (-1))) ws2)"
proof (rule clear_bits_quiet)
  let ?msk = "NOT (push_bit b (-1 :: u64))"
  fix i :: nat
  assume i: "i < 64"
  have msk: "bit ?msk i \<longleftrightarrow> i < b" using i by auto
  show "\<not> bit (push_bit b (1 :: u64)) i" if "bit ?msk i" using that unfolding msk by auto
  assume "\<not> bit ?msk i"
  then have r: "s \<le> 64 * w + i" "64 * w + i < s + n" unfolding msk using s i by auto
  note bb = block_bits [OF bl w(1) i r]
  show "bit (bitmap (ws2 ! w)) i" unfolding w(3) by (rule bb)
  show "bit (starts (ws2 ! w)) i \<longleftrightarrow> bit (push_bit b (1 :: u64)) i"
    unfolding w(3) bb(2) s(1) using i by auto
qed (use w f in auto)

lemma Deallocate_multi_word:
  assumes bl: "block ws s n" and s: "s = 64 * w + b" "b < 64" "64 < b + n" and f: "0 < fuel"
    and l: "l = (s + n - 1) div 64"
  shows "\<exists>t' ws'. rbind (clear_last fuel quiet (s + n) l (t, ws)) (\<lambda>(downFrom, st2).
      rbind (clear_words_down quiet w downFrom st2) (\<lambda>st3. rbind (shl64 (-1) b) (\<lambda>bits.
      clear_bits fuel quiet w (NOT bits) (push_bit b 1) st3))) = Inr (t', ws') \<and> cleared ws s n ws'"
proof -
  have wl: "w < l" unfolding l s(1) using s(2,3) by linarith
  have llen: "l < length ws" using bl unfolding l block_def units_def by linarith
  have wlen: "w < length ws" using wl llen by simp
  have "s < 64 * l" using s wl by simp
  obtain d t1 ws1 e where c1: "clear_last fuel quiet (s + n) l (t, ws) = Inr (d, t1, ws1)"
      "length ws1 = length ws" and e: "e \<le> 64" "s + n = 64 * l + e" "d = (if e = 64 then l else l - 1)"
    and b1: "\<And>k i. i < 64 \<Longrightarrow> (bit (bitmap (ws1 ! k)) i \<longleftrightarrow> bit (bitmap (ws ! k)) i \<and> (k = l \<and> d < l \<longrightarrow> e \<le> i)) \<and>
      (bit (starts (ws1 ! k)) i \<longleftrightarrow> bit (starts (ws ! k)) i \<and> (k = l \<and> d < l \<longrightarrow> e \<le> i))"
      and w1: "ws1 ! w = ws ! w"
  proof (cases rule: clear_last_quiet [OF bl f l \<open>s < 64 * l\<close>, of t, case_names full part])
    case full
    then show ?thesis using that [of l t ws 64] by simp
  next
    case (part e)
    then show ?thesis using wl llen
      by (intro that [of "l - 1" "Suc (Suc t)" "and_word l (push_bit e (-1)) ws" e])
        (auto simp: bit_and_word [OF llen])
  qed
  have dl: "w \<le> d" "d < length ws1" using c1(2) e(3) wl llen by (auto split: if_splits)
  obtain t2 ws2 where c2: "clear_words_down quiet w d (t1, ws1) = Inr (t2, ws2)" "length ws2 = length ws"
      and w2: "\<And>k. k < length ws \<Longrightarrow> ws2 ! k = (if w < k \<and> k \<le> d then empty_word else ws1 ! k)"
    using clear_words_down_quiet [OF dl, of t1] c1(2) by auto
  let ?msk = "NOT (push_bit b (-1 :: u64))"
  have w2len: "w < length ws2" using wlen c2(2) by simp
  have c3: "clear_bits fuel quiet w ?msk (push_bit b 1) (t2, ws2) = Inr (Suc (Suc t2), and_word w ?msk ws2)"
    using w2 [OF wlen] w1 wlen c2(2) by (intro clear_first_quiet [OF bl s f]) auto
  have range: "s \<le> 64 * k + i \<and> 64 * k + i < s + n \<longleftrightarrow>
      (w < k \<or> k = w \<and> b \<le> i) \<and> (k < l \<or> k = l \<and> i < e)" if "i < 64" for k i
  proof -
    have "64 * k + i < 64 * l + e \<longleftrightarrow> k < l \<or> k = l \<and> i < e"
      using that e(1) by (cases k l rule: linorder_cases) auto
    then show ?thesis unfolding s(1)
      using unit_le_iff [OF s(2) that, of w k] e(2) s(1) by auto
  qed
  have msk: "bit ?msk i \<longleftrightarrow> i < b" if "i < 64" for i using that by auto
  have "cleared ws s n (and_word w ?msk ws2)"
  proof (rule clearedI)
    fix k i :: nat
    assume k: "k < length ws" and i: "i < 64"
    have d: "k \<le> d \<longleftrightarrow> k < l \<or> k = l \<and> e = 64" "d < l \<longleftrightarrow> e \<noteq> 64" using e(3) wl by (auto split: if_splits)
    show "bit (bitmap (and_word w ?msk ws2 ! k)) i \<longleftrightarrow>
        bit (bitmap (ws ! k)) i \<and> \<not> (s \<le> 64 * k + i \<and> 64 * k + i < s + n)"
      unfolding bit_and_word [OF w2len] msk [OF i] range [OF i] w2 [OF k] d(1)
      using b1 [OF i, of k] e(1) i wl by (auto simp: empty_word_def d(2))
    show "bit (starts (and_word w ?msk ws2 ! k)) i \<longleftrightarrow>
        bit (starts (ws ! k)) i \<and> \<not> (s \<le> 64 * k + i \<and> 64 * k + i < s + n)"
      unfolding bit_and_word [OF w2len] msk [OF i] range [OF i] w2 [OF k] d(1)
      using b1 [OF i, of k] e(1) i wl by (auto simp: empty_word_def d(2))
  qed (simp add: c2(2))
  with c1(1) c2(1) c3 s(2) show ?thesis by simp
qed

lemma Deallocate_quiet:
  assumes ok: "pool_ok P ws" and P: "P \<le> 4294967232" and s: "s < P" "sbit ws s" and f: "0 < fuel"
  shows "\<exists>n t' ws'. Deallocate fuel quiet P s (t, ws) = Inr (t', ws') \<and> block ws s n \<and>
    cleared ws s n ws' \<and> pool_ok P ws'"
proof -
  have len: "length ws = WordCount P" using ok by (simp add: pool_ok_def)
  note u = units_WordCount [OF P len]
  obtain n t1 where n: "GetBlockSize quiet P s (t, ws) = Inr (n, t1, ws)" "block ws s n"
    using GetBlockSize_quiet [OF ok P s] by blast
  let ?w = "s div 64" and ?b = "s mod 64"
  have e: "s = 64 * ?w + ?b" by simp
  have n64: "s + n \<le> units ws" using n(2) by (simp add: block_def)
  have w: "?w < length ws" using s(1) u by (simp add: units_def)
  have "\<exists>t' ws'. Deallocate fuel quiet P s (t, ws) = Inr (t', ws') \<and> cleared ws s n ws'"
  proof (cases "?b + n \<le> 64")
    case True
    with dealloc_single_word [OF n(2) e _ True w f, of t1] n(1) s(1) show ?thesis
      by (simp add: Deallocate_def Let_def del: push_bit_of_1)
  next
    case False
    define l where "l = (s + n - 1) div 64"
    have "l < WordCount P" using n64 s(1) n(2) unfolding l_def units_def block_def len by linarith
    moreover have "sub32 (s + n) 1 div 64 = l" using n64 u(3) n(2) by (simp add: l_def block_def)
    moreover have "wrap32 (s + n) = s + n" "wrap32 (?b + n) = ?b + n"
      using n64 u(3) mod_less_eq_dividend [of s 64] by auto
    ultimately show ?thesis
      using Deallocate_multi_word [OF n(2) e _ _ f l_def, of t1] False n(1) s(1)
      by (simp add: Deallocate_def Let_def del: push_bit_of_1)
  qed
  moreover have "pool_ok P ws'" if "cleared ws s n ws'" for ws'
    by (rule pool_ok_cleared [OF ok n(2) s(1) u(1) that])
  ultimately show ?thesis using n(2) by blast
qed

lemma Deallocate_panics:
  shows "P \<le> s \<Longrightarrow> Deallocate fuel env P s st = Inl (Panic ''%s invalid deallocation start'')"
    and "\<lbrakk>pool_ok P ws; P \<le> 4294967232; s < P; \<not> sbit ws s\<rbrakk> \<Longrightarrow> Deallocate fuel quiet P s (t, ws) =
      Inl (Panic ''%s trying to get size of a block 0x%X that is not allocated'')"
proof -
  assume "P \<le> s"
  then show "Deallocate fuel env P s st = Inl (Panic ''%s invalid deallocation start'')"
    by (simp add: Deallocate_def)
next
  assume a: "pool_ok P ws" "P \<le> 4294967232" "s < P" "\<not> sbit ws s"
  then have len: "length ws = WordCount P" by (simp add: pool_ok_def)
  have "s div 64 < length ws" using units_WordCount(1) [OF a(2) len] a(3) by (simp add: units_def)
  moreover have "starts (ws ! (s div 64)) AND push_bit (s mod 64) 1 = 0"
    using a(4) by (simp add: sbit_def start_bit_set del: push_bit_of_1)
  ultimately show "Deallocate fuel quiet P s (t, ws) =
      Inl (Panic ''%s trying to get size of a block 0x%X that is not allocated'')"
    using a(3) by (simp add: Deallocate_def GetBlockSize_def del: push_bit_of_1)
qed

end
