(* ===== verification/Block_Interface.thy ===== *)
theory Block_Interface
  imports Pool_Blocks
begin

text \<open>
  The contract of the pool allocator towards its clients (the heap, and the tables of physical and
  virtual pages): an abstract map from block starts to block lengths, changed by one entry at a
  time. The locale \<open>block_allocator\<close> states the contract and proves what follows from it for any
  sequence of operations; \<open>block_map\<close> abstracts the two bitmaps and interprets it.
\<close>

section \<open>The interface\<close>

datatype pool_op = AllocOp nat nat | FreeOp nat

fun run_ops ::
    "(nat \<Rightarrow> nat \<Rightarrow> 'p \<Rightarrow> (nat \<times> 'p) res) \<Rightarrow> (nat \<Rightarrow> 'p \<Rightarrow> 'p res) \<Rightarrow> pool_op list \<Rightarrow> 'p \<Rightarrow> 'p res" where
  "run_ops alloc free [] p = Inr p"
| "run_ops alloc free (AllocOp n a # ops) p = rbind (alloc n a p) (\<lambda>(_, p'). run_ops alloc free ops p')"
| "run_ops alloc free (FreeOp s # ops) p = rbind (free s p) (run_ops alloc free ops)"

definition apart :: "nat \<Rightarrow> nat \<Rightarrow> nat \<Rightarrow> nat \<Rightarrow> bool" where
  "apart s n t m \<longleftrightarrow> s + n \<le> t \<or> t + m \<le> s"

locale block_allocator =
  fixes alloc :: "nat \<Rightarrow> nat \<Rightarrow> 'p \<Rightarrow> (nat \<times> 'p) res"
    and free :: "nat \<Rightarrow> 'p \<Rightarrow> 'p res"
    and size_of :: "nat \<Rightarrow> 'p \<Rightarrow> nat res"
    and blocks :: "'p \<Rightarrow> nat \<rightharpoonup> nat"
    and invar :: "'p \<Rightarrow> bool"
    and pool_size :: nat
  assumes alloc_spec: "\<lbrakk>invar p; 0 < n; n \<le> 4294967232; is_pow2 a; a \<le> 2147483648\<rbrakk> \<Longrightarrow>
      alloc n a p = Inr (UINT32_MAX, p) \<and>
        (\<forall>r. a dvd r \<and> r + n \<le> pool_size \<longrightarrow> (\<exists>s m. blocks p s = Some m \<and> \<not> apart r n s m)) \<or>
      (\<exists>r p'. alloc n a p = Inr (r, p') \<and> r \<noteq> UINT32_MAX \<and> a dvd r \<and> r + n \<le> pool_size \<and>
        (\<forall>s m. blocks p s = Some m \<longrightarrow> apart r n s m) \<and> invar p' \<and> blocks p' = (blocks p)(r \<mapsto> n))"
    and alloc_bad: "\<lbrakk>invar p; n = 0 \<or> \<not> is_pow2 a\<rbrakk> \<Longrightarrow> \<exists>e. alloc n a p = Inl e"
    and size_spec: "\<lbrakk>invar p; blocks p s = Some n\<rbrakk> \<Longrightarrow> size_of s p = Inr n"
    and free_spec: "\<lbrakk>invar p; blocks p s = Some n\<rbrakk> \<Longrightarrow>
      \<exists>p'. free s p = Inr p' \<and> invar p' \<and> blocks p' = (blocks p)(s := None)"
    and free_bad: "\<lbrakk>invar p; blocks p s = None\<rbrakk> \<Longrightarrow> \<exists>m. free s p = Inl (Panic m)"
    and blocks_pos: "\<lbrakk>invar p; blocks p s = Some n\<rbrakk> \<Longrightarrow> 0 < n \<and> s + n \<le> pool_size"
    and blocks_apart: "\<lbrakk>invar p; blocks p s = Some n; blocks p t = Some m; s \<noteq> t\<rbrakk> \<Longrightarrow> apart s n t m"
    and canonical: "\<lbrakk>invar p; invar q; blocks p = blocks q\<rbrakk> \<Longrightarrow> p = q"
begin

lemma alloc_fresh:
  assumes "invar p" and "0 < n" and "n \<le> 4294967232" and "is_pow2 a" and "a \<le> 2147483648"
    and "alloc n a p = Inr (r, p')" and "r \<noteq> UINT32_MAX"
  shows "a dvd r" and "r + n \<le> pool_size" and "invar p'" and "blocks p' = (blocks p)(r \<mapsto> n)"
    and "blocks p r = None" and "blocks p s = Some m \<Longrightarrow> apart r n s m"
proof -
  note spec = alloc_spec [OF assms(1-5)]
  show "a dvd r" "r + n \<le> pool_size" "invar p'" "blocks p' = (blocks p)(r \<mapsto> n)"
    and *: "blocks p s = Some m \<Longrightarrow> apart r n s m" for s m
    using spec assms(6,7) by auto
  show "blocks p r = None"
  proof (rule ccontr)
    assume "blocks p r \<noteq> None"
    then obtain m where "blocks p r = Some m" by auto
    with * [OF this] blocks_pos [OF assms(1) this] assms(2) show False by (simp add: apart_def)
  qed
qed

lemma free_after_alloc:
  assumes "invar p" and "0 < n" and "n \<le> 4294967232" and "is_pow2 a" and "a \<le> 2147483648"
    and "alloc n a p = Inr (r, p')" and "r \<noteq> UINT32_MAX"
  shows "size_of r p' = Inr n" and "free r p' = Inr p"
proof -
  note fresh = alloc_fresh [OF assms]
  then show "size_of r p' = Inr n" by (intro size_spec) auto
  obtain p'' where p'': "free r p' = Inr p''" "invar p''" "blocks p'' = (blocks p')(r := None)"
    using free_spec [of p' r n] fresh by auto
  then have "blocks p'' = blocks p" using fresh(4,5) by (simp add: fun_upd_idem)
  with p'' assms(1) show "free r p' = Inr p" using canonical by blast
qed

lemma double_free_panics:
  assumes "invar p" and "free s p = Inr p'"
  shows "\<exists>m. free s p' = Inl (Panic m)"
proof -
  from assms have "blocks p s \<noteq> None" using free_bad by fastforce
  then obtain n where "blocks p s = Some n" by auto
  with free_spec [OF assms(1) this] assms(2) have "invar p'" "blocks p' s = None" by auto
  then show ?thesis by (rule free_bad)
qed

lemma run_ops_invar:
  assumes "invar p" and "\<And>n a. AllocOp n a \<in> set ops \<Longrightarrow> n \<le> 4294967232 \<and> a \<le> 2147483648"
    and "run_ops alloc free ops p = Inr p'"
  shows "invar p'"
  using assms
proof (induction ops arbitrary: p)
  case Nil
  then show ?case by simp
next
  case (Cons x ops)
  show ?case
  proof (cases x)
    case (AllocOp n a)
    then obtain r p1 where r: "alloc n a p = Inr (r, p1)" "run_ops alloc free ops p1 = Inr p'"
      using Cons.prems(3) by (auto simp: rbind_eq_Inr)
    have ok: "0 < n" "is_pow2 a" using alloc_bad [OF Cons.prems(1), of n a] r(1) by fastforce+
    have bound: "n \<le> 4294967232" "a \<le> 2147483648" using Cons.prems(2) [of n a] AllocOp by auto
    have "invar p1"
      using alloc_spec [OF Cons.prems(1) ok(1) bound(1) ok(2) bound(2)] r(1) Cons.prems(1) by auto
    then show ?thesis using Cons.IH [OF _ _ r(2)] Cons.prems(2) by (meson list.set_intros(2))
  next
    case (FreeOp s)
    then obtain p1 where p1: "free s p = Inr p1" "run_ops alloc free ops p1 = Inr p'"
      using Cons.prems(3) by (auto simp: rbind_eq_Inr)
    have "blocks p s \<noteq> None" using free_bad [OF Cons.prems(1), of s] p1(1) by fastforce
    then have "invar p1" using free_spec [OF Cons.prems(1)] p1(1) by fastforce
    then show ?thesis using Cons.IH [OF _ _ p1(2)] Cons.prems(2) by (meson list.set_intros(2))
  qed
qed

lemma live_blocks_apart:
  assumes "invar p" and "\<And>n a. AllocOp n a \<in> set ops \<Longrightarrow> n \<le> 4294967232 \<and> a \<le> 2147483648"
    and "run_ops alloc free ops p = Inr p'" and "blocks p' s = Some n" and "blocks p' t = Some m"
    and "s \<noteq> t"
  shows "apart s n t m" and "s + n \<le> pool_size"
  using blocks_apart [OF run_ops_invar [OF assms(1-3)] assms(4-6)]
    blocks_pos [OF run_ops_invar [OF assms(1-3)] assms(4)] by auto

end

section \<open>The blocks of a pool\<close>

definition block_map :: "nat \<Rightarrow> pool \<Rightarrow> nat \<rightharpoonup> nat" where
  "block_map P ws s = (if s < P \<and> sbit ws s
     then Some (Suc (length (takeWhile (\<lambda>i. ubit ws i \<and> \<not> sbit ws i) [Suc s..<units ws]))) else None)"

lemma block_takeWhile:
  assumes "block ws s n"
  shows "n = Suc (length (takeWhile (\<lambda>i. ubit ws i \<and> \<not> sbit ws i) [Suc s..<units ws]))"
proof -
  have n: "0 < n" "s + n \<le> units ws" using assms by (auto simp: block_def)
  then have "[Suc s..<units ws] = [Suc s..<s + n] @ [s + n..<units ws]"
    using upt_add_eq_append [of "Suc s" "s + n" "units ws - (s + n)"] by simp
  moreover have "takeWhile (\<lambda>i. ubit ws i \<and> \<not> sbit ws i) ([Suc s..<s + n] @ [s + n..<units ws]) =
      [Suc s..<s + n] @ takeWhile (\<lambda>i. ubit ws i \<and> \<not> sbit ws i) [s + n..<units ws]"
    using assms by (intro takeWhile_append2) (auto simp: block_def)
  moreover have "takeWhile (\<lambda>i. ubit ws i \<and> \<not> sbit ws i) [s + n..<units ws] = []"
    using assms by (cases "s + n < units ws") (auto simp: block_def upt_conv_Cons)
  ultimately show ?thesis using n(1) by simp
qed

lemma block_exists:
  assumes "pool_ok P ws" and "P \<le> 4294967232" and "s < P" and "sbit ws s"
  obtains n where "block ws s n"
  using GetBlockSize_quiet [OF assms] by blast

lemma block_map_eq_Some:
  assumes "pool_ok P ws" and "P \<le> 4294967232"
  shows "block_map P ws s = Some n \<longleftrightarrow> s < P \<and> block ws s n"
proof
  assume a: "block_map P ws s = Some n"
  then have s: "s < P" "sbit ws s" by (auto simp: block_map_def split: if_splits)
  then obtain m where m: "block ws s m" using block_exists [OF assms] by blast
  with a s block_takeWhile [OF m] show "s < P \<and> block ws s n" by (simp add: block_map_def)
next
  assume b: "s < P \<and> block ws s n"
  then have "sbit ws s" by (simp add: block_def)
  with b block_takeWhile [of ws s n] show "block_map P ws s = Some n" by (simp add: block_map_def)
qed

lemma block_map_None: "block_map P ws s = None \<longleftrightarrow> \<not> (s < P \<and> sbit ws s)"
  by (simp add: block_map_def)

lemma block_map_new: "\<lbrakk>P mod 64 = 0; P \<le> 4294967232\<rbrakk> \<Longrightarrow> block_map P (PoolAllocator P) s = None"
proof -
  assume P: "P mod 64 = 0" "P \<le> 4294967232"
  have "s div 64 < WordCount P" if "s < P" using that P(2) by (simp add: WordCount_def)
  then have "s < P \<Longrightarrow> \<not> sbit (PoolAllocator P) s"
    using P by (simp add: sbit_def PoolAllocator_def empty_word_def)
  then show ?thesis by (simp add: block_map_None)
qed

lemma blocks_disjoint: "\<lbrakk>block ws s n; block ws t m; s \<noteq> t\<rbrakk> \<Longrightarrow> apart s n t m"
  unfolding block_def apart_def by (metis linorder_neqE_nat not_less)

lemma block_below:
  assumes "pool_ok P ws" and "P \<le> 4294967232" and "s < P" and "block ws s n"
  shows "s + n \<le> P"
proof (rule ccontr)
  assume "\<not> s + n \<le> P"
  then have "\<not> sbit ws P" "P < units ws" using assms(3,4) by (auto simp: block_def)
  then show False using assms(1) by (simp add: pool_ok_def)
qed

lemma ubit_in_block:
  assumes ok: "pool_ok P ws" and P: "P \<le> 4294967232"
  shows "i < P \<Longrightarrow> ubit ws i \<longleftrightarrow> (\<exists>s n. s < P \<and> block ws s n \<and> s \<le> i \<and> i < s + n)"
proof (induction i rule: less_induct)
  case (less i)
  have iu: "i < units ws" using less.prems units_WordCount(1) [OF P] ok by (force simp: pool_ok_def)
  show ?case
  proof
    assume u: "ubit ws i"
    show "\<exists>s n. s < P \<and> block ws s n \<and> s \<le> i \<and> i < s + n"
    proof (cases "sbit ws i")
      case True
      with block_exists [OF ok P less.prems] obtain n where "block ws i n" by blast
      moreover from this have "0 < n" by (simp add: block_def)
      ultimately show ?thesis using less.prems by (intro exI [of _ i] exI [of _ n]) simp
    next
      case False
      then have "0 < i" "ubit ws (i - 1)" using ok u iu by (auto simp: pool_ok_def)
      with less.IH [of "i - 1"] less.prems obtain s n
        where b: "s < P" "block ws s n" "s \<le> i - 1" "i - 1 < s + n" by auto
      have "i < s + n"
      proof (rule ccontr)
        assume "\<not> i < s + n"
        then have "i = s + n" using b(4) by simp
        with b(2) iu u False show False by (auto simp: block_def)
      qed
      with b show ?thesis by (metis diff_le_self le_trans)
    qed
  next
    assume "\<exists>s n. s < P \<and> block ws s n \<and> s \<le> i \<and> i < s + n"
    then obtain s n where "block ws s n" "s \<le> i" "i < s + n" by blast
    then show "ubit ws i" by (cases "i = s") (auto simp: block_def)
  qed
qed

lemma pool_canonical:
  assumes "pool_ok P ws" and "pool_ok P vs" and P: "P \<le> 4294967232" and eq: "block_map P ws = block_map P vs"
  shows "ws = vs"
proof (rule pool_eqI)
  show len: "length ws = length vs" using assms by (simp add: pool_ok_def)
  fix i
  assume i: "i < units ws"
  then have iv: "i < units vs" using len by (simp add: units_def)
  have b: "s < P \<and> block ws s n \<longleftrightarrow> s < P \<and> block vs s n" for s n
    using block_map_eq_Some [OF assms(1) P] block_map_eq_Some [OF assms(2) P] eq by metis
  show "ubit ws i = ubit vs i"
  proof (cases "i < P")
    case True
    show ?thesis
      unfolding ubit_in_block [OF assms(1) P True] ubit_in_block [OF assms(2) P True] using b by blast
  next
    case False
    then show ?thesis using assms(1,2) i iv by (simp add: pool_ok_def)
  qed
  show "sbit ws i = sbit vs i"
  proof (cases "i < P")
    case True
    then show ?thesis using eq block_map_None [of P ws i] block_map_None [of P vs i] by metis
  next
    case False
    then show ?thesis using assms(1,2) i iv by (simp add: pool_ok_def)
  qed
qed

lemma block_marked:
  assumes m: "marked ws r n ws'" and free: "\<And>i. \<lbrakk>r \<le> i; i < r + n\<rbrakk> \<Longrightarrow> \<not> ubit ws i"
    and b: "block ws s m" and "0 < n"
  shows "block ws' s m"
proof -
  have len: "units ws' = units ws" using m by (simp add: marked_def units_def)
  have bits: "ubit ws' i \<longleftrightarrow> ubit ws i \<or> r \<le> i \<and> i < r + n" "sbit ws' i \<longleftrightarrow> sbit ws i \<or> i = r"
    if "i < units ws" for i using m that by (simp_all add: marked_def)
  have used: "ubit ws i" if "s \<le> i" "i < s + m" for i using b that by (cases "i = s") (auto simp: block_def)
  have top: "0 < m" "s + m \<le> units ws" using b by (simp_all add: block_def)
  show ?thesis
    unfolding block_def len
  proof (intro conjI allI impI)
    fix i
    assume i: "s < i \<and> i < s + m"
    have "i \<noteq> r" using i used [of i] free [of i] \<open>0 < n\<close> by auto
    with i b bits [of i] top show "ubit ws' i" "\<not> sbit ws' i" by (auto simp: block_def)
  next
    assume e: "s + m < units ws" "ubit ws' (s + m)"
    show "sbit ws' (s + m)"
    proof (cases "ubit ws (s + m)")
      case True
      with b e bits show ?thesis by (simp add: block_def)
    next
      case False
      with e bits have "r \<le> s + m" "s + m < r + n" by auto
      moreover have "ubit ws (s + m - 1)" by (rule used) (use top in auto)
      ultimately have "\<not> r \<le> s + m - 1" using free [of "s + m - 1"] by (metis le_eq_less_or_eq less_imp_diff_less)
      with \<open>r \<le> s + m\<close> have "s + m = r" by simp
      then show ?thesis using bits(2) [OF e(1)] by simp
    qed
  qed (use b bits top in \<open>auto simp: block_def\<close>)
qed

lemma block_cleared:
  assumes c: "cleared ws s n ws'" and b: "block ws s n" "block ws t m" "t \<noteq> s"
  shows "block ws' t m"
proof -
  have len: "units ws' = units ws" using c by (simp add: cleared_def units_def)
  have bits: "ubit ws' i \<longleftrightarrow> ubit ws i \<and> \<not> (s \<le> i \<and> i < s + n)"
    "sbit ws' i \<longleftrightarrow> sbit ws i \<and> \<not> (s \<le> i \<and> i < s + n)"
    if "i < units ws" for i using c that by (simp_all add: cleared_def)
  have out: "\<not> (s \<le> i \<and> i < s + n)" if "t \<le> i" "i < t + m" for i
    using blocks_disjoint [OF b(1,2)] b(3) that by (auto simp: apart_def)
  have top: "0 < m" "t + m \<le> units ws" using b(2) by (simp_all add: block_def)
  show ?thesis
    unfolding block_def len
  proof (intro conjI allI impI)
    fix i
    assume i: "t < i \<and> i < t + m"
    with bits [of i] out [of i] b(2) top show "ubit ws' i" "\<not> sbit ws' i" by (auto simp: block_def)
  next
    assume e: "t + m < units ws" "ubit ws' (t + m)"
    then have "ubit ws (t + m)" "\<not> (s \<le> t + m \<and> t + m < s + n)" using bits(1) [OF e(1)] by auto
    with b(2) e(1) bits(2) [OF e(1)] show "sbit ws' (t + m)" by (simp add: block_def)
  qed (use b(2) bits [of t] out [of t] top in \<open>auto simp: block_def\<close>)
qed

section \<open>The pool implements the interface\<close>

definition pool_invar :: "nat \<Rightarrow> pool \<Rightarrow> bool" where
  "pool_invar P ws \<longleftrightarrow> P \<le> 4294967232 \<and> pool_ok P ws"

definition pool_alloc :: "nat \<Rightarrow> nat \<Rightarrow> nat \<Rightarrow> pool \<Rightarrow> (nat \<times> pool) res" where
  "pool_alloc P n a ws =
     rbind (Allocate (Suc (WordCount P)) quiet P n a (0, ws)) (\<lambda>(r, st). Inr (r, snd st))"

definition pool_free :: "nat \<Rightarrow> nat \<Rightarrow> pool \<Rightarrow> pool res" where
  "pool_free P s ws = rbind (Deallocate 1 quiet P s (0, ws)) (\<lambda>st. Inr (snd st))"

definition pool_size_of :: "nat \<Rightarrow> nat \<Rightarrow> pool \<Rightarrow> nat res" where
  "pool_size_of P s ws = rbind (GetBlockSize quiet P s (0, ws)) (\<lambda>(n, st). Inr n)"

lemma pool_invar_new: "P \<le> 4294967232 \<Longrightarrow> pool_invar P (PoolAllocator P)"
  by (simp add: pool_invar_def pool_ok_new)

lemma not_fits_block:
  assumes inv: "pool_invar P ws" and n: "\<not> fits ws n a r" "a dvd r" "r + n \<le> P"
  shows "\<exists>s m. block_map P ws s = Some m \<and> \<not> apart r n s m"
proof -
  have ok: "pool_ok P ws" "P \<le> 4294967232" using inv by (simp_all add: pool_invar_def)
  have "P \<le> units ws" using units_WordCount(1) [OF ok(2)] ok(1) by (simp add: pool_ok_def)
  with n obtain i where i: "i < n" "ubit ws (r + i)" by (auto simp: fits_def)
  then obtain s m where "s < P" "block ws s m" "s \<le> r + i" "r + i < s + m"
    using ubit_in_block [OF ok, of "r + i"] n(3) by auto
  then show ?thesis using i(1) block_map_eq_Some [OF ok, of s m]
    by (intro exI [of _ s] exI [of _ m]) (auto simp: apart_def)
qed

lemma pool_alloc_spec:
  assumes inv: "pool_invar P ws" and n: "0 < n" "n \<le> 4294967232" and a: "is_pow2 a" "a \<le> 2147483648"
  shows "pool_alloc P n a ws = Inr (UINT32_MAX, ws) \<and>
        (\<forall>r. a dvd r \<and> r + n \<le> P \<longrightarrow> (\<exists>s m. block_map P ws s = Some m \<and> \<not> apart r n s m)) \<or>
      (\<exists>r ws'. pool_alloc P n a ws = Inr (r, ws') \<and> r \<noteq> UINT32_MAX \<and> a dvd r \<and> r + n \<le> P \<and>
        (\<forall>s m. block_map P ws s = Some m \<longrightarrow> apart r n s m) \<and> pool_invar P ws' \<and>
        block_map P ws' = (block_map P ws)(r \<mapsto> n))"
proof -
  have ok: "pool_ok P ws" "P \<le> 4294967232" using inv by (simp_all add: pool_invar_def)
  obtain r t ws' where r: "Allocate (Suc (WordCount P)) quiet P n a (0, ws) = Inr (r, t, ws')"
      "alloc_result ws n a r ws'"
    using Allocate_quiet [OF a n _ ok(2), of ws "Suc (WordCount P)" 0] ok(1) by (auto simp: pool_ok_def)
  have pa: "pool_alloc P n a ws = Inr (r, ws')" by (simp add: pool_alloc_def r(1))
  show ?thesis
  proof (cases "r = UINT32_MAX")
    case True
    with r(2) have "ws' = ws" "\<And>p. \<not> fits ws n a p" by (auto simp: alloc_result_def)
    then show ?thesis using pa True not_fits_block [OF inv] by blast
  next
    case False
    with r(2) have fit: "fits ws n a r" and m: "marked ws r n ws'" by (auto simp: alloc_result_def)
    note ok' = pool_ok_marked [OF ok fit n(1) m]
    have free: "\<not> ubit ws i" if "r \<le> i" "i < r + n" for i
      using fit that by (metis fits_def le_add_diff_inverse nat_add_left_cancel_less)
    have ap: "apart r n s k" if "block_map P ws s = Some k" for s k
    proof -
      have b: "block ws s k" using that block_map_eq_Some [OF ok] by simp
      then have "ubit ws i" if "s \<le> i" "i < s + k" for i using that by (cases "i = s") (auto simp: block_def)
      moreover have "\<exists>i. r \<le> i \<and> i < r + n \<and> s \<le> i \<and> i < s + k" if "\<not> apart r n s k"
        using that b n(1) by (intro exI [of _ "max r s"]) (auto simp: apart_def block_def)
      ultimately show ?thesis using free by blast
    qed
    have "block_map P ws' s = ((block_map P ws)(r \<mapsto> n)) s" for s
    proof (cases "s = r")
      case True
      then show ?thesis using ok' n(1) block_map_eq_Some [OF ok'(1) ok(2), of r n] by simp
    next
      case False
      show ?thesis
      proof (cases "block_map P ws s")
        case None
        then have "s < P \<Longrightarrow> \<not> sbit ws' s"
          using False m units_WordCount(1) [OF ok(2)] ok(1) unfolding marked_def pool_ok_def block_map_None
          by (metis order_less_le_trans)
        then show ?thesis using None False by (simp add: block_map_def)
      next
        case (Some k)
        then have "s < P" "block ws' s k"
          using block_marked [OF m free _ n(1)] block_map_eq_Some [OF ok] by auto
        then show ?thesis using Some False block_map_eq_Some [OF ok'(1) ok(2), of s k] by simp
      qed
    qed
    then show ?thesis using pa False fit ok' ok(2) ap
      by (intro disjI2 exI [of _ r] exI [of _ ws']) (auto simp: pool_invar_def fits_def)
  qed
qed

lemma pool_free_spec:
  assumes inv: "pool_invar P ws" and s: "block_map P ws s = Some n"
  shows "\<exists>ws'. pool_free P s ws = Inr ws' \<and> pool_invar P ws' \<and> block_map P ws' = (block_map P ws)(s := None)"
proof -
  have ok: "pool_ok P ws" "P \<le> 4294967232" using inv by (simp_all add: pool_invar_def)
  have b: "s < P" "block ws s n" using s block_map_eq_Some [OF ok] by auto
  then have "sbit ws s" by (simp add: block_def)
  then obtain m t ws' where d: "Deallocate 1 quiet P s (0, ws) = Inr (t, ws')" "block ws s m"
      "cleared ws s m ws'" "pool_ok P ws'"
    using Deallocate_quiet [OF ok b(1), of 1 0] by auto
  have c: "cleared ws s n ws'" using d block_unique [OF b(2) d(2)] by simp
  have "block_map P ws' x = ((block_map P ws)(s := None)) x" for x
  proof (cases "x < P")
    case False
    then show ?thesis by (simp add: block_map_def)
  next
    case True
    have xu: "x < units ws" using True units_WordCount(1) [OF ok(2)] ok(1) by (force simp: pool_ok_def)
    show ?thesis
    proof (cases "block_map P ws x")
      case None
      then have "\<not> sbit ws x" using True by (simp add: block_map_None)
      then have "block_map P ws' x = None" using c xu by (simp add: cleared_def block_map_None)
      with None show ?thesis by simp
    next
      case (Some k)
      show ?thesis
      proof (cases "x = s")
        case True
        then show ?thesis using c xu b(2) by (simp add: cleared_def block_map_def block_def)
      next
        case False
        have "block ws' x k" using block_cleared [OF c b(2) _ False] Some block_map_eq_Some [OF ok] by simp
        then show ?thesis using Some False True block_map_eq_Some [OF d(4) ok(2), of x k] by simp
      qed
    qed
  qed
  with d(1,4) ok(2) show ?thesis by (auto simp: pool_free_def pool_invar_def)
qed

interpretation pool: block_allocator "pool_alloc P" "pool_free P" "pool_size_of P" "block_map P" "pool_invar P" P
  for P
proof
  fix ws and n a :: nat
  assume inv: "pool_invar P ws" and n: "0 < n" "n \<le> 4294967232" and a: "is_pow2 a" "a \<le> 2147483648"
  show "pool_alloc P n a ws = Inr (UINT32_MAX, ws) \<and>
        (\<forall>r. a dvd r \<and> r + n \<le> P \<longrightarrow> (\<exists>s m. block_map P ws s = Some m \<and> \<not> apart r n s m)) \<or>
      (\<exists>r ws'. pool_alloc P n a ws = Inr (r, ws') \<and> r \<noteq> UINT32_MAX \<and> a dvd r \<and> r + n \<le> P \<and>
        (\<forall>s m. block_map P ws s = Some m \<longrightarrow> apart r n s m) \<and> pool_invar P ws' \<and>
        block_map P ws' = (block_map P ws)(r \<mapsto> n))"
    by (rule pool_alloc_spec [OF inv n a])
next
  fix ws and n a :: nat
  assume "pool_invar P ws" and "n = 0 \<or> \<not> is_pow2 a"
  then consider "n = 0" | "0 < n" "a = 0" | "0 < n" "0 < a" "\<not> is_pow2 a" by auto
  then show "\<exists>e. pool_alloc P n a ws = Inl e"
    by cases (simp_all add: pool_alloc_def Allocate_panics)
next
  fix ws s n
  assume inv: "pool_invar P ws" and s: "block_map P ws s = Some n"
  have ok: "pool_ok P ws" "P \<le> 4294967232" using inv by (simp_all add: pool_invar_def)
  have b: "s < P" "block ws s n" using s block_map_eq_Some [OF ok] by auto
  then have "sbit ws s" by (simp add: block_def)
  then obtain m t where m: "GetBlockSize quiet P s (0, ws) = Inr (m, t, ws)" "block ws s m"
    using GetBlockSize_quiet [OF ok b(1), of 0] by auto
  with block_unique [OF m(2) b(2)] show "pool_size_of P s ws = Inr n" by (simp add: pool_size_of_def)
  show "\<exists>ws'. pool_free P s ws = Inr ws' \<and> pool_invar P ws' \<and> block_map P ws' = (block_map P ws)(s := None)"
    by (rule pool_free_spec [OF inv s])
  show "0 < n \<and> s + n \<le> P" using block_below [OF ok b] b(2) by (simp add: block_def)
  fix t m
  assume "block_map P ws t = Some m" "s \<noteq> t"
  then show "apart s n t m" using blocks_disjoint [OF b(2)] block_map_eq_Some [OF ok] by simp
next
  fix ws s
  assume inv: "pool_invar P ws" and s: "block_map P ws s = None"
  have ok: "pool_ok P ws" "P \<le> 4294967232" using inv by (simp_all add: pool_invar_def)
  show "\<exists>m. pool_free P s ws = Inl (Panic m)"
    using Deallocate_panics(1) [of P s] Deallocate_panics(2) [OF ok, of s] s
    by (cases "P \<le> s") (auto simp: pool_free_def block_map_None)
next
  fix ws vs
  assume "pool_invar P ws" "pool_invar P vs" "block_map P ws = block_map P vs"
  then show "ws = vs" unfolding pool_invar_def by (blast intro: pool_canonical)
qed

end
