(* ===== verification/Heap.thy ===== *)
theory Heap
  imports Block_Interface
begin

text \<open>
  The heap of \<^verbatim>\<open>src/Heap.cpp\<close>: up to 256 blocks of 64 KB, each carved into 16-byte units by a pool
  allocator of its own. Pages for a new block come from a page provider (\<^verbatim>\<open>Mmu\<close> in the kernel),
  which is a parameter of the operations; the locale \<open>page_provider\<close> states what the heap relies on.
  The operations are those of one core: the exchanges on \<^verbatim>\<open>Memory\<close> and \<^verbatim>\<open>BlockCount\<close> see the value
  that was just loaded. A null heap pointer is \<open>None\<close>, a null data pointer the address 0.
\<close>

section \<open>State and operations\<close>

definition PagesPerBlock :: nat where "PagesPerBlock = 16"
definition BlockSize :: nat where "BlockSize = 4096 * PagesPerBlock"
definition AllocationGranularity :: nat where "AllocationGranularity = 16"
definition AllocationsPerBlock :: nat where "AllocationsPerBlock = BlockSize div AllocationGranularity"
definition MaxBlocks :: nat where "MaxBlocks = 256"

lemmas heap_consts [simp] =
  PagesPerBlock_def BlockSize_def AllocationGranularity_def AllocationsPerBlock_def MaxBlocks_def

record heap_block =
  Memory :: nat
  Allocator :: pool

record heap =
  Blocks :: "heap_block list"
  BlockCount :: nat
  AllocationHint :: nat

type_synonym 'm page_source = "nat \<Rightarrow> 'm \<Rightarrow> (nat \<times> 'm) res"

definition wrap64 :: "nat \<Rightarrow> nat" where
  "wrap64 n = n mod 18446744073709551616"

lemma wrap64_id [simp]: "n < 18446744073709551616 \<Longrightarrow> wrap64 n = n"
  by (simp add: wrap64_def)

definition AllocateAndCommitBlockIfNeeded ::
    "'m page_source \<Rightarrow> heap_block \<Rightarrow> 'm \<Rightarrow> (nat \<times> heap_block \<times> 'm) res" where
  "AllocateAndCommitBlockIfNeeded pages b m =
     (if Memory b \<noteq> 0 then Inr (Memory b, b, m)
      else rbind (pages PagesPerBlock m) (\<lambda>(newMemory, m1).
        if newMemory = 0 then Inr (0, b, m1) else Inr (newMemory, b\<lparr>Memory := newMemory\<rparr>, m1)))"

definition AllocateInBlock ::
    "'m page_source \<Rightarrow> heap_block \<Rightarrow> nat \<Rightarrow> nat \<Rightarrow> 'm \<Rightarrow> (nat \<times> heap_block \<times> 'm) res" where
  "AllocateInBlock pages b sizeInUnits alignmentInUnits m =
     rbind (AllocateAndCommitBlockIfNeeded pages b m) (\<lambda>(memory, b1, m1).
     if memory = 0 then Inr (0, b1, m1)
     else rbind (pool_alloc AllocationsPerBlock sizeInUnits alignmentInUnits (Allocator b1))
       (\<lambda>(allocationIndex, ws).
       let b2 = b1\<lparr>Allocator := ws\<rparr> in
       if allocationIndex = UINT32_MAX then Inr (0, b2, m1)
       else Inr (wrap64 (Memory b1 + wrap32 (allocationIndex * AllocationGranularity)), b2, m1)))"

definition new_heap :: heap where
  "new_heap = \<lparr>Blocks = replicate MaxBlocks \<lparr>Memory = 0, Allocator = PoolAllocator AllocationsPerBlock\<rparr>,
     BlockCount = 0, AllocationHint = 0\<rparr>"

text \<open>\<^verbatim>\<open>sizeof(Heap)\<close>: 256 blocks of a pointer (padded to 16 bytes) and 64 words of 16 bytes, two counters.\<close>

definition sizeof_Heap :: nat where
  "sizeof_Heap = MaxBlocks * (16 + 16 * (AllocationsPerBlock div 64)) + 16"

definition CreateHeap :: "'m page_source \<Rightarrow> 'm \<Rightarrow> (heap option \<times> 'm) res" where
  "CreateHeap pages m =
     rbind (pages ((sizeof_Heap + 4096 - 1) div 4096) m) (\<lambda>(heapMemory, m1).
       if heapMemory = 0 then Inr (None, m1) else Inr (Some new_heap, m1))"

text \<open>
  The inner loop of \<^verbatim>\<open>AllocateAligned\<close>: at most \<open>n\<close> attempts, from the block at \<open>blockIndex\<close> on and
  around at \<open>blockCount\<close>. The first component is 0 when no attempt succeeded.
\<close>

fun try_blocks ::
    "'m page_source \<Rightarrow> nat \<Rightarrow> nat \<Rightarrow> nat \<Rightarrow> nat \<Rightarrow> nat \<Rightarrow> heap \<Rightarrow> 'm \<Rightarrow> (nat \<times> nat \<times> heap \<times> 'm) res" where
  "try_blocks pages 0 blockCount blockIndex unitsNeeded alignmentUnits h m = Inr (0, blockIndex, h, m)"
| "try_blocks pages (Suc n) blockCount blockIndex unitsNeeded alignmentUnits h m =
     (if length (Blocks h) \<le> blockIndex then Inl (Undefined ''heap->Blocks[blockIndex]'')
      else let next = (if blockCount \<le> blockIndex + 1 then 0 else blockIndex + 1) in
        rbind (AllocateInBlock pages (Blocks h ! blockIndex) unitsNeeded alignmentUnits m) (\<lambda>(result, b, m1).
          let h1 = h\<lparr>Blocks := (Blocks h)[blockIndex := b]\<rparr> in
          if result \<noteq> 0 then Inr (result, next, h1\<lparr>AllocationHint := next\<rparr>, m1)
          else try_blocks pages n blockCount next unitsNeeded alignmentUnits h1 m1))"

fun alloc_blocks ::
    "nat \<Rightarrow> 'm page_source \<Rightarrow> nat \<Rightarrow> nat \<Rightarrow> nat \<Rightarrow> nat \<Rightarrow> heap \<Rightarrow> 'm \<Rightarrow> (nat \<times> heap \<times> 'm) res" where
  "alloc_blocks 0 pages blockCount blockIndex unitsNeeded alignmentUnits h m = Inl Diverges"
| "alloc_blocks (Suc fuel) pages blockCount blockIndex unitsNeeded alignmentUnits h m =
     (if blockIndex < MaxBlocks then
        rbind (try_blocks pages (BlockCount h) blockCount blockIndex unitsNeeded alignmentUnits h m)
          (\<lambda>(result, blockIndex1, h1, m1).
          if result \<noteq> 0 then Inr (result, h1, m1)
          else if MaxBlocks \<le> blockCount then Inl (Panic ''Heap::AllocateAligned: no space available'')
          else if BlockCount h1 = blockCount
          then alloc_blocks fuel pages blockCount blockCount unitsNeeded alignmentUnits
                 (h1\<lparr>BlockCount := blockCount + 1\<rparr>) m1
          else alloc_blocks fuel pages (BlockCount h1) blockCount unitsNeeded alignmentUnits h1 m1)
      else Inl (Panic ''Heap::AllocateAligned: no space available after trying all blocks''))"

definition units_needed :: "nat \<Rightarrow> nat" where
  "units_needed sz = wrap32 (wrap64 (sz + AllocationGranularity - 1) div AllocationGranularity)"

text \<open>
  The first block tried is \<^verbatim>\<open>AllocationHint % blockCount\<close>. In a new heap the divisor is 0; the
  target's remainder is then the hint itself, which is also what \<open>mod\<close> gives.
\<close>

definition AllocateAligned ::
    "nat \<Rightarrow> 'm page_source \<Rightarrow> heap option \<Rightarrow> nat \<Rightarrow> nat \<Rightarrow> 'm \<Rightarrow> (nat \<times> heap \<times> 'm) res" where
  "AllocateAligned fuel pages heap sz alignment m =
     (case heap of None \<Rightarrow> Inl (Panic ''Heap::AllocateAligned: invalid parameters'')
      | Some h \<Rightarrow>
        if sz = 0 \<or> alignment = 0 then Inl (Panic ''Heap::AllocateAligned: invalid parameters'')
        else let unitsNeeded = units_needed sz; alignmentUnits = units_needed alignment in
        if AllocationsPerBlock < unitsNeeded
        then Inl (Panic ''Heap::AllocateAligned: size %zu exceeds maximum allocation size of %zu'')
        else alloc_blocks fuel pages (BlockCount h) (AllocationHint h mod BlockCount h)
               unitsNeeded alignmentUnits h m)"

definition Heap_Allocate ::
    "nat \<Rightarrow> 'm page_source \<Rightarrow> heap option \<Rightarrow> nat \<Rightarrow> 'm \<Rightarrow> (nat \<times> heap \<times> 'm) res" where
  "Heap_Allocate fuel pages heap sz m = AllocateAligned fuel pages heap sz AllocationGranularity m"

function dealloc_blocks :: "nat \<Rightarrow> nat \<Rightarrow> heap \<Rightarrow> heap res" where
  "dealloc_blocks ptr blockIndex h =
     (if BlockCount h \<le> blockIndex then Inl (Panic ''Heap::Deallocate: invalid pointer %p'')
      else if length (Blocks h) \<le> blockIndex then Inl (Undefined ''heap->Blocks[blockIndex]'')
      else let b = Blocks h ! blockIndex in
        if Memory b \<noteq> 0 \<and> Memory b \<le> ptr \<and> ptr < wrap64 (Memory b + BlockSize)
        then rbind (pool_free AllocationsPerBlock (wrap32 ((ptr - Memory b) div AllocationGranularity)) (Allocator b))
          (\<lambda>ws. Inr (h\<lparr>Blocks := (Blocks h)[blockIndex := b\<lparr>Allocator := ws\<rparr>]\<rparr>))
        else dealloc_blocks ptr (blockIndex + 1) h)"
  by pat_completeness auto
termination
  by (relation "measure (\<lambda>(ptr, i, h). BlockCount h - i)") auto

declare dealloc_blocks.simps [simp del]

definition Heap_Deallocate :: "heap option \<Rightarrow> nat \<Rightarrow> heap option res" where
  "Heap_Deallocate heap ptr =
     (case heap of None \<Rightarrow> Inr None
      | Some h \<Rightarrow> if ptr = 0 then Inr (Some h)
                  else rbind (dealloc_blocks ptr 0 h) (\<lambda>h'. Inr (Some h')))"

definition GetTotalSize :: "heap option \<Rightarrow> nat" where
  "GetTotalSize heap = (case heap of None \<Rightarrow> 0 | Some h \<Rightarrow> wrap32 (BlockCount h * BlockSize))"

definition GetFreeSize :: "heap option \<Rightarrow> nat" where
  "GetFreeSize heap = (case heap of None \<Rightarrow> 0
     | Some h \<Rightarrow> sum_list (map (\<lambda>b. if Memory b \<noteq> 0 then BlockSize else 0) (take (BlockCount h) (Blocks h))))"

definition GetUsedSize :: "heap option \<Rightarrow> nat" where
  "GetUsedSize heap = wrap64 (GetTotalSize heap + 18446744073709551616 - GetFreeSize heap)"

definition GetLargestFreeBlock :: "heap option \<Rightarrow> nat" where
  "GetLargestFreeBlock heap = (case heap of None \<Rightarrow> 0 | Some h \<Rightarrow> AllocationGranularity)"

definition ValidateHeap :: "heap option \<Rightarrow> bool" where
  "ValidateHeap heap = (case heap of None \<Rightarrow> False | Some h \<Rightarrow> BlockCount h \<le> MaxBlocks)"

section \<open>Live allocations and the invariant\<close>

definition live_in :: "heap_block \<Rightarrow> nat \<Rightarrow> nat \<Rightarrow> bool" where
  "live_in b p n \<longleftrightarrow> (\<exists>s. block_map 4096 (Allocator b) s = Some n \<and> p = Memory b + 16 * s)"

definition live :: "heap \<Rightarrow> nat \<Rightarrow> nat \<Rightarrow> bool" where
  "live h p n \<longleftrightarrow> (\<exists>i<BlockCount h. live_in (Blocks h ! i) p n)"

definition block_ok :: "(nat \<times> nat) set \<Rightarrow> heap_block \<Rightarrow> bool" where
  "block_ok own b \<longleftrightarrow> Memory b \<noteq> 0 \<and> 4096 dvd Memory b \<and> Memory b + 65536 < 18446744073709551616 \<and>
     (Memory b, 65536) \<in> own \<and> pool_invar 4096 (Allocator b)"

definition heap_ok :: "(nat \<times> nat) set \<Rightarrow> heap \<Rightarrow> bool" where
  "heap_ok own h \<longleftrightarrow> length (Blocks h) = 256 \<and> BlockCount h \<le> 256 \<and>
     (BlockCount h = 0 \<longrightarrow> AllocationHint h = 0) \<and>
     (\<forall>i<BlockCount h. block_ok own (Blocks h ! i)) \<and>
     (\<forall>i<256. BlockCount h \<le> i \<longrightarrow> Blocks h ! i = \<lparr>Memory = 0, Allocator = PoolAllocator 4096\<rparr>) \<and>
     (\<forall>i<BlockCount h. \<forall>j<BlockCount h. i \<noteq> j \<longrightarrow>
       apart (Memory (Blocks h ! i)) 65536 (Memory (Blocks h ! j)) 65536)"

text \<open>No aligned run of \<open>n\<close> free units is left in the block.\<close>

definition exhausted :: "heap_block \<Rightarrow> nat \<Rightarrow> nat \<Rightarrow> bool" where
  "exhausted b n a \<longleftrightarrow> (\<forall>r. a dvd r \<and> r + n \<le> 4096 \<longrightarrow>
     (\<exists>s m. block_map 4096 (Allocator b) s = Some m \<and> \<not> apart r n s m))"

definition fresh_in :: "heap_block \<Rightarrow> nat \<Rightarrow> nat \<Rightarrow> nat \<Rightarrow> pool \<Rightarrow> bool" where
  "fresh_in b n a s ws \<longleftrightarrow> a dvd s \<and> s + n \<le> 4096 \<and> pool_invar 4096 ws \<and>
     block_map 4096 ws = (block_map 4096 (Allocator b))(s \<mapsto> n) \<and> block_map 4096 (Allocator b) s = None \<and>
     (\<forall>t k. block_map 4096 (Allocator b) t = Some k \<longrightarrow> apart s n t k)"

lemma heap_ok_new: "heap_ok own new_heap"
  by (simp add: heap_ok_def new_heap_def)

lemma not_live_new: "\<not> live new_heap p n"
  by (simp add: live_def new_heap_def)

lemma live_in_bounds:
  assumes "pool_invar 4096 (Allocator b)" and "live_in b p n"
  shows "0 < n" and "Memory b \<le> p" and "p + 16 * n \<le> Memory b + 65536"
  using assms pool.blocks_pos [of 4096 "Allocator b"] by (fastforce simp: live_in_def)+

lemma live_same_block:
  assumes "pool_invar 4096 (Allocator b)" and "live_in b p n" and "live_in b q k" and "p \<noteq> q"
  shows "apart p (16 * n) q (16 * k)"
proof -
  obtain s t where st: "block_map 4096 (Allocator b) s = Some n" "p = Memory b + 16 * s"
      "block_map 4096 (Allocator b) t = Some k" "q = Memory b + 16 * t"
    using assms(2,3) by (auto simp: live_in_def)
  with pool.blocks_apart [OF assms(1) st(1,3)] assms(4) show ?thesis by (auto simp: apart_def)
qed

lemma live_apart:
  assumes ok: "heap_ok own h" and l: "live h p n" "live h q k" "p \<noteq> q"
  shows "apart p (16 * n) q (16 * k)"
proof -
  obtain i j where i: "i < BlockCount h" "live_in (Blocks h ! i) p n"
    and j: "j < BlockCount h" "live_in (Blocks h ! j) q k" using l by (auto simp: live_def)
  have pi: "pool_invar 4096 (Allocator (Blocks h ! i))" "pool_invar 4096 (Allocator (Blocks h ! j))"
    using ok i(1) j(1) by (auto simp: heap_ok_def block_ok_def)
  show ?thesis
  proof (cases "i = j")
    case True
    with live_same_block [OF pi(1)] i(2) j(2) l(3) show ?thesis by simp
  next
    case False
    then have "apart (Memory (Blocks h ! i)) 65536 (Memory (Blocks h ! j)) 65536"
      using ok i(1) j(1) by (simp add: heap_ok_def)
    then show ?thesis using live_in_bounds [OF pi(1) i(2)] live_in_bounds [OF pi(2) j(2)]
      by (auto simp: apart_def)
  qed
qed

lemma live_in_fresh:
  assumes "fresh_in b n a s ws"
  shows "live_in (b\<lparr>Allocator := ws\<rparr>) q k \<longleftrightarrow> live_in b q k \<or> q = Memory b + 16 * s \<and> k = n"
proof -
  have "block_map 4096 ws t = Some k \<longleftrightarrow> block_map 4096 (Allocator b) t = Some k \<or> t = s \<and> k = n" for t
    using assms by (auto simp: fresh_in_def)
  then show ?thesis by (auto simp: live_in_def)
qed

definition set_allocator :: "heap \<Rightarrow> nat \<Rightarrow> pool \<Rightarrow> heap" where
  "set_allocator h i ws = h\<lparr>Blocks := (Blocks h)[i := (Blocks h ! i)\<lparr>Allocator := ws\<rparr>]\<rparr>"

lemma nth_set_allocator:
  "i < length (Blocks h) \<Longrightarrow>
   Blocks (set_allocator h i ws) ! j = (if j = i then (Blocks h ! i)\<lparr>Allocator := ws\<rparr> else Blocks h ! j)"
  by (simp add: set_allocator_def nth_list_update)

lemma live_set_allocator:
  assumes "i < BlockCount h" and "i < length (Blocks h)"
    and "\<And>q k. live_in ((Blocks h ! i)\<lparr>Allocator := ws\<rparr>) q k \<longleftrightarrow> live_in (Blocks h ! i) q k \<and> \<not> D q k \<or> A q k"
    and "\<And>j q k. \<lbrakk>j < BlockCount h; j \<noteq> i; live_in (Blocks h ! j) q k\<rbrakk> \<Longrightarrow> \<not> D q k"
  shows "live (set_allocator h i ws) q k \<longleftrightarrow> live h q k \<and> \<not> D q k \<or> A q k"
proof -
  have "BlockCount (set_allocator h i ws) = BlockCount h" by (simp add: set_allocator_def)
  then have "live (set_allocator h i ws) q k \<longleftrightarrow> live_in ((Blocks h ! i)\<lparr>Allocator := ws\<rparr>) q k \<or>
      (\<exists>j<BlockCount h. j \<noteq> i \<and> live_in (Blocks h ! j) q k)"
    unfolding live_def nth_set_allocator [OF assms(2)] using assms(1) by auto
  moreover have "live h q k \<longleftrightarrow> live_in (Blocks h ! i) q k \<or>
      (\<exists>j<BlockCount h. j \<noteq> i \<and> live_in (Blocks h ! j) q k)"
    unfolding live_def using assms(1) by auto
  ultimately show ?thesis using assms(3,4) by blast
qed

lemma live_fresh:
  assumes "i < BlockCount h" and "i < length (Blocks h)" and "fresh_in (Blocks h ! i) n a s ws"
  shows "live (set_allocator h i ws) q k \<longleftrightarrow> live h q k \<or> q = Memory (Blocks h ! i) + 16 * s \<and> k = n"
  using live_set_allocator [OF assms(1,2), of ws "\<lambda>_ _. False" "\<lambda>q k. q = Memory (Blocks h ! i) + 16 * s \<and> k = n"]
    live_in_fresh [OF assms(3)] by simp

lemma heap_ok_set_allocator:
  assumes "heap_ok own h" and "i < BlockCount h" and "pool_invar 4096 ws"
  shows "heap_ok own (set_allocator h i ws)"
proof -
  have len: "i < length (Blocks h)" using assms(1,2) by (simp add: heap_ok_def)
  show ?thesis
    using assms unfolding heap_ok_def nth_set_allocator [OF len]
    by (auto simp: set_allocator_def block_ok_def split: if_splits)
qed

lemma heap_ok_hint: "\<lbrakk>heap_ok own h; 0 < BlockCount h\<rbrakk> \<Longrightarrow> heap_ok own (h\<lparr>AllocationHint := x\<rparr>)"
  by (simp add: heap_ok_def)

lemma live_hint [simp]: "live (h\<lparr>AllocationHint := x\<rparr>) q k \<longleftrightarrow> live h q k"
  by (simp add: live_def)

section \<open>Allocation\<close>

lemma AllocateInBlock_committed:
  assumes b: "block_ok own b" and n: "0 < n" "n \<le> 4096" and a: "is_pow2 a" "a \<le> 2147483648"
  obtains (full) "AllocateInBlock pages b n a m = Inr (0, b, m)" and "exhausted b n a"
  | (room) s ws where "AllocateInBlock pages b n a m = Inr (Memory b + 16 * s, b\<lparr>Allocator := ws\<rparr>, m)"
      and "fresh_in b n a s ws"
proof -
  have inv: "pool_invar 4096 (Allocator b)" and mem: "Memory b \<noteq> 0" "Memory b + 65536 < 18446744073709551616"
    using b by (auto simp: block_ok_def)
  have com: "AllocateInBlock pages b n a m = rbind (pool_alloc 4096 n a (Allocator b)) (\<lambda>(i, ws).
      if i = UINT32_MAX then Inr (0, b\<lparr>Allocator := ws\<rparr>, m)
      else Inr (wrap64 (Memory b + wrap32 (i * 16)), b\<lparr>Allocator := ws\<rparr>, m))"
    using mem(1) by (simp add: AllocateInBlock_def AllocateAndCommitBlockIfNeeded_def Let_def cong: if_cong)
  have n': "n \<le> 4294967232" using n by simp
  from pool.alloc_spec [OF inv n(1) n' a] show ?thesis
  proof (elim disjE conjE exE)
    assume "pool_alloc 4096 n a (Allocator b) = Inr (UINT32_MAX, Allocator b)"
      and "\<forall>r. a dvd r \<and> r + n \<le> 4096 \<longrightarrow> (\<exists>s m. block_map 4096 (Allocator b) s = Some m \<and> \<not> apart r n s m)"
    then show ?thesis by (intro full) (simp_all add: com exhausted_def)
  next
    fix r ws
    assume r: "pool_alloc 4096 n a (Allocator b) = Inr (r, ws)" "r \<noteq> UINT32_MAX"
    note fr = pool.alloc_fresh [OF inv n(1) n' a r]
    have "wrap64 (Memory b + wrap32 (r * 16)) = Memory b + 16 * r" using fr(2) mem(2) n by simp
    then show ?thesis using r fr by (intro room [of r ws]) (auto simp: com fresh_in_def)
  qed
qed

lemma exhausted_new: "\<lbrakk>n \<le> 4096; Allocator b = PoolAllocator 4096\<rbrakk> \<Longrightarrow> \<not> exhausted b n a"
proof
  assume n: "n \<le> 4096" and b: "Allocator b = PoolAllocator 4096" and ex: "exhausted b n a"
  from ex n obtain s m where "block_map 4096 (PoolAllocator 4096) s = Some m"
    unfolding exhausted_def b by (metis add_0 dvd_0_right)
  then show False by (simp add: block_map_new)
qed

text \<open>After \<open>k\<close> failing attempts the \<open>k\<close> blocks from \<open>idx\<close> on are exhausted.\<close>

definition found :: "(nat \<times> nat) set \<Rightarrow> heap \<Rightarrow> nat \<Rightarrow> nat \<Rightarrow> nat \<Rightarrow> heap \<Rightarrow> bool" where
  "found own h n a p h' \<longleftrightarrow> heap_ok own h' \<and>
     (\<exists>i<BlockCount h. \<exists>s ws x. fresh_in (Blocks h ! i) n a s ws \<and> p = Memory (Blocks h ! i) + 16 * s \<and>
       h' = (set_allocator h i ws)\<lparr>AllocationHint := x\<rparr>)"

lemma try_blocks_committed:
  assumes ok: "heap_ok own h" and n: "0 < n" "n \<le> 4096" and a: "is_pow2 a" "a \<le> 2147483648"
  defines "N \<equiv> BlockCount h"
  shows "idx < N \<Longrightarrow>
    (\<exists>idx'. try_blocks pages k N idx n a h m = Inr (0, idx', h, m) \<and>
       (\<forall>j<k. exhausted (Blocks h ! ((idx + j) mod N)) n a)) \<or>
    (\<exists>p idx' h'. try_blocks pages k N idx n a h m = Inr (p, idx', h', m) \<and> p \<noteq> 0 \<and> found own h n a p h')"
proof (induction k arbitrary: idx)
  case 0
  then show ?case by simp
next
  case (Suc k)
  define nxt where "nxt = (if N \<le> idx + 1 then 0 else idx + 1)"
  have nxt: "nxt = (idx + 1) mod N" "nxt < N" using Suc.prems by (auto simp: nxt_def dest: le_antisym)
  have len: "idx < length (Blocks h)" using ok Suc.prems by (simp add: heap_ok_def N_def)
  have b: "block_ok own (Blocks h ! idx)" using ok Suc.prems by (simp add: heap_ok_def N_def)
  show ?case
  proof (cases rule: AllocateInBlock_committed [OF b n a, of pages m, case_names full room])
    case full
    then have step: "try_blocks pages (Suc k) N idx n a h m = try_blocks pages k N nxt n a h m"
      using len by (simp add: nxt_def Let_def)
    have "exhausted (Blocks h ! ((idx + j) mod N)) n a"
      if "j < Suc k" "\<forall>j<k. exhausted (Blocks h ! ((nxt + j) mod N)) n a" for j
    proof (cases j)
      case 0
      then show ?thesis using full(2) Suc.prems by simp
    next
      case (Suc i)
      then have "(idx + j) mod N = (nxt + i) mod N" by (simp add: nxt(1) mod_add_left_eq)
      with that Suc show ?thesis by auto
    qed
    then show ?thesis unfolding step using Suc.IH [OF nxt(2)] by blast
  next
    case (room s ws)
    let ?h = "(set_allocator h idx ws)\<lparr>AllocationHint := nxt\<rparr>"
    have "try_blocks pages (Suc k) N idx n a h m = Inr (Memory (Blocks h ! idx) + 16 * s, nxt, ?h, m)"
      using room(1) len b by (simp add: nxt_def Let_def set_allocator_def block_ok_def)
    moreover have "heap_ok own ?h"
      using heap_ok_set_allocator [OF ok, of idx ws] room(2) Suc.prems
      by (intro heap_ok_hint) (auto simp: N_def fresh_in_def set_allocator_def)
    moreover have "Memory (Blocks h ! idx) \<noteq> 0" using b by (simp add: block_ok_def)
    ultimately show ?thesis using room(2) Suc.prems unfolding found_def N_def
      by (intro disjI2) blast
  qed
qed

definition alloc_post :: "(nat \<times> nat) set \<Rightarrow> heap \<Rightarrow> nat \<Rightarrow> nat \<Rightarrow> nat \<Rightarrow> heap \<Rightarrow> bool" where
  "alloc_post own h n a p h' \<longleftrightarrow> heap_ok own h' \<and> p \<noteq> 0 \<and> (\<exists>c s. 4096 dvd c \<and> a dvd s \<and> p = c + 16 * s) \<and>
     (\<forall>q k. live h' q k \<longleftrightarrow> live h q k \<or> q = p \<and> k = n) \<and> (\<forall>k. \<not> live h p k)"

lemma not_live_fresh:
  assumes ok: "heap_ok own h" and i: "i < BlockCount h" and f: "fresh_in (Blocks h ! i) n a s ws" "0 < n"
  shows "\<not> live h (Memory (Blocks h ! i) + 16 * s) k"
proof
  assume "live h (Memory (Blocks h ! i) + 16 * s) k"
  then obtain j where j: "j < BlockCount h" "live_in (Blocks h ! j) (Memory (Blocks h ! i) + 16 * s) k"
    by (auto simp: live_def)
  have "pool_invar 4096 (Allocator (Blocks h ! j))" using ok j(1) by (auto simp: heap_ok_def block_ok_def)
  note b = live_in_bounds [OF this j(2)]
  show False
  proof (cases "j = i")
    case True
    with j(2) f show False by (auto simp: live_in_def fresh_in_def)
  next
    case False
    then have "apart (Memory (Blocks h ! j)) 65536 (Memory (Blocks h ! i)) 65536"
      using ok i j(1) by (simp add: heap_ok_def)
    then show False using b f by (auto simp: apart_def fresh_in_def)
  qed
qed

lemma found_alloc_post:
  assumes ok: "heap_ok own h" and n: "0 < n" and f: "found own h n a p h'"
  shows "alloc_post own h n a p h'"
proof -
  obtain i s ws x where i: "i < BlockCount h" "fresh_in (Blocks h ! i) n a s ws"
      "p = Memory (Blocks h ! i) + 16 * s" "h' = (set_allocator h i ws)\<lparr>AllocationHint := x\<rparr>"
    and ok': "heap_ok own h'" using f by (auto simp: found_def)
  have len: "i < length (Blocks h)" using ok i(1) by (simp add: heap_ok_def)
  have b: "block_ok own (Blocks h ! i)" using ok i(1) by (simp add: heap_ok_def)
  have "\<exists>c s. 4096 dvd c \<and> a dvd s \<and> p = c + 16 * s"
    using b i(2,3) by (auto simp: block_ok_def fresh_in_def)
  moreover have "live h' q k \<longleftrightarrow> live h q k \<or> q = p \<and> k = n" for q k
    unfolding i(3,4) live_hint by (rule live_fresh [OF i(1) len i(2)])
  moreover have "p \<noteq> 0" using b i(3) by (simp add: block_ok_def)
  ultimately show ?thesis using ok' not_live_fresh [OF ok i(1,2) n] i(3) by (simp add: alloc_post_def)
qed

lemma heap_ok_mono: "\<lbrakk>heap_ok own h; own \<subseteq> own'\<rbrakk> \<Longrightarrow> heap_ok own' h"
  by (auto simp: heap_ok_def block_ok_def)

definition add_block :: "heap \<Rightarrow> nat \<Rightarrow> heap" where
  "add_block h addr = h\<lparr>Blocks := (Blocks h)[BlockCount h := \<lparr>Memory = addr, Allocator = PoolAllocator 4096\<rparr>],
     BlockCount := BlockCount h + 1\<rparr>"

lemma add_block_ok:
  assumes ok: "heap_ok own h" and N: "BlockCount h < 256" and addr: "addr \<noteq> 0" "4096 dvd addr"
    "addr + 65536 < 18446744073709551616" and ap: "\<And>b k. (b, k) \<in> own \<Longrightarrow> apart addr 65536 b k"
  shows "heap_ok (insert (addr, 65536) own) (add_block h addr)"
    and "live (add_block h addr) q k \<longleftrightarrow> live h q k"
proof -
  let ?h = "add_block h addr"
  have len: "BlockCount h < length (Blocks h)" using ok N by (simp add: heap_ok_def)
  have nth: "Blocks ?h ! i = (if i = BlockCount h then \<lparr>Memory = addr, Allocator = PoolAllocator 4096\<rparr> else Blocks h ! i)" for i
    using len by (simp add: add_block_def nth_list_update)
  have fresh: "apart addr 65536 (Memory (Blocks h ! i)) 65536" if "i < BlockCount h" for i
    using ok that by (intro ap) (auto simp: heap_ok_def block_ok_def)
  then have "apart (Memory (Blocks h ! i)) 65536 addr 65536" if "i < BlockCount h" for i
    using that by (auto simp: apart_def)
  with fresh ok N addr show "heap_ok (insert (addr, 65536) own) ?h"
    unfolding heap_ok_def nth
    by (auto simp: add_block_def block_ok_def pool_invar_new less_Suc_eq)
  have "\<not> live_in \<lparr>Memory = addr, Allocator = PoolAllocator 4096\<rparr> q k"
    by (simp add: live_in_def block_map_new)
  then have "live ?h q k \<longleftrightarrow> (\<exists>i<BlockCount h. live_in (Blocks h ! i) q k)"
    unfolding live_def nth by (auto simp: add_block_def less_Suc_eq) (metis nat_neq_iff)
  then show "live ?h q k \<longleftrightarrow> live h q k" by (simp add: live_def)
qed

lemma exhausted_all:
  assumes "idx < N" and "\<forall>j<N. exhausted (bs ! ((idx + j) mod N)) n a" and "i < N"
  shows "exhausted (bs ! i) n a"
proof (cases "idx \<le> i")
  case True
  then show ?thesis using assms(2) [rule_format, of "i - idx"] assms(1,3) by simp
next
  case False
  then have "(idx + (i + N - idx)) mod N = i" "i + N - idx < N" using assms(1,3) by auto
  then show ?thesis using assms(2) by metis
qed

lemma units_needed_small: "\<lbrakk>0 < sz; sz \<le> 65536\<rbrakk> \<Longrightarrow> 0 < units_needed sz \<and> units_needed sz \<le> 4096 \<and> sz \<le> 16 * units_needed sz"
proof -
  assume sz: "0 < sz" "sz \<le> 65536"
  then have "units_needed sz = (sz + 15) div 16" by (simp add: units_needed_def)
  then show ?thesis using sz by (intro conjI) linarith+
qed

lemma pow2_32_le:
  assumes "is_pow2 a" and "a < 4294967296"
  shows "a \<le> 2147483648"
proof -
  obtain k where k: "a = 2 ^ k" using assms(1) by (auto simp: is_pow2_def)
  have "(2 :: nat) ^ k < 2 ^ 32" using assms(2) unfolding k by simp
  then have "k < 32" by (simp only: power_strict_increasing_iff [of "2 :: nat"])
  then have "a \<le> 2 ^ 31" unfolding k by (intro power_increasing) simp_all
  then show ?thesis by simp
qed

lemma AllocateAligned_panics:
  shows "AllocateAligned fuel pages None sz al m = Inl (Panic ''Heap::AllocateAligned: invalid parameters'')"
    and "sz = 0 \<or> al = 0 \<Longrightarrow>
      AllocateAligned fuel pages (Some h) sz al m = Inl (Panic ''Heap::AllocateAligned: invalid parameters'')"
    and "\<lbrakk>65536 < sz; sz \<le> 68719476720; 0 < al\<rbrakk> \<Longrightarrow> AllocateAligned fuel pages (Some h) sz al m =
      Inl (Panic ''Heap::AllocateAligned: size %zu exceeds maximum allocation size of %zu'')"
proof -
  show "AllocateAligned fuel pages None sz al m = Inl (Panic ''Heap::AllocateAligned: invalid parameters'')"
    by (simp add: AllocateAligned_def)
  show "sz = 0 \<or> al = 0 \<Longrightarrow>
      AllocateAligned fuel pages (Some h) sz al m = Inl (Panic ''Heap::AllocateAligned: invalid parameters'')"
    by (simp add: AllocateAligned_def)
  assume sz: "65536 < sz" "sz \<le> 68719476720" "0 < al"
  then have "units_needed sz = wrap32 ((sz + 15) div 16)" by (simp add: units_needed_def)
  moreover have "(sz + 15) div 16 < 4294967296" "4096 < (sz + 15) div 16" using sz by auto
  ultimately show "AllocateAligned fuel pages (Some h) sz al m =
      Inl (Panic ''Heap::AllocateAligned: size %zu exceeds maximum allocation size of %zu'')"
    using sz by (simp add: AllocateAligned_def)
qed

lemma alloc_post_aligned:
  assumes "alloc_post own h n (units_needed al) p h'" and "is_pow2 al" and "al \<le> 4096"
  shows "16 dvd p" and "al dvd p"
proof -
  obtain c s where cs: "4096 dvd c" "units_needed al dvd s" "p = c + 16 * s"
    using assms(1) by (auto simp: alloc_post_def)
  have "16 dvd c" using cs(1) by (rule dvd_trans [rotated]) simp
  then show "16 dvd p" using cs(3) by simp
  obtain k where k: "al = 2 ^ k" using assms(2) by (auto simp: is_pow2_def)
  have "(2 :: nat) ^ k \<le> 2 ^ 12" using assms(3) k by simp
  then have k12: "k \<le> 12" by (simp only: power_increasing_iff [of "2 :: nat"])
  then have "2 ^ k dvd (2 :: nat) ^ 12" by (rule le_imp_power_dvd)
  then have "al dvd c" using cs(1) k by (auto intro: dvd_trans)
  moreover have "al dvd 16 * s"
  proof (cases "k \<le> 4")
    case True
    then have "2 ^ k dvd (2 :: nat) ^ 4" by (rule le_imp_power_dvd)
    then show ?thesis unfolding k by (simp add: dvd_mult2)
  next
    case False
    then have "k = 4 + (k - 4)" by simp
    then have "al = 2 ^ 4 * 2 ^ (k - 4)" unfolding k by (metis power_add)
    then have al: "al = 16 * 2 ^ (k - 4)" by simp
    then have "units_needed al = 2 ^ (k - 4)" using assms(3) by (simp add: units_needed_def)
    then show ?thesis using cs(2) unfolding al by (simp add: mult_dvd_mono)
  qed
  ultimately show "al dvd p" unfolding cs(3) by (rule dvd_add)
qed

lemma alloc_post_apart:
  "\<lbrakk>alloc_post own h n a p h'; live h q k\<rbrakk> \<Longrightarrow> apart p (16 * n) q (16 * k)"
  using live_apart [of own h' p n q k] by (auto simp: alloc_post_def)

lemma units_needed_pow2:
  assumes "is_pow2 al" and "al \<le> 4096"
  shows "is_pow2 (units_needed al)"
proof -
  obtain k where k: "al = 2 ^ k" using assms(1) by (auto simp: is_pow2_def)
  show ?thesis
  proof (cases "k \<le> 4")
    case True
    then have "(2 :: nat) ^ k \<le> 2 ^ 4" by (intro power_increasing) simp_all
    then have "0 < al" "al \<le> 16" using k by simp_all
    then have "(al + 15) div 16 = 1" by linarith
    then have "units_needed al = 2 ^ 0" using \<open>al \<le> 16\<close> by (simp add: units_needed_def)
    then show ?thesis unfolding is_pow2_def by blast
  next
    case False
    then have "k = 4 + (k - 4)" by simp
    then have "al = 2 ^ 4 * 2 ^ (k - 4)" unfolding k by (metis power_add)
    then have "units_needed al = 2 ^ (k - 4)" using assms(2) by (simp add: units_needed_def)
    then show ?thesis unfolding is_pow2_def by blast
  qed
qed

section \<open>Deallocation\<close>

lemma dealloc_blocks_hit:
  assumes ok: "heap_ok own h" and i: "i < BlockCount h" "Memory (Blocks h ! i) \<le> p" "p < Memory (Blocks h ! i) + 65536"
  shows "j \<le> i \<Longrightarrow> dealloc_blocks p j h =
    rbind (pool_free 4096 ((p - Memory (Blocks h ! i)) div 16) (Allocator (Blocks h ! i)))
      (\<lambda>ws. Inr (set_allocator h i ws))"
proof (induction "i - j" arbitrary: j)
  case 0
  then have "j = i" by simp
  moreover have "block_ok own (Blocks h ! i)" "i < length (Blocks h)" using ok i(1) by (auto simp: heap_ok_def)
  moreover have "(p - Memory (Blocks h ! i)) div 16 < 4294967296" using i by linarith
  ultimately show ?case using i
    by (subst dealloc_blocks.simps) (simp add: Let_def block_ok_def set_allocator_def)
next
  case (Suc d)
  then have j: "j < i" by simp
  have b: "block_ok own (Blocks h ! j)" "j < length (Blocks h)" using ok i(1) j by (auto simp: heap_ok_def)
  have "apart (Memory (Blocks h ! j)) 65536 (Memory (Blocks h ! i)) 65536"
    using ok i(1) j by (simp add: heap_ok_def)
  then have out: "\<not> (Memory (Blocks h ! j) \<le> p \<and> p < Memory (Blocks h ! j) + 65536)"
    using i by (auto simp: apart_def)
  have "dealloc_blocks p j h = dealloc_blocks p (j + 1) h"
    using i(1) j b out by (subst dealloc_blocks.simps) (auto simp: Let_def block_ok_def)
  with Suc show ?case by simp
qed

lemma dealloc_blocks_miss:
  assumes ok: "heap_ok own h"
    and out: "\<And>i. i < BlockCount h \<Longrightarrow> p < Memory (Blocks h ! i) \<or> Memory (Blocks h ! i) + 65536 \<le> p"
  shows "dealloc_blocks p j h = Inl (Panic ''Heap::Deallocate: invalid pointer %p'')"
proof (induction "BlockCount h - j" arbitrary: j)
  case 0
  then show ?case by (subst dealloc_blocks.simps) simp
next
  case (Suc d)
  then have j: "j < BlockCount h" by simp
  have b: "block_ok own (Blocks h ! j)" "j < length (Blocks h)" using ok j by (auto simp: heap_ok_def)
  then have "dealloc_blocks p j h = dealloc_blocks p (j + 1) h"
    using j out [OF j] by (subst dealloc_blocks.simps) (auto simp: Let_def block_ok_def)
  with Suc show ?case by simp
qed

lemma Heap_Deallocate_live:
  assumes ok: "heap_ok own h" and l: "live h p n"
  shows "\<exists>h'. Heap_Deallocate (Some h) p = Inr (Some h') \<and> heap_ok own h' \<and>
    (\<forall>q k. live h' q k \<longleftrightarrow> live h q k \<and> q \<noteq> p)"
proof -
  obtain i where i: "i < BlockCount h" "live_in (Blocks h ! i) p n" using l by (auto simp: live_def)
  let ?b = "Blocks h ! i"
  have b: "block_ok own ?b" and len: "i < length (Blocks h)" using ok i(1) by (auto simp: heap_ok_def)
  then have inv: "pool_invar 4096 (Allocator ?b)" and m0: "Memory ?b \<noteq> 0" by (simp_all add: block_ok_def)
  note bd = live_in_bounds [OF inv i(2)]
  obtain s where s: "block_map 4096 (Allocator ?b) s = Some n" "p = Memory ?b + 16 * s"
    using i(2) by (auto simp: live_in_def)
  obtain ws where ws: "pool_free 4096 s (Allocator ?b) = Inr ws" "pool_invar 4096 ws"
      "block_map 4096 ws = (block_map 4096 (Allocator ?b))(s := None)"
    using pool.free_spec [OF inv s(1)] by auto
  have "dealloc_blocks p 0 h = Inr (set_allocator h i ws)"
    using dealloc_blocks_hit [OF ok i(1), of p 0] bd ws(1) s(2) by simp
  then have "Heap_Deallocate (Some h) p = Inr (Some (set_allocator h i ws))"
    using bd m0 by (simp add: Heap_Deallocate_def)
  moreover have "live (set_allocator h i ws) q k \<longleftrightarrow> live h q k \<and> \<not> q = p \<or> False" for q k
  proof (rule live_set_allocator [OF i(1) len])
    show "live_in (?b\<lparr>Allocator := ws\<rparr>) q k \<longleftrightarrow> live_in ?b q k \<and> \<not> q = p \<or> False" for q k
      using ws(3) s(2) by (auto simp: live_in_def split: if_splits)
    fix j q k
    assume j: "j < BlockCount h" "j \<noteq> i" "live_in (Blocks h ! j) q k"
    have "apart (Memory (Blocks h ! j)) 65536 (Memory ?b) 65536" using ok i(1) j by (simp add: heap_ok_def)
    moreover have "pool_invar 4096 (Allocator (Blocks h ! j))" using ok j(1) by (auto simp: heap_ok_def block_ok_def)
    ultimately show "\<not> q = p" using live_in_bounds [OF _ j(3)] bd by (auto simp: apart_def)
  qed
  ultimately show ?thesis using heap_ok_set_allocator [OF ok i(1) ws(2)] by simp
qed

section \<open>The interface to the page provider\<close>

locale page_provider =
  fixes pages :: "'m page_source"
    and owned :: "'m \<Rightarrow> (nat \<times> nat) set"
    and invar :: "'m \<Rightarrow> bool"
    and avail :: "nat \<Rightarrow> 'm \<Rightarrow> bool"
  assumes pages_ok: "\<lbrakk>invar m; avail n m; 0 < n\<rbrakk> \<Longrightarrow>
      \<exists>addr m'. pages n m = Inr (addr, m') \<and> invar m' \<and> addr \<noteq> 0 \<and> 4096 dvd addr \<and>
        addr + 4096 * n < 18446744073709551616 \<and> owned m' = insert (addr, 4096 * n) (owned m) \<and>
        (\<forall>b k. (b, k) \<in> owned m \<longrightarrow> apart addr (4096 * n) b k)"
begin

lemma pages_block:
  assumes "invar m" and "avail PagesPerBlock m"
  obtains addr m' where "pages PagesPerBlock m = Inr (addr, m')" and "invar m'" and "addr \<noteq> 0"
    and "4096 dvd addr" and "addr + 65536 < 18446744073709551616"
    and "owned m' = insert (addr, 65536) (owned m)" and "\<And>b k. (b, k) \<in> owned m \<Longrightarrow> apart addr 65536 b k"
  using pages_ok [OF assms] by auto


lemma try_fresh_block:
  assumes ok: "heap_ok (owned m) h" and m: "invar m" "avail PagesPerBlock m" and N: "BlockCount h < 256"
    and n: "0 < n" "n \<le> 4096" and a: "is_pow2 a" "a \<le> 2147483648"
  shows "\<exists>p idx h' m'. try_blocks pages (Suc (BlockCount h)) (BlockCount h) (BlockCount h) n a
      (h\<lparr>BlockCount := BlockCount h + 1\<rparr>) m = Inr (p, idx, h', m') \<and> p \<noteq> 0 \<and> invar m' \<and>
      alloc_post (owned m') h n a p h'"
proof -
  obtain addr m' where pg: "pages PagesPerBlock m = Inr (addr, m')" "invar m'" "addr \<noteq> 0" "4096 dvd addr"
      "addr + 65536 < 18446744073709551616" "owned m' = insert (addr, 65536) (owned m)"
      "\<And>b k. (b, k) \<in> owned m \<Longrightarrow> apart addr 65536 b k"
    by (rule pages_block [OF m]) blast
  let ?N = "BlockCount h" and ?h1 = "add_block h addr"
  let ?b = "\<lparr>Memory = addr, Allocator = PoolAllocator 4096\<rparr>"
  note ok1 = add_block_ok [OF ok N pg(3,4,5,7), folded pg(6)]
  have len: "?N < length (Blocks h)" using ok N by (simp add: heap_ok_def)
  have old: "Blocks h ! ?N = \<lparr>Memory = 0, Allocator = PoolAllocator 4096\<rparr>" using ok N by (simp add: heap_ok_def)
  have new: "Blocks ?h1 ! ?N = ?b" "?N < BlockCount ?h1" using len by (simp_all add: add_block_def)
  have b: "block_ok (owned m') ?b" using ok1(1) new unfolding heap_ok_def by metis
  obtain s ws where r: "AllocateInBlock pages ?b n a m' = Inr (addr + 16 * s, ?b\<lparr>Allocator := ws\<rparr>, m')"
      "fresh_in ?b n a s ws"
    using exhausted_new [OF n(2), of ?b a]
    by (cases rule: AllocateInBlock_committed [OF b n a, of pages m']) auto
  let ?h' = "(set_allocator ?h1 ?N ws)\<lparr>AllocationHint := 0\<rparr>"
  have "AllocateInBlock pages (Blocks h ! ?N) n a m = AllocateInBlock pages ?b n a m'"
    using pg(1,3) by (simp add: old AllocateInBlock_def AllocateAndCommitBlockIfNeeded_def)
  then have "try_blocks pages (Suc ?N) ?N ?N n a (h\<lparr>BlockCount := ?N + 1\<rparr>) m = Inr (addr + 16 * s, 0, ?h', m')"
    using r(1) len pg(3) by (simp add: set_allocator_def add_block_def Let_def)
  moreover have "heap_ok (owned m') ?h'"
    using heap_ok_set_allocator [OF ok1(1) new(2), of ws] r(2)
    by (intro heap_ok_hint) (auto simp: fresh_in_def set_allocator_def add_block_def)
  then have "found (owned m') ?h1 n a (addr + 16 * s) ?h'"
    unfolding found_def using new r(2) by (intro conjI exI [of _ ?N] exI [of _ s] exI [of _ ws] exI [of _ 0]) auto
  then have "alloc_post (owned m') ?h1 n a (addr + 16 * s) ?h'" using found_alloc_post [OF ok1(1) n(1)] by simp
  then have "alloc_post (owned m') h n a (addr + 16 * s) ?h'" by (simp add: alloc_post_def ok1(2))
  ultimately show ?thesis using pg(2,3) by auto
qed

lemma AllocateAligned_spec:
  assumes ok: "heap_ok (owned m) h" and m: "invar m" "avail PagesPerBlock m" and sz: "0 < sz" "sz \<le> 65536"
    and al: "0 < al" "is_pow2 (units_needed al)" and fuel: "2 \<le> fuel"
  defines "n \<equiv> units_needed sz" and "a \<equiv> units_needed al"
  shows "(\<exists>p h' m'. AllocateAligned fuel pages (Some h) sz al m = Inr (p, h', m') \<and> invar m' \<and>
      alloc_post (owned m') h n a p h') \<or>
    BlockCount h = 256 \<and> (\<forall>i<256. exhausted (Blocks h ! i) n a) \<and>
    AllocateAligned fuel pages (Some h) sz al m = Inl (Panic ''Heap::AllocateAligned: no space available'')"
proof -
  have n: "0 < n" "n \<le> 4096" using units_needed_small [OF sz] by (auto simp: n_def)
  have a: "is_pow2 a" "a \<le> 2147483648"
    using al(2) pow2_32_le by (auto simp: a_def units_needed_def wrap32_bound)
  let ?N = "BlockCount h" and ?idx = "AllocationHint h mod BlockCount h"
  obtain f where f: "fuel = Suc (Suc f)" using fuel by (metis add_2_eq_Suc le_Suc_ex)
  have N: "?N \<le> 256" using ok by (simp add: heap_ok_def)
  have idx: "?idx < 256" using N ok by (cases "?N = 0") (auto simp: heap_ok_def intro: less_le_trans [OF mod_less_divisor])
  have eq: "AllocateAligned fuel pages (Some h) sz al m = alloc_blocks fuel pages ?N ?idx n a h m"
    using sz(1) al(1) n by (simp add: AllocateAligned_def Let_def n_def a_def)
  have "(\<exists>p i h'. try_blocks pages ?N ?N ?idx n a h m = Inr (p, i, h', m) \<and> p \<noteq> 0 \<and> found (owned m) h n a p h') \<or>
      (\<exists>i. try_blocks pages ?N ?N ?idx n a h m = Inr (0, i, h, m)) \<and> (\<forall>i<?N. exhausted (Blocks h ! i) n a)"
  proof (cases "?N = 0")
    case False
    then have "?idx < ?N" by simp
    from try_blocks_committed [OF ok n a this, of pages ?N m] exhausted_all [OF this] show ?thesis by blast
  qed simp
  then show ?thesis
  proof (elim disjE exE conjE)
    fix p i h'
    assume "try_blocks pages ?N ?N ?idx n a h m = Inr (p, i, h', m)" "p \<noteq> 0" "found (owned m) h n a p h'"
    then show ?thesis using idx m(1) found_alloc_post [OF ok n(1)] unfolding eq unfolding f by auto
  next
    fix i
    assume t: "try_blocks pages ?N ?N ?idx n a h m = Inr (0, i, h, m)" and ex: "\<forall>i<?N. exhausted (Blocks h ! i) n a"
    show ?thesis
    proof (cases "?N = 256")
      case True
      then show ?thesis using t ex idx unfolding eq unfolding f by simp
    next
      case False
      then have N': "?N < 256" using N by simp
      obtain p i' h' m' where "try_blocks pages (Suc ?N) ?N ?N n a (h\<lparr>BlockCount := ?N + 1\<rparr>) m = Inr (p, i', h', m')"
          "p \<noteq> 0" "invar m'" "alloc_post (owned m') h n a p h'"
        using try_fresh_block [OF ok m N' n a] by blast
      then show ?thesis using t idx N' unfolding eq unfolding f by (auto simp del: try_blocks.simps)
    qed
  qed
qed

end

end
