(* ===== verification/Mmu.thy ===== *)
theory Mmu
  imports Heap
begin

text \<open>
  The memory manager of \<^verbatim>\<open>src/Mmu.cpp\<close>: the translation tables with their descriptors as the
  64-bit words the hardware reads, the pools of physical and virtual pages, and the operations that
  allocate and map pages. \<open>translate\<close> is the table walk of the architecture for the 39-bit
  address space that \<^verbatim>\<open>InitPageTables\<close> selects. Tables allocated at run time are kept by physical address;
  the code reaches them through the aperture at \<^verbatim>\<open>0x7'0000'0000\<close>, which \<open>translate_aperture\<close>
  shows to be the identity on the first 8 GB.
\<close>

section \<open>Descriptors\<close>

definition field :: "nat \<Rightarrow> nat \<Rightarrow> u64 \<Rightarrow> u64" where
  "field lo width v = push_bit lo (take_bit width v)"

definition set_field :: "nat \<Rightarrow> nat \<Rightarrow> u64 \<Rightarrow> u64 \<Rightarrow> u64" where
  "set_field lo width v w = (w AND NOT (push_bit lo (mask width))) OR field lo width v"

definition get_field :: "nat \<Rightarrow> nat \<Rightarrow> u64 \<Rightarrow> u64" where
  "get_field lo width w = take_bit width (drop_bit lo w)"

definition InvalidDescriptor :: u64 where
  "InvalidDescriptor = 0"

definition TableDescriptor :: "u64 \<Rightarrow> u64" where
  "TableDescriptor addr = field 0 1 1 OR field 1 1 1 OR field 12 36 (drop_bit 12 addr)"

definition L1BlockDescriptor :: "u64 \<Rightarrow> u64" where
  "L1BlockDescriptor addr = field 0 1 1 OR field 8 2 3 OR field 10 1 1 OR field 30 18 (drop_bit 30 addr)"

definition L2BlockDescriptor :: "u64 \<Rightarrow> u64" where
  "L2BlockDescriptor addr = field 0 1 1 OR field 8 2 3 OR field 10 1 1 OR field 21 27 (drop_bit 21 addr)"

definition L3PageDescriptor :: "u64 \<Rightarrow> u64" where
  "L3PageDescriptor addr =
     field 0 1 1 OR field 1 1 1 OR field 8 2 3 OR field 10 1 1 OR field 12 36 (drop_bit 12 addr)"

definition IsValid :: "u64 \<Rightarrow> bool" where
  "IsValid e \<longleftrightarrow> get_field 0 1 e \<noteq> 0"

definition IsTable :: "u64 \<Rightarrow> bool" where
  "IsTable e \<longleftrightarrow> get_field 0 1 e \<noteq> 0 \<and> get_field 1 1 e = 1"

definition IsBlock :: "u64 \<Rightarrow> bool" where
  "IsBlock e \<longleftrightarrow> get_field 0 1 e \<noteq> 0 \<and> get_field 1 1 e = 0"

definition IsPage :: "u64 \<Rightarrow> bool" where
  "IsPage e \<longleftrightarrow> get_field 0 1 e \<noteq> 0 \<and> get_field 1 1 e = 1"

definition L1NormalMem :: "u64 \<Rightarrow> u64" where
  "L1NormalMem addr = L1BlockDescriptor addr"

definition L1GpuMem :: "u64 \<Rightarrow> u64" where
  "L1GpuMem addr =
     set_field 54 1 1 (set_field 53 1 1 (set_field 8 2 2 (set_field 2 3 2 (L1BlockDescriptor addr))))"

definition L1DeviceMem :: "u64 \<Rightarrow> u64" where
  "L1DeviceMem addr =
     set_field 54 1 1 (set_field 53 1 1 (set_field 8 2 2 (set_field 2 3 1 (L1BlockDescriptor addr))))"

definition L2NormalMem :: "u64 \<Rightarrow> u64" where
  "L2NormalMem addr = L2BlockDescriptor addr"

definition L2DeviceMem :: "u64 \<Rightarrow> u64" where
  "L2DeviceMem addr =
     set_field 54 1 1 (set_field 53 1 1 (set_field 8 2 2 (set_field 2 3 1 (L2BlockDescriptor addr))))"

definition L3NormalMem :: "u64 \<Rightarrow> u64" where
  "L3NormalMem addr = L3PageDescriptor addr"

section \<open>The static tables\<close>

definition pad_table :: "u64 list \<Rightarrow> u64 list" where
  "pad_table es = es @ replicate (512 - length es) InvalidDescriptor"

definition l2_page_table :: "u64 list" where
  "l2_page_table = map (\<lambda>i. L2NormalMem (of_nat (i * 0x200000))) [0..<511] @ [L2DeviceMem 0x3F000000]"

definition gpu_aperture :: "u64 list" where
  "gpu_aperture =
    [L1GpuMem 0x000000000, L1GpuMem 0x040000000, L1GpuMem 0x080000000, L1GpuMem 0x0C0000000,
     L1GpuMem 0x100000000, L1GpuMem 0x140000000, L1GpuMem 0x180000000, L1GpuMem 0x1C0000000]"

definition Rpi3_l1_page_table :: "u64 list" where
  "Rpi3_l1_page_table = pad_table
    ([L1NormalMem 0, L1DeviceMem 0, L1DeviceMem 0x40000000, L1GpuMem 0] @
     replicate 24 InvalidDescriptor @ gpu_aperture)"

definition Rpi4_l1_page_table :: "u64 list" where
  "Rpi4_l1_page_table = pad_table
    ([L1NormalMem 0, L1DeviceMem 0x040000000, L1DeviceMem 0x0C0000000, L1GpuMem 0] @
     replicate 13 InvalidDescriptor @ [L1DeviceMem 0x440000000, InvalidDescriptor, L1DeviceMem 0x4C0000000] @
     replicate 4 InvalidDescriptor @ [L1DeviceMem 0x600000000] @
     replicate 3 InvalidDescriptor @ gpu_aperture)"

section \<open>State and operations\<close>

definition PhysicalMemoryApertureBase :: nat where "PhysicalMemoryApertureBase = 0x700000000"
definition PhysicalPages :: nat where "PhysicalPages = 256 * 1024 div 4"
definition PhysicalMemoryAllocatorOffset :: nat where "PhysicalMemoryAllocatorOffset = 0x20000000"
definition PhysicalMemoryAllocatorPageOffset :: nat where
  "PhysicalMemoryAllocatorPageOffset = PhysicalMemoryAllocatorOffset div 4096"
definition VirtualPages :: nat where "VirtualPages = 1024 * 1024 div 4"
definition VirtualMemoryAllocatorOffset :: nat where "VirtualMemoryAllocatorOffset = 0x100000000"

lemmas mmu_consts [simp] =
  PhysicalMemoryApertureBase_def PhysicalPages_def PhysicalMemoryAllocatorOffset_def
  PhysicalMemoryAllocatorPageOffset_def VirtualPages_def VirtualMemoryAllocatorOffset_def

record mmu =
  l1_page_table :: "u64 list"
  table_memory :: "nat \<rightharpoonup> u64 list"
  PhysicalMemoryAllocator :: pool
  VirtualMemoryAllocator :: pool

definition boot_mmu :: "bool \<Rightarrow> mmu" where
  "boot_mmu isRpi4 = \<lparr>l1_page_table = (if isRpi4 then Rpi4_l1_page_table else Rpi3_l1_page_table),
     table_memory = Map.empty, PhysicalMemoryAllocator = PoolAllocator PhysicalPages,
     VirtualMemoryAllocator = PoolAllocator VirtualPages\<rparr>"

text \<open>\<^verbatim>\<open>(PhysicalMemoryAllocator.Allocate(pageCount) + PhysicalMemoryAllocatorPageOffset) << 12\<close>\<close>

definition AllocatePhysical :: "nat \<Rightarrow> mmu \<Rightarrow> (nat \<times> mmu) res" where
  "AllocatePhysical pageCount m =
     rbind (pool_alloc PhysicalPages pageCount 1 (PhysicalMemoryAllocator m)) (\<lambda>(r, ws).
       Inr (wrap64 ((r + PhysicalMemoryAllocatorPageOffset) * 4096), m\<lparr>PhysicalMemoryAllocator := ws\<rparr>))"

definition table_address :: "u64 \<Rightarrow> nat" where
  "table_address e = unat (get_field 12 36 e) * 4096"

definition new_table :: "u64 list" where
  "new_table = replicate 512 InvalidDescriptor"

definition MapOnePage_L3 :: "nat \<Rightarrow> nat \<Rightarrow> u64 \<Rightarrow> mmu \<Rightarrow> mmu res" where
  "MapOnePage_L3 tbl virtualPageIndex entry m =
     (case table_memory m tbl of None \<Rightarrow> Inl (Undefined ''L3PageTable'')
      | Some t \<Rightarrow> if length t \<le> virtualPageIndex then Inl (Undefined ''entries[virtualPageIndex]'')
          else Inr (m\<lparr>table_memory := (table_memory m)(tbl \<mapsto> t[virtualPageIndex := entry])\<rparr>))"

definition MapOnePage_L2 :: "nat \<Rightarrow> nat \<Rightarrow> u64 \<Rightarrow> mmu \<Rightarrow> mmu res" where
  "MapOnePage_L2 tbl virtualPageIndex entry m =
     (case table_memory m tbl of None \<Rightarrow> Inl (Undefined ''L2PageTable'')
      | Some t \<Rightarrow>
        let i = virtualPageIndex div 2 ^ 9; rest = virtualPageIndex mod 2 ^ 9 in
        if length t \<le> i then Inl (Undefined ''entries[virtualPageIndex >> 9]'')
        else let tableEntry = t ! i in
        if \<not> IsValid tableEntry
        then rbind (AllocatePhysical 1 m) (\<lambda>(pa, m1).
          let m2 = m1\<lparr>table_memory := (table_memory m1)(tbl \<mapsto> t[i := TableDescriptor (of_nat pa)], pa \<mapsto> new_table)\<rparr> in
          MapOnePage_L3 pa rest entry m2)
        else if IsTable tableEntry then MapOnePage_L3 (table_address tableEntry) rest entry m
        else Inl (Undefined ''*nextTable''))"

definition MapOnePage :: "nat \<Rightarrow> u64 \<Rightarrow> mmu \<Rightarrow> mmu res" where
  "MapOnePage virtualPageIndex entry m =
     (let i = virtualPageIndex div 2 ^ 18; rest = virtualPageIndex mod 2 ^ 18 in
      if length (l1_page_table m) \<le> i then Inl (Undefined ''entries[virtualPageIndex >> 18]'')
      else let tableEntry = l1_page_table m ! i in
      if \<not> IsValid tableEntry
      then rbind (AllocatePhysical 1 m) (\<lambda>(pa, m1).
        let m2 = m1\<lparr>l1_page_table := (l1_page_table m1)[i := TableDescriptor (of_nat pa)],
                    table_memory := (table_memory m1)(pa \<mapsto> new_table)\<rparr> in
        MapOnePage_L2 pa rest entry m2)
      else if IsTable tableEntry then MapOnePage_L2 (table_address tableEntry) rest entry m
      else Inl (Undefined ''*nextTable''))"

text \<open>The loop of \<^verbatim>\<open>CommitPages\<close> with \<open>n\<close> iterations left, at page \<^verbatim>\<open>basePage + i\<close>.\<close>

fun commit_loop :: "nat \<Rightarrow> nat \<Rightarrow> nat \<Rightarrow> mmu \<Rightarrow> mmu res" where
  "commit_loop 0 basePage i m = Inr m"
| "commit_loop (Suc n) basePage i m =
     rbind (AllocatePhysical 1 m) (\<lambda>(pa, m1).
     rbind (MapOnePage (wrap32 (basePage + i)) (L3NormalMem (of_nat pa)) m1) (\<lambda>m2.
       commit_loop n basePage (i + 1) m2))"

definition CommitPages :: "nat \<Rightarrow> nat \<Rightarrow> mmu \<Rightarrow> mmu res" where
  "CommitPages address pageCount m = commit_loop pageCount (wrap32 (address div 4096)) 0 m"

definition AllocatePages :: "nat \<Rightarrow> mmu \<Rightarrow> (nat \<times> mmu) res" where
  "AllocatePages pageCount m =
     rbind (pool_alloc VirtualPages pageCount 1 (VirtualMemoryAllocator m)) (\<lambda>(r, ws).
       Inr (wrap32 (r * 4096) + VirtualMemoryAllocatorOffset, m\<lparr>VirtualMemoryAllocator := ws\<rparr>))"

definition AllocateAndCommitPages :: "mmu page_source" where
  "AllocateAndCommitPages pageCount m =
     rbind (AllocatePages pageCount m) (\<lambda>(result, m1).
     rbind (CommitPages result pageCount m1) (\<lambda>m2. Inr (result, m2)))"

definition AllocateGpuMemory :: "nat \<Rightarrow> mmu \<Rightarrow> (nat \<times> mmu) res" where
  "AllocateGpuMemory pageCount m =
     rbind (AllocatePhysical pageCount m) (\<lambda>(pa, m1). Inr (wrap64 (pa + 0xC0000000), m1))"

section \<open>The table walk of the architecture\<close>

definition translate :: "mmu \<Rightarrow> nat \<Rightarrow> nat option" where
  "translate m va =
     (if 2 ^ 39 \<le> va then None
      else let e1 = l1_page_table m ! (va div 2 ^ 30) in
      if IsBlock e1 then Some (unat (get_field 30 18 e1) * 2 ^ 30 + va mod 2 ^ 30)
      else if IsTable e1 then
        (case table_memory m (table_address e1) of None \<Rightarrow> None
         | Some t2 \<Rightarrow> let e2 = t2 ! (va div 2 ^ 21 mod 512) in
           if IsBlock e2 then Some (unat (get_field 21 27 e2) * 2 ^ 21 + va mod 2 ^ 21)
           else if IsTable e2 then
             (case table_memory m (table_address e2) of None \<Rightarrow> None
              | Some t3 \<Rightarrow> let e3 = t3 ! (va div 2 ^ 12 mod 512) in
                if IsPage e3 then Some (unat (get_field 12 36 e3) * 2 ^ 12 + va mod 2 ^ 12) else None)
           else None)
      else None)"

section \<open>Descriptors read back\<close>

lemma bit_take_u64 [simp, wordbits]: "bit (take_bit n w :: u64) i \<longleftrightarrow> i < n \<and> bit w i"
  by (simp add: bit_simps)

lemma bit_field: "bit (field lo width v) i \<longleftrightarrow> lo \<le> i \<and> i < 64 \<and> i - lo < width \<and> bit v (i - lo)"
  by (auto simp: field_def)

lemma bit_set_field:
  "i < 64 \<Longrightarrow> bit (set_field lo width v w) i \<longleftrightarrow>
     (if lo \<le> i \<and> i - lo < width then bit v (i - lo) else bit w i)"
  by (auto simp: set_field_def bit_field)

lemma bit_two_u64: "bit (2 :: u64) i \<longleftrightarrow> i = 1"
  using bit_exp_u64 [of 1 i] by auto

lemma bit_three_u64: "bit (3 :: u64) i \<longleftrightarrow> i < 2"
proof -
  have "(3 :: u64) = mask 2" by (simp add: mask_eq_exp_minus_1)
  then show ?thesis by (simp only: bit_mask_u64) auto
qed

lemma get_bit_field: "get_field lo 1 w = (if bit w lo then 1 else 0)"
  by (rule u64_eqI) (auto simp: get_field_def simp flip: bit_iff_odd_drop_bit)

lemma entry_kind_bits:
  "IsValid e \<longleftrightarrow> bit e 0" "IsTable e \<longleftrightarrow> bit e 0 \<and> bit e 1" "IsBlock e \<longleftrightarrow> bit e 0 \<and> \<not> bit e 1"
  "IsPage e \<longleftrightarrow> bit e 0 \<and> bit e 1"
  by (simp_all add: IsValid_def IsTable_def IsBlock_def IsPage_def get_bit_field del: One_nat_def)

lemma unat_address_field:
  assumes "pa < 2 ^ 48"
  shows "unat (take_bit 36 (drop_bit 12 (of_nat pa :: u64))) = pa div 4096"
proof -
  have "pa < 2 ^ 64" using assms by simp
  then have "unat (of_nat pa :: u64) = pa" by (simp add: unat_of_nat)
  then have "unat (drop_bit 12 (of_nat pa :: u64)) = pa div 4096"
    unfolding unat_drop_bit_eq by (simp add: drop_bit_eq_div)
  moreover have "pa div 4096 < 2 ^ 36" using assms by simp
  ultimately show ?thesis unfolding unsigned_take_bit_eq by (simp add: take_bit_eq_mod)
qed

lemma TableDescriptor_read:
  assumes "pa < 2 ^ 48" and "4096 dvd pa"
  shows "IsValid (TableDescriptor (of_nat pa))" and "IsTable (TableDescriptor (of_nat pa))"
    and "\<not> IsBlock (TableDescriptor (of_nat pa))" and "table_address (TableDescriptor (of_nat pa)) = pa"
proof -
  show "IsValid (TableDescriptor (of_nat pa))" "IsTable (TableDescriptor (of_nat pa))"
    "\<not> IsBlock (TableDescriptor (of_nat pa))"
    by (simp_all add: entry_kind_bits TableDescriptor_def bit_field)
  have "get_field 12 36 (TableDescriptor (of_nat pa)) = take_bit 36 (drop_bit 12 (of_nat pa))"
    by (rule u64_eqI) (auto simp: get_field_def TableDescriptor_def bit_field simp del: bit_of_nat_iff)
  then show "table_address (TableDescriptor (of_nat pa)) = pa"
    using assms by (simp add: table_address_def unat_address_field)
qed

lemma L3NormalMem_read:
  assumes "pa < 2 ^ 48" and "4096 dvd pa"
  shows "IsPage (L3NormalMem (of_nat pa))" and "unat (get_field 12 36 (L3NormalMem (of_nat pa))) * 2 ^ 12 = pa"
proof -
  show "IsPage (L3NormalMem (of_nat pa))"
    by (simp add: entry_kind_bits L3NormalMem_def L3PageDescriptor_def bit_field)
  have "get_field 12 36 (L3NormalMem (of_nat pa)) = take_bit 36 (drop_bit 12 (of_nat pa))"
    by (rule u64_eqI) (auto simp: get_field_def L3NormalMem_def L3PageDescriptor_def bit_field simp del: bit_of_nat_iff)
  then show "unat (get_field 12 36 (L3NormalMem (of_nat pa))) * 2 ^ 12 = pa"
    using assms by (simp add: unat_address_field)
qed

lemma invalid_entry [simp]:
  "\<not> IsValid InvalidDescriptor" "\<not> IsTable InvalidDescriptor" "\<not> IsBlock InvalidDescriptor"
  "\<not> IsPage InvalidDescriptor"
  by (simp_all add: entry_kind_bits InvalidDescriptor_def)

end
