(* ===== verification/Mmu_Correctness.thy ===== *)
theory Mmu_Correctness
  imports Mmu
begin

text \<open>
  The kernel's address space as a tree of pages: \<open>aspace\<close> names the page of the level 2 table, of
  the level 3 tables and of every mapped page of the virtual window, and \<open>rep\<close> relates it to the
  words in the tables. \<^verbatim>\<open>MapOnePage\<close> and \<^verbatim>\<open>CommitPages\<close> refine single additions to the tree, the walk of the
  architecture reads it back, and \<^verbatim>\<open>AllocateAndCommitPages\<close> implements the page provider of the heap.
\<close>

section \<open>The abstract address space\<close>

definition pg :: "nat \<Rightarrow> nat" where
  "pg k = (k + 131072) * 4096"

record aspace =
  root :: "nat option"
  mids :: "nat \<rightharpoonup> nat"
  leaves :: "nat \<rightharpoonup> nat"

definition entry :: "(u64 \<Rightarrow> u64) \<Rightarrow> nat option \<Rightarrow> u64" where
  "entry mk x = (case x of None \<Rightarrow> InvalidDescriptor | Some k \<Rightarrow> mk (of_nat (pg k)))"

definition table :: "(u64 \<Rightarrow> u64) \<Rightarrow> (nat \<rightharpoonup> nat) \<Rightarrow> u64 list" where
  "table mk f = map (\<lambda>i. entry mk (f i)) [0..<512]"

definition nodes :: "aspace \<Rightarrow> nat set" where
  "nodes A = set_option (root A) \<union> ran (mids A) \<union> ran (leaves A)"

definition rep :: "mmu \<Rightarrow> aspace \<Rightarrow> bool" where
  "rep m A \<longleftrightarrow> length (l1_page_table m) = 512 \<and> l1_page_table m ! 4 = entry TableDescriptor (root A) \<and>
     (\<forall>k. root A = Some k \<longrightarrow> table_memory m (pg k) = Some (table TableDescriptor (mids A))) \<and>
     (\<forall>i k. mids A i = Some k \<longrightarrow>
       table_memory m (pg k) = Some (table L3NormalMem (\<lambda>j. leaves A (512 * i + j))))"

definition tree_ok :: "aspace \<Rightarrow> bool" where
  "tree_ok A \<longleftrightarrow> (root A = None \<longrightarrow> mids A = Map.empty) \<and> (\<forall>i\<in>dom (mids A). i < 512) \<and>
     (\<forall>v\<in>dom (leaves A). v < 262144 \<and> mids A (v div 512) \<noteq> None)"

definition separate :: "aspace \<Rightarrow> bool" where
  "separate A \<longleftrightarrow> inj_on (mids A) (dom (mids A)) \<and> inj_on (leaves A) (dom (leaves A)) \<and>
     set_option (root A) \<inter> ran (mids A) = {} \<and>
     (set_option (root A) \<union> ran (mids A)) \<inter> ran (leaves A) = {}"

definition mmu_inv :: "mmu \<Rightarrow> aspace \<Rightarrow> bool" where
  "mmu_inv m A \<longleftrightarrow> rep m A \<and> tree_ok A \<and> separate A \<and>
     (\<forall>k\<in>nodes A. k < 65536 \<and> block_map 65536 (PhysicalMemoryAllocator m) k = Some 1) \<and>
     pool_invar 65536 (PhysicalMemoryAllocator m) \<and> pool_invar 262144 (VirtualMemoryAllocator m)"

lemma pg_eq_iff [simp]: "pg a = pg b \<longleftrightarrow> a = b"
  by (simp add: pg_def)

lemma pg_bounds: "k < 65536 \<Longrightarrow> pg k < 2 ^ 48" "4096 dvd pg k"
  by (simp_all add: pg_def)

lemma length_table [simp]: "length (table mk f) = 512"
  by (simp add: table_def)

lemma nth_table [simp]: "i < 512 \<Longrightarrow> table mk f ! i = entry mk (f i)"
  by (simp add: table_def)

lemma table_update: "(table mk f)[i := entry mk x] = table mk (f(i := x))"
  by (rule nth_equalityI) (auto simp: nth_list_update)

lemma table_empty: "(\<And>i. i < 512 \<Longrightarrow> f i = None) \<Longrightarrow> table mk f = new_table"
  by (rule nth_equalityI) (auto simp: new_table_def entry_def)

lemma table_cong: "(\<And>i. i < 512 \<Longrightarrow> f i = g i) \<Longrightarrow> table mk f = table mk g"
  by (rule nth_equalityI) auto

lemma entry_simps [simp]:
  "entry mk None = InvalidDescriptor" "entry mk (Some k) = mk (of_nat (pg k))"
  by (simp_all add: entry_def)

lemma entry_read:
  assumes "k < 65536"
  shows "IsValid (TableDescriptor (of_nat (pg k)))" and "IsTable (TableDescriptor (of_nat (pg k)))"
    and "\<not> IsBlock (TableDescriptor (of_nat (pg k)))" and "table_address (TableDescriptor (of_nat (pg k))) = pg k"
    and "IsPage (L3NormalMem (of_nat (pg k)))"
    and "unat (get_field 12 36 (L3NormalMem (of_nat (pg k)))) * 4096 = pg k"
  using TableDescriptor_read [OF pg_bounds(1) [OF assms] pg_bounds(2)]
    L3NormalMem_read [OF pg_bounds(1) [OF assms] pg_bounds(2)] by simp_all

lemma nodes_bound: "\<lbrakk>mmu_inv m A; k \<in> nodes A\<rbrakk> \<Longrightarrow> k < 65536"
  by (simp add: mmu_inv_def)

section \<open>Physical pages\<close>

definition free_set :: "pool \<Rightarrow> nat set" where
  "free_set ws = {i. i < 65536 \<and> (\<forall>s n. block_map 65536 ws s = Some n \<longrightarrow> \<not> (s \<le> i \<and> i < s + n))}"

definition free_pages :: "pool \<Rightarrow> nat" where
  "free_pages ws = card (free_set ws)"

lemma finite_free_set [simp]: "finite (free_set ws)"
  by (simp add: free_set_def)

lemma AllocatePhysical_one:
  assumes inv: "pool_invar 65536 (PhysicalMemoryAllocator m)" and free: "0 < free_pages (PhysicalMemoryAllocator m)"
  obtains k ws where "AllocatePhysical 1 m = Inr (pg k, m\<lparr>PhysicalMemoryAllocator := ws\<rparr>)" and "k < 65536"
    and "pool_invar 65536 ws" and "block_map 65536 (PhysicalMemoryAllocator m) k = None"
    and "block_map 65536 ws = (block_map 65536 (PhysicalMemoryAllocator m))(k \<mapsto> 1)"
    and "free_pages ws = free_pages (PhysicalMemoryAllocator m) - 1"
proof -
  let ?ws = "PhysicalMemoryAllocator m"
  have p1: "is_pow2 1" unfolding is_pow2_def by (rule exI [of _ 0]) simp
  have "free_set ?ws \<noteq> {}" using free by (auto simp: free_pages_def)
  then obtain r where r: "r \<in> free_set ?ws" by blast
  have "\<not> (\<forall>r. 1 dvd r \<and> r + 1 \<le> 65536 \<longrightarrow> (\<exists>s n. block_map 65536 ?ws s = Some n \<and> \<not> apart r 1 s n))"
  proof
    assume "\<forall>r. 1 dvd r \<and> r + 1 \<le> 65536 \<longrightarrow> (\<exists>s n. block_map 65536 ?ws s = Some n \<and> \<not> apart r 1 s n)"
    moreover have "1 dvd r \<and> r + 1 \<le> 65536" using r by (simp add: free_set_def)
    ultimately obtain s n where "block_map 65536 ?ws s = Some n" "\<not> apart r 1 s n" by blast
    then have "block_map 65536 ?ws s = Some n" "s \<le> r" "r < s + n" by (auto simp: apart_def)
    then show False using r unfolding free_set_def by blast
  qed
  then obtain k ws where k: "pool_alloc 65536 1 1 ?ws = Inr (k, ws)" "k \<noteq> UINT32_MAX"
    using pool.alloc_spec [OF inv, of 1 1] p1 by auto
  note fr = pool.alloc_fresh [OF inv _ _ p1 _ k]
  have k16: "k < 65536" using fr(2) by simp
  have "free_set ws = free_set ?ws - {k}"
    using fr(4,5) unfolding free_set_def by (auto split: if_splits)
  moreover have "k \<in> free_set ?ws" using k16 fr(6) by (force simp: free_set_def apart_def)
  ultimately have "free_pages ws = free_pages ?ws - 1" by (simp add: free_pages_def)
  moreover have "AllocatePhysical 1 m = Inr (pg k, m\<lparr>PhysicalMemoryAllocator := ws\<rparr>)"
    using k(1) k16 by (simp add: AllocatePhysical_def pg_def)
  ultimately show ?thesis using that fr k16 by simp
qed

section \<open>Growing the tree\<close>

text \<open>A page that was just allocated: it backs no table and no mapping yet.\<close>

definition fresh_page :: "mmu \<Rightarrow> aspace \<Rightarrow> nat \<Rightarrow> bool" where
  "fresh_page m A p \<longleftrightarrow> p < 65536 \<and> p \<notin> nodes A \<and> block_map 65536 (PhysicalMemoryAllocator m) p = Some 1"

lemma nodes_simps:
  "nodes (A\<lparr>root := Some k\<rparr>) \<subseteq> insert k (nodes A)"
  "nodes (A\<lparr>mids := (mids A)(i \<mapsto> k)\<rparr>) \<subseteq> insert k (nodes A)"
  "nodes (A\<lparr>leaves := (leaves A)(v \<mapsto> k)\<rparr>) \<subseteq> insert k (nodes A)"
  by (auto simp: nodes_def ran_def split: if_splits)

lemma inj_on_fun_upd_fresh:
  "\<lbrakk>inj_on f (dom f); k \<notin> ran f\<rbrakk> \<Longrightarrow> inj_on (f(v \<mapsto> k)) (dom (f(v \<mapsto> k)))"
  by (auto simp: inj_on_def ran_def split: if_splits)

lemma mmu_inv_alloc:
  assumes inv: "mmu_inv m A" and free: "0 < free_pages (PhysicalMemoryAllocator m)"
  obtains k ws where "AllocatePhysical 1 m = Inr (pg k, m\<lparr>PhysicalMemoryAllocator := ws\<rparr>)"
    and "mmu_inv (m\<lparr>PhysicalMemoryAllocator := ws\<rparr>) A" and "fresh_page (m\<lparr>PhysicalMemoryAllocator := ws\<rparr>) A k"
    and "free_pages ws = free_pages (PhysicalMemoryAllocator m) - 1"
    and "\<And>p. fresh_page m A p \<Longrightarrow> fresh_page (m\<lparr>PhysicalMemoryAllocator := ws\<rparr>) A p \<and> p \<noteq> k"
proof -
  have pi: "pool_invar 65536 (PhysicalMemoryAllocator m)" using inv by (simp add: mmu_inv_def)
  obtain k ws where k: "AllocatePhysical 1 m = Inr (pg k, m\<lparr>PhysicalMemoryAllocator := ws\<rparr>)" "k < 65536"
      "pool_invar 65536 ws" "block_map 65536 (PhysicalMemoryAllocator m) k = None"
      "block_map 65536 ws = (block_map 65536 (PhysicalMemoryAllocator m))(k \<mapsto> 1)"
      "free_pages ws = free_pages (PhysicalMemoryAllocator m) - 1"
    by (rule AllocatePhysical_one [OF pi free]) blast
  have notin: "k \<notin> nodes A" using inv k(4) by (auto simp: mmu_inv_def)
  have "mmu_inv (m\<lparr>PhysicalMemoryAllocator := ws\<rparr>) A"
    using inv k(3,5) by (auto simp: mmu_inv_def rep_def)
  moreover have "fresh_page (m\<lparr>PhysicalMemoryAllocator := ws\<rparr>) A k" using k(2,5) notin by (simp add: fresh_page_def)
  moreover have "fresh_page (m\<lparr>PhysicalMemoryAllocator := ws\<rparr>) A p \<and> p \<noteq> k" if "fresh_page m A p" for p
    using that k(4,5) by (auto simp: fresh_page_def)
  ultimately show ?thesis using that k(1,6) by blast
qed

lemma mmu_inv_add_root:
  assumes inv: "mmu_inv m A" and k: "fresh_page m A k" and r: "root A = None"
  shows "mmu_inv (m\<lparr>l1_page_table := (l1_page_table m)[4 := TableDescriptor (of_nat (pg k))],
    table_memory := (table_memory m)(pg k \<mapsto> new_table)\<rparr>) (A\<lparr>root := Some k\<rparr>)"
proof -
  have m: "mids A = Map.empty" using inv r by (simp add: mmu_inv_def tree_ok_def)
  then have l: "leaves A = Map.empty" using inv by (auto simp: mmu_inv_def tree_ok_def)
  have "table TableDescriptor Map.empty = new_table" by (rule table_empty) simp
  then show ?thesis using inv k m l
    by (auto simp: mmu_inv_def rep_def tree_ok_def separate_def nodes_def fresh_page_def)
qed

lemma mmu_inv_add_mid:
  assumes inv: "mmu_inv m A" and k: "fresh_page m A k" and r: "root A = Some r" and i: "mids A i = None" "i < 512"
  shows "mmu_inv (m\<lparr>table_memory := (table_memory m)(pg r \<mapsto> (table TableDescriptor (mids A))[i := TableDescriptor (of_nat (pg k))],
    pg k \<mapsto> new_table)\<rparr>) (A\<lparr>mids := (mids A)(i \<mapsto> k)\<rparr>)"
proof -
  have upd: "(table TableDescriptor (mids A))[i := TableDescriptor (of_nat (pg k))] = table TableDescriptor ((mids A)(i \<mapsto> k))"
    using table_update [of TableDescriptor "mids A" i "Some k"] by simp
  have kn: "k \<noteq> r" "k \<notin> ran (mids A)" "k \<notin> ran (leaves A)"
    using k r by (auto simp: fresh_page_def nodes_def)
  have no: "leaves A (512 * i + j) = None" if "j < 512" for j
  proof (rule ccontr)
    assume "leaves A (512 * i + j) \<noteq> None"
    then have "mids A ((512 * i + j) div 512) \<noteq> None" using inv unfolding mmu_inv_def tree_ok_def by blast
    moreover have "(512 * i + j) div 512 = i" using that by simp
    ultimately show False using i by simp
  qed
  then have new: "table L3NormalMem (\<lambda>j. leaves A (512 * i + j)) = new_table" by (rule table_empty)
  have old: "table_memory m (pg k') = Some (table L3NormalMem (\<lambda>j. leaves A (512 * i' + j)))" "k' \<noteq> k" "k' \<noteq> r"
    if "mids A i' = Some k'" for i' k'
    using inv that kn r by (auto simp: mmu_inv_def rep_def separate_def ran_def)
  have "rep (m\<lparr>table_memory := (table_memory m)(pg r \<mapsto> table TableDescriptor ((mids A)(i \<mapsto> k)), pg k \<mapsto> new_table)\<rparr>)
      (A\<lparr>mids := (mids A)(i \<mapsto> k)\<rparr>)"
    using inv kn(1) r new old by (auto simp: mmu_inv_def rep_def)
  moreover have "tree_ok (A\<lparr>mids := (mids A)(i \<mapsto> k)\<rparr>)"
    using inv i r by (auto simp: mmu_inv_def tree_ok_def)
  moreover have "separate (A\<lparr>mids := (mids A)(i \<mapsto> k)\<rparr>)"
    using inv kn r i(1) inj_on_fun_upd_fresh [of "mids A" k i] by (auto simp: mmu_inv_def separate_def)
  ultimately show ?thesis
    unfolding upd using inv k nodes_simps(2) [of A i k] by (auto simp: mmu_inv_def fresh_page_def)
qed

lemma ran_upd_subset: "ran (f(v \<mapsto> k)) \<subseteq> insert k (ran f)"
  by (auto simp: ran_def)

lemma mmu_inv_add_leaf:
  assumes inv: "mmu_inv m A" and p: "fresh_page m A p" and k: "mids A (v div 512) = Some k" and v: "v < 262144"
  shows "mmu_inv (m\<lparr>table_memory := (table_memory m)(pg k \<mapsto>
      (table L3NormalMem (\<lambda>j. leaves A (512 * (v div 512) + j)))[v mod 512 := L3NormalMem (of_nat (pg p))])\<rparr>)
    (A\<lparr>leaves := (leaves A)(v \<mapsto> p)\<rparr>)"
proof -
  let ?i = "v div 512" and ?j = "v mod 512" and ?lv = "(leaves A)(v \<mapsto> p)"
  have "(table L3NormalMem (\<lambda>j. leaves A (512 * ?i + j)))[?j := L3NormalMem (of_nat (pg p))] =
      table L3NormalMem ((\<lambda>j. leaves A (512 * ?i + j))(?j \<mapsto> p))"
    using table_update [of L3NormalMem _ ?j "Some p"] by simp
  also have "\<dots> = table L3NormalMem (\<lambda>j. ?lv (512 * ?i + j))"
  proof (rule table_cong)
    fix j :: nat
    assume "j < 512"
    then have "512 * ?i + j = v \<longleftrightarrow> j = ?j" using div_mult_mod_eq [of v 512] by linarith
    then show "((\<lambda>j. leaves A (512 * ?i + j))(?j \<mapsto> p)) j = ?lv (512 * ?i + j)" by simp
  qed
  finally have upd: "(table L3NormalMem (\<lambda>j. leaves A (512 * ?i + j)))[?j := L3NormalMem (of_nat (pg p))] =
      table L3NormalMem (\<lambda>j. ?lv (512 * ?i + j))" .
  have other: "table L3NormalMem (\<lambda>j. ?lv (512 * i' + j)) = table L3NormalMem (\<lambda>j. leaves A (512 * i' + j))"
    if "i' \<noteq> ?i" for i'
    by (rule table_cong) (use that in auto)
  have sep: "separate A" using inv by (simp add: mmu_inv_def)
  have kr1: "root A \<noteq> Some k" using sep ranI [of "mids A", OF k] by (auto simp: separate_def)
  have one: "i' = ?i" if "mids A i' = Some k" for i'
    using sep that k unfolding separate_def by (metis inj_onD domI)
  have tm: "((table_memory m)(pg k \<mapsto> table L3NormalMem (\<lambda>j. ?lv (512 * ?i + j)))) (pg k') =
      Some (table L3NormalMem (\<lambda>j. ?lv (512 * i' + j)))" if "mids A i' = Some k'" for i' k'
  proof (cases "k' = k")
    case True
    with one that have "i' = ?i" by blast
    with True show ?thesis by (simp del: fun_upd_apply add: fun_upd_same)
  next
    case False
    then have "i' \<noteq> ?i" using that k by auto
    then show ?thesis unfolding other [OF \<open>i' \<noteq> ?i\<close>] using inv that False by (simp add: mmu_inv_def rep_def)
  qed
  have "rep (m\<lparr>table_memory := (table_memory m)(pg k \<mapsto> table L3NormalMem (\<lambda>j. ?lv (512 * ?i + j)))\<rparr>) (A\<lparr>leaves := ?lv\<rparr>)"
    unfolding rep_def using inv kr1 tm by (auto simp: mmu_inv_def rep_def simp del: fun_upd_apply simp: fun_upd_other)
  moreover have "tree_ok (A\<lparr>leaves := ?lv\<rparr>)" using inv k v by (auto simp: mmu_inv_def tree_ok_def)
  moreover have "separate (A\<lparr>leaves := ?lv\<rparr>)"
    using inv p inj_on_fun_upd_fresh [of "leaves A" p v] ran_upd_subset [of "leaves A" v p]
    by (auto simp: mmu_inv_def separate_def fresh_page_def nodes_def)
  ultimately show ?thesis
    unfolding upd using inv p nodes_simps(3) [of A v p] by (auto simp: mmu_inv_def fresh_page_def)
qed

section \<open>Mapping a page\<close>

text \<open>
  One mapping: the leaf is set, nothing else in the window changes, at most \<open>c\<close> pages are
  taken for tables, and the rest of the state stays.
\<close>

definition maps :: "mmu \<Rightarrow> aspace \<Rightarrow> nat \<Rightarrow> nat \<Rightarrow> nat \<Rightarrow> mmu \<Rightarrow> aspace \<Rightarrow> bool" where
  "maps m A v p c m' A' \<longleftrightarrow> mmu_inv m' A' \<and> leaves A' = (leaves A)(v \<mapsto> p) \<and>
     (\<forall>i. i \<noteq> 4 \<longrightarrow> l1_page_table m' ! i = l1_page_table m ! i) \<and>
     VirtualMemoryAllocator m' = VirtualMemoryAllocator m \<and>
     free_pages (PhysicalMemoryAllocator m) \<le> free_pages (PhysicalMemoryAllocator m') + c"

lemma MapOnePage_L3_maps:
  assumes inv: "mmu_inv m A" and p: "fresh_page m A p" and k: "mids A (v div 512) = Some k" and v: "v < 262144"
  shows "\<exists>m' A'. MapOnePage_L3 (pg k) (v mod 512) (L3NormalMem (of_nat (pg p))) m = Inr m' \<and> maps m A v p 0 m' A'"
proof -
  have t: "table_memory m (pg k) = Some (table L3NormalMem (\<lambda>j. leaves A (512 * (v div 512) + j)))"
    using inv k by (simp add: mmu_inv_def rep_def)
  show ?thesis
    using mmu_inv_add_leaf [OF inv p k v] by (auto simp: MapOnePage_L3_def t maps_def)
qed

lemma fresh_page_mid:
  assumes "fresh_page m A p" and "p \<noteq> k" and "PhysicalMemoryAllocator m' = PhysicalMemoryAllocator m"
  shows "fresh_page m' (A\<lparr>mids := (mids A)(i \<mapsto> k)\<rparr>) p"
  using assms nodes_simps(2) [of A i k] by (auto simp: fresh_page_def)

lemma MapOnePage_L2_maps:
  assumes inv: "mmu_inv m A" and p: "fresh_page m A p" and r: "root A = Some r" and v: "v < 262144"
    and free: "1 \<le> free_pages (PhysicalMemoryAllocator m)"
  shows "\<exists>m' A'. MapOnePage_L2 (pg r) v (L3NormalMem (of_nat (pg p))) m = Inr m' \<and> maps m A v p 1 m' A'"
proof -
  let ?i = "v div 512"
  have t: "table_memory m (pg r) = Some (table TableDescriptor (mids A))" using inv r by (simp add: mmu_inv_def rep_def)
  have i: "?i < 512" using v by simp
  show ?thesis
  proof (cases "mids A ?i")
    case (Some k)
    have k16: "k < 65536" using nodes_bound [OF inv, of k] Some by (auto simp: nodes_def ran_def)
    obtain m' A' where "MapOnePage_L3 (pg k) (v mod 512) (L3NormalMem (of_nat (pg p))) m = Inr m'" "maps m A v p 0 m' A'"
      using MapOnePage_L3_maps [OF inv p Some v] by blast
    then show ?thesis using Some i entry_read [OF k16]
      by (auto simp: MapOnePage_L2_def t maps_def)
  next
    case None
    have pos: "0 < free_pages (PhysicalMemoryAllocator m)" using free by simp
    obtain k ws where k: "AllocatePhysical 1 m = Inr (pg k, m\<lparr>PhysicalMemoryAllocator := ws\<rparr>)"
        "mmu_inv (m\<lparr>PhysicalMemoryAllocator := ws\<rparr>) A" "fresh_page (m\<lparr>PhysicalMemoryAllocator := ws\<rparr>) A k"
        "free_pages ws = free_pages (PhysicalMemoryAllocator m) - 1"
      and fp: "fresh_page (m\<lparr>PhysicalMemoryAllocator := ws\<rparr>) A p \<and> p \<noteq> k"
      using mmu_inv_alloc [OF inv pos] p by metis
    define m2 where "m2 = m\<lparr>PhysicalMemoryAllocator := ws, table_memory := (table_memory m)
      (pg r \<mapsto> (table TableDescriptor (mids A))[?i := TableDescriptor (of_nat (pg k))], pg k \<mapsto> new_table)\<rparr>"
    let ?A = "A\<lparr>mids := (mids A)(?i \<mapsto> k)\<rparr>"
    have inv2: "mmu_inv m2 ?A" using mmu_inv_add_mid [OF k(2,3) r None i] by (simp add: m2_def)
    have p2: "fresh_page m2 ?A p" using fp by (intro fresh_page_mid) (auto simp: m2_def)
    obtain m' A' where "MapOnePage_L3 (pg k) (v mod 512) (L3NormalMem (of_nat (pg p))) m2 = Inr m'" "maps m2 ?A v p 0 m' A'"
      using MapOnePage_L3_maps [OF inv2 p2, of v k] v by auto
    then show ?thesis using None i k(1,4)
      by (auto simp: MapOnePage_L2_def t maps_def m2_def Let_def)
  qed
qed

lemma MapOnePage_maps:
  assumes inv: "mmu_inv m A" and p: "fresh_page m A p" and v: "v < 262144"
    and free: "2 \<le> free_pages (PhysicalMemoryAllocator m)"
  shows "\<exists>m' A'. MapOnePage (1048576 + v) (L3NormalMem (of_nat (pg p))) m = Inr m' \<and> maps m A v p 2 m' A'"
proof -
  have l1: "length (l1_page_table m) = 512" "l1_page_table m ! 4 = entry TableDescriptor (root A)"
    using inv by (auto simp: mmu_inv_def rep_def)
  have idx: "(1048576 + v) div 2 ^ 18 = 4" "(1048576 + v) mod 2 ^ 18 = v"
    using v mod_mult_self3 [of 4 262144 v] by auto
  show ?thesis
  proof (cases "root A")
    case (Some r)
    have r16: "r < 65536" using nodes_bound [OF inv, of r] Some by (auto simp: nodes_def)
    obtain m' A' where "MapOnePage_L2 (pg r) v (L3NormalMem (of_nat (pg p))) m = Inr m'" "maps m A v p 1 m' A'"
      using MapOnePage_L2_maps [OF inv p Some v] free by auto
    then show ?thesis unfolding MapOnePage_def idx using Some l1 entry_read [OF r16]
      by (auto simp: maps_def)
  next
    case None
    have pos: "0 < free_pages (PhysicalMemoryAllocator m)" using free by simp
    obtain k ws where k: "AllocatePhysical 1 m = Inr (pg k, m\<lparr>PhysicalMemoryAllocator := ws\<rparr>)"
        "mmu_inv (m\<lparr>PhysicalMemoryAllocator := ws\<rparr>) A" "fresh_page (m\<lparr>PhysicalMemoryAllocator := ws\<rparr>) A k"
        "free_pages ws = free_pages (PhysicalMemoryAllocator m) - 1"
      and fp: "fresh_page (m\<lparr>PhysicalMemoryAllocator := ws\<rparr>) A p \<and> p \<noteq> k"
      using mmu_inv_alloc [OF inv pos] p by metis
    define m2 where "m2 = m\<lparr>PhysicalMemoryAllocator := ws,
      l1_page_table := (l1_page_table m)[4 := TableDescriptor (of_nat (pg k))],
      table_memory := (table_memory m)(pg k \<mapsto> new_table)\<rparr>"
    let ?A = "A\<lparr>root := Some k\<rparr>"
    have inv2: "mmu_inv m2 ?A" using mmu_inv_add_root [OF k(2,3) None] by (simp add: m2_def)
    have p2: "fresh_page m2 ?A p"
      using fp nodes_simps(1) [of k A] by (auto simp: fresh_page_def m2_def)
    have "1 \<le> free_pages (PhysicalMemoryAllocator m2)" using k(4) free by (simp add: m2_def)
    then obtain m' A' where "MapOnePage_L2 (pg k) v (L3NormalMem (of_nat (pg p))) m2 = Inr m'" "maps m2 ?A v p 1 m' A'"
      using MapOnePage_L2_maps [OF inv2 p2, of k v] v by auto
    then show ?thesis unfolding MapOnePage_def idx using None l1 k(1,4)
      by (auto simp: maps_def m2_def Let_def nth_list_update)
  qed
qed

section \<open>Committing and allocating pages\<close>

definition commits :: "mmu \<Rightarrow> aspace \<Rightarrow> nat \<Rightarrow> nat \<Rightarrow> mmu \<Rightarrow> aspace \<Rightarrow> bool" where
  "commits m A s n m' A' \<longleftrightarrow> mmu_inv m' A' \<and>
     (\<forall>v. if s \<le> v \<and> v < s + n then leaves A' v \<noteq> None else leaves A' v = leaves A v) \<and>
     (\<forall>i. i \<noteq> 4 \<longrightarrow> l1_page_table m' ! i = l1_page_table m ! i) \<and>
     VirtualMemoryAllocator m' = VirtualMemoryAllocator m"

lemma commit_loop_commits:
  "\<lbrakk>mmu_inv m A; s + i + n \<le> 262144; 3 * n \<le> free_pages (PhysicalMemoryAllocator m)\<rbrakk> \<Longrightarrow>
   \<exists>m' A'. commit_loop n (1048576 + s) i m = Inr m' \<and> commits m A (s + i) n m' A'"
proof (induction n arbitrary: i m A)
  case 0
  then show ?case by (auto simp: commits_def)
next
  case (Suc n)
  have pos: "0 < free_pages (PhysicalMemoryAllocator m)" using Suc.prems(3) by simp
  obtain p ws where p: "AllocatePhysical 1 m = Inr (pg p, m\<lparr>PhysicalMemoryAllocator := ws\<rparr>)"
      "mmu_inv (m\<lparr>PhysicalMemoryAllocator := ws\<rparr>) A" "fresh_page (m\<lparr>PhysicalMemoryAllocator := ws\<rparr>) A p"
      "free_pages ws = free_pages (PhysicalMemoryAllocator m) - 1"
    using mmu_inv_alloc [OF Suc.prems(1) pos] by metis
  let ?m1 = "m\<lparr>PhysicalMemoryAllocator := ws\<rparr>"
  have v: "s + i < 262144" and f: "2 \<le> free_pages (PhysicalMemoryAllocator ?m1)"
    using Suc.prems(2,3) p(4) by auto
  obtain m2 A2 where m2: "MapOnePage (1048576 + (s + i)) (L3NormalMem (of_nat (pg p))) ?m1 = Inr m2"
      "maps ?m1 A (s + i) p 2 m2 A2"
    using MapOnePage_maps [OF p(2,3) v f] by blast
  have "3 * n \<le> free_pages (PhysicalMemoryAllocator m2)"
    using m2(2) Suc.prems(3) p(4) by (auto simp: maps_def)
  moreover have "mmu_inv m2 A2" using m2(2) by (simp add: maps_def)
  ultimately obtain m' A' where c: "commit_loop n (1048576 + s) (i + 1) m2 = Inr m'" "commits m2 A2 (s + (i + 1)) n m' A'"
    using Suc.IH [of m2 A2 "i + 1"] Suc.prems(2) by auto
  have "wrap32 (1048576 + s + i) = 1048576 + (s + i)" using v by simp
  then have "commit_loop (Suc n) (1048576 + s) i m = Inr m'" using p(1) m2(1) c(1) by (simp add: add.assoc)
  moreover have "commits m A (s + i) (Suc n) m' A'"
    unfolding commits_def
  proof (intro conjI allI impI)
    fix v
    have "leaves A2 v = (if v = s + i then Some p else leaves A v)" using m2(2) by (simp add: maps_def)
    moreover have "if s + (i + 1) \<le> v \<and> v < s + (i + 1) + n then leaves A' v \<noteq> None else leaves A' v = leaves A2 v"
      using c(2) unfolding commits_def by blast
    ultimately show "if s + i \<le> v \<and> v < s + i + Suc n then leaves A' v \<noteq> None else leaves A' v = leaves A v"
      by (auto split: if_splits)
  qed (use c(2) m2(2) in \<open>auto simp: commits_def maps_def\<close>)
  ultimately show ?case by blast
qed

definition mmu_owned :: "mmu \<Rightarrow> (nat \<times> nat) set" where
  "mmu_owned m = {(VirtualMemoryAllocatorOffset + 4096 * s, 4096 * n) | s n.
     block_map 262144 (VirtualMemoryAllocator m) s = Some n}"

definition mmu_invar :: "mmu \<Rightarrow> bool" where
  "mmu_invar m \<longleftrightarrow> (\<exists>A. mmu_inv m A)"

text \<open>
  Enough room for \<open>n\<close> pages: a free run of virtual pages, and three physical pages for each page,
  which covers the page itself and the tables its mapping may need.
\<close>

definition mmu_avail :: "nat \<Rightarrow> mmu \<Rightarrow> bool" where
  "mmu_avail n m \<longleftrightarrow> n \<le> 262144 \<and> 3 * n \<le> free_pages (PhysicalMemoryAllocator m) \<and>
     (\<exists>r. r + n \<le> 262144 \<and> (\<forall>s k. block_map 262144 (VirtualMemoryAllocator m) s = Some k \<longrightarrow> apart r n s k))"

lemma AllocatePages_room:
  assumes inv: "mmu_inv m A" and av: "mmu_avail n m" and n: "0 < n"
  obtains s ws where "AllocatePages n m = Inr (VirtualMemoryAllocatorOffset + 4096 * s, m\<lparr>VirtualMemoryAllocator := ws\<rparr>)"
    and "s + n \<le> 262144" and "mmu_inv (m\<lparr>VirtualMemoryAllocator := ws\<rparr>) A"
    and "block_map 262144 ws = (block_map 262144 (VirtualMemoryAllocator m))(s \<mapsto> n)"
    and "\<And>t k. block_map 262144 (VirtualMemoryAllocator m) t = Some k \<Longrightarrow> apart s n t k"
    and "block_map 262144 (VirtualMemoryAllocator m) s = None"
proof -
  have p1: "is_pow2 1" unfolding is_pow2_def by (rule exI [of _ 0]) simp
  have pi: "pool_invar 262144 (VirtualMemoryAllocator m)" using inv by (simp add: mmu_inv_def)
  have n': "n \<le> 4294967232" using av by (simp add: mmu_avail_def)
  obtain r where r: "r + n \<le> 262144" "\<And>s k. block_map 262144 (VirtualMemoryAllocator m) s = Some k \<Longrightarrow> apart r n s k"
    using av by (auto simp: mmu_avail_def)
  have "\<not> (\<forall>r. 1 dvd r \<and> r + n \<le> 262144 \<longrightarrow>
      (\<exists>s k. block_map 262144 (VirtualMemoryAllocator m) s = Some k \<and> \<not> apart r n s k))"
    using r one_dvd by blast
  then obtain s ws where s: "pool_alloc 262144 n 1 (VirtualMemoryAllocator m) = Inr (s, ws)" "s \<noteq> UINT32_MAX"
    using pool.alloc_spec [OF pi n n' p1] by auto
  note fr = pool.alloc_fresh [OF pi n n' p1 _ s]
  have "s < 262144" using fr(2) n by simp
  then have "AllocatePages n m = Inr (VirtualMemoryAllocatorOffset + 4096 * s, m\<lparr>VirtualMemoryAllocator := ws\<rparr>)"
    using s(1) by (simp add: AllocatePages_def)
  moreover have "mmu_inv (m\<lparr>VirtualMemoryAllocator := ws\<rparr>) A" using inv fr(3) by (auto simp: mmu_inv_def rep_def)
  ultimately show ?thesis using that fr by simp
qed

lemma AllocateAndCommitPages_commits:
  assumes inv: "mmu_inv m A" and av: "mmu_avail n m" and n: "0 < n"
  obtains s m' A' where "AllocateAndCommitPages n m = Inr (VirtualMemoryAllocatorOffset + 4096 * s, m')"
    and "s + n \<le> 262144" and "mmu_inv m' A'"
    and "block_map 262144 (VirtualMemoryAllocator m') = (block_map 262144 (VirtualMemoryAllocator m))(s \<mapsto> n)"
    and "\<And>t k. block_map 262144 (VirtualMemoryAllocator m) t = Some k \<Longrightarrow> apart s n t k"
    and "\<And>v. if s \<le> v \<and> v < s + n then leaves A' v \<noteq> None else leaves A' v = leaves A v"
    and "\<And>i. i \<noteq> 4 \<Longrightarrow> l1_page_table m' ! i = l1_page_table m ! i"
proof -
  obtain s ws where s: "AllocatePages n m = Inr (VirtualMemoryAllocatorOffset + 4096 * s, m\<lparr>VirtualMemoryAllocator := ws\<rparr>)"
      "s + n \<le> 262144" "mmu_inv (m\<lparr>VirtualMemoryAllocator := ws\<rparr>) A"
      "block_map 262144 ws = (block_map 262144 (VirtualMemoryAllocator m))(s \<mapsto> n)"
      "\<And>t k. block_map 262144 (VirtualMemoryAllocator m) t = Some k \<Longrightarrow> apart s n t k"
    using AllocatePages_room [OF assms] by metis
  have base: "(VirtualMemoryAllocatorOffset + 4096 * s) div 4096 = 1048576 + s" by simp
  have "3 * n \<le> free_pages (PhysicalMemoryAllocator (m\<lparr>VirtualMemoryAllocator := ws\<rparr>))"
    using av by (simp add: mmu_avail_def)
  then obtain m' A' where c: "commit_loop n (1048576 + s) 0 (m\<lparr>VirtualMemoryAllocator := ws\<rparr>) = Inr m'"
      "commits (m\<lparr>VirtualMemoryAllocator := ws\<rparr>) A s n m' A'"
    using commit_loop_commits [OF s(3), of s 0 n] s(2) by auto
  have "wrap32 (1048576 + s) = 1048576 + s" using s(2) by simp
  then have "AllocateAndCommitPages n m = Inr (VirtualMemoryAllocatorOffset + 4096 * s, m')"
    using s(1) c(1) unfolding AllocateAndCommitPages_def CommitPages_def s(1) rbind_Inr prod.case base by simp
  then show ?thesis
  proof (rule that [OF _ s(2)])
    show "mmu_inv m' A'" using c(2) by (simp add: commits_def)
    show "block_map 262144 (VirtualMemoryAllocator m') = (block_map 262144 (VirtualMemoryAllocator m))(s \<mapsto> n)"
      using c(2) s(4) by (simp add: commits_def)
    show "if s \<le> v \<and> v < s + n then leaves A' v \<noteq> None else leaves A' v = leaves A v" for v
      using c(2) unfolding commits_def by blast
    show "l1_page_table m' ! i = l1_page_table m ! i" if "i \<noteq> 4" for i
      using c(2) that by (simp add: commits_def)
  qed (rule s(5))
qed

interpretation mmu: page_provider AllocateAndCommitPages mmu_owned mmu_invar mmu_avail
proof
  fix m n
  assume "mmu_invar m" and av: "mmu_avail n m" and n: "0 < n"
  then obtain A where inv: "mmu_inv m A" by (auto simp: mmu_invar_def)
  obtain s m' A' where s: "AllocateAndCommitPages n m = Inr (VirtualMemoryAllocatorOffset + 4096 * s, m')"
      "s + n \<le> 262144" "mmu_inv m' A'"
      "block_map 262144 (VirtualMemoryAllocator m') = (block_map 262144 (VirtualMemoryAllocator m))(s \<mapsto> n)"
      "\<And>t k. block_map 262144 (VirtualMemoryAllocator m) t = Some k \<Longrightarrow> apart s n t k"
    by (rule AllocateAndCommitPages_commits [OF inv av n]) blast
  have none: "block_map 262144 (VirtualMemoryAllocator m) s = None"
  proof (rule ccontr)
    assume "block_map 262144 (VirtualMemoryAllocator m) s \<noteq> None"
    then obtain k where k: "block_map 262144 (VirtualMemoryAllocator m) s = Some k" by auto
    have "0 < k" using pool.blocks_pos [OF _ k] inv by (simp add: mmu_inv_def)
    with s(5) [OF k] n show False by (simp add: apart_def)
  qed
  have "mmu_owned m' = insert (VirtualMemoryAllocatorOffset + 4096 * s, 4096 * n) (mmu_owned m)"
    unfolding mmu_owned_def s(4) using none by (auto split: if_splits)
  moreover have "\<forall>b k. (b, k) \<in> mmu_owned m \<longrightarrow> apart (VirtualMemoryAllocatorOffset + 4096 * s) (4096 * n) b k"
    using s(5) by (force simp: mmu_owned_def apart_def)
  moreover have "4096 dvd VirtualMemoryAllocatorOffset + 4096 * s" by simp
  ultimately show "\<exists>addr m'. AllocateAndCommitPages n m = Inr (addr, m') \<and> mmu_invar m' \<and> addr \<noteq> 0 \<and> 4096 dvd addr \<and>
        addr + 4096 * n < 18446744073709551616 \<and> mmu_owned m' = insert (addr, 4096 * n) (mmu_owned m) \<and>
        (\<forall>b k. (b, k) \<in> mmu_owned m \<longrightarrow> apart addr (4096 * n) b k)"
    using s(1,2,3) by (intro exI [of _ "VirtualMemoryAllocatorOffset + 4096 * s"] exI [of _ m']) (auto simp: mmu_invar_def)
qed

section \<open>What the walk sees\<close>

lemma leaf_needs_mid: "\<lbrakk>tree_ok A; mids A (v div 512) = None\<rbrakk> \<Longrightarrow> leaves A v = None"
  unfolding tree_ok_def by (metis domIff)

lemma walk_indices:
  fixes v off :: nat
  assumes "v < 262144" and "off < 4096"
  shows "(4294967296 + 4096 * v + off) div 2 ^ 30 = 4" and "(4294967296 + 4096 * v + off) div 2 ^ 21 mod 512 = v div 512"
    and "(4294967296 + 4096 * v + off) div 2 ^ 12 mod 512 = v mod 512"
    and "(4294967296 + 4096 * v + off) mod 2 ^ 12 = off" and "\<not> 2 ^ 39 \<le> 4294967296 + 4096 * v + off"
proof -
  let ?va = "4294967296 + 4096 * v + off"
  have d12: "?va div 4096 = 1048576 + v" using assms by simp
  show "?va div 2 ^ 12 mod 512 = v mod 512" using d12 mod_mult_self3 [of 2048 512 v] by simp
  have "?va div 2 ^ 21 = ?va div 4096 div 512" by (simp add: div_mult2_eq [symmetric])
  also have "\<dots> = 2048 + v div 512" unfolding d12 using div_mult_self3 [of 512 2048 v] by simp
  finally have "?va div 2 ^ 21 = 2048 + v div 512" .
  moreover have "v div 512 < 512" using assms(1) by simp
  ultimately show "?va div 2 ^ 21 mod 512 = v div 512" using mod_mult_self3 [of 4 512 "v div 512"] by simp
  have "?va div 2 ^ 30 = ?va div 4096 div 262144" by (simp add: div_mult2_eq [symmetric])
  also have "\<dots> = 4" unfolding d12 using assms(1) by simp
  finally show "?va div 2 ^ 30 = 4" .
  have "?va mod 4096 = off" using assms(2) mod_mult_self3 [of "1048576 + v" 4096 off] by (simp add: mult.commute)
  then show "?va mod 2 ^ 12 = off" by simp
  show "\<not> 2 ^ 39 \<le> ?va" using assms by simp
qed

lemma translate_window:
  assumes inv: "mmu_inv m A" and v: "v < 262144" and off: "off < 4096"
  shows "translate m (4294967296 + 4096 * v + off) = map_option (\<lambda>p. pg p + off) (leaves A v)"
proof -
  have l1: "l1_page_table m ! 4 = entry TableDescriptor (root A)" using inv by (auto simp: mmu_inv_def rep_def)
  have tree: "tree_ok A" using inv by (simp add: mmu_inv_def)
  show ?thesis
  proof (cases "root A")
    case None
    then have "mids A (v div 512) = None" using tree by (simp add: tree_ok_def)
    with tree have "leaves A v = None" by (rule leaf_needs_mid)
    then show ?thesis unfolding translate_def walk_indices [OF v off] by (simp add: None l1)
  next
    case (Some r)
    have r16: "r < 65536" using nodes_bound [OF inv, of r] Some by (auto simp: nodes_def)
    have t2: "table_memory m (pg r) = Some (table TableDescriptor (mids A))" using inv Some by (simp add: mmu_inv_def rep_def)
    have i: "v div 512 < 512" using v by simp
    show ?thesis
    proof (cases "mids A (v div 512)")
      case None
      with tree have "leaves A v = None" by (rule leaf_needs_mid)
      then show ?thesis unfolding translate_def walk_indices [OF v off]
        by (simp add: Some l1 t2 None i entry_read [OF r16])
    next
      case mid: (Some k)
      have k16: "k < 65536" using nodes_bound [OF inv, of k] mid by (auto simp: nodes_def ran_def)
      have t3: "table_memory m (pg k) = Some (table L3NormalMem (\<lambda>j. leaves A (512 * (v div 512) + j)))"
        using inv mid by (simp add: mmu_inv_def rep_def)
      show ?thesis
      proof (cases "leaves A v")
        case None
        then show ?thesis unfolding translate_def walk_indices [OF v off]
          by (simp add: Some l1 t2 mid i entry_read [OF r16] entry_read [OF k16] t3)
      next
        case leaf: (Some p)
        have "p < 65536" using nodes_bound [OF inv, of p] leaf by (auto simp: nodes_def ran_def)
        then show ?thesis unfolding translate_def walk_indices(1-4) [OF v off]
          using walk_indices(5) [OF v off]
          by (simp add: Some l1 t2 mid i entry_read entry_read [OF r16] entry_read [OF k16] t3 leaf)
      qed
    qed
  qed
qed

definition window_page :: "nat \<Rightarrow> nat" where
  "window_page x = (x - 4294967296) div 4096"

lemma window_split:
  assumes "4294967296 \<le> x" and "x < 5368709120"
  shows "x = 4294967296 + 4096 * window_page x + x mod 4096" and "window_page x < 262144"
proof -
  define y where "y = x - 4294967296"
  have x: "x = 4294967296 + y" "y < 1073741824" using assms by (auto simp: y_def)
  have "x mod 4096 = y mod 4096" unfolding x(1) using mod_mult_self3 [of 1048576 4096 y] by simp
  then show "x = 4294967296 + 4096 * window_page x + x mod 4096" by (simp add: window_page_def x(1))
  show "window_page x < 262144" using x(2) by (simp add: window_page_def x(1))
qed

lemma window_range:
  assumes "4294967296 \<le> x" and "x < 5368709120"
  shows "s \<le> window_page x \<and> window_page x < s + n \<longleftrightarrow>
    4294967296 + 4096 * s \<le> x \<and> x < 4294967296 + 4096 * s + 4096 * n"
proof -
  have "x mod 4096 < 4096" by simp
  then show ?thesis using window_split(1) [OF assms] by linarith
qed

lemma pg_offset_eq: "\<lbrakk>a < 4096; b < 4096\<rbrakk> \<Longrightarrow> pg p + a = pg q + b \<longleftrightarrow> p = q \<and> a = b"
  by (cases p q rule: linorder_cases) (simp_all add: pg_def)

lemma translate_at:
  assumes "mmu_inv m A" and "4294967296 \<le> x" and "x < 5368709120"
  shows "translate m x = map_option (\<lambda>p. pg p + x mod 4096) (leaves A (window_page x))"
  using translate_window [OF assms(1) window_split(2) [OF assms(2,3)], of "x mod 4096"]
    window_split(1) [OF assms(2,3)] by simp

lemma translate_in_ram:
  assumes inv: "mmu_inv m A" and x: "4294967296 \<le> x" "x < 5368709120" and l: "leaves A (window_page x) \<noteq> None"
  shows "\<exists>pa. translate m x = Some pa \<and> 0x20000000 \<le> pa \<and> pa < 0x30000000"
proof -
  obtain p where p: "leaves A (window_page x) = Some p" using l by auto
  then have "p < 65536" using nodes_bound [OF inv, of p] by (auto simp: nodes_def ran_def)
  moreover have "x mod 4096 < 4096" by simp
  ultimately show ?thesis using translate_at [OF inv x] p by (auto simp: pg_def)
qed

lemma translate_inj:
  assumes inv: "mmu_inv m A" and x: "4294967296 \<le> x" "x < 5368709120" and y: "4294967296 \<le> y" "y < 5368709120"
    and t: "translate m x = Some pa" "translate m y = Some pa"
  shows "x = y"
proof -
  obtain p q where p: "leaves A (window_page x) = Some p" "leaves A (window_page y) = Some q"
      and eq: "pg p + x mod 4096 = pg q + y mod 4096"
    using t translate_at [OF inv x] translate_at [OF inv y] by auto
  then have pq: "p = q" "x mod 4096 = y mod 4096" by (simp_all add: pg_offset_eq)
  have "inj_on (leaves A) (dom (leaves A))" using inv by (simp add: mmu_inv_def separate_def)
  with p pq(1) have "window_page x = window_page y" by (metis domI inj_onD)
  then show ?thesis using pq(2) window_split(1) [OF x] window_split(1) [OF y] by simp
qed

section \<open>The static tables\<close>

lemma length_gpu_aperture [simp]: "length gpu_aperture = 8"
  by (simp add: gpu_aperture_def)

lemma boot_table: "length (l1_page_table (boot_mmu b)) = 512" "l1_page_table (boot_mmu b) ! 4 = InvalidDescriptor"
  by (simp_all add: boot_mmu_def Rpi3_l1_page_table_def Rpi4_l1_page_table_def pad_table_def nth_append)

lemma boot_inv: "mmu_inv (boot_mmu b) \<lparr>root = None, mids = Map.empty, leaves = Map.empty\<rparr>"
  using boot_table [of b]
  by (simp add: mmu_inv_def rep_def tree_ok_def separate_def nodes_def boot_mmu_def pool_invar_new)

lemma boot_aperture: "k < 8 \<Longrightarrow> l1_page_table (boot_mmu b) ! (28 + k) = gpu_aperture ! k"
  by (cases b) (simp_all add: boot_mmu_def Rpi3_l1_page_table_def Rpi4_l1_page_table_def pad_table_def
    nth_append)

lemma gpu_aperture_nth: "k < 8 \<Longrightarrow> gpu_aperture ! k = L1GpuMem (of_nat (k * 1073741824))"
proof -
  assume "k < 8"
  then have "k \<in> {0, 1, 2, 3, 4, 5, 6, 7}" by auto
  then show ?thesis by (auto simp: gpu_aperture_def)
qed

lemma L1GpuMem_read:
  assumes "k < 8"
  shows "IsBlock (L1GpuMem (of_nat (k * 1073741824)))"
    and "unat (get_field 30 18 (L1GpuMem (of_nat (k * 1073741824)))) = k"
proof -
  let ?a = "of_nat (k * 1073741824) :: u64"
  show "IsBlock (L1GpuMem ?a)"
    by (simp add: entry_kind_bits L1GpuMem_def bit_set_field L1BlockDescriptor_def bit_field)
  have "get_field 30 18 (L1GpuMem ?a) = take_bit 18 (drop_bit 30 ?a)"
    by (rule u64_eqI) (auto simp: get_field_def L1GpuMem_def bit_set_field L1BlockDescriptor_def bit_field simp del: bit_of_nat_iff)
  moreover have "unat ?a = k * 1073741824" unfolding unat_of_nat using assms by simp
  then have "unat (drop_bit 30 ?a) = k" unfolding unat_drop_bit_eq by (simp add: drop_bit_eq_div)
  then have "unat (take_bit 18 (drop_bit 30 ?a)) = k" unfolding unsigned_take_bit_eq using assms by (simp add: take_bit_eq_mod)
  ultimately show "unat (get_field 30 18 (L1GpuMem ?a)) = k" by simp
qed

lemma translate_aperture:
  assumes "\<And>k. k < 8 \<Longrightarrow> l1_page_table m ! (28 + k) = gpu_aperture ! k" and "pa < 2 ^ 33"
  shows "translate m (PhysicalMemoryApertureBase + pa) = Some pa"
proof -
  define k where "k = pa div 1073741824"
  have k: "k < 8" using assms(2) by (simp add: k_def)
  have va: "(30064771072 + pa) div 1073741824 = 28 + k" "(30064771072 + pa) mod 1073741824 = pa mod 1073741824"
    using div_mult_self3 [of 1073741824 28 pa] mod_mult_self3 [of 28 1073741824 pa] by (simp_all add: k_def)
  have "l1_page_table m ! (28 + k) = L1GpuMem (of_nat (k * 1073741824))"
    using assms(1) [OF k] gpu_aperture_nth [OF k] by simp
  then have "translate m (30064771072 + pa) = Some (k * 1073741824 + pa mod 1073741824)"
    using assms(2) L1GpuMem_read [OF k] va by (simp add: translate_def Let_def)
  then show ?thesis by (simp add: k_def)
qed

definition aperture_ok :: "mmu \<Rightarrow> bool" where
  "aperture_ok m \<longleftrightarrow> (\<forall>k<8. l1_page_table m ! (28 + k) = gpu_aperture ! k)"

end
