(* ===== verification/Memory.thy ===== *)
theory Memory
  imports Prelude
begin

text \<open>
  Byte-addressed memory as the target sees it: words are stored little-endian. The C runtime, the
  framebuffer and the device tree are models over it.
\<close>

section \<open>Loads and stores\<close>

type_synonym memory = "nat \<Rightarrow> u8"

definition store64 :: "nat \<Rightarrow> u64 \<Rightarrow> memory \<Rightarrow> memory" where
  "store64 a v m = (\<lambda>x. if a \<le> x \<and> x < a + 8 then ucast (drop_bit (8 * (x - a)) v) else m x)"

fun load_bytes :: "nat \<Rightarrow> nat \<Rightarrow> memory \<Rightarrow> u64" where
  "load_bytes 0 a m = 0"
| "load_bytes (Suc n) a m = ucast (m a) OR push_bit 8 (load_bytes n (a + 1) m)"

definition load64 :: "nat \<Rightarrow> memory \<Rightarrow> u64" where
  "load64 a m = load_bytes 8 a m"

definition store16 :: "nat \<Rightarrow> u16 \<Rightarrow> memory \<Rightarrow> memory" where
  "store16 a v m = (\<lambda>x. if a \<le> x \<and> x < a + 2 then ucast (drop_bit (8 * (x - a)) v) else m x)"

definition load32 :: "nat \<Rightarrow> memory \<Rightarrow> u32" where
  "load32 a m = ucast (load_bytes 4 a m)"

section \<open>Bytes of words\<close>

lemma byte_cases:
  assumes "k < (32 :: nat)"
  obtains "k < 8" | r where "k = 8 + r" "r < 8" | r where "k = 16 + r" "r < 8" | r where "k = 24 + r" "r < 8"
proof -
  consider "k < 8" | "8 \<le> k" "k < 16" | "16 \<le> k" "k < 24" | "24 \<le> k" using assms by linarith
  then show thesis
  proof cases
    case 1
    then show thesis by (rule that(1))
  next
    case 2
    then show thesis by (intro that(2) [of "k - 8"]) simp_all
  next
    case 3
    then show thesis by (intro that(3) [of "k - 16"]) simp_all
  next
    case 4
    then show thesis using assms by (intro that(4) [of "k - 24"]) simp_all
  qed
qed

lemma bit_ucast_u8_u64: "bit (ucast (b :: u8) :: u64) k \<longleftrightarrow> bit b k"
  using bit_imp_le_length [of b k] by (auto simp: bit_simps)

lemma bit_ucast_u64_u8: "bit (ucast (w :: u64) :: u8) k \<longleftrightarrow> k < 8 \<and> bit w k"
  by (auto simp: bit_simps)

lemma bit_load_bytes:
  "bit (load_bytes n a m) k \<longleftrightarrow> k < 8 * n \<and> k < 64 \<and> bit (m (a + k div 8)) (k mod 8)"
proof (induction n arbitrary: a k)
  case 0
  then show ?case by simp
next
  case (Suc n)
  show ?case
  proof (cases "k < 8")
    case True
    then show ?thesis by (simp add: bit_ucast_u8_u64)
  next
    case False
    then obtain j where k: "k = j + 8" using le_Suc_ex by (metis add.commute linorder_not_less)
    have "\<not> bit (m a) k" using False bit_imp_le_length [of "m a" k] by auto
    moreover have "(j + 8) div 8 = Suc (j div 8)" by simp
    ultimately show ?thesis using Suc.IH [of "a + 1" j] bit_imp_le_length [of "load_bytes n (a + 1) m" j]
      by (auto simp: k bit_ucast_u8_u64)
  qed
qed

lemma load64_bytes:
  assumes "i < 8"
  shows "ucast (drop_bit (8 * i) (load64 a m)) = m (a + i)"
proof (rule bit_word_eqI)
  fix k
  assume "k < LENGTH(8)"
  then have k: "k < 8" by simp
  then have "(8 * i + k) div 8 = i" "(8 * i + k) mod 8 = k" "8 * i + k < 64" using assms by auto
  then show "bit (ucast (drop_bit (8 * i) (load64 a m)) :: u8) k = bit (m (a + i)) k"
    using k by (simp add: bit_ucast_u64_u8 load64_def bit_load_bytes)
qed

section \<open>Characters\<close>

definition wctob :: "nat \<Rightarrow> int" where
  "wctob c = (if 255 < c then -1 else int c)"

end
