(* ===== verification/Crt.thy ===== *)
theory Crt
  imports Heap Memory
begin

text \<open>
  The C runtime of \<^verbatim>\<open>src/Crt.cpp\<close>: the memory and string routines over a byte-addressed memory, and
  the global heap behind \<^verbatim>\<open>malloc\<close>, \<^verbatim>\<open>free\<close>, \<^verbatim>\<open>new\<close> and \<^verbatim>\<open>delete\<close>. Copies and fills run by 64-bit words
  where they can; words are stored little-endian, as the target does. Loops that look for a terminator may run
  forever, so they are partial functions with \<open>None\<close> for a loop that does not end.
\<close>

section \<open>Fills and copies\<close>

fun fill_bytes :: "nat \<Rightarrow> nat \<Rightarrow> u8 \<Rightarrow> memory \<Rightarrow> memory" where
  "fill_bytes 0 p v m = m"
| "fill_bytes (Suc n) p v m = fill_bytes n (p + 1) v (m(p := v))"

fun fill_qwords :: "nat \<Rightarrow> nat \<Rightarrow> u64 \<Rightarrow> memory \<Rightarrow> memory" where
  "fill_qwords 0 q v m = m"
| "fill_qwords (Suc n) q v m = fill_qwords n (q + 8) v (store64 q v m)"

definition memset :: "nat \<Rightarrow> int \<Rightarrow> nat \<Rightarrow> memory \<Rightarrow> nat \<times> memory" where
  "memset dst val sz m =
     (let byte = (of_int val :: u8);
          firstBytes = min (dst mod 8) sz;
          m1 = fill_bytes firstBytes dst byte m;
          rest = sz - firstBytes;
          p = dst + firstBytes;
          wholeQwords = rest div 8;
          val64 = ucast byte * (0x0101010101010101 :: u64);
          m2 = fill_qwords wholeQwords p val64 m1 in
      (dst, fill_bytes (rest - wholeQwords * 8) (p + wholeQwords * 8) byte m2))"

fun copy_bytes :: "nat \<Rightarrow> nat \<Rightarrow> nat \<Rightarrow> memory \<Rightarrow> memory" where
  "copy_bytes 0 d s m = m"
| "copy_bytes (Suc n) d s m = copy_bytes n (d + 1) (s + 1) (m(d := m s))"

fun copy_qwords :: "nat \<Rightarrow> nat \<Rightarrow> nat \<Rightarrow> memory \<Rightarrow> memory" where
  "copy_qwords 0 d s m = m"
| "copy_qwords (Suc n) d s m = copy_qwords n (d + 8) (s + 8) (store64 d (load64 s m) m)"

definition memcpy :: "nat \<Rightarrow> nat \<Rightarrow> nat \<Rightarrow> memory \<Rightarrow> nat \<times> memory" where
  "memcpy s1 s2 n m =
     (let firstBytes = min (s1 mod 8) n;
          m1 = copy_bytes firstBytes s1 s2 m;
          rest = n - firstBytes;
          d = s1 + firstBytes; s = s2 + firstBytes;
          wholeQwords = rest div 8;
          m2 = copy_qwords wholeQwords d s m1 in
      (s1, copy_bytes (rest - wholeQwords * 8) (d + wholeQwords * 8) (s + wholeQwords * 8) m2))"

fun copy_down :: "nat \<Rightarrow> nat \<Rightarrow> nat \<Rightarrow> memory \<Rightarrow> memory" where
  "copy_down 0 d s m = m"
| "copy_down (Suc n) d s m = copy_down n d s (m(d + n := m (s + n)))"

definition memmove :: "nat \<Rightarrow> nat \<Rightarrow> nat \<Rightarrow> memory \<Rightarrow> nat \<times> memory" where
  "memmove dest src n m =
     (if dest < src \<or> src + n \<le> dest then memcpy dest src n m else (dest, copy_down n dest src m))"

section \<open>Strings\<close>

partial_function (option) strlen_loop :: "memory \<Rightarrow> nat \<Rightarrow> nat \<Rightarrow> nat option" where
  "strlen_loop m s p = (if m p = 0 then Some (p - s) else strlen_loop m s (p + 1))"

definition strlen :: "memory \<Rightarrow> nat \<Rightarrow> nat option" where
  "strlen m s = strlen_loop m s s"

partial_function (option) strcmp :: "memory \<Rightarrow> nat \<Rightarrow> nat \<Rightarrow> int option" where
  "strcmp m s1 s2 =
     (if m s1 \<noteq> 0 \<and> m s2 \<noteq> 0 \<and> m s1 = m s2 then strcmp m (s1 + 1) (s2 + 1)
      else Some (int (unat (m s1)) - int (unat (m s2))))"

fun strncmp :: "memory \<Rightarrow> nat \<Rightarrow> nat \<Rightarrow> nat \<Rightarrow> int" where
  "strncmp m s1 s2 0 = 0"
| "strncmp m s1 s2 (Suc n) =
     (if m s1 \<noteq> 0 \<and> m s2 \<noteq> 0 \<and> m s1 = m s2 then strncmp m (s1 + 1) (s2 + 1) n
      else int (unat (m s1)) - int (unat (m s2)))"

section \<open>The global heap\<close>

text \<open>
  The global heap pointer is \<open>None\<close> before \<^verbatim>\<open>InitGlobalHeap\<close>. \<open>malloc\<close> stands for every form of \<^verbatim>\<open>new\<close> without an
  alignment, \<open>free\<close> for every form of \<^verbatim>\<open>delete\<close>: both branches of \<^verbatim>\<open>HeapFree\<close> free the block.
\<close>

definition InitGlobalHeap :: "'m page_source \<Rightarrow> 'm \<Rightarrow> (heap \<times> 'm) res" where
  "InitGlobalHeap pages m =
     rbind (CreateHeap pages m) (\<lambda>(h, m1).
       case h of None \<Rightarrow> Inl (Panic ''Failed to create global heap'') | Some g \<Rightarrow> Inr (g, m1))"

definition HeapAlloc ::
    "nat \<Rightarrow> 'm page_source \<Rightarrow> heap option \<Rightarrow> nat \<Rightarrow> nat \<Rightarrow> 'm \<Rightarrow> (nat \<times> heap option \<times> 'm) res" where
  "HeapAlloc fuel pages g sz alignment m =
     (if alignment = 0 \<or> alignment AND (alignment - 1) \<noteq> 0 then Inr (0, g, m)
      else rbind (AllocateAligned fuel pages g sz alignment m) (\<lambda>(p, h, m1). Inr (p, Some h, m1)))"

definition HeapFree :: "heap option \<Rightarrow> nat \<Rightarrow> nat \<Rightarrow> heap option res" where
  "HeapFree g ptr sz =
     (if ptr = 0 then Inr g
      else if sz = 0 then Heap_Deallocate g ptr
      else Heap_Deallocate g ptr)"

definition aligned_alloc ::
    "nat \<Rightarrow> 'm page_source \<Rightarrow> heap option \<Rightarrow> nat \<Rightarrow> nat \<Rightarrow> 'm \<Rightarrow> (nat \<times> heap option \<times> 'm) res" where
  "aligned_alloc fuel pages g alignment sz m = HeapAlloc fuel pages g sz alignment m"

definition malloc ::
    "nat \<Rightarrow> 'm page_source \<Rightarrow> heap option \<Rightarrow> nat \<Rightarrow> 'm \<Rightarrow> (nat \<times> heap option \<times> 'm) res" where
  "malloc fuel pages g sz m = HeapAlloc fuel pages g sz 16 m"

definition free :: "heap option \<Rightarrow> nat \<Rightarrow> heap option res" where
  "free g ptr = HeapFree g ptr 0"

section \<open>Words of memory\<close>

lemma byte_of_repeated:
  fixes v h l :: nat
  assumes "v < 256" and "l < 2 ^ (8 * i)"
  shows "(h * 2 ^ (8 * i + 8) + v * 2 ^ (8 * i) + l) div 2 ^ (8 * i) mod 256 = v"
proof -
  have "h * 2 ^ (8 * i + 8) + v * 2 ^ (8 * i) + l = (h * 256 + v) * 2 ^ (8 * i) + l"
    by (simp add: algebra_simps power_add)
  moreover have "((h * 256 + v) * 2 ^ (8 * i) + l) div 2 ^ (8 * i) = h * 256 + v" using assms(2) by simp
  ultimately show ?thesis using assms(1) by simp
qed

lemma repeated_byte:
  fixes b :: u8
  assumes "i < 8"
  shows "ucast (drop_bit (8 * i) (ucast b * (0x0101010101010101 :: u64))) = b"
proof -
  define v where "v = unat b"
  have v: "v < 256" using unsigned_less [of b] by (simp add: v_def)
  have ub: "unat (ucast b :: u64) = v" unfolding unsigned_ucast_eq using v by (simp add: v_def take_bit_eq_mod)
  have prod: "unat (ucast b * (0x0101010101010101 :: u64)) = v * 0x0101010101010101"
    unfolding unat_word_ariths ub using v by simp
  have "i \<in> {0, 1, 2, 3, 4, 5, 6, 7}" using assms by auto
  then have "v * 0x0101010101010101 = v * (0x0101010101010101 div 2 ^ (8 * i + 8)) * 2 ^ (8 * i + 8) +
      v * 2 ^ (8 * i) + v * (0x0101010101010101 mod 2 ^ (8 * i))"
    and low: "v * (0x0101010101010101 mod 2 ^ (8 * i)) < 2 ^ (8 * i)"
    using v by auto
  then have "v * 0x0101010101010101 div 2 ^ (8 * i) mod 256 = v"
    using byte_of_repeated [OF v low, of "v * (0x0101010101010101 div 2 ^ (8 * i + 8))"] by metis
  then have "unat (ucast (drop_bit (8 * i) (ucast b * (0x0101010101010101 :: u64))) :: u8) = unat b"
    unfolding unsigned_ucast_eq unat_drop_bit_eq prod by (simp add: take_bit_eq_mod drop_bit_eq_div v_def)
  then show ?thesis by (simp add: word_unat_eq_iff)
qed

section \<open>Correctness of fills and copies\<close>

definition filled :: "memory \<Rightarrow> nat \<Rightarrow> nat \<Rightarrow> u8 \<Rightarrow> memory" where
  "filled m p n v = (\<lambda>x. if p \<le> x \<and> x < p + n then v else m x)"

definition copied :: "memory \<Rightarrow> nat \<Rightarrow> nat \<Rightarrow> nat \<Rightarrow> memory" where
  "copied m d s n = (\<lambda>x. if d \<le> x \<and> x < d + n then m (s + (x - d)) else m x)"

lemma filled_0 [simp]: "filled m p 0 v = m"
  by (rule ext) (auto simp: filled_def)

lemma copied_0 [simp]: "copied m d s 0 = m"
  by (rule ext) (auto simp: copied_def)

lemma filled_append: "filled (filled m p a v) (p + a) b v = filled m p (a + b) v"
  by (auto simp: filled_def)

lemma copied_append:
  assumes "d \<le> s \<or> s + (a + b) \<le> d"
  shows "copied (copied m d s a) (d + a) (s + a) b = copied m d s (a + b)"
proof
  fix x
  show "copied (copied m d s a) (d + a) (s + a) b x = copied m d s (a + b) x"
  proof (cases "d + a \<le> x \<and> x < d + a + b")
    case True
    define y where "y = s + (x - d)"
    have "s + a + (x - (d + a)) = y" using True by (simp add: y_def)
    then have "copied (copied m d s a) (d + a) (s + a) b x = copied m d s a y"
      using True by (simp add: copied_def [of "copied m d s a"])
    moreover have "\<not> (d \<le> y \<and> y < d + a)" using True assms by (auto simp: y_def)
    ultimately show ?thesis using True by (auto simp: copied_def y_def)
  qed (auto simp: copied_def)
qed

lemma fill_bytes_filled: "fill_bytes n p v m = filled m p n v"
proof (induction n arbitrary: p m)
  case 0
  then show ?case by simp
next
  case (Suc n)
  have "m(p := v) = filled m p 1 v" by (auto simp: filled_def)
  then show ?case using Suc filled_append [of m p 1 v n] by simp
qed

lemma store64_repeated: "store64 a (ucast b * 0x0101010101010101) m = filled m a 8 b"
  by (auto simp: store64_def filled_def repeated_byte fun_eq_iff)

lemma fill_qwords_filled: "fill_qwords n q (ucast b * 0x0101010101010101) m = filled m q (8 * n) b"
proof (induction n arbitrary: q m)
  case 0
  then show ?case by simp
next
  case (Suc n)
  then show ?case using filled_append [of m q 8 b "8 * n"] by (simp add: store64_repeated)
qed

lemma memset_filled: "memset dst val sz m = (dst, filled m dst sz (of_int val))"
proof -
  define k where "k = min (dst mod 8) sz"
  define w where "w = (sz - k) div 8"
  have "k \<le> sz" by (simp add: k_def)
  then have sz: "sz = k + 8 * w + (sz - k - w * 8)" using div_mult_mod_eq [of "sz - k" 8] by (simp add: w_def)
  have "filled (filled (filled m dst k b) (dst + k) (8 * w) b) (dst + k + 8 * w) (sz - k - w * 8) b =
      filled m dst sz b" for b
    using filled_append [of m dst k b "8 * w"] filled_append [of m dst "k + 8 * w" b "sz - k - w * 8"] sz
    by (simp add: add.assoc)
  then show ?thesis
    by (simp add: memset_def Let_def fill_bytes_filled fill_qwords_filled mult.commute flip: k_def w_def)
qed

lemma copy_bytes_copied: "d \<le> s \<or> s + n \<le> d \<Longrightarrow> copy_bytes n d s m = copied m d s n"
proof (induction n arbitrary: d s m)
  case 0
  then show ?case by simp
next
  case (Suc n)
  have "m(d := m s) = copied m d s 1" by (auto simp: copied_def)
  then show ?case using Suc.IH [of "d + 1" "s + 1"] Suc.prems copied_append [of d s 1 n m] by auto
qed

lemma store64_load64: "store64 d (load64 s m) m = copied m d s 8"
  by (auto simp: store64_def copied_def load64_bytes fun_eq_iff)

lemma copy_qwords_copied: "d \<le> s \<or> s + 8 * n \<le> d \<Longrightarrow> copy_qwords n d s m = copied m d s (8 * n)"
proof (induction n arbitrary: d s m)
  case 0
  then show ?case by simp
next
  case (Suc n)
  then show ?case using Suc.IH [of "d + 8" "s + 8"] copied_append [of d s 8 "8 * n" m]
    by (auto simp: store64_load64)
qed

lemma memcpy_copied:
  assumes ov: "d \<le> s \<or> s + n \<le> d"
  shows "memcpy d s n m = (d, copied m d s n)"
proof -
  define k where "k = min (d mod 8) n"
  define w where "w = (n - k) div 8"
  define r where "r = n - (k + 8 * w)"
  have "k \<le> n" by (simp add: k_def)
  then have n: "n = k + (8 * w + r)" using div_mult_mod_eq [of "n - k" 8] by (simp add: w_def r_def)
  have c1: "copy_bytes k d s m = copied m d s k" for m using ov n by (intro copy_bytes_copied) auto
  have c2: "copy_qwords w (d + k) (s + k) m = copied m (d + k) (s + k) (8 * w)" for m
    using ov n by (intro copy_qwords_copied) auto
  have c3: "copy_bytes r (d + k + 8 * w) (s + k + 8 * w) m = copied m (d + k + 8 * w) (s + k + 8 * w) r" for m
    using ov n by (intro copy_bytes_copied) auto
  have "copied (copied (copied m d s k) (d + k) (s + k) (8 * w)) (d + k + 8 * w) (s + k + 8 * w) r =
      copied (copied m d s (k + 8 * w)) (d + (k + 8 * w)) (s + (k + 8 * w)) r"
    using copied_append [of d s k "8 * w" m] ov n by (auto simp: add.assoc)
  also have "\<dots> = copied m d s n" using copied_append [of d s "k + 8 * w" r m] ov n by (auto simp: add.assoc)
  finally show ?thesis
    by (simp add: memcpy_def Let_def c1 c2 c3 mult.commute [of w] flip: k_def w_def r_def)
qed

lemma copy_down_copied: "s \<le> d \<Longrightarrow> copy_down n d s m = copied m d s n"
proof (induction n arbitrary: m)
  case 0
  then show ?case by simp
next
  case (Suc n)
  then show ?case by (auto simp: copied_def fun_eq_iff)
qed

lemma memmove_copied: "memmove d s n m = (d, copied m d s n)"
  by (cases "d < s \<or> s + n \<le> d") (auto simp: memmove_def memcpy_copied copy_down_copied)

section \<open>Correctness of the string routines\<close>

text \<open>\<open>cstr m s xs\<close>: the zero-terminated string at \<open>s\<close> has the bytes \<open>xs\<close>.\<close>

fun cstr :: "memory \<Rightarrow> nat \<Rightarrow> u8 list \<Rightarrow> bool" where
  "cstr m s [] \<longleftrightarrow> m s = 0"
| "cstr m s (x # xs) \<longleftrightarrow> m s = x \<and> x \<noteq> 0 \<and> cstr m (s + 1) xs"

lemma strlen_loop_cstr: "\<lbrakk>cstr m p xs; s \<le> p\<rbrakk> \<Longrightarrow> strlen_loop m s p = Some (p + length xs - s)"
proof (induction xs arbitrary: p)
  case Nil
  then show ?case by (simp add: strlen_loop.simps)
next
  case (Cons x xs)
  then show ?case by (subst strlen_loop.simps) auto
qed

lemma strlen_cstr: "cstr m s xs \<Longrightarrow> strlen m s = Some (length xs)"
  using strlen_loop_cstr [of m s xs s] by (simp add: strlen_def)

fun cmp_bytes :: "u8 list \<Rightarrow> u8 list \<Rightarrow> int" where
  "cmp_bytes [] [] = 0"
| "cmp_bytes [] (y # ys) = - int (unat y)"
| "cmp_bytes (x # xs) [] = int (unat x)"
| "cmp_bytes (x # xs) (y # ys) = (if x = y then cmp_bytes xs ys else int (unat x) - int (unat y))"

lemma strcmp_cmp_bytes: "\<lbrakk>cstr m a xs; cstr m b ys\<rbrakk> \<Longrightarrow> strcmp m a b = Some (cmp_bytes xs ys)"
  by (induction xs ys arbitrary: a b rule: cmp_bytes.induct) (subst strcmp.simps, auto)+

lemma strncmp_cmp_bytes:
  "\<lbrakk>cstr m a xs; cstr m b ys\<rbrakk> \<Longrightarrow> strncmp m a b n = cmp_bytes (take n xs) (take n ys)"
proof (induction n arbitrary: a b xs ys)
  case 0
  then show ?case by simp
next
  case (Suc n)
  then show ?case by (cases xs; cases ys) auto
qed

text \<open>The sign of a comparison is the lexicographic order of the unsigned bytes.\<close>

lemma cmp_bytes_zero: "\<lbrakk>0 \<notin> set xs; 0 \<notin> set ys\<rbrakk> \<Longrightarrow> cmp_bytes xs ys = 0 \<longleftrightarrow> xs = ys"
  by (induction xs ys rule: cmp_bytes.induct) (auto simp: uint_0_iff dest: unsigned_word_eqI)

lemma u8_pos: "(y :: u8) \<noteq> 0 \<Longrightarrow> 0 < uint y"
  using unsigned_greater_eq [of y] by (metis less_eq_int_code(1) order_le_less uint_0_iff unsigned_0)

lemma cmp_bytes_less:
  "\<lbrakk>0 \<notin> set xs; 0 \<notin> set ys\<rbrakk> \<Longrightarrow> cmp_bytes xs ys < 0 \<longleftrightarrow> (xs, ys) \<in> lexord {(x, y). x < y}"
  by (induction xs ys rule: cmp_bytes.induct) (auto simp: word_less_def u8_pos)

lemma cstr_nonzero: "cstr m s xs \<Longrightarrow> 0 \<notin> set xs"
  by (induction xs arbitrary: s) auto

section \<open>Properties\<close>

text \<open>
  C23. The word-wise routines equal the byte-wise specification for every address, length and
  overlap: \<open>memset\<close> sets exactly the range to the low byte of the value, and \<open>memmove\<close> copies the source
  range as it was before the call, in both directions of overlap; both return the destination.
\<close>

theorem block_routines_match_bytewise_spec:
  "memset d v n m = (d, (\<lambda>x. if d \<le> x \<and> x < d + n then of_int v else m x)) \<and>
   memmove d s n m = (d, (\<lambda>x. if d \<le> x \<and> x < d + n then m (s + (x - d)) else m x))"
  by (simp add: memset_filled memmove_copied filled_def copied_def)

text \<open>
  On zero-terminated strings \<open>strlen\<close> and \<open>strcmp\<close> terminate: the length is that of the string, and
  the comparison is zero for equal strings, negative exactly when the first is before the second in
  the lexicographic order of unsigned bytes.
\<close>

theorem string_comparison_is_lexicographic:
  assumes "cstr m a xs" and "cstr m b ys"
  shows "strlen m a = Some (length xs) \<and>
    (\<exists>r. strcmp m a b = Some r \<and> (r = 0 \<longleftrightarrow> xs = ys) \<and> (r < 0 \<longleftrightarrow> (xs, ys) \<in> lexord {(x, y). x < y}))"
  using strlen_cstr [OF assms(1)] strcmp_cmp_bytes [OF assms] cmp_bytes_zero cmp_bytes_less
    cstr_nonzero [OF assms(1)] cstr_nonzero [OF assms(2)] by auto

lemma string_comparison_is_lexicographic_witness:
  "\<exists>r. strcmp (\<lambda>i. if i = 0 then 65 else if i = 2 then 66 else 0) 0 2 = Some r \<and> r < 0"
  using string_comparison_is_lexicographic [of "\<lambda>i. if i = 0 then 65 else if i = 2 then 66 else 0" 0 "[65]" 2 "[66]"]
  by auto

end
