(* ===== verification/Cpu_Time.thy ===== *)
theory Cpu_Time
  imports Prelude
begin

text \<open>
  Performance counter times, \<^verbatim>\<open>src/BootLib/inc/BootLib/Cpu.h\<close>: a time is the 64-bit counter, a difference is signed,
  and times are compared through the sign of their difference, so that the order survives the
  wrap-around of the counter. Differences wrap as the target's subtraction does. Comparisons are
  those of the declared three-way operator, which the relational operators are rewritten to.
\<close>

definition time_add :: "u64 \<Rightarrow> int \<Rightarrow> u64" where
  "time_add a b = a + of_int b"

definition time_sub :: "u64 \<Rightarrow> int \<Rightarrow> u64" where
  "time_sub a b = a - of_int b"

definition time_diff :: "u64 \<Rightarrow> u64 \<Rightarrow> int" where
  "time_diff a b = sint (a - b)"

definition time_less :: "u64 \<Rightarrow> u64 \<Rightarrow> bool" where
  "time_less a b \<longleftrightarrow> time_diff a b < 0"

definition time_le :: "u64 \<Rightarrow> u64 \<Rightarrow> bool" where
  "time_le a b \<longleftrightarrow> time_diff a b \<le> 0"

abbreviation INT64_MAX :: int where
  "INT64_MAX \<equiv> 9223372036854775807"

definition GetMaximumFuturePerformanceTime :: "u64 \<Rightarrow> u64" where
  "GetMaximumFuturePerformanceTime currentTime = time_add currentTime INT64_MAX"

definition GetFarFuturePerformanceTime :: "u64 \<Rightarrow> u64" where
  "GetFarFuturePerformanceTime currentTime = time_add currentTime (INT64_MAX div 2)"

text \<open>Tick counts at the counter frequency \<open>freq\<close>, for unsigned arguments; the product wraps.\<close>

definition GetPerformanceTicksForUs :: "u64 \<Rightarrow> u64 \<Rightarrow> u64" where
  "GetPerformanceTicksForUs freq us = us * freq div 1000000"

definition GetPerformanceTicksForMs :: "u64 \<Rightarrow> u64 \<Rightarrow> u64" where
  "GetPerformanceTicksForMs freq ms = ms * freq div 1000"

definition GetUsForPerformanceTicks :: "u64 \<Rightarrow> u64 \<Rightarrow> int" where
  "GetUsForPerformanceTicks freq timeDiff =
     (let n = sint (timeDiff * 1000000); d = sint freq in sgn n * sgn d * (\<bar>n\<bar> div \<bar>d\<bar>))"

definition GetMsForPerformanceTicks :: "u64 \<Rightarrow> u64 \<Rightarrow> int" where
  "GetMsForPerformanceTicks freq timeDiff =
     (let n = sint (timeDiff * 1000); d = sint freq in sgn n * sgn d * (\<bar>n\<bar> div \<bar>d\<bar>))"

text \<open>
  The processor: implementer \<^verbatim>\<open>0x41\<close> with part \<^verbatim>\<open>0xD08\<close> is the Cortex-A72 of the Raspberry Pi 4. The result that
  the code keeps after the first call is that of the same constant register.
\<close>

definition IsRpi4 :: "u64 \<Rightarrow> bool" where
  "IsRpi4 midr \<longleftrightarrow>
     (let implementer = drop_bit 24 midr AND 0xFF; part_number = drop_bit 4 midr AND 0xFFF
      in implementer = 0x41 \<and> part_number = 0xD08)"

text \<open>
  \<^verbatim>\<open>DelayUntilPerformanceTime\<close> polls the counter: \<open>clock k\<close> is the value of the \<open>k\<close>-th read. The result is the
  number of reads before the loop leaves.
\<close>

partial_function (option) delay_loop :: "(nat \<Rightarrow> u64) \<Rightarrow> u64 \<Rightarrow> nat \<Rightarrow> nat option" where
  "delay_loop clock t k = (if time_less (clock k) t then delay_loop clock t (k + 1) else Some (k + 1))"

definition DelayUntilPerformanceTime :: "(nat \<Rightarrow> u64) \<Rightarrow> u64 \<Rightarrow> nat option" where
  "DelayUntilPerformanceTime clock t = delay_loop clock t 0"

section \<open>The order of times\<close>

lemma sint_of_int_small:
  "\<lbrakk>- 9223372036854775808 \<le> k; k < 9223372036854775808\<rbrakk> \<Longrightarrow> sint (of_int k :: u64) = k"
  by (simp add: signed_of_int signed_take_bit_int_eq_self)

lemma sint_diff:
  fixes a b :: u64
  assumes "- 9223372036854775808 \<le> sint a - sint b" and "sint a - sint b < 9223372036854775808"
  shows "sint (a - b) = sint a - sint b"
  using assms by (simp add: sint_word_ariths signed_take_bit_int_eq_self)

lemma time_diff_offsets:
  assumes "\<bar>time_diff a now - time_diff b now\<bar> < 9223372036854775808"
  shows "time_diff a b = time_diff a now - time_diff b now"
proof -
  have "a - b = (a - now) - (b - now)" by simp
  then show ?thesis using assms sint_diff [of "a - now" "b - now"] by (simp add: time_diff_def abs_less_iff)
qed

lemma time_less_offsets:
  "\<lbrakk>0 < time_diff a now; 0 < time_diff b now\<rbrakk> \<Longrightarrow> time_less a b \<longleftrightarrow> time_diff a now < time_diff b now"
  using time_diff_offsets [of a now b] sint_less [of "a - now"] sint_less [of "b - now"]
  by (simp add: time_less_def time_diff_def)

lemma time_diff_add: "\<bar>d\<bar> < 9223372036854775808 \<Longrightarrow> time_diff (time_add a d) a = d"
  by (simp add: time_diff_def time_add_def sint_of_int_small)

text \<open>Two counter values less than half the range apart compare like the times they stand for.\<close>

lemma time_diff_real:
  assumes "\<bar>int x - int y\<bar> < 9223372036854775808"
  shows "time_diff (of_nat x) (of_nat y) = int x - int y"
proof -
  have "(of_nat x :: u64) - of_nat y = of_int (int x - int y)" by simp
  then show ?thesis
    unfolding time_diff_def using assms sint_of_int_small [of "int x - int y"] by (simp del: of_int_diff)
qed

lemma time_less_real:
  "\<bar>int x - int y\<bar> < 9223372036854775808 \<Longrightarrow> time_less (of_nat x) (of_nat y) \<longleftrightarrow> x < y"
  by (simp add: time_less_def time_diff_real)

lemma far_future: "time_diff (GetFarFuturePerformanceTime now) now = 4611686018427387903"
  by (simp add: GetFarFuturePerformanceTime_def time_diff_add)

section \<open>Delays\<close>

lemma delay_loop_stops:
  assumes "\<And>i. \<lbrakk>k \<le> i; i < n\<rbrakk> \<Longrightarrow> time_less (clock i) t" and "\<not> time_less (clock n) t" and "k \<le> n"
  shows "delay_loop clock t k = Some (n + 1)"
  using assms
proof (induction "n - k" arbitrary: k)
  case 0
  then show ?case by (subst delay_loop.simps) simp
next
  case (Suc d)
  then show ?case by (subst delay_loop.simps) simp
qed

text \<open>The delay returns at the first read that is not before the time, whatever the clock does later.\<close>

lemma DelayUntil_first:
  assumes "\<not> time_less (clock n) t" and "\<And>i. i < n \<Longrightarrow> time_less (clock i) t"
  shows "DelayUntilPerformanceTime clock t = Some (n + 1)"
  unfolding DelayUntilPerformanceTime_def using assms by (intro delay_loop_stops) auto

section \<open>Properties\<close>

text \<open>
  The order of counter values is that of the times they stand for, also across the wrap-around
  of the 64-bit counter, as long as the times are less than half the counter's range apart.
\<close>

theorem time_order_survives_wrap:
  assumes "\<bar>int x - int y\<bar> < 9223372036854775808"
  shows "(time_less (of_nat x) (of_nat y) \<longleftrightarrow> x < y) \<and> time_diff (of_nat x) (of_nat y) = int x - int y"
  using assms time_less_real time_diff_real by blast

lemma time_order_survives_wrap_witness: "time_less (of_nat 18446744073709551615) (of_nat 18446744073709551617)"
  using time_order_survives_wrap [of 18446744073709551615 18446744073709551617] by simp

text \<open>
  A delay ends: when the clock starts before the time and its reads reach it, the polling loop
  returns right after the first read that is not before the time.
\<close>

theorem delay_returns_at_first_late_read:
  assumes "\<exists>n. \<not> time_less (clock n) t"
  shows "\<exists>n. DelayUntilPerformanceTime clock t = Some (n + 1) \<and> \<not> time_less (clock n) t \<and> (\<forall>i<n. time_less (clock i) t)"
proof -
  define n where "n = (LEAST n. \<not> time_less (clock n) t)"
  have "\<not> time_less (clock n) t" unfolding n_def using assms by (rule LeastI_ex)
  moreover have "\<And>i. i < n \<Longrightarrow> time_less (clock i) t" unfolding n_def by (drule not_less_Least) simp
  ultimately show ?thesis using DelayUntil_first [of clock n t] by blast
qed

lemma delay_returns_at_first_late_read_witness:
  "\<exists>n. DelayUntilPerformanceTime (\<lambda>i. of_nat (100 * i)) 250 = Some (n + 1)"
proof -
  have "\<not> time_less (of_nat (100 * 3)) 250" by (simp add: time_less_def time_diff_def)
  then show ?thesis using delay_returns_at_first_late_read [of "\<lambda>i. of_nat (100 * i)" 250] by blast
qed

end
