(* ===== verification/Scheduler.thy ===== *)
theory Scheduler
  imports Circular_Fifo Cpu_Time
begin

text \<open>
  Sparks, the per-core queues of \<^verbatim>\<open>src/Scheduler.cpp\<close>, the per-core timer tables of
  \<^verbatim>\<open>src/Timer.cpp\<close> and the virtual timer registers that \<^verbatim>\<open>src/Interrupts.cpp\<close> drives.
  A spark is a function address with its context; the null function is 0. The arrays indexed by
  the core number are functions of it, and the core an operation runs on (\<^verbatim>\<open>mpidr_el1\<close>) is its first
  argument. The operations are sequential on one core, as they are in the interrupt handler.
\<close>

section \<open>Data\<close>

record spark =
  Context :: u64
  Func :: u64

definition no_spark :: spark where
  "no_spark = \<lparr>Context = 0, Func = 0\<rparr>"

definition MakeSpark :: "u64 \<Rightarrow> u64 \<Rightarrow> spark" where
  "MakeSpark func context = \<lparr>Context = context, Func = func\<rparr>"

definition MakeUserModeSpark :: "u64 \<Rightarrow> u64 \<Rightarrow> spark" where
  "MakeUserModeSpark func context = \<lparr>Context = context, Func = func OR 1\<rparr>"

record pending_spark =
  Spark :: spark
  SparkTask :: u64

record core_info =
  CoreId :: nat
  PendingThreadsFifo :: "u64 fifo"
  PendingSparksFifo :: "pending_spark fifo"

text \<open>The thread that runs on a core, \<^verbatim>\<open>ThreadInfo\<close>; register \<^verbatim>\<open>x18\<close> points to it.\<close>

record thread_info =
  ContextWhenSuspended :: u64
  StackBuffer :: "u64 \<times> nat"
  ThreadCore :: nat
  ThreadSpark :: u64
  ThreadTask :: u64

record scheduled_timer =
  trigger_time_ticks :: u64
  timer_spark :: spark

definition timer_active :: "scheduled_timer \<Rightarrow> bool" where
  "timer_active t \<longleftrightarrow> Func (timer_spark t) \<noteq> 0"

record core_timer_data =
  scheduled_timers :: "scheduled_timer list"
  timerIsEnabled :: bool

text \<open>
  The handler installed for the virtual timer: the null pointer or the one of the timer component.
  The registers are those the code writes: the control and value registers of the timer, the timer
  control of each core (Raspberry Pi 3) and the writes to the distributor (Raspberry Pi 4), newest
  first, as offset and value.
\<close>

datatype handler = NullHandler | HandleArmVirtualTimerInterrupt_handler

record kernel =
  CoreSchedulingInfos :: "nat \<Rightarrow> core_info"
  CurrentThread :: "nat \<Rightarrow> thread_info"
  CoreData :: "nat \<Rightarrow> core_timer_data"
  currentStart :: nat
  VirtualTimerHandler :: "nat \<Rightarrow> handler"
  cntv_ctl_el0 :: "nat \<Rightarrow> u64"
  cntv_tval_el0 :: "nat \<Rightarrow> u64"
  TimerControl :: "nat \<Rightarrow> u32"
  midr_el1 :: u64
  DistributorWrites :: "(nat \<times> u32) list"

section \<open>Pending sparks\<close>

definition AddSpark :: "nat \<Rightarrow> spark \<Rightarrow> kernel \<Rightarrow> kernel res" where
  "AddSpark coreId s k =
     (let info = CoreSchedulingInfos k coreId in
      rbind (Push (PendingSparksFifo info) \<lparr>Spark = s, SparkTask = 0\<rparr>) (\<lambda>q.
        Inr (k\<lparr>CoreSchedulingInfos := (CoreSchedulingInfos k)(coreId := info\<lparr>PendingSparksFifo := q\<rparr>)\<rparr>)))"

text \<open>
  The current thread names the core whose queue is served. The exchanges of the thread's task and
  spark are undone before the return, because the call of the spark between them is commented out.
\<close>

definition GetNextScheduledSpark :: "nat \<Rightarrow> kernel \<Rightarrow> (spark \<times> kernel) res" where
  "GetNextScheduledSpark coreId k =
     (let threadInfo = CurrentThread k coreId;
          core = ThreadCore threadInfo;
          coreInfo = CoreSchedulingInfos k core in
      if IsEmpty (PendingSparksFifo coreInfo) then Inr (no_spark, k)
      else rbind (Pop (PendingSparksFifo coreInfo)) (\<lambda>(p, q).
        Inr (\<lparr>Context = Context (Spark p), Func = Func (Spark p)\<rparr>,
             k\<lparr>CoreSchedulingInfos := (CoreSchedulingInfos k)(core := coreInfo\<lparr>PendingSparksFifo := q\<rparr>)\<rparr>)))"

section \<open>Threads\<close>

text \<open>
  The saved registers of a suspended thread, \<^verbatim>\<open>ThreadContext\<close>. The memory comes from \<^verbatim>\<open>new\<close> and is not
  cleared, so a new context keeps what was there except for the five fields that are set.
\<close>

record thread_context =
  X :: "u64 list"
  Sp :: u64
  Pc :: u64
  Spsr :: u64

definition ThreadContext_Size :: nat where
  "ThreadContext_Size = 34 * 8 + 32 * 16"

definition spsr_el1 :: "u64 \<Rightarrow> u64 \<Rightarrow> u64 \<Rightarrow> u64" where
  "spsr_el1 sp el d = sp OR push_bit 2 el OR push_bit 9 d"

text \<open>
  The two allocations of \<^verbatim>\<open>CreateThread\<close> are arguments: the stack of 64 KiB and the thread's record.
\<close>

definition CreateThread ::
  "u64 \<Rightarrow> u64 \<Rightarrow> nat \<Rightarrow> u64 \<Rightarrow> u64 \<Rightarrow> thread_context \<Rightarrow> kernel \<Rightarrow> (thread_info \<times> u64 \<times> thread_context \<times> kernel) res" where
  "CreateThread stackLow infoAddr coreId func context old k =
     (let stackSize = 0x10000;
          stackHigh = stackLow + of_nat stackSize;
          threadContext = stackHigh - of_nat ThreadContext_Size;
          core = ThreadCore (CurrentThread k coreId);
          info = \<lparr>ContextWhenSuspended = threadContext, StackBuffer = (stackLow, stackSize),
                  ThreadCore = core, ThreadSpark = 0, ThreadTask = 0\<rparr>;
          ctx = old\<lparr>X := (X old)[0 := context, 18 := infoAddr], Sp := stackHigh, Pc := func,
                    Spsr := spsr_el1 1 1 1\<rparr>;
          coreInfo = CoreSchedulingInfos k core in
      rbind (Push (PendingThreadsFifo coreInfo) infoAddr) (\<lambda>q.
        Inr (info, threadContext, ctx,
             k\<lparr>CoreSchedulingInfos := (CoreSchedulingInfos k)(core := coreInfo\<lparr>PendingThreadsFifo := q\<rparr>)\<rparr>)))"

section \<open>The queues of a core\<close>

definition sparks_of :: "nat \<Rightarrow> kernel \<Rightarrow> spark list" where
  "sparks_of c k = map Spark (fifo_list (PendingSparksFifo (CoreSchedulingInfos k c)))"

definition threads_of :: "nat \<Rightarrow> kernel \<Rightarrow> u64 list" where
  "threads_of c k = fifo_list (PendingThreadsFifo (CoreSchedulingInfos k c))"

definition sched_ok :: "nat \<Rightarrow> kernel \<Rightarrow> bool" where
  "sched_ok c k \<longleftrightarrow>
     fifo_ok (PendingSparksFifo (CoreSchedulingInfos k c)) \<and> capacity (PendingSparksFifo (CoreSchedulingInfos k c)) = 64 \<and>
     fifo_ok (PendingThreadsFifo (CoreSchedulingInfos k c)) \<and> capacity (PendingThreadsFifo (CoreSchedulingInfos k c)) = 64"

text \<open>A step that leaves everything but the queues of one core as it was.\<close>

definition queues_only :: "nat \<Rightarrow> kernel \<Rightarrow> kernel \<Rightarrow> bool" where
  "queues_only c k k' \<longleftrightarrow> (\<exists>i. k' = k\<lparr>CoreSchedulingInfos := (CoreSchedulingInfos k)(c := i)\<rparr>)"

lemma queues_only_refl [simp]: "queues_only c k k"
  unfolding queues_only_def by (rule exI [of _ "CoreSchedulingInfos k c"]) (simp only: fun_upd_triv, simp)

lemma queues_only_trans [trans]: "\<lbrakk>queues_only c k k1; queues_only c k1 k2\<rbrakk> \<Longrightarrow> queues_only c k k2"
  by (auto simp: queues_only_def)

lemma queues_onlyD:
  "queues_only c k k' \<Longrightarrow> CoreData k' = CoreData k"
  "queues_only c k k' \<Longrightarrow> currentStart k' = currentStart k"
  "queues_only c k k' \<Longrightarrow> CurrentThread k' = CurrentThread k"
  "queues_only c k k' \<Longrightarrow> cntv_tval_el0 k' = cntv_tval_el0 k"
  "queues_only c k k' \<Longrightarrow> midr_el1 k' = midr_el1 k"
  by (auto simp: queues_only_def)

lemma spark_eqI: "\<lbrakk>Context a = Context b; Func a = Func b\<rbrakk> \<Longrightarrow> a = b" for a b :: spark
  by simp

lemma sched_room [simp]:
  "sched_ok c k \<Longrightarrow> fifo_room (PendingSparksFifo (CoreSchedulingInfos k c)) = 63"
  "sched_ok c k \<Longrightarrow> fifo_room (PendingThreadsFifo (CoreSchedulingInfos k c)) = 63"
  by (simp_all add: sched_ok_def fifo_room_def)

lemma capacity_of_room: "\<lbrakk>fifo_ok q; fifo_room q = 63\<rbrakk> \<Longrightarrow> capacity q = 64"
  by (auto simp: fifo_room_def fifo_ok_def)

lemma length_sparks_of: "length (sparks_of c k) = length (fifo_list (PendingSparksFifo (CoreSchedulingInfos k c)))"
  by (simp add: sparks_of_def)

lemma AddSpark_room:
  assumes "sched_ok c k" and "length (sparks_of c k) < 63"
  shows "\<exists>k'. AddSpark c s k = Inr k' \<and> sched_ok c k' \<and> sparks_of c k' = sparks_of c k @ [s] \<and>
    queues_only c k k' \<and> threads_of c k' = threads_of c k"
proof -
  let ?i = "CoreSchedulingInfos k c"
  have "length (fifo_list (PendingSparksFifo ?i)) < fifo_room (PendingSparksFifo ?i)"
    using assms by (simp add: sparks_of_def)
  then obtain q where q: "Push (PendingSparksFifo ?i) \<lparr>Spark = s, SparkTask = 0\<rparr> = Inr q" "fifo_ok q"
      "fifo_list q = fifo_list (PendingSparksFifo ?i) @ [\<lparr>Spark = s, SparkTask = 0\<rparr>]"
      "fifo_room q = fifo_room (PendingSparksFifo ?i)"
    using ring.push_room [of "PendingSparksFifo ?i" "\<lparr>Spark = s, SparkTask = 0\<rparr>"] assms(1) by (auto simp: sched_ok_def)
  then show ?thesis using assms(1) capacity_of_room [of q]
    by (auto simp: AddSpark_def Let_def sched_ok_def sparks_of_def threads_of_def queues_only_def)
qed

lemma AddSpark_full:
  assumes "sched_ok c k" and "63 \<le> length (sparks_of c k)"
  shows "AddSpark c s k = Inl (Panic ''%s overflow'')"
  using assms Push_full_panics [of "PendingSparksFifo (CoreSchedulingInfos k c)"]
  by (simp add: AddSpark_def Let_def sparks_of_def sched_ok_def fifo_room_def)

lemma GetNextScheduledSpark_empty:
  assumes "sched_ok (ThreadCore (CurrentThread k c)) k" and "sparks_of (ThreadCore (CurrentThread k c)) k = []"
  shows "GetNextScheduledSpark c k = Inr (no_spark, k)"
  using assms ring.is_empty_iff [of "PendingSparksFifo (CoreSchedulingInfos k (ThreadCore (CurrentThread k c)))"]
  by (simp add: GetNextScheduledSpark_def Let_def sparks_of_def sched_ok_def)

lemma GetNextScheduledSpark_pops:
  assumes "sched_ok d k" and "sparks_of d k \<noteq> []" and "ThreadCore (CurrentThread k c) = d"
  shows "\<exists>k'. GetNextScheduledSpark c k = Inr (hd (sparks_of d k), k') \<and> sched_ok d k' \<and>
    sparks_of d k' = tl (sparks_of d k) \<and>
    queues_only d k k'"
proof -
  let ?q = "PendingSparksFifo (CoreSchedulingInfos k d)"
  have ne: "fifo_list ?q \<noteq> []" and ok: "fifo_ok ?q" using assms by (simp_all add: sparks_of_def sched_ok_def)
  then obtain q where q: "Pop ?q = Inr (hd (fifo_list ?q), q)" "fifo_ok q" "fifo_list q = tl (fifo_list ?q)"
      "fifo_room q = fifo_room ?q"
    using ring.pop_nonempty [of ?q] by blast
  have "capacity q = 64" using q assms(1) capacity_of_room [of q] by simp
  then show ?thesis using q ne ok assms ring.is_empty_iff [of ?q]
    by (auto simp: GetNextScheduledSpark_def Let_def sched_ok_def sparks_of_def hd_map map_tl queues_only_def)
qed

lemma CreateThread_queues:
  assumes "sched_ok d k" and "length (threads_of d k) < 63" and "ThreadCore (CurrentThread k c) = d" and "length (X old) = 31"
  shows "\<exists>info ctx k'. CreateThread stackLow infoAddr c func context old k = Inr (info, ContextWhenSuspended info, ctx, k') \<and>
    threads_of d k' = threads_of d k @ [infoAddr] \<and> sched_ok d k' \<and> sparks_of d k' = sparks_of d k \<and>
    ThreadCore info = d \<and> ContextWhenSuspended info = stackLow + 0xFCF0 \<and>
    X ctx ! 0 = context \<and> X ctx ! 18 = infoAddr \<and> Pc ctx = func \<and> Sp ctx = stackLow + 0x10000 \<and> Spsr ctx = 0x205"
proof -
  let ?q = "PendingThreadsFifo (CoreSchedulingInfos k d)"
  have "length (fifo_list ?q) < fifo_room ?q" and ok: "fifo_ok ?q"
    using assms by (simp_all add: threads_of_def sched_ok_def fifo_room_def)
  then obtain q where q: "Push ?q infoAddr = Inr q" "fifo_ok q" "fifo_list q = fifo_list ?q @ [infoAddr]" "fifo_room q = fifo_room ?q"
    using ring.push_room [of ?q infoAddr] by blast
  have "capacity q = 64" using q assms(1) capacity_of_room [of q] by simp
  moreover have "spsr_el1 1 1 1 = 0x205" by (simp add: spsr_el1_def push_bit_eq_mult)
  ultimately show ?thesis using q assms
    by (simp add: CreateThread_def Let_def sched_ok_def threads_of_def sparks_of_def ThreadContext_Size_def)
qed

end
