(* ===== verification/Timer.thy ===== *)
theory Timer
  imports Scheduler "HOL-Library.Multiset"
begin

text \<open>
  The software timers of \<^verbatim>\<open>src/Timer.cpp\<close>: 64 slots per core, of which the due ones are moved to the
  spark queue and the earliest of the others is loaded into the virtual timer. The clock is read
  once per call of \<open>SetupTimerForNext\<close>; each read is an argument.
\<close>

abbreviation INVALID_HANDLE :: nat where
  "INVALID_HANDLE \<equiv> 4294967295"

abbreviation MAX_SCHEDULED_TIMERS :: nat where
  "MAX_SCHEDULED_TIMERS \<equiv> 64"

section \<open>The virtual timer interrupt\<close>

definition cntv_ctl :: "bool \<Rightarrow> bool \<Rightarrow> u64" where
  "cntv_ctl enable imask = of_bool enable OR push_bit 1 (of_bool imask)"

definition Irqs0_VTimer :: u32 where
  "Irqs0_VTimer = push_bit 27 1"

definition EnableCoreVirtualTimerInterrupt :: "nat \<Rightarrow> handler \<Rightarrow> kernel \<Rightarrow> kernel" where
  "EnableCoreVirtualTimerInterrupt coreId h k =
     (let k1 = k\<lparr>cntv_ctl_el0 := (cntv_ctl_el0 k)(coreId := cntv_ctl True False)\<rparr>;
          k2 = k1\<lparr>VirtualTimerHandler := (VirtualTimerHandler k1)(coreId := h)\<rparr>
      in if IsRpi4 (midr_el1 k2) then k2\<lparr>DistributorWrites := (0x100, Irqs0_VTimer) # DistributorWrites k2\<rparr>
         else k2\<lparr>TimerControl := (TimerControl k2)(coreId := set_bit 3 (TimerControl k2 coreId))\<rparr>)"

definition DisableCoreVirtualTimerInterrupt :: "nat \<Rightarrow> kernel \<Rightarrow> kernel" where
  "DisableCoreVirtualTimerInterrupt coreId k =
     (let k1 = k\<lparr>VirtualTimerHandler := (VirtualTimerHandler k)(coreId := NullHandler)\<rparr>;
          k2 = k1\<lparr>cntv_ctl_el0 := (cntv_ctl_el0 k1)(coreId := cntv_ctl False True)\<rparr>
      in if IsRpi4 (midr_el1 k2) then k2\<lparr>DistributorWrites := (0x180, Irqs0_VTimer) # DistributorWrites k2\<rparr>
         else k2\<lparr>TimerControl := (TimerControl k2)(coreId := unset_bit 3 (TimerControl k2 coreId))\<rparr>)"

section \<open>Timer operations\<close>

fun scan_timers ::
  "nat \<Rightarrow> u64 \<Rightarrow> nat \<Rightarrow> scheduled_timer list \<Rightarrow> u64 \<Rightarrow> nat \<Rightarrow> kernel \<Rightarrow> (scheduled_timer list \<times> nat \<times> kernel) res" where
  "scan_timers coreId now i [] earliestTime next_timer k = Inr ([], next_timer, k)"
| "scan_timers coreId now i (t # ts) earliestTime next_timer k =
     (if \<not> timer_active t then
        rbind (scan_timers coreId now (i + 1) ts earliestTime next_timer k) (\<lambda>(ts', n, k'). Inr (t # ts', n, k'))
      else if time_le (trigger_time_ticks t) now then
        rbind (AddSpark coreId (timer_spark t) k) (\<lambda>k1.
        rbind (scan_timers coreId now (i + 1) ts earliestTime next_timer k1) (\<lambda>(ts', n, k').
          Inr (t\<lparr>timer_spark := no_spark\<rparr> # ts', n, k')))
      else if time_less (trigger_time_ticks t) earliestTime then
        rbind (scan_timers coreId now (i + 1) ts (trigger_time_ticks t) i k) (\<lambda>(ts', n, k'). Inr (t # ts', n, k'))
      else
        rbind (scan_timers coreId now (i + 1) ts earliestTime next_timer k) (\<lambda>(ts', n, k'). Inr (t # ts', n, k')))"

definition FindNextScheduledTimerTriggerTime :: "nat \<Rightarrow> u64 \<Rightarrow> kernel \<Rightarrow> (nat \<times> kernel) res" where
  "FindNextScheduledTimerTriggerTime coreId currentTime k =
     (let d = CoreData k coreId in
      rbind (scan_timers coreId currentTime 0 (scheduled_timers d) (GetFarFuturePerformanceTime currentTime) INVALID_HANDLE k)
        (\<lambda>(ts, n, k'). Inr (n, k'\<lparr>CoreData := (CoreData k')(coreId := d\<lparr>scheduled_timers := ts\<rparr>)\<rparr>)))"

definition SetupTimerForNext :: "nat \<Rightarrow> u64 \<Rightarrow> kernel \<Rightarrow> kernel res" where
  "SetupTimerForNext coreId currentTime k =
     rbind (FindNextScheduledTimerTriggerTime coreId currentTime k) (\<lambda>(next_time, k1).
     let d = CoreData k1 coreId in
     if next_time = INVALID_HANDLE then
       Inr (DisableCoreVirtualTimerInterrupt coreId (k1\<lparr>CoreData := (CoreData k1)(coreId := d\<lparr>timerIsEnabled := False\<rparr>)\<rparr>))
     else
       let ticks_until_fire = time_diff (trigger_time_ticks (scheduled_timers d ! next_time)) currentTime;
           k2 = k1\<lparr>cntv_tval_el0 := (cntv_tval_el0 k1)(coreId := of_int ticks_until_fire)\<rparr> in
       if \<not> timerIsEnabled d then Inr (EnableCoreVirtualTimerInterrupt coreId HandleArmVirtualTimerInterrupt_handler k2)
       else Inr k2)"

text \<open>The slot search of \<^verbatim>\<open>ScheduleSparkAtTime\<close>, from iteration \<open>i\<close> with \<open>n\<close> iterations to go.\<close>

fun find_slot :: "scheduled_timer list \<Rightarrow> nat \<Rightarrow> nat \<Rightarrow> nat \<Rightarrow> nat option" where
  "find_slot ts start i 0 = None"
| "find_slot ts start i (Suc n) =
     (let handle = wrap32 (i + start) mod MAX_SCHEDULED_TIMERS in
      if \<not> timer_active (ts ! handle) then Some handle else find_slot ts start (i + 1) n)"

definition ScheduleSparkAtTime :: "nat \<Rightarrow> u64 \<Rightarrow> u64 \<Rightarrow> spark \<Rightarrow> kernel \<Rightarrow> (nat \<times> kernel) res" where
  "ScheduleSparkAtTime coreId now absolute_time_ticks s k =
     (if Func s = 0 then Inr (INVALID_HANDLE, k)
      else let d = CoreData k coreId in
        case find_slot (scheduled_timers d) (currentStart k) 0 MAX_SCHEDULED_TIMERS of
          None \<Rightarrow> Inr (INVALID_HANDLE, k)
        | Some handle \<Rightarrow>
            let t = \<lparr>trigger_time_ticks = absolute_time_ticks, timer_spark = s\<rparr>;
                k1 = k\<lparr>CoreData := (CoreData k)(coreId := d\<lparr>scheduled_timers := (scheduled_timers d)[handle := t]\<rparr>)\<rparr>
            in rbind (SetupTimerForNext coreId now k1) (\<lambda>k2.
                 Inr (handle, k2\<lparr>currentStart := wrap32 (currentStart k2 + 1)\<rparr>)))"

definition ScheduleSpark :: "nat \<Rightarrow> u64 \<Rightarrow> u64 \<Rightarrow> int \<Rightarrow> spark \<Rightarrow> kernel \<Rightarrow> (nat \<times> kernel) res" where
  "ScheduleSpark coreId now now' delay_us s k = ScheduleSparkAtTime coreId now' (time_add now delay_us) s k"

definition CancelSpark :: "nat \<Rightarrow> u64 \<Rightarrow> nat \<Rightarrow> kernel \<Rightarrow> (bool \<times> kernel) res" where
  "CancelSpark coreId now handle k =
     (if MAX_SCHEDULED_TIMERS \<le> handle then Inr (False, k)
      else let d = CoreData k coreId; t = scheduled_timers d ! handle in
        if timer_active t then
          rbind (SetupTimerForNext coreId now
              (k\<lparr>CoreData := (CoreData k)(coreId := d\<lparr>scheduled_timers := (scheduled_timers d)[handle := t\<lparr>timer_spark := no_spark\<rparr>]\<rparr>)\<rparr>))
            (\<lambda>k'. Inr (True, k'))
        else Inr (False, k))"

text \<open>
  The handler returns a spark whose function is \<^verbatim>\<open>GetNextScheduledSpark\<close>, at the address \<open>next_fn\<close>.
\<close>

definition HandleArmVirtualTimerInterrupt :: "u64 \<Rightarrow> nat \<Rightarrow> u64 \<Rightarrow> kernel \<Rightarrow> (spark \<times> kernel) res" where
  "HandleArmVirtualTimerInterrupt next_fn coreId now k =
     rbind (SetupTimerForNext coreId now k) (\<lambda>k'. Inr (MakeSpark next_fn 0, k'))"

text \<open>\<^verbatim>\<open>Scheduler::TimerSpark\<close> at the address \<open>timer_fn\<close>, with the counter frequency \<open>freq\<close>.\<close>

definition TimerSpark :: "u64 \<Rightarrow> u64 \<Rightarrow> nat \<Rightarrow> u64 \<Rightarrow> u64 \<Rightarrow> kernel \<Rightarrow> (spark \<times> kernel) res" where
  "TimerSpark timer_fn freq coreId now now' k =
     rbind (ScheduleSpark coreId now now' (sint (GetPerformanceTicksForMs freq 50)) (MakeSpark timer_fn 0) k)
       (\<lambda>(_, k'). Inr (no_spark, k'))"

text \<open>
  The globals before the kernel runs are zero; \<^verbatim>\<open>Scheduler::Init\<close> then names the core and its main
  thread, whose stack ends at \<^verbatim>\<open>0x8'0000\<close> less 64 KiB per core, and starts the heartbeat.
\<close>

definition zero_thread :: thread_info where
  "zero_thread = \<lparr>ContextWhenSuspended = 0, StackBuffer = (0, 0), ThreadCore = 0, ThreadSpark = 0, ThreadTask = 0\<rparr>"

definition kernel_at_boot :: "u64 \<Rightarrow> kernel" where
  "kernel_at_boot midr = \<lparr>
     CoreSchedulingInfos = (\<lambda>_. \<lparr>CoreId = 0, PendingThreadsFifo = new_fifo (replicate 64 0),
       PendingSparksFifo = new_fifo (replicate 64 \<lparr>Spark = no_spark, SparkTask = 0\<rparr>)\<rparr>),
     CurrentThread = (\<lambda>_. zero_thread),
     CoreData = (\<lambda>_. \<lparr>scheduled_timers = replicate 64 \<lparr>trigger_time_ticks = 0, timer_spark = no_spark\<rparr>, timerIsEnabled = False\<rparr>),
     currentStart = 0, VirtualTimerHandler = (\<lambda>_. NullHandler), cntv_ctl_el0 = (\<lambda>_. 0), cntv_tval_el0 = (\<lambda>_. 0),
     TimerControl = (\<lambda>_. 0), midr_el1 = midr, DistributorWrites = []\<rparr>"

definition enter_main_thread :: "nat \<Rightarrow> kernel \<Rightarrow> kernel" where
  "enter_main_thread coreId k =
     k\<lparr>CoreSchedulingInfos := (CoreSchedulingInfos k)(coreId := (CoreSchedulingInfos k coreId)\<lparr>CoreId := coreId\<rparr>),
       CurrentThread := (CurrentThread k)(coreId :=
         \<lparr>ContextWhenSuspended = 0, StackBuffer = (0x80000 - of_nat coreId * 0x10000, 0x10000),
          ThreadCore = coreId, ThreadSpark = 0, ThreadTask = 0\<rparr>)\<rparr>"

definition Scheduler_Init :: "u64 \<Rightarrow> u64 \<Rightarrow> nat \<Rightarrow> u64 \<Rightarrow> u64 \<Rightarrow> kernel \<Rightarrow> kernel res" where
  "Scheduler_Init timer_fn freq coreId now now' k =
     rbind (ScheduleSpark coreId now now' (sint (GetPerformanceTicksForMs freq 50)) (MakeSpark timer_fn 0)
        (enter_main_thread coreId k)) (\<lambda>(_, k'). Inr k')"

section \<open>What the scan does\<close>

definition due :: "u64 \<Rightarrow> scheduled_timer \<Rightarrow> bool" where
  "due now t \<longleftrightarrow> timer_active t \<and> time_le (trigger_time_ticks t) now"

definition clear_due :: "u64 \<Rightarrow> scheduled_timer \<Rightarrow> scheduled_timer" where
  "clear_due now t = (if due now t then t\<lparr>timer_spark := no_spark\<rparr> else t)"

definition ticks_to :: "u64 \<Rightarrow> scheduled_timer \<Rightarrow> int" where
  "ticks_to now t = time_diff (trigger_time_ticks t) now"

text \<open>A timer the hardware can be armed for: live, not due, and nearer than the far future.\<close>

definition armable :: "u64 \<Rightarrow> scheduled_timer \<Rightarrow> bool" where
  "armable now t \<longleftrightarrow> timer_active t \<and> 0 < ticks_to now t \<and> ticks_to now t < 4611686018427387903"

fun earliest :: "u64 \<Rightarrow> nat \<Rightarrow> scheduled_timer list \<Rightarrow> u64 \<Rightarrow> nat \<Rightarrow> nat" where
  "earliest now i [] e n = n"
| "earliest now i (t # ts) e n =
     (if timer_active t \<and> \<not> due now t \<and> time_less (trigger_time_ticks t) e
      then earliest now (i + 1) ts (trigger_time_ticks t) i else earliest now (i + 1) ts e n)"

lemma scan_timers_result:
  assumes "sched_ok c k" and "length (sparks_of c k) + length (filter (due now) ts) \<le> 63"
  shows "\<exists>k'. scan_timers c now i ts e n k = Inr (map (clear_due now) ts, earliest now i ts e n, k') \<and>
    sched_ok c k' \<and> sparks_of c k' = sparks_of c k @ map timer_spark (filter (due now) ts) \<and>
    queues_only c k k'"
  using assms
proof (induction ts arbitrary: i e n k)
  case Nil
  then show ?case by auto
next
  case (Cons t ts)
  show ?case
  proof (cases "due now t")
    case True
    with Cons.prems have "length (sparks_of c k) < 63" by simp
    with Cons.prems(1) obtain k1 where k1: "AddSpark c (timer_spark t) k = Inr k1" "sched_ok c k1"
        "sparks_of c k1 = sparks_of c k @ [timer_spark t]"
        "queues_only c k k1"
      using AddSpark_room by blast
    have "length (sparks_of c k1) + length (filter (due now) ts) \<le> 63" using Cons.prems(2) True k1(3) by simp
    from Cons.IH [OF k1(2) this, of "i + 1" e n] obtain k2
      where k2: "scan_timers c now (i + 1) ts e n k1 = Inr (map (clear_due now) ts, earliest now (i + 1) ts e n, k2)"
        "sched_ok c k2" "sparks_of c k2 = sparks_of c k1 @ map timer_spark (filter (due now) ts)"
        "queues_only c k1 k2" by blast
    from k1(4) k2(4) have "queues_only c k k2" by (rule queues_only_trans)
    then show ?thesis using True k1 k2(1-3) by (auto simp: due_def [of now t] clear_due_def)
  next
    case False
    have "length (sparks_of c k) + length (filter (due now) ts) \<le> 63" using Cons.prems(2) False by simp
    note IH = Cons.IH [OF Cons.prems(1) this]
    define b where "b \<longleftrightarrow> timer_active t \<and> time_less (trigger_time_ticks t) e"
    define e' where "e' = (if b then trigger_time_ticks t else e)"
    define n' where "n' = (if b then i else n)"
    have scan: "scan_timers c now i (t # ts) e n k =
        rbind (scan_timers c now (i + 1) ts e' n' k) (\<lambda>(ts', n, k'). Inr (t # ts', n, k'))"
      and early: "earliest now i (t # ts) e n = earliest now (i + 1) ts e' n'"
      using False by (simp_all add: e'_def n'_def b_def due_def [of now t])
    from IH [of "i + 1" e' n'] show ?thesis unfolding scan early using False
      by (auto simp: clear_due_def [of now t])
  qed
qed

lemma scan_timers_overflow:
  assumes "sched_ok c k" and "63 < length (sparks_of c k) + length (filter (due now) ts)"
  shows "scan_timers c now i ts e n k = Inl (Panic ''%s overflow'')"
  using assms
proof (induction ts arbitrary: i e n k)
  case Nil
  then show ?case using ring.length_room [of "PendingSparksFifo (CoreSchedulingInfos k c)"]
    by (simp add: length_sparks_of sched_ok_def fifo_room_def)
next
  case (Cons t ts)
  show ?case
  proof (cases "due now t")
    case True
    show ?thesis
    proof (cases "length (sparks_of c k) < 63")
      case room: True
      with Cons.prems(1) obtain k1 where "AddSpark c (timer_spark t) k = Inr k1" "sched_ok c k1"
          "sparks_of c k1 = sparks_of c k @ [timer_spark t]"
        using AddSpark_room by blast
      with Cons True show ?thesis by (auto simp: due_def [of now t])
    qed (use Cons.prems True AddSpark_full in \<open>auto simp: due_def [of now t]\<close>)
  next
    case False
    with Cons show ?thesis by (auto simp: due_def [of now t])
  qed
qed


section \<open>The earliest timer\<close>

lemma due_ticks: "due now t \<longleftrightarrow> timer_active t \<and> ticks_to now t \<le> 0"
  by (simp add: due_def ticks_to_def time_le_def)

lemma armable_not_due: "armable now t \<Longrightarrow> \<not> due now t"
  by (simp add: armable_def due_ticks)

lemma clear_due_armable [simp]: "armable now (clear_due now t) \<longleftrightarrow> armable now t"
  by (auto simp: armable_def clear_due_def due_ticks ticks_to_def timer_active_def no_spark_def)

lemma less_ticks:
  "\<lbrakk>0 < ticks_to now t; 0 < time_diff e now\<rbrakk> \<Longrightarrow> time_less (trigger_time_ticks t) e \<longleftrightarrow> ticks_to now t < time_diff e now"
  unfolding ticks_to_def by (rule time_less_offsets)

text \<open>
  The scan keeps the bound \<open>e\<close> of the best timer so far. Either no later timer is below it and the
  choice stays, or the result is the first of the timers with the least time below it.
\<close>

definition below :: "u64 \<Rightarrow> int \<Rightarrow> scheduled_timer \<Rightarrow> bool" where
  "below now b t \<longleftrightarrow> timer_active t \<and> 0 < ticks_to now t \<and> ticks_to now t < b"

lemma earliest_spec:
  assumes "0 < time_diff e now"
  shows "if \<exists>t\<in>set ts. below now (time_diff e now) t
    then \<exists>j<length ts. earliest now i ts e n = i + j \<and> below now (time_diff e now) (ts ! j) \<and>
      (\<forall>l<length ts. below now (time_diff e now) (ts ! l) \<longrightarrow>
         ticks_to now (ts ! j) \<le> ticks_to now (ts ! l) \<and> (l < j \<longrightarrow> ticks_to now (ts ! j) < ticks_to now (ts ! l)))
    else earliest now i ts e n = n"
  using assms
proof (induction ts arbitrary: i e n)
  case Nil
  then show ?case by simp
next
  case (Cons t ts)
  let ?b = "time_diff e now"
  show ?case
  proof (cases "below now ?b t")
    case False
    then have step: "earliest now i (t # ts) e n = earliest now (i + 1) ts e n"
      using Cons.prems less_ticks [of now t e] by (auto simp: below_def due_ticks)
    show ?thesis
    proof (cases "\<exists>t\<in>set ts. below now ?b t")
      case True
      with Cons.IH [OF Cons.prems, of "i + 1" n] obtain j where j: "j < length ts" "earliest now (i + 1) ts e n = i + 1 + j"
          "below now ?b (ts ! j)"
          "\<forall>l<length ts. below now ?b (ts ! l) \<longrightarrow>
             ticks_to now (ts ! j) \<le> ticks_to now (ts ! l) \<and> (l < j \<longrightarrow> ticks_to now (ts ! j) < ticks_to now (ts ! l))"
        by auto
      have "\<exists>j<length (t # ts). earliest now i (t # ts) e n = i + j \<and> below now ?b ((t # ts) ! j) \<and>
        (\<forall>l<length (t # ts). below now ?b ((t # ts) ! l) \<longrightarrow> ticks_to now ((t # ts) ! j) \<le> ticks_to now ((t # ts) ! l) \<and>
          (l < j \<longrightarrow> ticks_to now ((t # ts) ! j) < ticks_to now ((t # ts) ! l)))"
        using j False step by (intro exI [of _ "Suc j"]) (auto simp: nth_Cons split: nat.splits)
      with True show ?thesis by simp
    next
      case none: False
      with Cons.IH [OF Cons.prems, of "i + 1" n] False step show ?thesis by simp
    qed
  next
    case True
    let ?e = "trigger_time_ticks t"
    have e': "0 < time_diff ?e now" "time_diff ?e now = ticks_to now t" using True by (simp_all add: below_def ticks_to_def)
    have step: "earliest now i (t # ts) e n = earliest now (i + 1) ts ?e i"
      using True Cons.prems less_ticks [of now t e] by (auto simp: below_def due_ticks)
    have weak: "below now (ticks_to now t) u \<Longrightarrow> below now ?b u" for u using True by (simp add: below_def)
    have strong: "below now ?b u \<Longrightarrow> \<not> below now (ticks_to now t) u \<Longrightarrow> ticks_to now t \<le> ticks_to now u" for u
      by (auto simp: below_def)
    note IH = Cons.IH [OF e'(1), of "i + 1" i, unfolded e'(2)]
    have "\<exists>j<length (t # ts). earliest now i (t # ts) e n = i + j \<and> below now ?b ((t # ts) ! j) \<and>
      (\<forall>l<length (t # ts). below now ?b ((t # ts) ! l) \<longrightarrow> ticks_to now ((t # ts) ! j) \<le> ticks_to now ((t # ts) ! l) \<and>
        (l < j \<longrightarrow> ticks_to now ((t # ts) ! j) < ticks_to now ((t # ts) ! l)))"
    proof (cases "\<exists>u\<in>set ts. below now (ticks_to now t) u")
      case some: True
      with IH obtain j where j: "j < length ts" "earliest now (i + 1) ts ?e i = i + 1 + j" "below now (ticks_to now t) (ts ! j)"
          "\<forall>l<length ts. below now (ticks_to now t) (ts ! l) \<longrightarrow>
             ticks_to now (ts ! j) \<le> ticks_to now (ts ! l) \<and> (l < j \<longrightarrow> ticks_to now (ts ! j) < ticks_to now (ts ! l))"
        by auto
      have lt: "ticks_to now (ts ! j) < ticks_to now t" using j(3) by (simp add: below_def)
      have all: "ticks_to now (ts ! j) \<le> ticks_to now (ts ! l) \<and> (l < j \<longrightarrow> ticks_to now (ts ! j) < ticks_to now (ts ! l))"
        if "l < length ts" "below now ?b (ts ! l)" for l
        using j(4) that strong [OF that(2)] lt by (cases "below now (ticks_to now t) (ts ! l)") auto
      show ?thesis using j(1-2) weak [OF j(3)] step lt all
        by (intro exI [of _ "Suc j"]) (auto simp: nth_Cons split: nat.splits)
    next
      case none: False
      then have "earliest now i (t # ts) e n = i" using IH step by simp
      moreover have "ticks_to now t \<le> ticks_to now (ts ! l)" if "l < length ts" "below now ?b (ts ! l)" for l
        using none that strong [OF that(2)] by (meson nth_mem)
      ultimately show ?thesis using True by (intro exI [of _ 0]) (auto simp: nth_Cons split: nat.splits)
    qed
    with True show ?thesis by auto
  qed
qed


section \<open>Setting up the hardware timer\<close>

abbreviation timers_of :: "nat \<Rightarrow> kernel \<Rightarrow> scheduled_timer list" where
  "timers_of c k \<equiv> scheduled_timers (CoreData k c)"

definition timer_ok :: "nat \<Rightarrow> kernel \<Rightarrow> bool" where
  "timer_ok c k \<longleftrightarrow> sched_ok c k \<and> length (timers_of c k) = 64 \<and> \<not> timerIsEnabled (CoreData k c)"

definition due_timers :: "nat \<Rightarrow> u64 \<Rightarrow> kernel \<Rightarrow> scheduled_timer list" where
  "due_timers c now k = filter (due now) (timers_of c k)"

definition spark_room :: "nat \<Rightarrow> u64 \<Rightarrow> kernel \<Rightarrow> bool" where
  "spark_room c now k \<longleftrightarrow> length (sparks_of c k) + length (due_timers c now k) \<le> 63"

definition timer_off :: "nat \<Rightarrow> kernel \<Rightarrow> bool" where
  "timer_off c k \<longleftrightarrow> cntv_ctl_el0 k c = 2 \<and> VirtualTimerHandler k c = NullHandler"

definition timer_armed :: "nat \<Rightarrow> kernel \<Rightarrow> bool" where
  "timer_armed c k \<longleftrightarrow> cntv_ctl_el0 k c = 1 \<and> VirtualTimerHandler k c = HandleArmVirtualTimerInterrupt_handler"

text \<open>The hardware is programmed for the armable timer with the fewest ticks to go, or is off.\<close>

definition armed_for :: "nat \<Rightarrow> u64 \<Rightarrow> kernel \<Rightarrow> bool" where
  "armed_for c now k \<longleftrightarrow>
     (if \<exists>t\<in>set (timers_of c k). armable now t
      then timer_armed c k \<and>
        (\<exists>t\<in>set (timers_of c k). armable now t \<and> cntv_tval_el0 k c = of_int (ticks_to now t) \<and>
          (\<forall>u\<in>set (timers_of c k). armable now u \<longrightarrow> ticks_to now t \<le> ticks_to now u))
      else timer_off c k)"

lemma below_armable: "below now (time_diff (GetFarFuturePerformanceTime now) now) = armable now"
  by (rule ext) (simp add: below_def armable_def far_future)

lemma ticks_clear_due [simp]: "ticks_to now (clear_due now t) = ticks_to now t"
  by (simp add: ticks_to_def clear_due_def)

lemma clear_due_not_due [simp]: "\<not> due now (clear_due now t)"
  by (simp add: clear_due_def due_def timer_active_def no_spark_def)

lemma earliest_armable:
  assumes "length ts = 64"
  shows "if \<exists>t\<in>set ts. armable now t
    then \<exists>j<64. earliest now 0 ts (GetFarFuturePerformanceTime now) INVALID_HANDLE = j \<and> armable now (ts ! j) \<and>
      (\<forall>u\<in>set ts. armable now u \<longrightarrow> ticks_to now (ts ! j) \<le> ticks_to now u)
    else earliest now 0 ts (GetFarFuturePerformanceTime now) INVALID_HANDLE = INVALID_HANDLE"
proof -
  have "0 < time_diff (GetFarFuturePerformanceTime now) now" by (simp add: far_future)
  from earliest_spec [OF this, of ts 0 INVALID_HANDLE] show ?thesis
    unfolding below_armable assms by (auto simp: in_set_conv_nth assms split: if_splits)
qed

lemma cntv_ctl_values [simp]: "cntv_ctl True False = 1" "cntv_ctl False True = 2"
  by (simp_all add: cntv_ctl_def)

lemma Enable_fields [simp]:
  "CoreSchedulingInfos (EnableCoreVirtualTimerInterrupt c h k) = CoreSchedulingInfos k"
  "CoreData (EnableCoreVirtualTimerInterrupt c h k) = CoreData k"
  "currentStart (EnableCoreVirtualTimerInterrupt c h k) = currentStart k"
  "CurrentThread (EnableCoreVirtualTimerInterrupt c h k) = CurrentThread k"
  "cntv_tval_el0 (EnableCoreVirtualTimerInterrupt c h k) = cntv_tval_el0 k"
  "cntv_ctl_el0 (EnableCoreVirtualTimerInterrupt c h k) = (cntv_ctl_el0 k)(c := 1)"
  "VirtualTimerHandler (EnableCoreVirtualTimerInterrupt c h k) = (VirtualTimerHandler k)(c := h)"
  by (simp_all add: EnableCoreVirtualTimerInterrupt_def Let_def)

lemma Disable_fields [simp]:
  "CoreSchedulingInfos (DisableCoreVirtualTimerInterrupt c k) = CoreSchedulingInfos k"
  "CoreData (DisableCoreVirtualTimerInterrupt c k) = CoreData k"
  "currentStart (DisableCoreVirtualTimerInterrupt c k) = currentStart k"
  "CurrentThread (DisableCoreVirtualTimerInterrupt c k) = CurrentThread k"
  "cntv_tval_el0 (DisableCoreVirtualTimerInterrupt c k) = cntv_tval_el0 k"
  "cntv_ctl_el0 (DisableCoreVirtualTimerInterrupt c k) = (cntv_ctl_el0 k)(c := 2)"
  "VirtualTimerHandler (DisableCoreVirtualTimerInterrupt c k) = (VirtualTimerHandler k)(c := NullHandler)"
  by (simp_all add: DisableCoreVirtualTimerInterrupt_def Let_def)

lemma sched_ok_cong: "CoreSchedulingInfos k' c = CoreSchedulingInfos k c \<Longrightarrow> sched_ok c k' = sched_ok c k"
  by (simp add: sched_ok_def)

lemma sparks_of_cong: "CoreSchedulingInfos k' c = CoreSchedulingInfos k c \<Longrightarrow> sparks_of c k' = sparks_of c k"
  by (simp add: sparks_of_def)

lemma FindNext_result:
  assumes "timer_ok c k" and "spark_room c now k"
  obtains k1 where
    "FindNextScheduledTimerTriggerTime c now k =
       Inr (earliest now 0 (timers_of c k) (GetFarFuturePerformanceTime now) INVALID_HANDLE, k1)"
    "timer_ok c k1" "sparks_of c k1 = sparks_of c k @ map timer_spark (due_timers c now k)"
    "timers_of c k1 = map (clear_due now) (timers_of c k)"
    "currentStart k1 = currentStart k" "CurrentThread k1 = CurrentThread k"
proof -
  let ?d = "CoreData k c" and ?ts = "map (clear_due now) (timers_of c k)"
  from assms scan_timers_result [of c k now "timers_of c k" 0 "GetFarFuturePerformanceTime now" INVALID_HANDLE]
  obtain k0 where k0: "scan_timers c now 0 (timers_of c k) (GetFarFuturePerformanceTime now) INVALID_HANDLE k =
      Inr (?ts, earliest now 0 (timers_of c k) (GetFarFuturePerformanceTime now) INVALID_HANDLE, k0)"
    "sched_ok c k0" "sparks_of c k0 = sparks_of c k @ map timer_spark (due_timers c now k)" "queues_only c k k0"
    by (auto simp: timer_ok_def spark_room_def due_timers_def)
  let ?k1 = "k0\<lparr>CoreData := (CoreData k0)(c := ?d\<lparr>scheduled_timers := ?ts\<rparr>)\<rparr>"
  show thesis
  proof (rule that [of ?k1])
    show "timer_ok c ?k1" using assms(1) k0(2) sched_ok_cong [of ?k1 c k0] by (simp add: timer_ok_def)
    show "sparks_of c ?k1 = sparks_of c k @ map timer_spark (due_timers c now k)"
      using k0(3) sparks_of_cong [of ?k1 c k0] by simp
  qed (use k0 queues_onlyD [OF k0(4)] in \<open>simp_all add: FindNextScheduledTimerTriggerTime_def Let_def\<close>)
qed

lemma armable_clear_ex: "(\<exists>t\<in>set (map (clear_due now) ts). armable now t) \<longleftrightarrow> (\<exists>t\<in>set ts. armable now t)"
  by simp

lemma SetupTimerForNext_result:
  assumes "timer_ok c k" and "spark_room c now k"
  obtains k' where "SetupTimerForNext c now k = Inr k'" "timer_ok c k'"
    "sparks_of c k' = sparks_of c k @ map timer_spark (due_timers c now k)"
    "timers_of c k' = map (clear_due now) (timers_of c k)" "armed_for c now k'"
    "currentStart k' = currentStart k" "CurrentThread k' = CurrentThread k"
proof -
  let ?n = "earliest now 0 (timers_of c k) (GetFarFuturePerformanceTime now) INVALID_HANDLE"
  from FindNext_result [OF assms] obtain k1 where k1: "FindNextScheduledTimerTriggerTime c now k = Inr (?n, k1)"
    "timer_ok c k1" "sparks_of c k1 = sparks_of c k @ map timer_spark (due_timers c now k)"
    "timers_of c k1 = map (clear_due now) (timers_of c k)"
    "currentStart k1 = currentStart k" "CurrentThread k1 = CurrentThread k" by blast
  have len: "length (timers_of c k) = 64" using assms(1) by (simp add: timer_ok_def)
  note early = earliest_armable [OF len, of now]
  show thesis
  proof (cases "\<exists>t\<in>set (timers_of c k). armable now t")
    case False
    then have "?n = INVALID_HANDLE" using early by simp
    define k2 where "k2 = DisableCoreVirtualTimerInterrupt c
      (k1\<lparr>CoreData := (CoreData k1)(c := (CoreData k1 c)\<lparr>timerIsEnabled := False\<rparr>)\<rparr>)"
    have s: "CoreSchedulingInfos k2 c = CoreSchedulingInfos k1 c" "timers_of c k2 = timers_of c k1" by (simp_all add: k2_def)
    show thesis
    proof (rule that [of k2])
      show "SetupTimerForNext c now k = Inr k2" using k1(1) \<open>?n = INVALID_HANDLE\<close> by (simp add: SetupTimerForNext_def k2_def Let_def)
      show "timer_ok c k2" using k1(2) sched_ok_cong [OF s(1)] s(2) by (simp add: timer_ok_def) (simp add: k2_def)
      show "armed_for c now k2" using False by (simp add: armed_for_def s k1(4) timer_off_def) (simp add: k2_def)
    qed (use k1 s sparks_of_cong [OF s(1)] in \<open>simp_all add: k2_def\<close>)
  next
    case True
    with early obtain j where j: "j < 64" "?n = j" "armable now (timers_of c k ! j)"
        "\<forall>u\<in>set (timers_of c k). armable now u \<longrightarrow> ticks_to now (timers_of c k ! j) \<le> ticks_to now u"
      by auto
    let ?t = "timers_of c k1 ! j"
    have t: "armable now ?t" "ticks_to now ?t = ticks_to now (timers_of c k ! j)" "?t \<in> set (timers_of c k1)"
      using j len by (simp_all add: k1(4) in_set_conv_nth) auto
    define k2 where "k2 = EnableCoreVirtualTimerInterrupt c HandleArmVirtualTimerInterrupt_handler
      (k1\<lparr>cntv_tval_el0 := (cntv_tval_el0 k1)(c := of_int (ticks_to now ?t))\<rparr>)"
    have s: "CoreSchedulingInfos k2 c = CoreSchedulingInfos k1 c" "CoreData k2 = CoreData k1" by (simp_all add: k2_def)
    show thesis
    proof (rule that [of k2])
      show "SetupTimerForNext c now k = Inr k2" using k1(1,2) j(1,2)
        by (simp add: SetupTimerForNext_def k2_def Let_def timer_ok_def ticks_to_def)
      show "timer_ok c k2" using k1(2) sched_ok_cong [OF s(1)] s(2) by (simp add: timer_ok_def)
      have "timer_armed c k2" and "cntv_tval_el0 k2 c = of_int (ticks_to now ?t)"
        by (simp_all add: k2_def timer_armed_def)
      moreover have "\<forall>u\<in>set (timers_of c k1). armable now u \<longrightarrow> ticks_to now ?t \<le> ticks_to now u"
        using j(4) t(2) by (auto simp: k1(4))
      ultimately show "armed_for c now k2" using t by (auto simp: armed_for_def s)
    qed (use k1 s sparks_of_cong [OF s(1)] in \<open>simp_all add: k2_def\<close>)
  qed
qed

lemma SetupTimerForNext_overflow:
  assumes "timer_ok c k" and "\<not> spark_room c now k"
  shows "SetupTimerForNext c now k = Inl (Panic ''%s overflow'')"
  using assms scan_timers_overflow [of c k now "timers_of c k"]
  by (simp add: SetupTimerForNext_def FindNextScheduledTimerTriggerTime_def Let_def timer_ok_def spark_room_def
      due_timers_def not_le)

end
