(* ===== verification/Timer_Correctness.thy ===== *)
theory Timer_Correctness
  imports Timer
begin

text \<open>
  What the timers promise: scheduling takes a free slot, cancelling frees one, and no spark is lost
  or duplicated on its way from a slot through the queue to the dispatcher. The last section is the
  state machine of one core with its events and their bookkeeping.
\<close>

section \<open>Slots\<close>

lemma wrap32_mod64: "wrap32 n mod 64 = n mod 64"
  by (simp add: wrap32_def mod_mod_cancel)

lemma find_slot_Some: "find_slot ts start i n = Some h \<Longrightarrow> h < 64 \<and> \<not> timer_active (ts ! h)"
  by (induction ts start i n rule: find_slot.induct) (auto simp: Let_def split: if_splits)

lemma find_slot_None:
  "find_slot ts start i n = None \<Longrightarrow> j < n \<Longrightarrow> timer_active (ts ! ((i + j + start) mod 64))"
proof (induction ts start i n arbitrary: j rule: find_slot.induct)
  case (2 ts start i n)
  then have "timer_active (ts ! ((i + start) mod 64))" and "find_slot ts start (i + 1) n = None"
    by (auto simp: Let_def wrap32_mod64 split: if_splits)
  with 2 show ?case by (cases j) (auto simp: Let_def wrap32_mod64)
qed simp

lemma residue_reached: "\<exists>j<64. (j + start) mod 64 = h" if "h < 64" for h start :: nat
proof -
  have "((64 + h - start mod 64) mod 64 + start) mod 64 = (64 + h - start mod 64 + start mod 64) mod 64"
    by (simp only: mod_simps)
  also have "\<dots> = h" using that by simp
  finally show ?thesis by (intro exI [of _ "(64 + h - start mod 64) mod 64"]) simp
qed

lemma find_slot_full_iff:
  assumes "length ts = 64"
  shows "find_slot ts start 0 64 = None \<longleftrightarrow> (\<forall>t\<in>set ts. timer_active t)"
proof
  assume none: "find_slot ts start 0 64 = None"
  show "\<forall>t\<in>set ts. timer_active t"
  proof
    fix t
    assume "t \<in> set ts"
    then obtain h where h: "h < 64" "t = ts ! h" by (metis assms in_set_conv_nth)
    with residue_reached [OF h(1), of start] find_slot_None [OF none] show "timer_active t" by auto
  qed
next
  assume all: "\<forall>t\<in>set ts. timer_active t"
  show "find_slot ts start 0 64 = None"
  proof (cases "find_slot ts start 0 64")
    case (Some h)
    from find_slot_Some [OF this] all assms have False by (metis nth_mem)
    then show ?thesis ..
  qed
qed

section \<open>No spark is lost\<close>

definition slot_sparks :: "scheduled_timer list \<Rightarrow> spark multiset" where
  "slot_sparks ts = mset (map timer_spark (filter timer_active ts))"

definition outstanding :: "nat \<Rightarrow> kernel \<Rightarrow> spark multiset" where
  "outstanding c k = mset (sparks_of c k) + slot_sparks (timers_of c k)"

lemma slot_sparks_split:
  "slot_sparks ts = mset (map timer_spark (filter (due now) ts)) + slot_sparks (map (clear_due now) ts)"
  by (induction ts) (auto simp: slot_sparks_def clear_due_def due_def timer_active_def no_spark_def)

lemma slot_sparks_update:
  assumes "h < length ts"
  shows "slot_sparks (ts[h := t]) + (if timer_active (ts ! h) then {#timer_spark (ts ! h)#} else {#})
    = slot_sparks ts + (if timer_active t then {#timer_spark t#} else {#})"
proof -
  have "ts = take h ts @ ts ! h # drop (Suc h) ts" using assms by (rule id_take_nth_drop)
  then have old: "slot_sparks ts = slot_sparks (take h ts) + slot_sparks [ts ! h] + slot_sparks (drop (Suc h) ts)"
    by (metis (no_types, opaque_lifting) append.left_neutral append_Cons filter_append map_append mset_append
        slot_sparks_def union_assoc)
  have new: "slot_sparks (ts[h := t]) = slot_sparks (take h ts) + slot_sparks [t] + slot_sparks (drop (Suc h) ts)"
    using assms by (simp add: upd_conv_take_nth_drop slot_sparks_def)
  show ?thesis unfolding old new by (simp add: slot_sparks_def)
qed

lemma room_of_outstanding: "size (outstanding c k) \<le> 63 \<Longrightarrow> spark_room c now k"
proof -
  assume "size (outstanding c k) \<le> 63"
  moreover have "size (slot_sparks (timers_of c k)) =
      length (due_timers c now k) + size (slot_sparks (map (clear_due now) (timers_of c k)))"
    by (subst slot_sparks_split [of _ now]) (simp only: size_union size_mset length_map due_timers_def)
  ultimately show "spark_room c now k" by (simp add: outstanding_def spark_room_def)
qed

lemma Setup_outstanding:
  assumes "sparks_of c k' = sparks_of c k @ map timer_spark (due_timers c now k)"
    and "timers_of c k' = map (clear_due now) (timers_of c k)"
  shows "outstanding c k' = outstanding c k"
  using assms slot_sparks_split [of "timers_of c k" now] by (simp add: outstanding_def due_timers_def)

section \<open>Scheduling and cancelling\<close>

definition with_slot :: "nat \<Rightarrow> nat \<Rightarrow> scheduled_timer \<Rightarrow> kernel \<Rightarrow> kernel" where
  "with_slot c h t k = k\<lparr>CoreData := (CoreData k)(c := (CoreData k c)\<lparr>scheduled_timers := (timers_of c k)[h := t]\<rparr>)\<rparr>"

lemma with_slot_fields [simp]:
  "timers_of c (with_slot c h t k) = (timers_of c k)[h := t]"
  "sparks_of c (with_slot c h t k) = sparks_of c k"
  "CurrentThread (with_slot c h t k) = CurrentThread k"
  "currentStart (with_slot c h t k) = currentStart k"
  "timer_ok c (with_slot c h t k) = timer_ok c k"
  by (simp_all add: with_slot_def sparks_of_def timer_ok_def sched_ok_def)

lemma outstanding_with_slot:
  assumes "timer_ok c k" and "h < 64"
  shows "outstanding c (with_slot c h t k) + (if timer_active (timers_of c k ! h) then {#timer_spark (timers_of c k ! h)#} else {#})
    = outstanding c k + (if timer_active t then {#timer_spark t#} else {#})"
  using assms slot_sparks_update [of h "timers_of c k" t] by (simp add: outstanding_def timer_ok_def union_assoc)

text \<open>
  A schedule request is refused exactly for a null function or a full table, and then changes
  nothing. Otherwise it takes a free slot and sets up the hardware with it in place.
\<close>

lemma ScheduleSparkAtTime_refused:
  assumes "timer_ok c k" and "Func s = 0 \<or> (\<forall>t\<in>set (timers_of c k). timer_active t)"
  shows "ScheduleSparkAtTime c now time s k = Inr (INVALID_HANDLE, k)"
  using assms find_slot_full_iff [of "timers_of c k" "currentStart k"]
  by (auto simp: ScheduleSparkAtTime_def Let_def timer_ok_def)

lemma ScheduleSparkAtTime_slot:
  assumes "timer_ok c k" and "Func s \<noteq> 0" and "\<exists>t\<in>set (timers_of c k). \<not> timer_active t"
  obtains h where "h < 64" "\<not> timer_active (timers_of c k ! h)"
    "ScheduleSparkAtTime c now time s k =
       rbind (SetupTimerForNext c now (with_slot c h \<lparr>trigger_time_ticks = time, timer_spark = s\<rparr> k)) (\<lambda>k2.
         Inr (h, k2\<lparr>currentStart := wrap32 (currentStart k2 + 1)\<rparr>))"
proof -
  from assms find_slot_full_iff [of "timers_of c k" "currentStart k"]
  obtain h where h: "find_slot (timers_of c k) (currentStart k) 0 64 = Some h"
    by (auto simp: timer_ok_def)
  from find_slot_Some [OF h] show thesis
    using assms(2) h by (intro that [of h]) (simp_all add: ScheduleSparkAtTime_def Let_def with_slot_def)
qed

lemma timer_ok_start [simp]:
  "timer_ok c (k\<lparr>currentStart := n\<rparr>) = timer_ok c k"
  "sparks_of c (k\<lparr>currentStart := n\<rparr>) = sparks_of c k"
  "outstanding c (k\<lparr>currentStart := n\<rparr>) = outstanding c k"
  "armed_for c now (k\<lparr>currentStart := n\<rparr>) = armed_for c now k"
  by (simp_all add: timer_ok_def sched_ok_def sparks_of_def outstanding_def armed_for_def timer_armed_def timer_off_def)

lemma ScheduleSparkAtTime_accepted:
  assumes "timer_ok c k" and "Func s \<noteq> 0" and "\<exists>t\<in>set (timers_of c k). \<not> timer_active t"
    and "size (outstanding c k) < 63"
  obtains h k' where "ScheduleSparkAtTime c now time s k = Inr (h, k')" "h < 64" "\<not> timer_active (timers_of c k ! h)"
    "timer_ok c k'" "armed_for c now k'" "outstanding c k' = outstanding c k + {#s#}"
    "timers_of c k' = map (clear_due now) ((timers_of c k)[h := \<lparr>trigger_time_ticks = time, timer_spark = s\<rparr>])"
    "CurrentThread k' = CurrentThread k"
proof -
  let ?t = "\<lparr>trigger_time_ticks = time, timer_spark = s\<rparr>"
  from ScheduleSparkAtTime_slot [OF assms(1-3)] obtain h where h: "h < 64" "\<not> timer_active (timers_of c k ! h)"
    "ScheduleSparkAtTime c now time s k =
       rbind (SetupTimerForNext c now (with_slot c h ?t k)) (\<lambda>k2. Inr (h, k2\<lparr>currentStart := wrap32 (currentStart k2 + 1)\<rparr>))"
    by blast
  have out: "outstanding c (with_slot c h ?t k) = outstanding c k + {#s#}"
    using outstanding_with_slot [OF assms(1) h(1), of ?t] h(2) assms(2) by (simp add: timer_active_def)
  have "spark_room c now (with_slot c h ?t k)" by (rule room_of_outstanding) (use out assms(4) in simp)
  moreover have "timer_ok c (with_slot c h ?t k)" using assms(1) by simp
  ultimately obtain k2 where "SetupTimerForNext c now (with_slot c h ?t k) = Inr k2" "timer_ok c k2"
    "sparks_of c k2 = sparks_of c (with_slot c h ?t k) @ map timer_spark (due_timers c now (with_slot c h ?t k))"
    "timers_of c k2 = map (clear_due now) (timers_of c (with_slot c h ?t k))" "armed_for c now k2"
    "CurrentThread k2 = CurrentThread (with_slot c h ?t k)"
    using SetupTimerForNext_result by blast
  moreover from this have "outstanding c k2 = outstanding c (with_slot c h ?t k)" by (intro Setup_outstanding)
  ultimately show thesis using h out
    by (intro that [of h "k2\<lparr>currentStart := wrap32 (currentStart k2 + 1)\<rparr>"]) auto
qed

lemma CancelSpark_nothing:
  "\<lbrakk>64 \<le> h \<or> \<not> timer_active (timers_of c k ! h)\<rbrakk> \<Longrightarrow> CancelSpark c now h k = Inr (False, k)"
  by (auto simp: CancelSpark_def Let_def)

lemma CancelSpark_slot:
  assumes "h < 64" and "timer_active (timers_of c k ! h)"
  shows "CancelSpark c now h k =
    rbind (SetupTimerForNext c now (with_slot c h ((timers_of c k ! h)\<lparr>timer_spark := no_spark\<rparr>) k)) (\<lambda>k'. Inr (True, k'))"
  using assms by (simp add: CancelSpark_def Let_def with_slot_def)

lemma inactive_no_spark [simp]: "\<not> timer_active (t\<lparr>timer_spark := no_spark\<rparr>)"
  by (simp add: timer_active_def no_spark_def)

lemma outstanding_cancelled:
  assumes "timer_ok c k" and "h < 64" and "timer_active (timers_of c k ! h)"
  shows "outstanding c k = outstanding c (with_slot c h ((timers_of c k ! h)\<lparr>timer_spark := no_spark\<rparr>) k)
    + {#timer_spark (timers_of c k ! h)#}"
  using outstanding_with_slot [OF assms(1,2), of "(timers_of c k ! h)\<lparr>timer_spark := no_spark\<rparr>"] assms(3) by simp

section \<open>The events of a core\<close>

text \<open>
  The reachable states of one core, with three counts beside the state: the sparks accepted, those
  handed to the dispatcher and those cancelled.
\<close>

definition idle_core :: "nat \<Rightarrow> kernel \<Rightarrow> bool" where
  "idle_core c k \<longleftrightarrow> timer_ok c k \<and> ThreadCore (CurrentThread k c) = c \<and> sparks_of c k = [] \<and>
     (\<forall>t\<in>set (timers_of c k). \<not> timer_active t)"

inductive core_run :: "u64 \<Rightarrow> nat \<Rightarrow> kernel \<Rightarrow> spark multiset \<Rightarrow> spark multiset \<Rightarrow> spark multiset \<Rightarrow> bool"
  for next_fn c where
  boot: "idle_core c k \<Longrightarrow> core_run next_fn c k {#} {#} {#}"
| schedule: "\<lbrakk>core_run next_fn c k A D C; ScheduleSparkAtTime c now time s k = Inr (h, k')\<rbrakk> \<Longrightarrow>
    core_run next_fn c k' (if h = INVALID_HANDLE then A else A + {#s#}) D C"
| add: "\<lbrakk>core_run next_fn c k A D C; Func s \<noteq> 0; AddSpark c s k = Inr k'\<rbrakk> \<Longrightarrow> core_run next_fn c k' (A + {#s#}) D C"
| cancel: "\<lbrakk>core_run next_fn c k A D C; CancelSpark c now h k = Inr (b, k')\<rbrakk> \<Longrightarrow>
    core_run next_fn c k' A D (if b then C + {#timer_spark (timers_of c k ! h)#} else C)"
| interrupt: "\<lbrakk>core_run next_fn c k A D C; HandleArmVirtualTimerInterrupt next_fn c now k = Inr (s, k')\<rbrakk> \<Longrightarrow>
    core_run next_fn c k' A D C"
| dispatch: "\<lbrakk>core_run next_fn c k A D C; GetNextScheduledSpark c k = Inr (s, k')\<rbrakk> \<Longrightarrow>
    core_run next_fn c k' A (if Func s = 0 then D else D + {#s#}) C"

definition core_inv :: "nat \<Rightarrow> kernel \<Rightarrow> bool" where
  "core_inv c k \<longleftrightarrow> timer_ok c k \<and> ThreadCore (CurrentThread k c) = c \<and> (\<forall>s\<in>set (sparks_of c k). Func s \<noteq> 0)"

lemma Setup_inv:
  assumes "core_inv c k" and "SetupTimerForNext c now k = Inr k'"
  shows "core_inv c k' \<and> outstanding c k' = outstanding c k \<and> timers_of c k' = map (clear_due now) (timers_of c k)"
proof -
  from assms have ok: "timer_ok c k" and room: "spark_room c now k"
    using SetupTimerForNext_overflow [of c k now] by (auto simp: core_inv_def)
  from SetupTimerForNext_result [OF this] assms(2) have
    "timer_ok c k'" "sparks_of c k' = sparks_of c k @ map timer_spark (due_timers c now k)"
    "timers_of c k' = map (clear_due now) (timers_of c k)" "CurrentThread k' = CurrentThread k"
    by (metis Inr_inject)+
  moreover have "\<forall>t\<in>set (due_timers c now k). Func (timer_spark t) \<noteq> 0"
    by (auto simp: due_timers_def due_def timer_active_def)
  ultimately show ?thesis using assms(1) Setup_outstanding by (auto simp: core_inv_def)
qed

lemma core_inv_with_slot: "core_inv c k \<Longrightarrow> core_inv c (with_slot c h t k)"
  by (simp add: core_inv_def)

lemma core_inv_start [simp]: "core_inv c (k\<lparr>currentStart := n\<rparr>) = core_inv c k"
  by (simp add: core_inv_def)

lemma schedule_inv:
  assumes "core_inv c k" and "ScheduleSparkAtTime c now time s k = Inr (h, k')"
  shows "core_inv c k' \<and> outstanding c k' = (if h = INVALID_HANDLE then outstanding c k else outstanding c k + {#s#})"
proof (cases "Func s = 0 \<or> (\<forall>t\<in>set (timers_of c k). timer_active t)")
  case True
  with assms ScheduleSparkAtTime_refused [of c k s now time] show ?thesis by (simp add: core_inv_def)
next
  case False
  let ?t = "\<lparr>trigger_time_ticks = time, timer_spark = s\<rparr>"
  from False assms(1) ScheduleSparkAtTime_slot [of c k s now time] obtain j where j: "j < 64" "\<not> timer_active (timers_of c k ! j)"
    "ScheduleSparkAtTime c now time s k =
       rbind (SetupTimerForNext c now (with_slot c j ?t k)) (\<lambda>k2. Inr (j, k2\<lparr>currentStart := wrap32 (currentStart k2 + 1)\<rparr>))"
    by (auto simp: core_inv_def)
  with assms(2) obtain k2 where k2: "SetupTimerForNext c now (with_slot c j ?t k) = Inr k2" "h = j"
      "k' = k2\<lparr>currentStart := wrap32 (currentStart k2 + 1)\<rparr>"
    by (auto simp: rbind_eq_Inr)
  have "outstanding c (with_slot c j ?t k) = outstanding c k + {#s#}"
    using outstanding_with_slot [of c k j ?t] assms(1) j(1,2) False by (simp add: timer_active_def core_inv_def)
  with Setup_inv [OF core_inv_with_slot [OF assms(1)] k2(1)] j(1) k2(2,3) show ?thesis by auto
qed

lemma cancel_inv:
  assumes "core_inv c k" and "CancelSpark c now h k = Inr (b, k')"
  shows "core_inv c k' \<and> outstanding c k = (if b then outstanding c k' + {#timer_spark (timers_of c k ! h)#} else outstanding c k')"
proof (cases "h < 64 \<and> timer_active (timers_of c k ! h)")
  case False
  with assms CancelSpark_nothing [of h k c now] show ?thesis by (auto simp: not_less)
next
  case True
  with assms(2) CancelSpark_slot [of h k c now] have s: "b"
      "SetupTimerForNext c now (with_slot c h ((timers_of c k ! h)\<lparr>timer_spark := no_spark\<rparr>) k) = Inr k'"
    by (auto simp: rbind_eq_Inr)
  from Setup_inv [OF core_inv_with_slot [OF assms(1)] s(2)] outstanding_cancelled [of c k h] True s(1) assms(1)
  show ?thesis by (auto simp: core_inv_def)
qed

lemma add_inv:
  assumes "core_inv c k" and "Func s \<noteq> 0" and "AddSpark c s k = Inr k'"
  shows "core_inv c k' \<and> outstanding c k' = outstanding c k + {#s#}"
proof -
  have ok: "sched_ok c k" using assms(1) by (simp add: core_inv_def timer_ok_def)
  then have "length (sparks_of c k) < 63" using assms(3) AddSpark_full [of c k s] by force
  from AddSpark_room [OF ok this, of s] assms(3) have
    "sched_ok c k'" "sparks_of c k' = sparks_of c k @ [s]" "queues_only c k k'" by auto
  then show ?thesis using assms(1,2) by (auto simp: core_inv_def timer_ok_def outstanding_def queues_onlyD)
qed

lemma dispatch_inv:
  assumes "core_inv c k" and "GetNextScheduledSpark c k = Inr (s, k')"
  shows "core_inv c k' \<and> outstanding c k = (if Func s = 0 then outstanding c k' else outstanding c k' + {#s#})"
proof -
  have ok: "sched_ok c k" "ThreadCore (CurrentThread k c) = c" using assms(1) by (simp_all add: core_inv_def timer_ok_def)
  show ?thesis
  proof (cases "sparks_of c k")
    case Nil
    with GetNextScheduledSpark_empty [of k c] ok assms show ?thesis by (simp add: no_spark_def)
  next
    case (Cons x xs)
    with GetNextScheduledSpark_pops [OF ok(1) _ ok(2)] assms(2) have
      "s = x" "sched_ok c k'" "sparks_of c k' = xs" "queues_only c k k'" by auto
    then show ?thesis using assms(1) Cons
      by (auto simp: core_inv_def timer_ok_def outstanding_def queues_onlyD)
  qed
qed

lemma core_run_balanced:
  "core_run next_fn c k A D C \<Longrightarrow> core_inv c k \<and> A = D + C + outstanding c k"
proof (induction rule: core_run.induct)
  case (boot k)
  then show ?case by (auto simp: idle_core_def core_inv_def outstanding_def slot_sparks_def)
next
  case (schedule k A D C now time s h k')
  then show ?case using schedule_inv [of c k now time s h k'] by auto
next
  case (add k A D C s k')
  then show ?case using add_inv [of c k s k'] by auto
next
  case (cancel k A D C now h b k')
  then show ?case using cancel_inv [of c k now h b k'] by auto
next
  case (interrupt k A D C now s k')
  then show ?case using Setup_inv [of c k now k'] by (auto simp: HandleArmVirtualTimerInterrupt_def rbind_eq_Inr)
next
  case (dispatch k A D C s k')
  then show ?case using dispatch_inv [of c k s k'] by auto
qed


section \<open>Serving interrupts\<close>

text \<open>One timer interrupt: the handler, then the spark it returns, which takes one pending spark.\<close>

definition service :: "u64 \<Rightarrow> nat \<Rightarrow> u64 \<Rightarrow> kernel \<Rightarrow> (spark \<times> kernel) res" where
  "service next_fn c now k =
     rbind (HandleArmVirtualTimerInterrupt next_fn c now k) (\<lambda>(_, k1). GetNextScheduledSpark c k1)"

fun services :: "u64 \<Rightarrow> nat \<Rightarrow> u64 list \<Rightarrow> kernel \<Rightarrow> (spark list \<times> kernel) res" where
  "services next_fn c [] k = Inr ([], k)"
| "services next_fn c (now # nows) k =
     rbind (service next_fn c now k) (\<lambda>(s, k1). rbind (services next_fn c nows k1) (\<lambda>(ss, k2). Inr (s # ss, k2)))"

definition ready :: "nat \<Rightarrow> u64 \<Rightarrow> kernel \<Rightarrow> spark list" where
  "ready c now k = sparks_of c k @ map timer_spark (due_timers c now k)"

lemma service_result:
  assumes "core_inv c k" and "size (outstanding c k) \<le> 63"
  obtains s k' where "service next_fn c now k = Inr (s, k')" "core_inv c k'" "size (outstanding c k') \<le> 63"
    "sparks_of c k' = tl (ready c now k)" "ready c now k \<noteq> [] \<Longrightarrow> s = hd (ready c now k)"
    "timers_of c k' = map (clear_due now) (timers_of c k)"
proof -
  have "timer_ok c k" using assms(1) by (simp add: core_inv_def)
  from SetupTimerForNext_result [OF this room_of_outstanding [OF assms(2), of now]] obtain k1
    where k1: "SetupTimerForNext c now k = Inr k1" "sparks_of c k1 = ready c now k"
    by (auto simp: ready_def)
  have inv1: "core_inv c k1" "outstanding c k1 = outstanding c k" "timers_of c k1 = map (clear_due now) (timers_of c k)"
    using Setup_inv [OF assms(1) k1(1)] by blast+
  then have ok: "sched_ok c k1" "ThreadCore (CurrentThread k1 c) = c" by (simp_all add: core_inv_def timer_ok_def)
  have "\<exists>s k'. GetNextScheduledSpark c k1 = Inr (s, k') \<and> sparks_of c k' = tl (ready c now k) \<and>
      (ready c now k \<noteq> [] \<longrightarrow> s = hd (ready c now k)) \<and> timers_of c k' = timers_of c k1"
  proof (cases "ready c now k = []")
    case True
    then show ?thesis using GetNextScheduledSpark_empty [of k1 c] ok k1(2) by simp
  next
    case False
    then show ?thesis using GetNextScheduledSpark_pops [OF ok(1) _ ok(2)] k1(2) queues_onlyD(1) by force
  qed
  then obtain s k' where k': "GetNextScheduledSpark c k1 = Inr (s, k')" "sparks_of c k' = tl (ready c now k)"
      "ready c now k \<noteq> [] \<longrightarrow> s = hd (ready c now k)" "timers_of c k' = timers_of c k1" by blast
  have inv': "core_inv c k'" "outstanding c k1 = (if Func s = 0 then outstanding c k' else outstanding c k' + {#s#})"
    using dispatch_inv [OF inv1(1) k'(1)] by blast+
  have "size (outstanding c k') \<le> size (outstanding c k1)" unfolding inv'(2) by simp
  with inv1 inv' assms(2) k1(1) k' show thesis
    by (intro that [of s k']) (simp_all add: service_def HandleArmVirtualTimerInterrupt_def)
qed

lemma services_fifo:
  assumes "core_inv c k" and "size (outstanding c k) \<le> 63"
  shows "\<exists>out k'. services next_fn c nows k = Inr (out, k') \<and> length out = length nows \<and>
    (\<forall>p<length nows. p < length (sparks_of c k) \<longrightarrow> out ! p = sparks_of c k ! p)"
  using assms
proof (induction nows arbitrary: k)
  case (Cons now nows)
  from service_result [OF Cons.prems, of next_fn now] obtain s k1 where
    k1: "service next_fn c now k = Inr (s, k1)" "core_inv c k1" "size (outstanding c k1) \<le> 63"
      "sparks_of c k1 = tl (ready c now k)" "ready c now k \<noteq> [] \<Longrightarrow> s = hd (ready c now k)" by blast
  from Cons.IH [OF k1(2,3)] obtain out k2 where k2: "services next_fn c nows k1 = Inr (out, k2)" "length out = length nows"
    "\<forall>p<length nows. p < length (sparks_of c k1) \<longrightarrow> out ! p = sparks_of c k1 ! p" by blast
  have "(s # out) ! p = sparks_of c k ! p" if p: "p < length (now # nows)" "p < length (sparks_of c k)" for p
  proof (cases p)
    case 0
    with p(2) k1(5) show ?thesis by (simp add: ready_def hd_append hd_conv_nth)
  next
    case (Suc m)
    have "m < length (sparks_of c k1)" using p(2) Suc by (simp add: k1(4) ready_def)
    moreover have "sparks_of c k1 ! m = sparks_of c k ! p"
      using p(2) Suc by (simp add: k1(4) ready_def nth_tl nth_append)
    ultimately show ?thesis using k2(3) p(1) Suc by simp
  qed
  with k1(1) k2(1,2) show ?case by simp
qed simp

section \<open>A core after boot\<close>

definition booted :: kernel where
  "booted = enter_main_thread 0 (kernel_at_boot 0)"

definition example_timer :: scheduled_timer where
  "example_timer = \<lparr>trigger_time_ticks = 5, timer_spark = MakeSpark 100 1\<rparr>"

lemma booted_fields [simp]:
  "timers_of 0 booted = replicate 64 \<lparr>trigger_time_ticks = 0, timer_spark = no_spark\<rparr>"
  "sparks_of 0 booted = []"
  "ThreadCore (CurrentThread booted 0) = 0"
  "timer_ok 0 booted"
  by (simp_all add: booted_def enter_main_thread_def kernel_at_boot_def sparks_of_def timer_ok_def sched_ok_def
      fifo_ok_def new_fifo_def capacity_def fifo_list_def fifo_size_def)

lemma empty_slot [simp]: "\<not> timer_active \<lparr>trigger_time_ticks = time, timer_spark = no_spark\<rparr>"
  by (simp add: timer_active_def no_spark_def)

lemma idle_booted: "idle_core 0 booted"
  by (auto simp: idle_core_def timer_active_def no_spark_def)

lemma core_inv_booted: "core_inv 0 booted"
  by (simp add: core_inv_def)

lemma outstanding_booted: "outstanding 0 booted = {#}"
  by (simp add: outstanding_def slot_sparks_def timer_active_def no_spark_def)

lemma example_timer_due: "due 10 example_timer" "timer_active example_timer"
  by (simp_all add: due_def example_timer_def timer_active_def MakeSpark_def time_le_def time_diff_def)

lemma example_slot:
  "outstanding 0 (with_slot 0 3 example_timer booted) = {#timer_spark example_timer#}"
  "filter (due 10) (timers_of 0 (with_slot 0 3 example_timer booted)) = [example_timer]"
proof -
  show "outstanding 0 (with_slot 0 3 example_timer booted) = {#timer_spark example_timer#}"
    using outstanding_with_slot [of 0 booted 3 example_timer]
    by (simp add: outstanding_booted example_timer_due)
  show "filter (due 10) (timers_of 0 (with_slot 0 3 example_timer booted)) = [example_timer]"
    by (simp add: upd_conv_take_nth_drop example_timer_due) (simp add: due_def timer_active_def no_spark_def)
qed

section \<open>Properties\<close>

text \<open>
  C13. Setting up the timer on a core whose queue has room moves the sparks of exactly the due
  timers to the queue, in slot order, frees their slots, leaves every other slot as it was, and
  programs the virtual timer with the ticks to the earliest remaining trigger time, or turns it off
  when there is none within the far future.
\<close>

theorem setup_queues_due_and_arms_earliest:
  assumes "timer_ok c k" and "length (sparks_of c k) + length (filter (due now) (timers_of c k)) \<le> 63"
  shows "\<exists>k'. SetupTimerForNext c now k = Inr k' \<and> timer_ok c k' \<and>
    sparks_of c k' = sparks_of c k @ map timer_spark (filter (due now) (timers_of c k)) \<and>
    timers_of c k' = map (\<lambda>t. if due now t then t\<lparr>timer_spark := no_spark\<rparr> else t) (timers_of c k) \<and>
    armed_for c now k'"
proof -
  have "clear_due now = (\<lambda>t. if due now t then t\<lparr>timer_spark := no_spark\<rparr> else t)" by (simp add: clear_due_def fun_eq_iff)
  with assms SetupTimerForNext_result [of c k now] show ?thesis
    by (simp only: spark_room_def due_timers_def) metis
qed

lemma setup_queues_due_and_arms_earliest_witness:
  "\<exists>k'. SetupTimerForNext 0 10 (with_slot 0 3 example_timer booted) = Inr k' \<and>
     sparks_of 0 k' = [timer_spark example_timer]"
  using setup_queues_due_and_arms_earliest [of 0 "with_slot 0 3 example_timer booted" 10]
  by (simp add: example_slot(2) del: with_slot_fields(1)) blast

text \<open>
  The queue holds 63 sparks although 64 timers can be scheduled: when the pending sparks and
  the due timers exceed 63 the setup panics.
\<close>

theorem too_many_due_timers_panic:
  assumes "timer_ok c k" and "63 < length (sparks_of c k) + length (filter (due now) (timers_of c k))"
  shows "SetupTimerForNext c now k = Inl (Panic ''%s overflow'')"
  using assms by (intro SetupTimerForNext_overflow) (simp_all add: spark_room_def due_timers_def)

lemma too_many_due_timers_panic_witness:
  "SetupTimerForNext 0 10 (booted\<lparr>CoreData := \<lambda>_. \<lparr>scheduled_timers = replicate 64 example_timer, timerIsEnabled = False\<rparr>\<rparr>)
    = Inl (Panic ''%s overflow'')"
proof -
  let ?k = "booted\<lparr>CoreData := \<lambda>_. \<lparr>scheduled_timers = replicate 64 example_timer, timerIsEnabled = False\<rparr>\<rparr>"
  have "timer_ok 0 ?k" using booted_fields(4) by (simp add: timer_ok_def sched_ok_def)
  then show ?thesis by (rule too_many_due_timers_panic) (simp add: example_timer_due)
qed



text \<open>
  C16. No spark is lost, duplicated or invented: in every state a core reaches by scheduling,
  adding, cancelling, timer interrupts and dispatches, the sparks accepted are those dispatched,
  those cancelled and those still outstanding in a slot or in the queue, with multiplicity.
\<close>

theorem no_spark_is_lost:
  assumes "core_run next_fn c k A D C"
  shows "A = D + C + outstanding c k \<and> timer_ok c k"
  using core_run_balanced [OF assms] by (simp add: core_inv_def)

lemma no_spark_is_lost_witness:
  "\<exists>k. core_run 0 0 k {#MakeSpark 100 1#} {#} {#} \<and> outstanding 0 k = {#MakeSpark 100 1#}"
proof -
  have free: "\<exists>t\<in>set (timers_of 0 booted). \<not> timer_active t" and fn: "Func (MakeSpark 100 1) \<noteq> 0"
    and few: "size (outstanding 0 booted) < 63" by (simp_all add: MakeSpark_def outstanding_booted)
  obtain h k' where k': "ScheduleSparkAtTime 0 10 1000 (MakeSpark 100 1) booted = Inr (h, k')" "h < 64"
    by (rule ScheduleSparkAtTime_accepted [OF booted_fields(4) fn free few])
  from core_run.schedule [OF core_run.boot [OF idle_booted] k'(1), of 0] k'(2)
  have "core_run 0 0 k' {#MakeSpark 100 1#} {#} {#}" by simp
  with no_spark_is_lost [OF this] show ?thesis by auto
qed



end
