(* ===== verification/Interrupts.thy ===== *)
theory Interrupts
  imports Timer_Correctness
begin

text \<open>
  The interrupt dispatcher of \<^verbatim>\<open>src/Interrupts.cpp\<close>. The pending registers change under the code, so
  each is a function from the number of the read to the value read; the clock likewise. The USB
  handler is a function pointer of another component and is an argument, \<open>None\<close> for the null pointer.
  What the dispatcher prints is left out.
\<close>

section \<open>Registers\<close>

record irq_hw =
  IrqPending :: "nat \<Rightarrow> u32"
  IrqBasicPending :: "nat \<Rightarrow> u32"
  IrqClock :: "nat \<Rightarrow> u64"

text \<open>The bits of \<^verbatim>\<open>CoreInterruptSource\<close> and \<^verbatim>\<open>BasicIrqPending\<close> the code tests.\<close>

definition irq_CNTVIRQ :: "u32 \<Rightarrow> bool" where
  "irq_CNTVIRQ r = bit r 3"

definition irq_GPU :: "u32 \<Rightarrow> bool" where
  "irq_GPU r = bit r 8"

definition basic_USB :: "u32 \<Rightarrow> bool" where
  "basic_USB r = bit r 11"

section \<open>Dispatch\<close>

type_synonym usb_handler = "(kernel \<Rightarrow> kernel res) option"

definition call_timer_handler :: "u64 \<Rightarrow> nat \<Rightarrow> u64 \<Rightarrow> kernel \<Rightarrow> (spark \<times> kernel) res" where
  "call_timer_handler next_fn coreId now k =
     (case VirtualTimerHandler k coreId of
        NullHandler \<Rightarrow> Inl (Undefined ''VirtualTimerHandler'')
      | HandleArmVirtualTimerInterrupt_handler \<Rightarrow> HandleArmVirtualTimerInterrupt next_fn coreId now k)"

definition call_usb_handler :: "usb_handler \<Rightarrow> kernel \<Rightarrow> kernel res" where
  "call_usb_handler h k = (case h of None \<Rightarrow> Inr k | Some f \<Rightarrow> f k)"

text \<open>
  The loop over the pending interrupts of the core, with \<open>Suc n\<close> retries left and \<open>i\<close> and \<open>j\<close> the numbers
  of the next reads. The result is the spark to return, if a handler gave one.
\<close>

fun core_irq_loop ::
  "irq_hw \<Rightarrow> usb_handler \<Rightarrow> u64 \<Rightarrow> nat \<Rightarrow> nat \<Rightarrow> nat \<Rightarrow> nat \<Rightarrow> kernel \<Rightarrow> (spark option \<times> nat \<times> kernel) res" where
  "core_irq_loop hw usb next_fn coreId 0 i j k = Inl (Panic ''Unhandled core interrupt'')"
| "core_irq_loop hw usb next_fn coreId (Suc n) i j k =
     (let pending = IrqPending hw i in
      if pending = 0 then Inr (None, j, k)
      else
        rbind (if irq_CNTVIRQ pending then call_timer_handler next_fn coreId (IrqClock hw i) k else Inr (no_spark, k)) (\<lambda>(s, k1).
        if Func s \<noteq> 0 then Inr (Some s, j, k1)
        else
          rbind (if irq_GPU pending then
                   rbind (if basic_USB (IrqBasicPending hw j) then call_usb_handler usb k1 else Inr k1) (\<lambda>k2. Inr (j + 1, k2))
                 else Inr (j, k1)) (\<lambda>(j', k2).
          core_irq_loop hw usb next_fn coreId n (i + 1) j' k2)))"

text \<open>The loop over the interrupts of the chip, for core 0; the second-level registers are only printed.\<close>

fun basic_irq_loop :: "irq_hw \<Rightarrow> usb_handler \<Rightarrow> nat \<Rightarrow> nat \<Rightarrow> kernel \<Rightarrow> kernel res" where
  "basic_irq_loop hw usb 0 j k = Inl (Panic ''Unhandled SoC interrupt'')"
| "basic_irq_loop hw usb (Suc n) j k =
     (let basicPending = IrqBasicPending hw j in
      if basicPending = 0 then Inr k
      else rbind (if basic_USB basicPending then call_usb_handler usb k else Inr k) (\<lambda>k1.
        basic_irq_loop hw usb n (j + 1) k1))"

text \<open>
  On the Raspberry Pi 4 the acknowledge register names the source, and the same value ends the
  interrupt. The variable for the result is set only by the timer's case.
\<close>

definition Rpi4_InterruptDispatcher :: "u32 \<Rightarrow> u64 \<Rightarrow> nat \<Rightarrow> u64 \<Rightarrow> kernel \<Rightarrow> (spark \<times> u32 \<times> kernel) res" where
  "Rpi4_InterruptDispatcher acknowledge next_fn coreId now k =
     (if acknowledge = 27 then
        rbind (call_timer_handler next_fn coreId now k) (\<lambda>(s, k'). Inr (s, acknowledge, k'))
      else Inl (Undefined ''result''))"

definition InterruptDispatcher ::
  "irq_hw \<Rightarrow> usb_handler \<Rightarrow> u32 \<Rightarrow> u64 \<Rightarrow> nat \<Rightarrow> kernel \<Rightarrow> (spark \<times> kernel) res" where
  "InterruptDispatcher hw usb acknowledge next_fn coreId k =
     (if IsRpi4 (midr_el1 k) then
        rbind (Rpi4_InterruptDispatcher acknowledge next_fn coreId (IrqClock hw 0) k) (\<lambda>(s, eoi, k'). Inr (s, k'))
      else
        rbind (core_irq_loop hw usb next_fn coreId 100 0 0 k) (\<lambda>(r, j, k1).
        case r of
          Some s \<Rightarrow> Inr (s, k1)
        | None \<Rightarrow> if coreId > 0 then Inr (no_spark, k1)
                  else rbind (basic_irq_loop hw usb 100 j k1) (\<lambda>k2. Inr (no_spark, k2))))"

section \<open>Enabling\<close>

definition Irq1_USB :: u32 where
  "Irq1_USB = push_bit 9 1"

text \<open>The write to the interrupt controller (register offset and value), and the handler kept.\<close>

definition EnableUsb :: "u64 \<Rightarrow> usb_handler \<Rightarrow> (nat \<times> u32) list \<times> usb_handler" where
  "EnableUsb midr h =
     ((if IsRpi4 midr then [] else [(case h of None \<Rightarrow> 0xB21C | Some _ \<Rightarrow> 0xB210, Irq1_USB)]), h)"

definition Interrupts_Init :: "u64 \<Rightarrow> (nat \<times> u32) list" where
  "Interrupts_Init midr =
     (if IsRpi4 midr then [(0x41100, Irqs0_VTimer), (0x41000, 1), (0x42000, 1), (0x42004, 0xF0)] else [])"

section \<open>What the dispatcher does\<close>

lemma call_timer_handler_armed:
  "timer_armed c k \<Longrightarrow> call_timer_handler next_fn c now k =
     rbind (SetupTimerForNext c now k) (\<lambda>k'. Inr (MakeSpark next_fn 0, k'))"
  by (simp add: call_timer_handler_def timer_armed_def HandleArmVirtualTimerInterrupt_def)

lemma core_irq_loop_ends:
  assumes "core_irq_loop hw None next_fn c n i j k = Inr (None, j', k')"
  shows "\<exists>m<n. IrqPending hw (i + m) = 0 \<and> (\<forall>l<m. IrqPending hw (i + l) \<noteq> 0)"
  using assms
proof (induction n arbitrary: i j k)
  case (Suc n)
  show ?case
  proof (cases "IrqPending hw i = 0")
    case False
    with Suc.prems obtain j1 k1 where "core_irq_loop hw None next_fn c n (i + 1) j1 k1 = Inr (None, j', k')"
      by (auto simp: Let_def rbind_eq_Inr split: if_splits)
    from Suc.IH [OF this] obtain m where "m < n" "IrqPending hw (i + 1 + m) = 0" "\<forall>l<m. IrqPending hw (i + 1 + l) \<noteq> 0" by blast
    with False show ?thesis by (intro exI [of _ "Suc m"]) (auto simp: less_Suc_eq_0_disj)
  qed auto
qed simp

lemma core_irq_loop_quiet:
  assumes "\<And>l. i \<le> l \<Longrightarrow> l < i + m \<Longrightarrow> \<not> irq_CNTVIRQ (IrqPending hw l) \<and> IrqPending hw l \<noteq> 0"
    and "IrqPending hw (i + m) = 0" and "m < n"
  shows "\<exists>j'. core_irq_loop hw None next_fn c n i j k = Inr (None, j', k)"
  using assms
proof (induction n arbitrary: i j m)
  case (Suc n)
  show ?case
  proof (cases m)
    case 0
    with Suc.prems(2) show ?thesis by simp
  next
    case (Suc m')
    have p: "\<not> irq_CNTVIRQ (IrqPending hw i)" "IrqPending hw i \<noteq> 0" using Suc.prems(1) [of i] Suc by auto
    have "\<exists>j'. core_irq_loop hw None next_fn c n (i + 1) j1 k = Inr (None, j', k)" for j1
      using Suc.prems Suc by (intro Suc.IH [of "i + 1" m']) auto
    with p show ?thesis by (simp add: Let_def no_spark_def call_usb_handler_def)
  qed
qed simp

lemma core_irq_loop_stuck:
  assumes "\<And>l. IrqPending hw l \<noteq> 0 \<and> \<not> irq_CNTVIRQ (IrqPending hw l)"
  shows "core_irq_loop hw None next_fn c n i j k = Inl (Panic ''Unhandled core interrupt'')"
  using assms by (induction n arbitrary: i j) (auto simp: Let_def no_spark_def call_usb_handler_def)


section \<open>Properties\<close>

text \<open>
  While the virtual timer is armed, a pending timer interrupt is served on both boards: the
  dispatcher runs the timer handler and returns the spark that dispatches pending work, before it
  looks at any other source.
\<close>

theorem timer_interrupt_is_served:
  assumes "timer_armed c k" and "timer_ok c k" and "spark_room c (IrqClock hw 0) k" and "next_fn \<noteq> 0"
    and "if IsRpi4 (midr_el1 k) then acknowledge = 27 else irq_CNTVIRQ (IrqPending hw 0)"
  shows "\<exists>k'. InterruptDispatcher hw usb acknowledge next_fn c k = Inr (MakeSpark next_fn 0, k') \<and>
    SetupTimerForNext c (IrqClock hw 0) k = Inr k' \<and> armed_for c (IrqClock hw 0) k'"
proof -
  from SetupTimerForNext_result [OF assms(2,3)] obtain k' where
    k': "SetupTimerForNext c (IrqClock hw 0) k = Inr k'" "armed_for c (IrqClock hw 0) k'" by blast
  have call: "call_timer_handler next_fn c (IrqClock hw 0) k = Inr (MakeSpark next_fn 0, k')"
    using call_timer_handler_armed [OF assms(1)] k'(1) by simp
  have "InterruptDispatcher hw usb acknowledge next_fn c k = Inr (MakeSpark next_fn 0, k')"
  proof (cases "IsRpi4 (midr_el1 k)")
    case True
    with assms(5) call show ?thesis by (simp add: InterruptDispatcher_def Rpi4_InterruptDispatcher_def)
  next
    case False
    with assms(5) have p: "irq_CNTVIRQ (IrqPending hw 0)" by simp
    then have "IrqPending hw 0 \<noteq> 0" by (auto simp: irq_CNTVIRQ_def)
    moreover have "(100 :: nat) = Suc 99" by simp
    ultimately have "core_irq_loop hw usb next_fn c 100 0 0 k = Inr (Some (MakeSpark next_fn 0), 0, k')"
      using p call assms(4) by (simp only: core_irq_loop.simps Let_def) (simp add: MakeSpark_def)
    with False show ?thesis by (simp add: InterruptDispatcher_def)
  qed
  with k' show ?thesis by blast
qed

lemma timer_interrupt_is_served_witness:
  "\<exists>k'. InterruptDispatcher \<lparr>IrqPending = \<lambda>_. 8, IrqBasicPending = \<lambda>_. 0, IrqClock = \<lambda>_. 10\<rparr> None 0 64 0
     (booted\<lparr>cntv_ctl_el0 := \<lambda>_. 1, VirtualTimerHandler := \<lambda>_. HandleArmVirtualTimerInterrupt_handler\<rparr>) = Inr (MakeSpark 64 0, k')"
proof -
  let ?k = "booted\<lparr>cntv_ctl_el0 := \<lambda>_. 1, VirtualTimerHandler := \<lambda>_. HandleArmVirtualTimerInterrupt_handler\<rparr>"
  let ?hw = "\<lparr>IrqPending = \<lambda>_. 8, IrqBasicPending = \<lambda>_. 0, IrqClock = \<lambda>_. 10\<rparr> :: irq_hw"
  have s: "sparks_of 0 ?k = []" using booted_fields(2) by (simp add: sparks_of_def)
  have ok: "timer_ok 0 ?k" using booted_fields(4) by (simp add: timer_ok_def sched_ok_def)
  have room: "spark_room 0 (IrqClock ?hw 0) ?k" by (simp add: spark_room_def due_timers_def s due_def)
  have armed: "timer_armed 0 ?k" by (simp add: timer_armed_def)
  have bit: "irq_CNTVIRQ 8" "\<not> IsRpi4 (midr_el1 ?k)"
    by (simp_all add: irq_CNTVIRQ_def bit_iff_odd booted_def enter_main_thread_def kernel_at_boot_def IsRpi4_def)
  show ?thesis using timer_interrupt_is_served [OF armed ok room, of 64 0 None] bit by auto
qed

text \<open>
  An interrupt that no handler clears does not hang the dispatcher silently: when a core
  interrupt other than the timer stays pending on the Raspberry Pi 3, the dispatcher gives up after
  100 reads with a panic; when it goes away within 100 reads the dispatcher returns, on a core other
  than 0 with no spark and no change.
\<close>

theorem stuck_interrupt_panics:
  assumes "\<not> IsRpi4 (midr_el1 k)" and "\<And>l. \<not> irq_CNTVIRQ (IrqPending hw l)"
  shows "((\<forall>l. IrqPending hw l \<noteq> 0) \<longrightarrow>
      InterruptDispatcher hw None acknowledge next_fn c k = Inl (Panic ''Unhandled core interrupt'')) \<and>
    (0 < c \<and> (\<exists>m<100. IrqPending hw m = 0 \<and> (\<forall>l<m. IrqPending hw l \<noteq> 0)) \<longrightarrow>
      InterruptDispatcher hw None acknowledge next_fn c k = Inr (no_spark, k))"
proof (intro conjI impI)
  assume "\<forall>l. IrqPending hw l \<noteq> 0"
  with assms core_irq_loop_stuck [of hw next_fn c 100 0 0 k]
  show "InterruptDispatcher hw None acknowledge next_fn c k = Inl (Panic ''Unhandled core interrupt'')"
    by (simp add: InterruptDispatcher_def)
next
  assume "0 < c \<and> (\<exists>m<100. IrqPending hw m = 0 \<and> (\<forall>l<m. IrqPending hw l \<noteq> 0))"
  then obtain m where c: "0 < c" and m: "m < 100" "IrqPending hw m = 0" "\<forall>l<m. IrqPending hw l \<noteq> 0" by blast
  then obtain j where "core_irq_loop hw None next_fn c 100 0 0 k = Inr (None, j, k)"
    using assms core_irq_loop_quiet [of 0 m hw 100 next_fn c 0 k] by auto
  with assms(1) c show "InterruptDispatcher hw None acknowledge next_fn c k = Inr (no_spark, k)"
    by (simp add: InterruptDispatcher_def)
qed

lemma stuck_interrupt_panics_witness:
  "InterruptDispatcher \<lparr>IrqPending = \<lambda>_. 1, IrqBasicPending = \<lambda>_. 0, IrqClock = \<lambda>_. 0\<rparr> None 0 64 1 (kernel_at_boot 0) =
     Inl (Panic ''Unhandled core interrupt'') \<and>
   InterruptDispatcher \<lparr>IrqPending = \<lambda>i. if i < 3 then 1 else 0, IrqBasicPending = \<lambda>_. 0, IrqClock = \<lambda>_. 0\<rparr> None 0 64 1 (kernel_at_boot 0) =
     Inr (no_spark, kernel_at_boot 0)"
proof -
  have pi3: "\<not> IsRpi4 (midr_el1 (kernel_at_boot 0))" by (simp add: kernel_at_boot_def IsRpi4_def)
  let ?hw = "\<lparr>IrqPending = \<lambda>i. if i < 3 then 1 else 0, IrqBasicPending = \<lambda>_. 0, IrqClock = \<lambda>_. 0\<rparr> :: irq_hw"
  have m: "\<exists>m<100. IrqPending ?hw m = 0 \<and> (\<forall>l<m. IrqPending ?hw l \<noteq> 0)" by (rule exI [of _ 3]) simp
  have q: "\<not> irq_CNTVIRQ (IrqPending ?hw l)" for l by (simp add: irq_CNTVIRQ_def bit_iff_odd)
  show ?thesis
    using stuck_interrupt_panics [OF pi3, of "\<lparr>IrqPending = \<lambda>_. 1, IrqBasicPending = \<lambda>_. 0, IrqClock = \<lambda>_. 0\<rparr>" 0 64 1]
      stuck_interrupt_panics [OF pi3 q, of 0 64 1] m
    by (simp add: irq_CNTVIRQ_def bit_iff_odd)
qed

text \<open>
  On the Raspberry Pi 4 any acknowledged source but the virtual timer, the spurious one
  included, makes the dispatcher return a variable that was never set.
\<close>

theorem rpi4_other_source_is_undefined:
  assumes "IsRpi4 (midr_el1 k)" and "acknowledge \<noteq> 27"
  shows "InterruptDispatcher hw usb acknowledge next_fn c k = Inl (Undefined ''result'')"
  using assms by (simp add: InterruptDispatcher_def Rpi4_InterruptDispatcher_def)

lemma rpi4_other_source_is_undefined_witness:
  "InterruptDispatcher \<lparr>IrqPending = \<lambda>_. 0, IrqBasicPending = \<lambda>_. 0, IrqClock = \<lambda>_. 0\<rparr> None 1023 64 0 (kernel_at_boot 0x410FD083) =
     Inl (Undefined ''result'')"
  by (rule rpi4_other_source_is_undefined) (simp_all add: kernel_at_boot_def IsRpi4_def)

end
