(* ===== verification/Stdio.thy ===== *)
theory Stdio
  imports Prelude
begin

text \<open>
  Formatted output, \<^verbatim>\<open>src/emb-stdio.cpp\<close>. A format is the characters of the C string before its
  terminator; reading past its end gives the terminator. The variadic arguments are a list of typed
  values, and reading one with another type, or one too many, is undefined. The character sink is an
  argument, as in the code: it returns \<^verbatim>\<open>EOF\<close> or any other value and updates its own state. Field
  widths, precisions and lengths are \<^verbatim>\<open>int\<close>; a number in a format that does not fit is undefined.
\<close>

section \<open>Numbers to digits\<close>

definition digits_lc :: string where
  "digits_lc = ''0123456789abcdef''"

definition digits_uc :: string where
  "digits_uc = ''0123456789ABCDEF''"

definition base_to_nbits :: "nat list" where
  "base_to_nbits = [0, 0, 1, 0, 2, 0, 0, 0, 3, 0, 0, 0, 0, 0, 0, 0, 4]"

definition nul :: char where
  "nul = CHR 0x00"

text \<open>The buffers for digits have \<^verbatim>\<open>LONG_BITS + 1\<close> characters; \<open>temp\<close> is the part written, from index 0.\<close>

definition LONG_BITS :: nat where
  "LONG_BITS = 64"

definition put_digit :: "string \<Rightarrow> nat \<Rightarrow> string \<Rightarrow> string res" where
  "put_digit digits d temp =
     (if length temp < LONG_BITS + 1 \<and> d < 16 then Inr (temp @ [digits ! d]) else Inl (Undefined ''temp[i]''))"

lemma put_digit_Inr: "put_digit ds d temp = Inr temp' \<Longrightarrow> length temp < 65 \<and> length temp' = Suc (length temp)"
  by (auto simp: put_digit_def LONG_BITS_def split: if_splits)

function (sequential) div_loop :: "string \<Rightarrow> u64 \<Rightarrow> u64 \<Rightarrow> string \<Rightarrow> string res" where
  "div_loop digits base num temp =
     (if base = 0 then Inl (Undefined ''num % base'')
      else rbind (put_digit digits (unat (num mod base)) temp) (\<lambda>temp'.
        if num div base = 0 then Inr temp' else div_loop digits base (num div base) temp'))"
  by pat_completeness auto
termination by (relation "measure (\<lambda>(_, _, _, temp). 65 - length temp)") (auto dest: put_digit_Inr)

function (sequential) shift_loop :: "string \<Rightarrow> nat \<Rightarrow> u64 \<Rightarrow> string \<Rightarrow> string res" where
  "shift_loop digits shift num temp =
     rbind (put_digit digits (unat (num AND (push_bit shift 1 - 1))) temp) (\<lambda>temp'.
       if drop_bit shift num = 0 then Inr temp' else shift_loop digits shift (drop_bit shift num) temp')"
  by pat_completeness auto
termination by (relation "measure (\<lambda>(_, _, _, temp). 65 - length temp)") (auto dest: put_digit_Inr)

declare div_loop.simps [simp del] shift_loop.simps [simp del]

definition ulong_to_string :: "u64 \<Rightarrow> nat \<Rightarrow> bool \<Rightarrow> string res" where
  "ulong_to_string num base alt_digits =
     (let digits = (if alt_digits then digits_uc else digits_lc) in
      if 16 < base then Inl (Undefined ''base_to_nbits[base]'')
      else rbind (if base_to_nbits ! base = 0 then div_loop digits (of_nat base) num [nul]
                  else shift_loop digits (base_to_nbits ! base) num [nul]) (\<lambda>temp. Inr (rev temp)))"

section \<open>Conversion specifications\<close>

datatype integer_size = SHORT_SHORT_SIZE | SHORT_SIZE | REGULAR_SIZE | LONG_SIZE | LONG_LONG_SIZE

datatype va = VInt u32 | VLong u64 | VStr "string option"

definition va_int :: "va list \<Rightarrow> (u32 \<times> va list) res" where
  "va_int ap = (case ap of VInt w # ap' \<Rightarrow> Inr (w, ap') | _ \<Rightarrow> Inl (Undefined ''va_arg int''))"

definition va_long :: "va list \<Rightarrow> (u64 \<times> va list) res" where
  "va_long ap = (case ap of VLong w # ap' \<Rightarrow> Inr (w, ap') | _ \<Rightarrow> Inl (Undefined ''va_arg long''))"

definition va_str :: "va list \<Rightarrow> (string option \<times> va list) res" where
  "va_str ap = (case ap of VStr s # ap' \<Rightarrow> Inr (s, ap') | _ \<Rightarrow> Inl (Undefined ''va_arg char*''))"

record format_spec =
  leftjust :: bool
  hashtype :: nat
  pad_char :: char
  fmin :: int
  prec :: int
  int_size :: integer_size

definition default_spec :: format_spec where
  "default_spec = \<lparr>leftjust = False, hashtype = 0, pad_char = CHR '' '', fmin = 0, prec = -1, int_size = REGULAR_SIZE\<rparr>"

definition peek :: "string \<Rightarrow> char" where
  "peek fmt = (case fmt of [] \<Rightarrow> nul | c # _ \<Rightarrow> c)"

fun scan_flags :: "format_spec \<Rightarrow> string \<Rightarrow> format_spec \<times> string" where
  "scan_flags sp [] = (sp, [])"
| "scan_flags sp (c # fmt) =
     (if c = CHR ''-'' then scan_flags (sp\<lparr>leftjust := True\<rparr>) fmt
      else if c = CHR ''#'' then scan_flags (sp\<lparr>hashtype := 1\<rparr>) fmt
      else if c = CHR ''0'' then scan_flags (sp\<lparr>pad_char := CHR ''0''\<rparr>) fmt
      else (sp, c # fmt))"

definition is_digit :: "char \<Rightarrow> bool" where
  "is_digit c \<longleftrightarrow> 48 \<le> (of_char c :: nat) \<and> (of_char c :: nat) \<le> 57"

fun scan_number :: "int \<Rightarrow> string \<Rightarrow> (int \<times> string) res" where
  "scan_number acc [] = Inr (acc, [])"
| "scan_number acc (c # fmt) =
     (if is_digit c then
        (let acc' = acc * 10 + (of_char c - 48) in
         if acc' < 2147483648 then scan_number acc' fmt else Inl (Undefined ''int overflow''))
      else Inr (acc, c # fmt))"

definition scan_width :: "format_spec \<Rightarrow> string \<Rightarrow> va list \<Rightarrow> (format_spec \<times> string \<times> va list) res" where
  "scan_width sp fmt ap =
     (if peek fmt = CHR ''*'' then
        rbind (va_int ap) (\<lambda>(w, ap').
          if sint w < 0 then
            (if sint w = -2147483648 then Inl (Undefined ''-fmin'')
             else Inr (sp\<lparr>fmin := - sint w, leftjust := True\<rparr>, tl fmt, ap'))
          else Inr (sp\<lparr>fmin := sint w\<rparr>, tl fmt, ap'))
      else rbind (scan_number 0 fmt) (\<lambda>(n, fmt'). Inr (sp\<lparr>fmin := n\<rparr>, fmt', ap)))"

definition scan_precision :: "format_spec \<Rightarrow> string \<Rightarrow> va list \<Rightarrow> (format_spec \<times> string \<times> va list) res" where
  "scan_precision sp fmt ap =
     (if peek fmt = CHR ''.'' then
        (if peek (tl fmt) = CHR ''*'' then
           rbind (va_int ap) (\<lambda>(w, ap'). Inr (sp\<lparr>prec := sint w\<rparr>, tl (tl fmt), ap'))
         else rbind (scan_number 0 (tl fmt)) (\<lambda>(n, fmt'). Inr (sp\<lparr>prec := n\<rparr>, fmt', ap)))
      else Inr (sp, fmt, ap))"

definition scan_size :: "format_spec \<Rightarrow> string \<Rightarrow> format_spec \<times> string" where
  "scan_size sp fmt =
     (if peek fmt = CHR ''l'' then
        (if peek (tl fmt) = CHR ''l'' then (sp\<lparr>int_size := LONG_LONG_SIZE\<rparr>, tl (tl fmt))
         else (sp\<lparr>int_size := LONG_SIZE\<rparr>, tl fmt))
      else if peek fmt = CHR ''z'' then (sp\<lparr>int_size := LONG_LONG_SIZE\<rparr>, tl fmt)
      else if peek fmt = CHR ''h'' then
        (if peek (tl fmt) = CHR ''h'' then (sp\<lparr>int_size := SHORT_SHORT_SIZE\<rparr>, tl (tl fmt))
         else (sp\<lparr>int_size := SHORT_SIZE\<rparr>, tl fmt))
      else (sp, fmt))"

text \<open>Parts 1 to 4 of a conversion specification, in the order of the code.\<close>

definition scan_spec :: "string \<Rightarrow> va list \<Rightarrow> (format_spec \<times> string \<times> va list) res" where
  "scan_spec fmt ap =
     (let (sp1, fmt1) = scan_flags default_spec fmt in
      rbind (scan_width sp1 fmt1 ap) (\<lambda>(sp2, fmt2, ap2).
      let sp3 = (if leftjust sp2 then sp2\<lparr>pad_char := CHR '' ''\<rparr> else sp2) in
      rbind (scan_precision sp3 fmt2 ap2) (\<lambda>(sp4, fmt3, ap3).
      let (sp5, fmt4) = scan_size sp4 fmt3 in Inr (sp5, fmt4, ap3))))"

section \<open>Conversions\<close>

text \<open>What a conversion character yields: text to print as it is, or a number with its base.\<close>

datatype conversion =
    Text format_spec string
  | Number format_spec nat bool u64 bool

definition is_long :: "integer_size \<Rightarrow> bool" where
  "is_long sz \<longleftrightarrow> sz = LONG_SIZE \<or> sz = LONG_LONG_SIZE"

definition signed_arg :: "integer_size \<Rightarrow> va list \<Rightarrow> (u64 \<times> va list) res" where
  "signed_arg sz ap =
     (if is_long sz then va_long ap else rbind (va_int ap) (\<lambda>(w, ap'). Inr (of_int (sint w), ap')))"

definition unsigned_arg :: "integer_size \<Rightarrow> va list \<Rightarrow> (u64 \<times> va list) res" where
  "unsigned_arg sz ap =
     (if is_long sz then va_long ap else rbind (va_int ap) (\<lambda>(w, ap'). Inr (ucast w, ap')))"

definition unsigned_conv :: "format_spec \<Rightarrow> nat \<Rightarrow> bool \<Rightarrow> va list \<Rightarrow> (conversion \<times> va list) res" where
  "unsigned_conv sp base alt ap =
     rbind (unsigned_arg (int_size sp) ap) (\<lambda>(w, ap'). Inr (Number sp base False w alt, ap'))"

definition hash_to :: "nat \<Rightarrow> format_spec \<Rightarrow> format_spec" where
  "hash_to n sp = (if hashtype sp = 1 then sp\<lparr>hashtype := n\<rparr> else sp)"

definition convert :: "format_spec \<Rightarrow> char \<Rightarrow> va list \<Rightarrow> (conversion \<times> va list) res option" where
  "convert sp c ap =
     (if c = CHR ''c'' then Some (rbind (va_int ap) (\<lambda>(w, ap'). Inr (Text sp [char_of (unat w mod 256)], ap')))
      else if c = CHR ''s'' then Some (rbind (va_str ap) (\<lambda>(s, ap').
        Inr (Text sp (case s of None \<Rightarrow> ''(null)'' | Some t \<Rightarrow> t), ap')))
      else if c = CHR ''i'' \<or> c = CHR ''d'' then Some (rbind (signed_arg (int_size sp) ap) (\<lambda>(w, ap').
        Inr (if sint w < 0 then Number sp 10 True (- w) False else Number sp 10 False w False, ap')))
      else if c = CHR ''u'' then Some (unsigned_conv sp 10 False ap)
      else if c = CHR ''o'' then Some (unsigned_conv (hash_to 2 sp) 8 False ap)
      else if c = CHR ''X'' then Some (unsigned_conv (hash_to 3 sp) 16 True ap)
      else if c = CHR ''x'' then Some (unsigned_conv (hash_to 3 sp) 16 False ap)
      else if c = CHR ''p'' then Some (rbind (va_long ap) (\<lambda>(w, ap').
        Inr (Number (sp\<lparr>hashtype := 3, pad_char := CHR ''0'', fmin := 16\<rparr>) 16 False w False, ap')))
      else if c = CHR ''b'' then Some (unsigned_conv sp 2 False ap)
      else None)"

text \<open>
  The characters of a field in the order they are written: prefix, left padding, sign, zeroes, text,
  right padding. The text of a C string ends at its terminator.
\<close>

definition layout :: "format_spec \<Rightarrow> bool \<Rightarrow> string \<Rightarrow> string \<Rightarrow> string \<Rightarrow> string" where
  "layout sp numeric prefix sign str0 =
     (let str = takeWhile (\<lambda>c. c \<noteq> nul) str0;
          len = int (length str);
          len_str = (if 0 \<le> prec sp \<and> \<not> numeric \<and> prec sp < len then prec sp else len);
          zeroes = (if 0 \<le> prec sp \<and> numeric \<and> prec sp > len_str then prec sp - len_str else 0);
          pad = (if 0 \<le> prec sp \<and> numeric then CHR '' '' else pad_char sp);
          len_nonpadding = len_str + zeroes + int (length sign);
          len_padding = (if len_nonpadding < fmin sp then fmin sp - len_nonpadding else 0);
          shortcut = (\<not> leftjust sp \<and> pad = CHR ''0'');
          num_zeroes = (if shortcut then len_padding else zeroes);
          padding = replicate (nat (if shortcut then 0 else len_padding)) pad in
      prefix @ (if leftjust sp then [] else padding) @ sign @ replicate (nat num_zeroes) (CHR ''0'') @
        take (nat len_str) str @ (if leftjust sp then padding else []))"

definition number_prefix :: "format_spec \<Rightarrow> u64 \<Rightarrow> string" where
  "number_prefix sp w =
     (if hashtype sp = 2 \<and> w \<noteq> 0 then ''0'' else if hashtype sp = 3 then ''0x'' else [])"

definition field :: "conversion \<Rightarrow> string res" where
  "field conv =
     (case conv of
        Text sp s \<Rightarrow> Inr (layout sp False [] [] s)
      | Number sp base neg w alt \<Rightarrow>
          rbind (ulong_to_string w base alt) (\<lambda>str.
            Inr (layout sp True (number_prefix sp w) (if neg then ''-'' else []) str)))"

section \<open>The formatter\<close>

abbreviation EOF :: int where
  "EOF \<equiv> -1"

type_synonym 's putc = "char \<Rightarrow> 's \<Rightarrow> int \<times> 's"

text \<open>Writes characters until the sink fails; the flag says that it did not.\<close>

fun put_all :: "'s putc \<Rightarrow> string \<Rightarrow> int \<Rightarrow> 's \<Rightarrow> bool \<times> int \<times> 's" where
  "put_all putc [] n s = (True, n, s)"
| "put_all putc (c # cs) n s = (let (r, s') = putc c s in if r = EOF then (False, n, s') else put_all putc cs (n + 1) s')"

lemma scan_flags_length: "scan_flags sp fmt = (sp', fmt') \<Longrightarrow> length fmt' \<le> length fmt"
  by (induction sp fmt rule: scan_flags.induct) (auto split: if_splits)

lemma scan_number_length: "scan_number acc fmt = Inr (n, fmt') \<Longrightarrow> length fmt' \<le> length fmt"
  by (induction acc fmt rule: scan_number.induct) (auto simp: Let_def split: if_splits)

lemma scan_width_length: "scan_width sp fmt ap = Inr (sp', fmt', ap') \<Longrightarrow> length fmt' \<le> length fmt"
  by (auto simp: scan_width_def rbind_eq_Inr dest: scan_number_length split: if_splits)

lemma scan_precision_length: "scan_precision sp fmt ap = Inr (sp', fmt', ap') \<Longrightarrow> length fmt' \<le> length fmt"
  by (auto simp: scan_precision_def rbind_eq_Inr dest!: scan_number_length split: if_splits)

lemma scan_size_length: "scan_size sp fmt = (sp', fmt') \<Longrightarrow> length fmt' \<le> length fmt"
  by (auto simp: scan_size_def split: if_splits)

lemma scan_spec_length:
  assumes "scan_spec fmt ap = Inr (sp, fmt', ap')"
  shows "length fmt' \<le> length fmt"
proof -
  obtain sp1 fmt1 where f: "scan_flags default_spec fmt = (sp1, fmt1)" by fastforce
  from assms f obtain sp2 fmt2 ap2 sp4 fmt3 where
    w: "scan_width sp1 fmt1 ap = Inr (sp2, fmt2, ap2)" and
    p: "scan_precision (if leftjust sp2 then sp2\<lparr>pad_char := CHR '' ''\<rparr> else sp2) fmt2 ap2 = Inr (sp4, fmt3, ap')" and
    z: "scan_size sp4 fmt3 = (sp, fmt')"
    by (auto simp: scan_spec_def Let_def rbind_eq_Inr split: prod.splits) (metis prod.exhaust)
  from scan_flags_length [OF f] scan_width_length [OF w] scan_precision_length [OF p] scan_size_length [OF z]
  show ?thesis by simp
qed

text \<open>
  One round of the loop per call. A percent sign starts a specification unless another follows; an
  unknown conversion character prints the percent sign itself and goes on after it, with the
  arguments its width or precision took gone.
\<close>

function (sequential) doprnt :: "'s putc \<Rightarrow> string \<Rightarrow> va list \<Rightarrow> int \<Rightarrow> 's \<Rightarrow> (int \<times> 's) res" where
  "doprnt putc [] ap n s = Inr (n, s)"
| "doprnt putc (c # fmt) ap n s =
     (if c = CHR ''%'' \<and> peek fmt \<noteq> CHR ''%'' then
        rbind (scan_spec fmt ap) (\<lambda>(sp, fmt', ap').
        case convert sp (peek fmt') ap' of
          None \<Rightarrow> (let (ok, n', s') = put_all putc ''%'' n s in if ok then doprnt putc fmt ap' n' s' else Inr (EOF, s'))
        | Some r \<Rightarrow>
            rbind r (\<lambda>(conv, ap'').
            rbind (field conv) (\<lambda>out.
            let (ok, n', s') = put_all putc out n s in
            if ok then doprnt putc (tl fmt') ap'' n' s' else Inr (EOF, s'))))
      else
        (let fmt1 = (if c = CHR ''%'' then tl fmt else fmt);
             (ok, n', s') = put_all putc [c] n s in
         if ok then doprnt putc fmt1 ap n' s' else Inr (EOF, s')))"
  by pat_completeness auto
termination
  by (relation "measure (\<lambda>(_, fmt, _, _, _). length fmt)") (auto simp: le_imp_less_Suc dest!: scan_spec_length)

declare doprnt.simps(2) [simp del]


section \<open>The digits of a number\<close>

text \<open>The reference: the digits of a number in a base, the least significant first.\<close>

function (sequential) lsd :: "nat \<Rightarrow> nat \<Rightarrow> nat list" where
  "lsd b n = (if b < 2 \<or> n div b = 0 then [n mod b] else n mod b # lsd b (n div b))"
  by pat_completeness auto
termination
  by (relation "measure snd") (auto simp: not_less intro!: div_less_dividend gr0I)

declare lsd.simps [simp del]

lemma lsd_less: "\<lbrakk>0 < b; d \<in> set (lsd b n)\<rbrakk> \<Longrightarrow> d < b"
  by (induction b n rule: lsd.induct) (subst (asm) (2) lsd.simps, auto split: if_splits)

lemma length_lsd:
  assumes "2 \<le> b" and "n < 2 ^ k" and "0 < k"
  shows "length (lsd b n) \<le> k"
  using assms
proof (induction b n arbitrary: k rule: lsd.induct)
  case (1 b n)
  show ?case
  proof (cases "n div b = 0")
    case True
    then show ?thesis using "1.prems" by (subst lsd.simps) simp
  next
    case False
    then obtain j where k: "k = Suc j" "0 < j"
      using "1.prems" by (cases k; cases "k - 1") (auto simp: div_eq_0_iff)
    have "n div b \<le> n div 2" using "1.prems"(1) by (simp add: div_le_mono2)
    also have "\<dots> < 2 ^ j" using "1.prems"(2) k by simp
    finally have "length (lsd b (n div b)) \<le> j" using False "1.prems"(1) k by (intro "1.IH") auto
    then show ?thesis using False "1.prems"(1) k by (subst lsd.simps) simp
  qed
qed

fun horner :: "nat \<Rightarrow> nat list \<Rightarrow> nat" where
  "horner b [] = 0"
| "horner b (d # ds) = d + b * horner b ds"

lemma horner_lsd: "2 \<le> b \<Longrightarrow> horner b (lsd b n) = n"
  by (induction b n rule: lsd.induct) (subst lsd.simps, auto simp: div_eq_0_iff)

lemma put_digit_ok: "\<lbrakk>length temp < 65; d < 16\<rbrakk> \<Longrightarrow> put_digit ds d temp = Inr (temp @ [ds ! d])"
  by (simp add: put_digit_def LONG_BITS_def)

lemma div_loop_lsd:
  assumes "2 \<le> b" and "b \<le> 16" and "length temp + length (lsd b (unat num)) \<le> 65"
  shows "div_loop ds (of_nat b) num temp = Inr (temp @ map ((!) ds) (lsd b (unat num)))"
  using assms
proof (induction "unat num" arbitrary: num temp rule: less_induct)
  case less
  have b: "unat (of_nat b :: u64) = b" "(of_nat b :: u64) \<noteq> 0" using less.prems by (auto simp: unat_of_nat word_unat_eq_iff)
  have m: "unat (num mod of_nat b) = unat num mod b" "unat (num div of_nat b) = unat num div b"
    by (simp_all add: unat_mod unat_div b)
  have z: "num div of_nat b = 0 \<longleftrightarrow> unat num div b = 0" using m(2) by (metis unat_eq_zero)
  have d: "unat num mod b < 16" using less.prems mod_less_divisor [of b "unat num"] by linarith
  have len: "length temp < 65" using less.prems(3) by (subst (asm) lsd.simps) (auto split: if_splits)
  show ?case
  proof (cases "unat num div b = 0")
    case True
    with z b m d len less.prems(1) show ?thesis
      by (subst div_loop.simps, subst lsd.simps) (simp add: put_digit_ok)
  next
    case False
    then have "unat (num div of_nat b) < unat num" using less.prems(1) m(2) by (metis div_eq_0_iff div_less_dividend
        gr_implies_not0 less_le_trans linorder_neqE_nat one_less_numeral_iff semiring_norm(76))
    from less.hyps [OF this less.prems(1,2), of "temp @ [ds ! (unat num mod b)]"] less.prems(3) False less.prems(1) m(2)
    have "div_loop ds (of_nat b) (num div of_nat b) (temp @ [ds ! (unat num mod b)]) =
      Inr (temp @ [ds ! (unat num mod b)] @ map ((!) ds) (lsd b (unat num div b)))"
      by (subst (asm) (1) lsd.simps) simp
    with z b m d len False less.prems(1) show ?thesis
      by (subst div_loop.simps, subst lsd.simps) (simp add: put_digit_ok)
  qed
qed

lemma mask_mod: "unat (num AND (push_bit k 1 - 1) :: u64) = unat num mod 2 ^ k" if "k < 64"
proof -
  have "push_bit k 1 - 1 = (mask k :: u64)" by (simp add: mask_eq_exp_minus_1)
  then have eq: "num AND (push_bit k 1 - 1) = take_bit k num" by (simp add: take_bit_eq_mask)
  show ?thesis unfolding eq unsigned_take_bit_eq by (rule take_bit_eq_mod)
qed

lemma shift_loop_lsd:
  assumes "0 < k" and "k \<le> 4" and "length temp + length (lsd (2 ^ k) (unat num)) \<le> 65"
  shows "shift_loop ds k num temp = Inr (temp @ map ((!) ds) (lsd (2 ^ k) (unat num)))"
  using assms
proof (induction "unat num" arbitrary: num temp rule: less_induct)
  case less
  have b: "2 \<le> (2 :: nat) ^ k" "(2 :: nat) ^ k \<le> 16"
    using less.prems power_increasing [of 1 k "2 :: nat"] power_increasing [of k 4 "2 :: nat"] by simp_all
  have k: "k < 64" using less.prems(2) by simp
  have m: "unat (num AND (push_bit k 1 - 1)) = unat num mod 2 ^ k" by (rule mask_mod [OF k])
  have q: "unat (drop_bit k num) = unat num div 2 ^ k" unfolding unat_drop_bit_eq by (rule drop_bit_eq_div)
  have z: "drop_bit k num = 0 \<longleftrightarrow> unat num div 2 ^ k = 0" using q by (metis unat_eq_zero)
  have d: "unat num mod 2 ^ k < 16" using b mod_less_divisor [of "2 ^ k" "unat num"] by linarith
  have len: "length temp < 65" using less.prems(3) by (subst (asm) lsd.simps) (auto split: if_splits)
  show ?case
  proof (cases "unat num div 2 ^ k = 0")
    case True
    with z m d len show ?thesis
      by (subst shift_loop.simps, subst lsd.simps) (simp add: put_digit_ok del: push_bit_of_1)
  next
    case False
    then have "0 < unat num" by (cases "unat num") auto
    then have "unat (drop_bit k num) < unat num" using b(1) q by (simp add: div_less_dividend)
    from less.hyps [OF this less.prems(1,2), of "temp @ [ds ! (unat num mod 2 ^ k)]"] less.prems(3) False b(1) q
    have "shift_loop ds k (drop_bit k num) (temp @ [ds ! (unat num mod 2 ^ k)]) =
      Inr (temp @ [ds ! (unat num mod 2 ^ k)] @ map ((!) ds) (lsd (2 ^ k) (unat num div 2 ^ k)))"
      by (subst (asm) (1) lsd.simps) simp
    with z m d len False b(1) show ?thesis
      by (subst shift_loop.simps, subst lsd.simps) (simp add: put_digit_ok del: push_bit_of_1)
  qed
qed

definition digit_text :: "bool \<Rightarrow> nat \<Rightarrow> nat \<Rightarrow> string" where
  "digit_text alt b n = map ((!) (if alt then digits_uc else digits_lc)) (rev (lsd b n))"

lemma ulong_to_string_digits:
  assumes "2 \<le> b" and "b \<le> 16"
  shows "ulong_to_string num b alt = Inr (digit_text alt b (unat num) @ [nul])"
proof -
  have "unat num < 2 ^ 64" using unsigned_less [of num] by simp
  then have len: "length (lsd b (unat num)) \<le> 64" using assms(1) by (intro length_lsd) simp_all
  show ?thesis
  proof (cases "base_to_nbits ! b = 0")
    case True
    with assms len div_loop_lsd [of b "[nul]" num] show ?thesis
      by (simp add: ulong_to_string_def Let_def digit_text_def rev_map)
  next
    case False
    have "b = 2 \<or> b = 3 \<or> b = 4 \<or> b = 5 \<or> b = 6 \<or> b = 7 \<or> b = 8 \<or> b = 9 \<or> b = 10 \<or> b = 11 \<or> b = 12 \<or>
        b = 13 \<or> b = 14 \<or> b = 15 \<or> b = 16" using assms by presburger
    then have k: "b = 2 ^ (base_to_nbits ! b)" "base_to_nbits ! b \<le> 4"
      using False by (auto simp: base_to_nbits_def)
    with assms len False shift_loop_lsd [of "base_to_nbits ! b" "[nul]" num] show ?thesis
      by (simp add: ulong_to_string_def Let_def digit_text_def rev_map)
  qed
qed


section \<open>Sinks and the public routines\<close>

text \<open>
  The console sink passes each character to the output handler; its state is what the handler was
  given. The buffer sink writes while the position is below the end; its state is what was written,
  \<open>cap\<close> the distance from the buffer to its end. Both return the character, an unsigned byte.
\<close>

definition prn_to_func :: "string putc" where
  "prn_to_func c out = (of_char c, out @ [c])"

definition prn_to_buf :: "nat \<Rightarrow> string putc" where
  "prn_to_buf cap c buf = (of_char c, if length buf < cap then buf @ [c] else buf)"

definition printf :: "string \<Rightarrow> va list \<Rightarrow> string \<Rightarrow> (int \<times> string) res" where
  "printf fmt args console = doprnt prn_to_func fmt args 0 console"

definition vprintf :: "string \<Rightarrow> va list \<Rightarrow> string \<Rightarrow> (int \<times> string) res" where
  "vprintf fmt args console = doprnt prn_to_func fmt args 0 console"

text \<open>The buffer after the call, with the terminator, and the returned length.\<close>

definition vsprintf :: "nat \<Rightarrow> string \<Rightarrow> va list \<Rightarrow> (int \<times> string) res" where
  "vsprintf buf fmt args =
     rbind (doprnt (prn_to_buf (18446744073709551615 - buf)) fmt args 0 []) (\<lambda>(_, s). Inr (int (length s), s @ [nul]))"

definition vsnprintf :: "nat \<Rightarrow> string \<Rightarrow> va list \<Rightarrow> (int \<times> string) res" where
  "vsnprintf bufSize fmt args =
     (if bufSize = 0 then Inr (0, [])
      else rbind (doprnt (prn_to_buf (bufSize - 1)) fmt args 0 []) (\<lambda>(_, s). Inr (int (length s), s @ [nul])))"

definition sprintf :: "nat \<Rightarrow> string \<Rightarrow> va list \<Rightarrow> (int \<times> string) res" where
  "sprintf buf fmt args =
     rbind (doprnt (prn_to_buf (18446744073709551615 - buf)) fmt args 0 []) (\<lambda>(_, s). Inr (int (length s), s @ [nul]))"

definition snprintf :: "nat \<Rightarrow> string \<Rightarrow> va list \<Rightarrow> (int \<times> string) res" where
  "snprintf bufSize fmt args =
     (if bufSize = 0 then Inr (0, [])
      else rbind (doprnt (prn_to_buf (bufSize - 1)) fmt args 0 []) (\<lambda>(_, s). Inr (int (length s), s @ [nul])))"

definition putchar :: "char \<Rightarrow> string \<Rightarrow> int \<times> string" where
  "putchar c console = (of_char c, console @ [c])"

definition puts :: "string option \<Rightarrow> string \<Rightarrow> int \<times> string" where
  "puts str console = (0, console @ (case str of None \<Rightarrow> ''(null)'' | Some t \<Rightarrow> t) @ [CHR 0x0A])"

section \<open>Sinks that do not fail\<close>

text \<open>
  A sink that never returns \<^verbatim>\<open>EOF\<close> is given exactly the characters the console is given.
\<close>

locale char_sink =
  fixes putc :: "'s putc"
  assumes not_eof: "fst (putc c s) \<noteq> EOF"
begin

definition feed :: "string \<Rightarrow> 's \<Rightarrow> 's" where
  "feed cs s = fold (\<lambda>c s. snd (putc c s)) cs s"

lemma feed_simps [simp]: "feed [] s = s" "feed (c # cs) s = feed cs (snd (putc c s))"
  by (simp_all add: feed_def)

lemma feed_append: "feed (a @ b) s = feed b (feed a s)"
  by (simp add: feed_def)

lemma put_all_feed: "put_all putc cs n s = (True, n + int (length cs), feed cs s)"
proof (induction cs arbitrary: n s)
  case (Cons c cs)
  then show ?case using not_eof [of c s] by (simp add: split_beta Let_def)
qed simp

end

lemma of_char_not_EOF [simp]: "of_char c \<noteq> EOF"
proof -
  have "0 \<le> (of_char c :: int)" by (metis of_char_of of_nat_0_le_iff of_nat_of_char)
  then show ?thesis by linarith
qed

interpretation console: char_sink prn_to_func
  by unfold_locales (simp add: prn_to_func_def)

interpretation buffer: char_sink "prn_to_buf cap" for cap
  by unfold_locales (simp add: prn_to_buf_def)

lemma snd_prn [simp]:
  "snd (prn_to_func c out) = out @ [c]"
  "snd (prn_to_buf cap c buf) = (if length buf < cap then buf @ [c] else buf)"
  by (simp_all add: prn_to_func_def prn_to_buf_def)

lemma console_feed [simp]: "console.feed cs out = out @ cs"
  by (induction cs arbitrary: out) simp_all

lemma buffer_feed [simp]: "length buf \<le> cap \<Longrightarrow> buffer.feed cap cs buf = buf @ take (cap - length buf) cs"
proof (induction cs arbitrary: buf)
  case (Cons c cs)
  show ?case
  proof (cases "length buf < cap")
    case True
    then obtain d where "cap - length buf = Suc d" "cap - Suc (length buf) = d" by (cases "cap - length buf") auto
    with True Cons.IH [of "buf @ [c]"] show ?thesis by simp
  qed (use Cons in simp)
qed simp

text \<open>
  The reference: the text a format stands for, as a function of the format and its arguments alone.
\<close>

function (sequential) render :: "string \<Rightarrow> va list \<Rightarrow> string res" where
  "render [] ap = Inr []"
| "render (c # fmt) ap =
     (if c = CHR ''%'' \<and> peek fmt \<noteq> CHR ''%'' then
        rbind (scan_spec fmt ap) (\<lambda>(sp, fmt', ap').
        case convert sp (peek fmt') ap' of
          None \<Rightarrow> rbind (render fmt ap') (\<lambda>cs. Inr (CHR ''%'' # cs))
        | Some r \<Rightarrow> rbind r (\<lambda>(conv, ap''). rbind (field conv) (\<lambda>out. rbind (render (tl fmt') ap'') (\<lambda>cs. Inr (out @ cs)))))
      else rbind (render (if c = CHR ''%'' then tl fmt else fmt) ap) (\<lambda>cs. Inr (c # cs)))"
  by pat_completeness auto
termination
  by (relation "measure (length \<circ> fst)") (auto simp: le_imp_less_Suc dest!: scan_spec_length)

declare render.simps(2) [simp del]

context char_sink
begin

lemma doprnt_render: "doprnt putc fmt ap n s = rbind (render fmt ap) (\<lambda>cs. Inr (n + int (length cs), feed cs s))"
proof (induction "length fmt" arbitrary: fmt ap n s rule: less_induct)
  case less
  show ?case
  proof (cases fmt)
    case (Cons c fmt1)
    have IH: "doprnt putc f ap n s = rbind (render f ap) (\<lambda>cs. Inr (n + int (length cs), feed cs s))"
      if "length f \<le> length fmt1" for f ap n s using less that Cons by simp
    show ?thesis
    proof (cases "c = CHR ''%'' \<and> peek fmt1 \<noteq> CHR ''%''")
      case spec: True
      show ?thesis
      proof (cases "scan_spec fmt1 ap")
        case (Inl e)
        with spec show ?thesis by (simp add: Cons doprnt.simps(2) render.simps(2))
      next
        case (Inr r)
        then obtain sp fmt' ap' where r: "scan_spec fmt1 ap = Inr (sp, fmt', ap')" by (cases r) auto
        have le: "length (tl fmt') \<le> length fmt1" using scan_spec_length [OF r] by simp
        show ?thesis
          using spec r by (cases "convert sp (peek fmt') ap'")
            (auto simp: Cons doprnt.simps(2) render.simps(2) put_all_feed IH IH [OF le] rbind_def feed_append
              simp del: put_all.simps split: sum.split prod.split)
      qed
    next
      case False
      have "length (if c = CHR ''%'' then tl fmt1 else fmt1) \<le> length fmt1" by simp
      from IH [OF this] False show ?thesis
        by (auto simp: Cons doprnt.simps(2) render.simps(2) put_all_feed rbind_def Let_def simp del: put_all.simps split: sum.split)
    qed
  qed simp
qed

end

lemma printf_render: "printf fmt args out = rbind (render fmt args) (\<lambda>cs. Inr (int (length cs), out @ cs))"
  by (simp add: printf_def console.doprnt_render)

lemma vsnprintf_render:
  "0 < bufSize \<Longrightarrow> snprintf bufSize fmt args =
     rbind (render fmt args) (\<lambda>cs. Inr (int (min (length cs) (bufSize - 1)), take (bufSize - 1) cs @ [nul]))"
  by (auto simp: snprintf_def buffer.doprnt_render rbind_def split: sum.split)


section \<open>Plain conversions\<close>

lemma digits_not_nul: "d < 16 \<Longrightarrow> (if alt then digits_uc else digits_lc) ! d \<noteq> nul"
proof -
  assume "d < 16"
  then have "(if alt then digits_uc else digits_lc) ! d \<in> set (if alt then digits_uc else digits_lc)"
    by (intro nth_mem) (simp add: digits_uc_def digits_lc_def)
  moreover have "nul \<notin> set (if alt then digits_uc else digits_lc)" by (simp add: digits_uc_def digits_lc_def nul_def)
  ultimately show ?thesis by metis
qed

lemma digit_text_not_nul:
  assumes "2 \<le> b" and "b \<le> 16" and "c \<in> set (digit_text alt b n)"
  shows "c \<noteq> nul"
proof -
  from assms(3) obtain d where "d \<in> set (lsd b n)" "c = (if alt then digits_uc else digits_lc) ! d"
    by (auto simp: digit_text_def)
  with assms(1,2) lsd_less [of b d n] digits_not_nul [of d alt] show ?thesis by auto
qed

lemma takeWhile_text: "(\<And>c. c \<in> set s \<Longrightarrow> c \<noteq> nul) \<Longrightarrow> takeWhile (\<lambda>c. c \<noteq> nul) (s @ [nul]) = s"
  by (simp add: takeWhile_append)

lemma layout_plain:
  assumes "\<And>c. c \<in> set s \<Longrightarrow> c \<noteq> nul" and "prec sp < 0" and "fmin sp = 0"
  shows "layout sp True [] sign (s @ [nul]) = sign @ s"
  using assms(2,3) takeWhile_text [OF assms(1)] by (simp add: layout_def Let_def)

lemma field_number:
  assumes "2 \<le> b" and "b \<le> 16" and "prec sp < 0" and "fmin sp = 0" and "hashtype sp = 0"
  shows "field (Number sp b neg w alt) = Inr ((if neg then ''-'' else []) @ digit_text alt b (unat w))"
  using assms digit_text_not_nul [of b _ alt "unat w"]
  by (simp add: field_def ulong_to_string_digits number_prefix_def layout_plain)

lemmas scan_simps = scan_spec_def scan_width_def scan_precision_def scan_size_def peek_def is_digit_def

lemma scan_spec_d:
  "scan_spec ''d'' ap = Inr (default_spec, ''d'', ap)"
  "scan_spec ''ld'' ap = Inr (default_spec\<lparr>int_size := LONG_SIZE\<rparr>, ''d'', ap)"
  by (simp_all add: scan_simps default_spec_def)

text \<open>The text of a signed number, and how it is read back.\<close>

definition dec_text :: "int \<Rightarrow> string" where
  "dec_text x = (if x < 0 then ''-'' else []) @ digit_text False 10 (nat \<bar>x\<bar>)"

definition digit_value :: "char \<Rightarrow> nat" where
  "digit_value c = of_char c - 48"

definition read_nat :: "string \<Rightarrow> nat" where
  "read_nat cs = foldl (\<lambda>a c. a * 10 + digit_value c) 0 cs"

definition read_dec :: "string \<Rightarrow> int" where
  "read_dec cs = (case cs of c # ds \<Rightarrow> if c = CHR ''-'' then - int (read_nat ds) else int (read_nat cs) | [] \<Rightarrow> 0)"

lemma read_nat_snoc: "read_nat (cs @ [c]) = read_nat cs * 10 + digit_value c"
  by (simp add: read_nat_def)

lemma decimal_digit: "d < 10 \<Longrightarrow> digit_value (digits_lc ! d) = d \<and> digits_lc ! d \<noteq> CHR ''-''"
proof -
  assume "d < 10"
  then have "d = 0 \<or> d = 1 \<or> d = 2 \<or> d = 3 \<or> d = 4 \<or> d = 5 \<or> d = 6 \<or> d = 7 \<or> d = 8 \<or> d = 9" by presburger
  then show ?thesis by (auto simp: digit_value_def digits_lc_def)
qed

lemma read_nat_horner: "(\<And>d. d \<in> set ds \<Longrightarrow> d < 10) \<Longrightarrow> read_nat (map ((!) digits_lc) (rev ds)) = horner 10 ds"
proof (induction ds)
  case (Cons d ds)
  then show ?case using decimal_digit [of d] by (simp add: read_nat_snoc)
qed (simp add: read_nat_def)

lemma read_digit_text: "read_nat (digit_text False 10 n) = n"
  using read_nat_horner [of "lsd 10 n"] lsd_less [of 10 _ n] by (simp add: digit_text_def horner_lsd)

lemma digit_text_head: "digit_text False 10 n = c # cs \<Longrightarrow> c \<noteq> CHR ''-''"
proof -
  assume "digit_text False 10 n = c # cs"
  then have "c \<in> set (digit_text False 10 n)" by simp
  then obtain d where "d \<in> set (lsd 10 n)" "c = digits_lc ! d" by (auto simp: digit_text_def)
  then show ?thesis using decimal_digit [of d] lsd_less [of 10 d n] by simp
qed

lemma digit_text_nonempty: "digit_text alt b n \<noteq> []"
  by (subst digit_text_def, subst lsd.simps) simp

lemma read_dec_text: "read_dec (dec_text x) = x"
proof (cases "x < 0")
  case True
  then show ?thesis by (simp add: dec_text_def read_dec_def read_digit_text)
next
  case False
  obtain c cs where "digit_text False 10 (nat \<bar>x\<bar>) = c # cs" using digit_text_nonempty by (metis list.exhaust)
  with False show ?thesis using digit_text_head [of "nat \<bar>x\<bar>" c cs] read_digit_text [of "nat \<bar>x\<bar>"]
    by (simp add: dec_text_def read_dec_def)
qed

lemma uint_of_int_u64: "\<lbrakk>0 \<le> k; k < 18446744073709551616\<rbrakk> \<Longrightarrow> uint (of_int k :: u64) = k"
  unfolding unsigned_of_int by (simp add: take_bit_int_eq_self)

lemma unat_abs_u64:
  fixes w :: u64
  shows "unat (if sint w < 0 then - w else w) = nat \<bar>sint w\<bar>"
proof -
  have b: "- 9223372036854775808 \<le> sint w" "sint w < 9223372036854775808" using sint_ge [of w] sint_less [of w] by simp_all
  have "uint (if sint w < 0 then - w else w) = uint (of_int \<bar>sint w\<bar> :: u64)" by (simp add: abs_if)
  also have "\<dots> = \<bar>sint w\<bar>" using b by (intro uint_of_int_u64) simp_all
  finally show ?thesis by (metis nat_uint_eq)
qed

lemma default_spec_fields [simp]:
  "leftjust default_spec = False" "hashtype default_spec = 0" "pad_char default_spec = CHR '' ''"
  "fmin default_spec = 0" "prec default_spec = -1" "int_size default_spec = REGULAR_SIZE"
  by (simp_all add: default_spec_def)

lemma sint_extend: "sint (of_int (sint w) :: u64) = sint w" for w :: u32
  unfolding signed_of_int using sint_ge [of w] sint_less [of w] by (simp add: signed_take_bit_int_eq_self)

lemma render_signed:
  "render ''%d'' [VInt w] = Inr (dec_text (sint w))"
  "render ''%ld'' [VLong v] = Inr (dec_text (sint v))"
proof -
  have field: "field (if sint x < 0 then Number sp 10 True (- x) False else Number sp 10 False x False) = Inr (dec_text (sint x))"
    if "prec sp < 0" "fmin sp = 0" "hashtype sp = 0" for x sp
    using that unat_abs_u64 [of x] by (cases "sint x < 0") (simp_all add: field_number dec_text_def)
  show "render ''%d'' [VInt w] = Inr (dec_text (sint w))"
    using field [of default_spec "scast w"] sint_extend [of w]
    by (cases "sint w < 0") (simp_all add: render.simps(2) scan_spec_d peek_def convert_def signed_arg_def is_long_def va_int_def)
  show "render ''%ld'' [VLong v] = Inr (dec_text (sint v))"
    using field [of "default_spec\<lparr>int_size := LONG_SIZE\<rparr>" v]
    by (simp add: render.simps(2) scan_spec_d peek_def convert_def signed_arg_def is_long_def va_long_def)
qed


section \<open>Properties\<close>

text \<open>
  C25. Converting a number to text is correct in every base from 2 to 16 and both digit cases: the
  division loop and the shift loop write the digits of the number, the most significant first, then
  the terminator, the digits denote the number, and no index leaves the buffers of 65 characters.
\<close>

theorem number_text_denotes_number:
  assumes "2 \<le> b" and "b \<le> 16"
  shows "\<exists>ds. ulong_to_string num b alt = Inr (map ((!) (if alt then digits_uc else digits_lc)) ds @ [nul]) \<and>
    foldl (\<lambda>a d. a * b + d) 0 ds = unat num \<and> (\<forall>d\<in>set ds. d < b) \<and> length ds \<le> 64"
proof -
  have fold: "foldl (\<lambda>a d. a * b + d) 0 (rev ds) = horner b ds" for ds by (induction ds) simp_all
  have "unat num < 2 ^ 64" using unsigned_less [of num] by simp
  then have "length (lsd b (unat num)) \<le> 64" using assms(1) by (intro length_lsd) simp_all
  then show ?thesis
    using assms ulong_to_string_digits [of b num alt] fold [of "lsd b (unat num)"] lsd_less [of b _ "unat num"]
    by (intro exI [of _ "rev (lsd b (unat num))"]) (auto simp: digit_text_def horner_lsd)
qed

lemma number_text_denotes_number_witness:
  "\<exists>ds. ulong_to_string 255 16 True = Inr (map ((!) digits_uc) ds @ [nul]) \<and> foldl (\<lambda>a d. a * 16 + d) 0 ds = 255"
  using number_text_denotes_number [of 16 255 True] by auto

text \<open>
  C26. The bounded printer writes the text the console printer writes, cut to the buffer: for a
  non-empty buffer it fails exactly when \<open>printf\<close> does, and otherwise the buffer holds the first
  \<^verbatim>\<open>bufSize - 1\<close> characters of that text and a terminator, within its size, and the result counts them.
\<close>

theorem snprintf_truncates_printf:
  assumes "0 < bufSize"
  shows "case printf fmt args [] of
      Inl e \<Rightarrow> snprintf bufSize fmt args = Inl e
    | Inr (n, text) \<Rightarrow> n = int (length text) \<and>
        snprintf bufSize fmt args = Inr (int (min (length text) (bufSize - 1)), take (bufSize - 1) text @ [nul]) \<and>
        length (take (bufSize - 1) text @ [nul]) \<le> bufSize"
  using assms by (cases "render fmt args") (simp_all add: printf_render vsnprintf_render)

lemma snprintf_truncates_printf_witness: "snprintf 4 ''abcdef'' [] = Inr (3, ''abc'' @ [nul])"
proof -
  have "printf ''abcdef'' [] [] = Inr (6, ''abcdef'')" by (simp add: printf_render render.simps(2))
  then show ?thesis using snprintf_truncates_printf [of 4 "''abcdef''" "[]"] by simp
qed

text \<open>
  Signed decimal output can be read back: \<^verbatim>\<open>%d\<close> and \<^verbatim>\<open>%ld\<close> print every 32-bit and 64-bit argument,
  the most negative ones included, as a text that denotes its value, and report its length.
\<close>

lemma signed_decimal_round_trip:
  "(\<exists>text. printf ''%d'' [VInt w] [] = Inr (int (length text), text) \<and> read_dec text = sint w) \<and>
   (\<exists>text. printf ''%ld'' [VLong v] [] = Inr (int (length text), text) \<and> read_dec text = sint v)"
  by (simp add: printf_render render_signed read_dec_text)

text \<open>
  The prefix of an alternate conversion is written before the padding and is not part of the
  field: \<^verbatim>\<open>%#6x\<close> of 255 gives eight characters with the padding inside the number.
\<close>

theorem hex_prefix_is_outside_the_field: "printf ''%#6x'' [VInt 255] [] = Inr (8, ''0x    ff'')"
proof -
  have "lsd 16 255 = [15, 15]" by (subst lsd.simps, subst lsd.simps) simp
  then have u: "ulong_to_string 255 16 False = Inr (''ff'' @ [nul])"
    using ulong_to_string_digits [of 16 255 False] by (simp add: digit_text_def digits_lc_def)
  have s: "scan_spec ''#6x'' ap = Inr (default_spec\<lparr>hashtype := 1, fmin := 6\<rparr>, ''x'', ap)" for ap
    by (simp add: scan_simps default_spec_def)
  have pad: "replicate 4 (CHR '' '') = ''    ''" by (simp add: numeral_eq_Suc)
  have f: "field (Number (default_spec\<lparr>hashtype := 3, fmin := 6\<rparr>) 16 False 255 False) = Inr ''0x    ff''"
    using u pad by (simp add: field_def number_prefix_def layout_def Let_def nul_def default_spec_def)
  have c: "convert (default_spec\<lparr>hashtype := 1, fmin := 6\<rparr>) (CHR ''x'') [VInt 255] =
      Some (Inr (Number (default_spec\<lparr>hashtype := 3, fmin := 6\<rparr>) 16 False 255 False, []))"
    by (simp add: convert_def unsigned_conv_def unsigned_arg_def is_long_def va_int_def hash_to_def default_spec_def)
  show ?thesis by (simp add: printf_render render.simps(2) peek_def s c f del: One_nat_def)
qed

end
