(* ===== verification/Drawing.thy ===== *)
theory Drawing
  imports Memory
begin

text \<open>
  The framebuffer of \<^verbatim>\<open>src/Framebuffer.cpp\<close>: its initialisation and page flip over the property mailbox, and
  the drawing routines over video memory. Coordinates and row offsets are 32-bit words and addresses
  64-bit words, with the wrap-around of the source. The text that the routines pass to the console is
  kept in \<open>fb_log\<close>.
\<close>

section \<open>Colours and state\<close>

record color565 =
  Blue :: "5 word"
  Green :: "6 word"
  Red :: "5 word"

abbreviation Color565 :: "5 word \<Rightarrow> 6 word \<Rightarrow> 5 word \<Rightarrow> color565" where
  "Color565 b g r \<equiv> \<lparr>Blue = b, Green = g, Red = r\<rparr>"

definition color16 :: "color565 \<Rightarrow> u16" where
  "color16 c = ucast (Blue c) OR push_bit 5 (ucast (Green c)) OR push_bit 11 (ucast (Red c))"

definition color64 :: "u16 \<Rightarrow> u64" where
  "color64 c = push_bit 48 (ucast c) OR push_bit 32 (ucast c) OR push_bit 16 (ucast c) OR ucast c"

record framebuffer =
  fb_addr :: u64
  fb_pitch :: u32
  Width :: u32
  Height :: u32
  yOffset :: u32
  mbox :: "u32 list"
  vmem :: memory
  fb_log :: string

definition fb_depth :: u32 where
  "fb_depth = 16"

section \<open>Drawing\<close>

definition row_address :: "framebuffer \<Rightarrow> u32 \<Rightarrow> u64" where
  "row_address s y = fb_addr s + ucast ((y + yOffset s) * fb_pitch s)"

definition WritePixel :: "u32 \<Rightarrow> u32 \<Rightarrow> color565 \<Rightarrow> framebuffer \<Rightarrow> framebuffer" where
  "WritePixel x y color s =
     (if x < Width s \<and> y < Height s
      then s\<lparr>vmem := store16 (unat (row_address s y + ucast (x * 2))) (color16 color) (vmem s)\<rparr>
      else s)"

lemma unat_succ: "x < y \<Longrightarrow> unat (x + 1) = unat x + 1" for x y :: "'a::len word"
proof -
  assume "x < y"
  then have "Suc (unat x) < 2 ^ LENGTH('a)" by (metis Suc_leI le_less_trans unsigned_less word_less_nat_alt)
  then show ?thesis by (simp add: unat_word_ariths)
qed

lemma succ_decreases [termination_simp]: "x < y \<Longrightarrow> unat y - unat (x + 1) < unat y - unat x" for x y :: "'a::len word"
  by (simp add: unat_succ word_less_nat_alt diff_less_mono2)

function head_loop :: "u64 \<Rightarrow> u16 \<Rightarrow> u32 \<Rightarrow> u32 \<Rightarrow> memory \<Rightarrow> u32 \<times> memory" where
  "head_loop span c x x2 m =
     (if x mod 4 \<noteq> 0 \<and> x < x2 then head_loop span c (x + 1) x2 (store16 (unat (span + 2 * ucast x)) c m)
      else (x, m))"
  by pat_completeness auto
termination
  by (relation "measure (\<lambda>(_, _, x, x2, _). unat x2 - unat x)") (auto simp: succ_decreases)

partial_function (option) middle_loop :: "u64 \<Rightarrow> u64 \<Rightarrow> u32 \<Rightarrow> u32 \<Rightarrow> memory \<Rightarrow> (u32 \<times> memory) option" where
  "middle_loop span c x x2 m =
     (if x + 4 \<le> x2 then middle_loop span c (x + 4) x2 (store64 (unat (span + 8 * ucast (x div 4))) c m)
      else Some (x, m))"

function tail_loop :: "u64 \<Rightarrow> u16 \<Rightarrow> u32 \<Rightarrow> u32 \<Rightarrow> memory \<Rightarrow> memory" where
  "tail_loop span c x x2 m =
     (if x < x2 then tail_loop span c (x + 1) x2 (store16 (unat (span + 2 * ucast x)) c m) else m)"
  by pat_completeness auto
termination
  by (relation "measure (\<lambda>(_, _, x, x2, _). unat x2 - unat x)") (auto simp: succ_decreases)

definition WriteSpan :: "u32 \<Rightarrow> u32 \<Rightarrow> u32 \<Rightarrow> color565 \<Rightarrow> framebuffer \<Rightarrow> framebuffer option" where
  "WriteSpan x y w color s =
     (if x + w \<le> Width s \<and> y < Height s then
        let c = color16 color; span = row_address s y; x2 = x + w; (x', m1) = head_loop span c x x2 (vmem s) in
        Option.bind (middle_loop span (color64 c) x' x2 m1) (\<lambda>(x'', m2).
        Some (s\<lparr>vmem := tail_loop span c x'' x2 m2\<rparr>))
      else Some s)"

function rectangle_loop ::
  "u32 \<Rightarrow> u32 \<Rightarrow> u32 \<Rightarrow> u32 \<Rightarrow> color565 \<Rightarrow> u32 \<Rightarrow> framebuffer \<Rightarrow> framebuffer option" where
  "rectangle_loop x y w h color i s =
     (if i < h then Option.bind (WriteSpan x (y + i) w color s) (rectangle_loop x y w h color (i + 1)) else Some s)"
  by pat_completeness auto
termination
  by (relation "measure (\<lambda>(_, _, _, h, _, i, _). unat h - unat i)") (auto simp: succ_decreases)

definition WriteRectangle :: "u32 \<Rightarrow> u32 \<Rightarrow> u32 \<Rightarrow> u32 \<Rightarrow> color565 \<Rightarrow> framebuffer \<Rightarrow> framebuffer option" where
  "WriteRectangle x y w h color s =
     (if x + w \<le> Width s \<and> y + h \<le> Height s then rectangle_loop x y w h color 0 s else Some s)"

declare head_loop.simps [simp del] tail_loop.simps [simp del] rectangle_loop.simps [simp del]

section \<open>Spans as runs of pixels\<close>

definition pixels :: "u64 \<Rightarrow> u16 \<Rightarrow> nat list \<Rightarrow> memory \<Rightarrow> memory" where
  "pixels span c xs = fold (\<lambda>x. store16 (unat (span + 2 * of_nat x)) c) xs"

lemma pixels_append: "pixels span c (xs @ ys) m = pixels span c ys (pixels span c xs m)"
  by (simp add: pixels_def)

lemma pixels_Nil [simp]: "pixels span c [] m = m"
  by (simp add: pixels_def)

lemma pixels_Cons: "pixels span c (x # xs) m = pixels span c xs (store16 (unat (span + 2 * of_nat x)) c m)"
  by (simp add: pixels_def)

lemma pixels_range: "\<lbrakk>a \<le> b; b \<le> d\<rbrakk> \<Longrightarrow> pixels span c [b..<d] (pixels span c [a..<b] m) = pixels span c [a..<d] m"
  using upt_add_eq_append [of a b "d - b"] by (simp add: pixels_append [symmetric])

lemma head_loop_pixels:
  assumes "x \<le> x2"
  shows "\<exists>x'. head_loop span c x x2 m = (x', pixels span c [unat x..<unat x'] m) \<and> x \<le> x' \<and> x' \<le> x2 \<and> (x' = x2 \<or> x' mod 4 = 0)"
  using assms
proof (induction span c x x2 m rule: head_loop.induct)
  case (1 span c x x2 m)
  show ?case
  proof (cases "x mod 4 \<noteq> 0 \<and> x < x2")
    case True
    then have u: "unat (x + 1) = unat x + 1" by (intro unat_succ [of x x2]) simp
    with True have le: "x + 1 \<le> x2" and "x \<le> x + 1" by (simp_all add: word_le_nat_alt word_less_nat_alt)
    then obtain x' where
      x': "head_loop span c (x + 1) x2 (store16 (unat (span + 2 * ucast x)) c m) =
        (x', pixels span c [unat x + 1..<unat x'] (store16 (unat (span + 2 * ucast x)) c m))"
        "x + 1 \<le> x'" "x' \<le> x2" "x' = x2 \<or> x' mod 4 = 0" using "1.IH" [OF True le] unfolding u by (elim exE conjE) (rule that)
    have "[unat x..<unat x'] = unat x # [unat x + 1..<unat x']" using x'(2) u by (simp add: word_le_nat_alt upt_conv_Cons)
    moreover have "x \<le> x'" using \<open>x \<le> x + 1\<close> x'(2) by (rule order_trans)
    ultimately show ?thesis using x' True by (subst head_loop.simps) (simp add: pixels_Cons)
  next
    case False
    then have "head_loop span c x x2 m = (x, m)" by (subst head_loop.simps) (simp only: if_False)
    moreover have "x = x2 \<or> x mod 4 = 0" using False "1.prems" by (metis order_le_less)
    ultimately show ?thesis using "1.prems" by (intro exI [of _ x] conjI) simp_all
  qed
qed

lemma tail_loop_pixels: "x \<le> x2 \<Longrightarrow> tail_loop span c x x2 m = pixels span c [unat x..<unat x2] m"
proof (induction span c x x2 m rule: tail_loop.induct)
  case (1 span c x x2 m)
  show ?case
  proof (cases "x < x2")
    case True
    then have u: "unat (x + 1) = unat x + 1" by (intro unat_succ [of x x2]) simp
    with True have "x + 1 \<le> x2" by (simp add: word_le_nat_alt word_less_nat_alt)
    moreover have "[unat x..<unat x2] = unat x # [unat x + 1..<unat x2]" using True by (simp add: word_less_nat_alt upt_conv_Cons)
    ultimately show ?thesis using "1.IH" [OF True] True u by (subst tail_loop.simps) (simp add: pixels_Cons)
  next
    case False
    with "1.prems" have "x = x2" by simp
    then show ?thesis by (subst tail_loop.simps) simp
  qed
qed

lemma color64_byte:
  assumes "k < 8"
  shows "ucast (drop_bit (8 * k) (color64 c)) = (ucast (drop_bit (8 * (k mod 2)) c) :: u8)"
proof (rule bit_word_eqI)
  fix j
  assume "j < LENGTH(8)"
  then have j: "j < 8" by simp
  have c: "bit (ucast c :: u64) i \<longleftrightarrow> bit c i" for i
    using bit_imp_le_length [of c i] by (auto simp: bit_simps)
  have z: "\<not> bit c i" if "16 \<le> i" for i using that bit_imp_le_length [of c i] by auto
  have "k = 0 \<or> k = 1 \<or> k = 2 \<or> k = 3 \<or> k = 4 \<or> k = 5 \<or> k = 6 \<or> k = 7" using assms by auto
  then show "bit (ucast (drop_bit (8 * k) (color64 c)) :: u8) j = bit (ucast (drop_bit (8 * (k mod 2)) c) :: u8) j"
    using j by (elim disjE) (auto simp: bit_ucast_u64_u8 color64_def c z bit_simps)
qed

lemma store64_color64:
  "store64 a (color64 c) m = store16 (a + 6) c (store16 (a + 4) c (store16 (a + 2) c (store16 a c m)))"
proof
  fix x
  consider "x < a \<or> a + 8 \<le> x" | k where "k < 8" "x = a + k" by (metis add.commute le_Suc_ex linorder_not_less nat_add_left_cancel_less)
  then show "store64 a (color64 c) m x = store16 (a + 6) c (store16 (a + 4) c (store16 (a + 2) c (store16 a c m))) x"
  proof cases
    case 1
    then show ?thesis by (auto simp: store64_def store16_def)
  next
    case 2
    then have "k = 0 \<or> k = 1 \<or> k = 2 \<or> k = 3 \<or> k = 4 \<or> k = 5 \<or> k = 6 \<or> k = 7" by auto
    with 2 show ?thesis using color64_byte [of k c] by (elim disjE) (simp_all add: store64_def store16_def)
  qed
qed

lemma unat_of_nat_u64: "n < 2 ^ LENGTH(64) \<Longrightarrow> unat (of_nat n :: u64) = n"
  by (simp add: unsigned_of_nat take_bit_nat_eq_self)

lemma store64_is_four_pixels:
  fixes span :: u64
  assumes "n mod 4 = 0" and "unat span + 2 * (n + 4) \<le> 2 ^ 64"
  shows "store64 (unat (span + 8 * of_nat (n div 4))) (color64 c) m = pixels span c [n..<n + 4] m"
proof -
  have four: "[n..<n + 4] = [n, n + 1, n + 2, n + 3]" by (simp add: upt_rec numeral_eq_Suc)
  have at: "unat (span + 2 * of_nat (n + i)) = unat span + 2 * (n + i)" if "i < 4" for i
  proof -
    have "span + 2 * of_nat (n + i) = of_nat (unat span + 2 * (n + i))" by simp
    moreover have "unat span + 2 * (n + i) < 2 ^ LENGTH(64)" using assms(2) that by simp
    ultimately show ?thesis using unat_of_nat_u64 by metis
  qed
  have at1: "unat (span + 2 * of_nat (n + 1)) = unat span + 2 * (n + 1)" by (rule at) simp
  have at2: "unat (span + 2 * of_nat (n + 2)) = unat span + 2 * (n + 2)" by (rule at) simp
  have at3: "unat (span + 2 * of_nat (n + 3)) = unat span + 2 * (n + 3)" by (rule at) simp
  have "8 * of_nat (n div 4) = (2 * of_nat n :: u64)"
  proof -
    have "n = 4 * (n div 4)" using assms(1) by auto
    then have "of_nat n = (4 * of_nat (n div 4) :: u64)" by (metis of_nat_mult of_nat_numeral)
    then show ?thesis by simp
  qed
  then have "unat (span + 8 * of_nat (n div 4)) = unat span + 2 * n" using at [of 0] by simp
  moreover have "unat (span + 2 * of_nat n) = unat span + 2 * n" using at [of 0] by simp
  moreover have "unat (span + 2 * of_nat (n + 1)) = unat span + 2 * n + 2" unfolding at1 by simp
  moreover have "unat (span + 2 * of_nat (n + 2)) = unat span + 2 * n + 4" unfolding at2 by simp
  moreover have "unat (span + 2 * of_nat (n + 3)) = unat span + 2 * n + 6" unfolding at3 by simp
  ultimately show ?thesis by (simp only: four pixels_Cons pixels_Nil store64_color64)
qed

lemma middle_loop_pixels:
  assumes "x \<le> x2" and "x = x2 \<or> x mod 4 = 0" and "unat x2 + 4 < 2 ^ 32" and "unat span + 2 * unat x2 \<le> 2 ^ 64"
  shows "\<exists>x'. middle_loop span (color64 c) x x2 m = Some (x', pixels span c [unat x..<unat x'] m) \<and> x \<le> x' \<and> x' \<le> x2"
  using assms
proof (induction "unat x2 - unat x" arbitrary: x m rule: less_induct)
  case less
  have xle: "unat x \<le> unat x2" using less.prems(1) by (simp add: word_le_nat_alt)
  then have u: "unat (x + 4) = unat x + 4" using less.prems(3) by (simp add: unat_word_ariths)
  show ?case
  proof (cases "x + 4 \<le> x2")
    case True
    then have le4: "unat x + 4 \<le> unat x2" by (simp add: word_le_nat_alt u)
    then have "x mod 4 = 0" using less.prems(2) by auto
    then have "unat (x mod 4) = 0" by simp
    then have m4: "unat x mod 4 = 0" by (simp add: unat_mod)
    then have "unat (x + 4) mod 4 = 0" unfolding u by simp
    then have "unat ((x + 4) mod 4) = 0" by (simp add: unat_mod)
    then have xm: "(x + 4) mod 4 = 0" by (simp only: unat_eq_zero)
    let ?m = "store64 (unat (span + 8 * ucast (x div 4))) (color64 c) m"
    have "unat (x div 4) = unat x div 4" by (simp add: unat_div)
    then have "ucast (x div 4) = (of_nat (unat x div 4) :: u64)" using of_nat_unat [of "x div 4", where ?'a = "64 word"] by (simp only:)
    then have m: "?m = pixels span c [unat x..<unat x + 4] m"
      using store64_is_four_pixels [OF m4, of span c m] less.prems(4) le4 by simp
    have dec: "unat x2 - unat (x + 4) < unat x2 - unat x" unfolding u using le4 by linarith
    obtain x' where x': "middle_loop span (color64 c) (x + 4) x2 ?m = Some (x', pixels span c [unat (x + 4)..<unat x'] ?m)"
      "x + 4 \<le> x'" "x' \<le> x2"
      using less.hyps [OF dec True disjI2 [OF xm] less.prems(3,4), of ?m] by (elim exE conjE) (rule that)
    have "unat x + 4 \<le> unat x'" using x'(2) by (simp add: word_le_nat_alt u)
    then have "pixels span c [unat (x + 4)..<unat x'] ?m = pixels span c [unat x..<unat x'] m" "x \<le> x'"
      unfolding m u by (simp_all add: pixels_range word_le_nat_alt)
    with x' True show ?thesis by (subst middle_loop.simps) auto
  next
    case False
    with less.prems(1) show ?thesis by (subst middle_loop.simps) auto
  qed
qed

section \<open>Drawing in range\<close>

text \<open>
  The geometry under which no coordinate and no address wraps: at most half of the 32-bit range of
  columns, and a buffer that ends below the top of the address space.
\<close>

definition fb_geometry :: "framebuffer \<Rightarrow> bool" where
  "fb_geometry s \<longleftrightarrow> unat (Width s) < 2 ^ 31 \<and> unat (fb_addr s) + 2 ^ 32 + 2 * unat (Width s) \<le> 2 ^ 64"

definition draw_pixels :: "u32 list \<Rightarrow> u32 \<Rightarrow> color565 \<Rightarrow> framebuffer \<Rightarrow> framebuffer" where
  "draw_pixels xs y color = fold (\<lambda>x. WritePixel x y color) xs"

definition draw_rows :: "u32 list \<Rightarrow> u32 list \<Rightarrow> color565 \<Rightarrow> framebuffer \<Rightarrow> framebuffer" where
  "draw_rows xs ys color = fold (\<lambda>y. draw_pixels xs y color) ys"

definition columns :: "u32 \<Rightarrow> u32 \<Rightarrow> u32 list" where
  "columns x w = map (\<lambda>i. x + of_nat i) [0..<unat w]"

lemma WritePixel_frame [simp]:
  "Width (WritePixel x y color s) = Width s" "Height (WritePixel x y color s) = Height s"
  "fb_addr (WritePixel x y color s) = fb_addr s" "fb_pitch (WritePixel x y color s) = fb_pitch s"
  "yOffset (WritePixel x y color s) = yOffset s"
  by (simp_all add: WritePixel_def)

lemma unat_add_in_range:
  fixes x w v :: u32
  assumes "unat x + unat w < 2 ^ 32"
  shows "unat (x + w) = unat x + unat w"
  using assms by (simp add: unat_word_ariths)

lemma unat_of_nat_u32: "n < 2 ^ LENGTH(32) \<Longrightarrow> unat (of_nat n :: u32) = n"
  by (simp add: unsigned_of_nat take_bit_nat_eq_self)

lemma draw_pixels_range:
  assumes "y < Height s" and "unat (Width s) < 2 ^ 31" and "b \<le> unat (Width s)"
  shows "draw_pixels (map of_nat [a..<b]) y color s = s\<lparr>vmem := pixels (row_address s y) (color16 color) [a..<b] (vmem s)\<rparr>"
  using assms
proof (induction "b - a" arbitrary: a s)
  case (Suc n)
  then have ab: "a < b" by simp
  then have "unat (of_nat a :: u32) = a" using Suc.prems by (intro unat_of_nat_u32) simp
  moreover have "unat (of_nat a * 2 :: u32) = 2 * a"
    using ab Suc.prems unat_of_nat_u32 [of "2 * a"] by (simp add: mult.commute)
  ultimately have "WritePixel (of_nat a) y color s = s\<lparr>vmem := store16 (unat (row_address s y + 2 * of_nat a)) (color16 color) (vmem s)\<rparr>"
    using ab Suc.prems of_nat_unat [of "of_nat a * 2 :: u32", where ?'a = "64 word"] by (simp add: WritePixel_def word_less_nat_alt)
  then have "draw_pixels (map of_nat (a # [Suc a..<b])) y color s =
      draw_pixels (map of_nat [Suc a..<b]) y color (s\<lparr>vmem := store16 (unat (row_address s y + 2 * of_nat a)) (color16 color) (vmem s)\<rparr>)"
    by (simp add: draw_pixels_def)
  also have "\<dots> = s\<lparr>vmem := pixels (row_address s y) (color16 color) (a # [Suc a..<b]) (vmem s)\<rparr>"
    using Suc.hyps(2) Suc.prems by (subst Suc.hyps(1)) (simp_all add: row_address_def pixels_Cons)
  finally show ?case using ab by (simp add: upt_conv_Cons)
qed (simp add: draw_pixels_def)

lemma row_address_bound:
  assumes "fb_geometry s"
  shows "unat (row_address s y) + 2 * unat (Width s) \<le> 2 ^ 64"
proof -
  let ?o = "ucast ((y + yOffset s) * fb_pitch s) :: u64"
  have "unat ?o < 2 ^ LENGTH(32)" unfolding unat_ucast_u64 by (rule unsigned_less)
  with assms show ?thesis by (simp add: fb_geometry_def row_address_def unat_word_ariths)
qed

lemma columns_range:
  assumes "unat x + unat w < 2 ^ 32"
  shows "columns x w = map of_nat [unat x..<unat x + unat w]"
  by (rule nth_equalityI) (simp_all add: columns_def)

lemma columns_Suc: "i < w \<Longrightarrow> map (\<lambda>k. y + of_nat k) [unat i..<unat w] = (y + i) # map (\<lambda>k. y + of_nat k) [unat (i + 1)..<unat w]"
  by (simp add: upt_conv_Cons word_less_nat_alt unat_succ [of i w])

lemma draw_pixels_frame:
  "Width (draw_pixels xs y color s) = Width s \<and> Height (draw_pixels xs y color s) = Height s \<and> fb_addr (draw_pixels xs y color s) = fb_addr s"
  by (induction xs arbitrary: s) (simp_all add: draw_pixels_def)

lemma draw_pixels_clipped: "\<not> y < Height s \<Longrightarrow> draw_pixels xs y color s = s"
  by (induction xs) (simp_all add: draw_pixels_def WritePixel_def)

lemma WriteSpan_pixels:
  assumes geo: "fb_geometry s" and xw: "unat x + unat w \<le> unat (Width s)"
  shows "WriteSpan x y w color s = Some (draw_pixels (columns x w) y color s)"
proof (cases "y < Height s")
  case True
  let ?c = "color16 color" and ?p = "row_address s y"
  have wid: "unat (Width s) < 2 ^ 31" using geo by (simp add: fb_geometry_def)
  then have u: "unat (x + w) = unat x + unat w" using xw by (intro unat_add_in_range) simp
  have le: "x \<le> x + w" "x + w \<le> Width s" using xw u by (simp_all add: word_le_nat_alt)
  obtain x1 where x1: "head_loop ?p ?c x (x + w) (vmem s) = (x1, pixels ?p ?c [unat x..<unat x1] (vmem s))"
    "x \<le> x1" "x1 \<le> x + w" "x1 = x + w \<or> x1 mod 4 = 0" 
    using head_loop_pixels [OF le(1), of ?p ?c "vmem s"] by (elim exE conjE) (rule that)
  let ?m1 = "pixels ?p ?c [unat x..<unat x1] (vmem s)"
  have b: "unat (x + w) + 4 < 2 ^ 32" "unat ?p + 2 * unat (x + w) \<le> 2 ^ 64"
    using row_address_bound [OF geo, of y] xw wid by (simp_all add: u)
  obtain x2 where x2: "middle_loop ?p (color64 ?c) x1 (x + w) ?m1 = Some (x2, pixels ?p ?c [unat x1..<unat x2] ?m1)"
    "x1 \<le> x2" "x2 \<le> x + w" 
    using middle_loop_pixels [OF x1(3,4) b, of ?c ?m1] by (elim exE conjE) (rule that)
  have "pixels ?p ?c [unat x2..<unat (x + w)] (pixels ?p ?c [unat x1..<unat x2] ?m1) = pixels ?p ?c [unat x..<unat (x + w)] (vmem s)"
    using x1(2) x2(2,3) by (simp add: pixels_range word_le_nat_alt)
  then have "WriteSpan x y w color s = Some (s\<lparr>vmem := pixels ?p ?c [unat x..<unat (x + w)] (vmem s)\<rparr>)"
    using True le(2) x1(1) x2(1) tail_loop_pixels [OF x2(3)] by (simp add: WriteSpan_def Let_def)
  then show ?thesis using draw_pixels_range [OF True wid, of "unat x + unat w"] xw columns_range [of x w] wid u by simp
next
  case False
  then show ?thesis by (simp add: WriteSpan_def draw_pixels_clipped)
qed

lemma rectangle_loop_rows:
  assumes "fb_geometry s" and "unat x + unat w \<le> unat (Width s)" and "i \<le> h"
  shows "rectangle_loop x y w h color i s = Some (draw_rows (columns x w) (map (\<lambda>k. y + of_nat k) [unat i..<unat h]) color s)"
  using assms
proof (induction "unat h - unat i" arbitrary: i s rule: less_induct)
  case less
  show ?case
  proof (cases "i < h")
    case True
    let ?s = "draw_pixels (columns x w) (y + i) color s"
    have "i + 1 \<le> h" using True by (simp add: word_le_nat_alt word_less_nat_alt unat_succ [of i h])
    moreover have "fb_geometry ?s" "unat x + unat w \<le> unat (Width ?s)" using less.prems by (simp_all add: fb_geometry_def draw_pixels_frame)
    ultimately have "rectangle_loop x y w h color (i + 1) ?s =
        Some (draw_rows (columns x w) (map (\<lambda>k. y + of_nat k) [unat (i + 1)..<unat h]) color ?s)"
      using less.hyps [of "i + 1"] succ_decreases [OF True] by blast
    then show ?thesis unfolding columns_Suc [OF True]
      using True by (subst rectangle_loop.simps) (simp add: WriteSpan_pixels [OF less.prems(1,2)] draw_rows_def)
  next
    case False
    with less.prems(3) have "i = h" by simp
    then show ?thesis by (subst rectangle_loop.simps) (simp add: draw_rows_def)
  qed
qed

section \<open>Properties\<close>

text \<open>
  C33. Drawing by words is drawing by pixels: when the rectangle lies inside the screen, \<^verbatim>\<open>WriteRectangle\<close> ends
  and changes memory exactly as one \<^verbatim>\<open>WritePixel\<close> for every pixel of the rectangle, row by row.
\<close>

theorem rectangle_is_pixelwise:
  assumes "fb_geometry s" and "unat x + unat w \<le> unat (Width s)" and "unat y + unat h \<le> unat (Height s)"
  shows "WriteRectangle x y w h color s = Some (draw_rows (columns x w) (columns y h) color s)"
proof -
  have lt: "unat (Width s) < 2 ^ LENGTH(32)" "unat (Height s) < 2 ^ LENGTH(32)" by (rule unsigned_less)+
  have "unat (x + w) = unat x + unat w" using lt(1) assms(2) by (intro unat_add_in_range) simp
  moreover have "unat (y + h) = unat y + unat h" using lt(2) assms(3) by (intro unat_add_in_range) simp
  ultimately show ?thesis
    using assms rectangle_loop_rows [OF assms(1,2), of 0 h y color] by (simp add: WriteRectangle_def word_le_nat_alt columns_def)
qed

definition example_screen :: framebuffer where
  "example_screen = \<lparr>fb_addr = 0x3C000000, fb_pitch = 32, Width = 16, Height = 4, yOffset = 0, mbox = [], vmem = (\<lambda>_. 0), fb_log = []\<rparr>"

lemma rectangle_is_pixelwise_witness:
  "WriteRectangle 3 1 7 2 (Color565 0x1F 0 0) example_screen =
     Some (draw_rows (columns 3 7) (columns 1 2) (Color565 0x1F 0 0) example_screen)"
  by (rule rectangle_is_pixelwise) (simp_all add: example_screen_def fb_geometry_def)

text \<open>
  The bounds test of \<^verbatim>\<open>WriteSpan\<close> adds in 32 bits, so a span that starts just below the end of the 32-bit
  range passes it, and its first word is written 8 GB past the row.
\<close>

lemma wrapped_span_writes_out_of_bounds:
  assumes "y < Height s" and "4 \<le> Width s"
  shows "\<exists>s'. WriteSpan 0xFFFFFFFC y 8 color s = Some s' \<and>
    vmem s' = store64 (unat (row_address s y)) (color64 (color16 color))
      (store64 (unat (row_address s y + 0x1FFFFFFF8)) (color64 (color16 color)) (vmem s))"
proof -
  let ?c = "color64 (color16 color)" and ?p = "row_address s y"
  have "head_loop ?p (color16 color) 0xFFFFFFFC 4 (vmem s) = (0xFFFFFFFC, vmem s)" by (subst head_loop.simps) simp
  moreover have "middle_loop ?p ?c 0xFFFFFFFC 4 m = Some (4, store64 (unat ?p) ?c (store64 (unat (?p + 0x1FFFFFFF8)) ?c m))" for m
    by (subst middle_loop.simps, subst middle_loop.simps, subst middle_loop.simps) simp
  moreover have "tail_loop ?p (color16 color) 4 4 m = m" for m by (subst tail_loop.simps) simp
  moreover have "(0xFFFFFFFC :: u32) + 8 = 4" by simp
  ultimately show ?thesis using assms unfolding WriteSpan_def by (simp only: Let_def if_True simp_thms prod.case bind.bind_lunit) simp
qed

end
