(* ===== verification/Uart.thy ===== *)
theory Uart
  imports Stdio
begin

text \<open>
  The serial console of \<^verbatim>\<open>src/Uart.cpp\<close>. The device's flag and data registers are functions from the
  number of the read to the value read; a routine that polls may wait forever and is then \<open>None\<close>. The
  number printers are functions to the characters they send, in order. The locked stream guards the
  device with a mutex and with interrupts disabled.
\<close>

section \<open>The device\<close>

record uart =
  FR :: "nat \<Rightarrow> u32"
  fr_reads :: nat
  DR_in :: "nat \<Rightarrow> u32"
  dr_reads :: nat
  sent :: string

definition read_FR :: "uart \<Rightarrow> u32 \<times> uart" where
  "read_FR u = (FR u (fr_reads u), u\<lparr>fr_reads := fr_reads u + 1\<rparr>)"

definition read_DR :: "uart \<Rightarrow> u32 \<times> uart" where
  "read_DR u = (DR_in u (dr_reads u), u\<lparr>dr_reads := dr_reads u + 1\<rparr>)"

text \<open>Reads the flags until the bit is clear.\<close>

partial_function (option) wait_clear :: "nat \<Rightarrow> uart \<Rightarrow> uart option" where
  "wait_clear b u = (let (fr, u') = read_FR u in if bit fr b then wait_clear b u' else Some u')"

definition Raw_Putc :: "char \<Rightarrow> uart \<Rightarrow> uart option" where
  "Raw_Putc c u = Option.bind (wait_clear 5 u) (\<lambda>u'. Some (u'\<lparr>sent := sent u' @ [c]\<rparr>))"

definition byte_to_char :: "u32 \<Rightarrow> char" where
  "byte_to_char w = char_of (unat (w AND 0xFF))"

definition Raw_Getc :: "uart \<Rightarrow> (char \<times> uart) option" where
  "Raw_Getc u = Option.bind (wait_clear 4 u) (\<lambda>u1. let (dr, u2) = read_DR u1 in Some (byte_to_char dr, u2))"

definition Raw_TryGetc :: "uart \<Rightarrow> char \<times> uart" where
  "Raw_TryGetc u =
     (let (fr, u1) = read_FR u in
      if bit fr 4 then (nul, u1) else let (dr, u2) = read_DR u1 in (byte_to_char dr, u2))"

text \<open>\<^verbatim>\<open>Puts\<close>, and every printer: the characters one after the other.\<close>

fun Raw_Puts :: "string \<Rightarrow> uart \<Rightarrow> uart option" where
  "Raw_Puts [] u = Some u"
| "Raw_Puts (c # cs) u = Option.bind (Raw_Putc c u) (Raw_Puts cs)"

section \<open>Number printers\<close>

definition quote :: char where
  "quote = CHR 0x27"

text \<open>The loops run \<open>i\<close> from the top of the value down: by nibbles with \<open>i = 4 * k\<close>, by bits with \<open>i = k\<close>.\<close>

fun hex_loop :: "nat \<Rightarrow> u64 \<Rightarrow> string" where
  "hex_loop 0 v = []"
| "hex_loop (Suc k) v =
     digits_uc ! unat (drop_bit (4 * k) v AND 0xF) # (if 4 * k > 0 \<and> (4 * k) mod 16 = 0 then [quote] else []) @ hex_loop k v"

definition PutHex_text :: "nat \<Rightarrow> u64 \<Rightarrow> string" where
  "PutHex_text sizeof_value v = ''0x'' @ hex_loop (sizeof_value * 2) v"

fun bin_loop :: "nat \<Rightarrow> u64 \<Rightarrow> string" where
  "bin_loop 0 v = []"
| "bin_loop (Suc i) v =
     char_of (48 + unat (drop_bit i v AND 1)) # (if i > 0 \<and> i mod 4 = 0 then [quote] else []) @ bin_loop i v"

definition PutBin_text :: "nat \<Rightarrow> u64 \<Rightarrow> string" where
  "PutBin_text sizeof_value v = ''0b'' @ bin_loop (sizeof_value * 8) v"

text \<open>The decimal digits go into a buffer of 20 characters first.\<close>

function (sequential) dec_loop :: "u64 \<Rightarrow> string \<Rightarrow> string res" where
  "dec_loop v buf =
     (if v = 0 then Inr buf
      else if length buf < 20 then dec_loop (v div 10) (buf @ [char_of (48 + unat (v mod 10))])
      else Inl (Undefined ''buffer[index++]''))"
  by pat_completeness auto
termination by (relation "measure (\<lambda>(_, buf). 20 - length buf)") auto

declare dec_loop.simps [simp del]

fun print_reversed :: "nat \<Rightarrow> string \<Rightarrow> string" where
  "print_reversed 0 buf = []"
| "print_reversed (Suc i) buf = buf ! i # (if i > 0 \<and> i mod 3 = 0 then [quote] else []) @ print_reversed i buf"

definition PutDec_text :: "u64 \<Rightarrow> string res" where
  "PutDec_text v =
     (if v = 0 then Inr ''0'' else rbind (dec_loop v []) (\<lambda>buf. Inr (print_reversed (length buf) buf)))"

section \<open>The locked stream\<close>

record console =
  useMutex :: bool
  mutex_held :: bool
  interrupts_on :: bool
  device :: uart

record locked_stream =
  locked :: bool
  wasEnabled :: bool

text \<open>\<open>None\<close>: the lock is held and the constructor waits for it forever, with interrupts disabled.\<close>

definition LockedStream :: "bool \<Rightarrow> console \<Rightarrow> (locked_stream \<times> console) option" where
  "LockedStream tryOnly c =
     (if useMutex c then
        (let was = interrupts_on c; c1 = c\<lparr>interrupts_on := False\<rparr> in
         if tryOnly then
           (if mutex_held c1 then Some (\<lparr>locked = False, wasEnabled = was\<rparr>, c1\<lparr>interrupts_on := was\<rparr>)
            else Some (\<lparr>locked = True, wasEnabled = was\<rparr>, c1\<lparr>mutex_held := True\<rparr>))
         else if mutex_held c1 then None
         else Some (\<lparr>locked = True, wasEnabled = was\<rparr>, c1\<lparr>mutex_held := True\<rparr>))
      else Some (\<lparr>locked = False, wasEnabled = False\<rparr>, c))"

definition release :: "locked_stream \<Rightarrow> console \<Rightarrow> console" where
  "release s c =
     (if locked s \<and> useMutex c then c\<lparr>mutex_held := False, interrupts_on := wasEnabled s\<rparr> else c)"

definition Unlock :: "locked_stream \<Rightarrow> console \<Rightarrow> locked_stream \<times> console" where
  "Unlock s c = (s\<lparr>locked := False\<rparr>, release s c)"

definition stream_Puts :: "locked_stream \<Rightarrow> string \<Rightarrow> console \<Rightarrow> console option" where
  "stream_Puts s cs c =
     (if locked s then Option.bind (Raw_Puts cs (device c)) (\<lambda>u. Some (c\<lparr>device := u\<rparr>)) else Some c)"

definition stream_TryGetc :: "locked_stream \<Rightarrow> console \<Rightarrow> char \<times> console" where
  "stream_TryGetc s c =
     (if \<not> locked s then (nul, c) else let (ch, u) = Raw_TryGetc (device c) in (ch, c\<lparr>device := u\<rparr>))"

definition stream_Getc :: "locked_stream \<Rightarrow> console \<Rightarrow> (char \<times> console) option" where
  "stream_Getc s c =
     (if \<not> locked s then Some (nul, c)
      else Option.bind (Raw_Getc (device c)) (\<lambda>(ch, u). Some (ch, c\<lparr>device := u\<rparr>)))"

text \<open>The routines of the namespace build a stream, use it and destroy it.\<close>

definition Uart_Puts :: "string \<Rightarrow> console \<Rightarrow> console option" where
  "Uart_Puts cs c =
     Option.bind (LockedStream False c) (\<lambda>(s, c1). Option.bind (stream_Puts s cs c1) (\<lambda>c2. Some (release s c2)))"

definition Uart_Putc :: "char \<Rightarrow> console \<Rightarrow> console option" where
  "Uart_Putc ch c = Uart_Puts [ch] c"

definition Uart_PutHex :: "nat \<Rightarrow> u64 \<Rightarrow> console \<Rightarrow> console option" where
  "Uart_PutHex sizeof_value v c = Uart_Puts (PutHex_text sizeof_value v) c"

definition Uart_PutBin :: "nat \<Rightarrow> u64 \<Rightarrow> console \<Rightarrow> console option" where
  "Uart_PutBin sizeof_value v c = Uart_Puts (PutBin_text sizeof_value v) c"

definition Uart_PutDec :: "u64 \<Rightarrow> console \<Rightarrow> console option res" where
  "Uart_PutDec v c = rbind (PutDec_text v) (\<lambda>cs. Inr (Uart_Puts cs c))"

definition Uart_TryGetc :: "console \<Rightarrow> (char \<times> console) option" where
  "Uart_TryGetc c =
     Option.bind (LockedStream False c) (\<lambda>(s, c1). let (ch, c2) = stream_TryGetc s c1 in Some (ch, release s c2))"

definition Uart_Getc :: "console \<Rightarrow> (char \<times> console) option" where
  "Uart_Getc c =
     Option.bind (LockedStream False c) (\<lambda>(s, c1). Option.bind (stream_Getc s c1) (\<lambda>(ch, c2). Some (ch, release s c2)))"

section \<open>Sending text\<close>

definition tx_ready :: "uart \<Rightarrow> bool" where
  "tx_ready u \<longleftrightarrow> (\<forall>n. \<exists>m\<ge>n. \<not> bit (FR u m) 5)"

lemma wait_clear_at:
  assumes "\<And>i. \<lbrakk>fr_reads u \<le> i; i < n\<rbrakk> \<Longrightarrow> bit (FR u i) b" and "\<not> bit (FR u n) b" and "fr_reads u \<le> n"
  shows "wait_clear b u = Some (u\<lparr>fr_reads := n + 1\<rparr>)"
  using assms
proof (induction "n - fr_reads u" arbitrary: u)
  case 0
  then show ?case by (subst wait_clear.simps) (simp add: read_FR_def)
next
  case (Suc d)
  have "wait_clear b (u\<lparr>fr_reads := fr_reads u + 1\<rparr>) = Some (u\<lparr>fr_reads := fr_reads u + 1\<rparr>\<lparr>fr_reads := n + 1\<rparr>)"
    using Suc by (intro Suc.hyps(1)) auto
  moreover have "bit (FR u (fr_reads u)) b" using Suc by (intro Suc.prems(1)) auto
  ultimately show ?case by (subst wait_clear.simps) (simp add: read_FR_def)
qed

lemma wait_clear_ready:
  assumes "\<forall>n. \<exists>m\<ge>n. \<not> bit (FR u m) b"
  shows "\<exists>n. wait_clear b u = Some (u\<lparr>fr_reads := n\<rparr>)"
proof -
  define n where "n = (LEAST m. fr_reads u \<le> m \<and> \<not> bit (FR u m) b)"
  have ex: "\<exists>m. fr_reads u \<le> m \<and> \<not> bit (FR u m) b" using assms by auto
  then have n: "fr_reads u \<le> n" "\<not> bit (FR u n) b" unfolding n_def by (metis (mono_tags, lifting) LeastI_ex)+
  have "bit (FR u i) b" if "fr_reads u \<le> i" "i < n" for i
    using not_less_Least [of i "\<lambda>m. fr_reads u \<le> m \<and> \<not> bit (FR u m) b"] that unfolding n_def by blast
  with n have "wait_clear b u = Some (u\<lparr>fr_reads := n + 1\<rparr>)" by (intro wait_clear_at)
  then show ?thesis by blast
qed

lemma Raw_Putc_ready:
  assumes "tx_ready u"
  shows "\<exists>n. Raw_Putc c u = Some (u\<lparr>fr_reads := n, sent := sent u @ [c]\<rparr>)"
  using wait_clear_ready [of u 5] assms by (auto simp: Raw_Putc_def tx_ready_def)

lemma Raw_Puts_ready:
  "tx_ready u \<Longrightarrow> \<exists>n. Raw_Puts cs u = Some (u\<lparr>fr_reads := n, sent := sent u @ cs\<rparr>)"
proof (induction cs arbitrary: u)
  case Nil
  then show ?case by (intro exI [of _ "fr_reads u"]) simp
next
  case (Cons c cs)
  from Raw_Putc_ready [OF Cons.prems] obtain n where n: "Raw_Putc c u = Some (u\<lparr>fr_reads := n, sent := sent u @ [c]\<rparr>)" by blast
  have "tx_ready (u\<lparr>fr_reads := n, sent := sent u @ [c]\<rparr>)" using Cons.prems by (simp add: tx_ready_def)
  from Cons.IH [OF this] n show ?case by auto
qed

section \<open>The text of numbers\<close>

lemma and_take_bit: "unat (drop_bit j v AND mask n :: u64) = unat v div 2 ^ j mod 2 ^ n"
proof -
  have eq: "drop_bit j v AND mask n = take_bit n (drop_bit j v)" by (simp add: take_bit_eq_mask)
  have "unat (drop_bit j v AND mask n) = take_bit n (drop_bit j (unat v))"
    unfolding eq unsigned_take_bit_eq unat_drop_bit_eq ..
  then show ?thesis by (simp only: take_bit_eq_mod drop_bit_eq_div)
qed

lemma nibble: "unat (drop_bit (4 * k) v AND 0xF) = unat (v :: u64) div 16 ^ k mod 16"
  using and_take_bit [of "4 * k" v 4] by (simp add: mask_eq_exp_minus_1 power_mult)

lemma bit_at: "unat (drop_bit k v AND 1) = unat (v :: u64) div 2 ^ k mod 2"
  using and_take_bit [of k v 1] by (simp add: mask_eq_exp_minus_1)

lemma digits_uc_not_quote: "d < 16 \<Longrightarrow> digits_uc ! d \<noteq> quote"
  using nth_mem [of d digits_uc] by (auto simp: digits_uc_def quote_def)

definition base_digits :: "nat \<Rightarrow> nat \<Rightarrow> nat \<Rightarrow> nat list" where
  "base_digits b k n = map (\<lambda>i. n div b ^ i mod b) (rev [0..<k])"

lemma foldl_base_digits:
  "0 < b \<Longrightarrow> foldl (\<lambda>a d. a * b + d) a (base_digits b k n) = a * b ^ k + n mod b ^ k"
proof (induction k arbitrary: a)
  case (Suc k)
  have "n mod b ^ Suc k = b ^ k * (n div b ^ k mod b) + n mod b ^ k"
    by (metis mod_mult2_eq power_Suc2 mult.commute)
  with Suc show ?case by (simp add: base_digits_def algebra_simps)
qed (simp add: base_digits_def)

lemma base_digits_less: "\<lbrakk>0 < b; d \<in> set (base_digits b k n)\<rbrakk> \<Longrightarrow> d < b"
  by (auto simp: base_digits_def)

lemma hex_loop_digits: "filter (\<lambda>c. c \<noteq> quote) (hex_loop k v) = map ((!) digits_uc) (base_digits 16 k (unat v))"
proof (induction k)
  case (Suc k)
  then show ?case using digits_uc_not_quote [of "unat v div 16 ^ k mod 16"] by (simp add: nibble base_digits_def)
qed (simp add: base_digits_def)

lemma digit_char_not_quote: "d < 10 \<Longrightarrow> char_of (48 + d) \<noteq> quote" for d :: nat
proof
  assume "d < 10" and "char_of (48 + d) = quote"
  then have "of_char (char_of (48 + d)) = (of_char quote :: nat)" by simp
  with \<open>d < 10\<close> show False by (simp add: quote_def)
qed

lemma bin_loop_digits: "filter (\<lambda>c. c \<noteq> quote) (bin_loop k v) = map (\<lambda>d. char_of (48 + d)) (base_digits 2 k (unat v))"
proof (induction k)
  case (Suc k)
  have "unat v div 2 ^ k mod 2 < 10" using mod_less_divisor [of 2 "unat v div 2 ^ k"] by linarith
  with Suc show ?case using digit_char_not_quote by (simp add: bit_at base_digits_def)
qed (simp add: base_digits_def)

lemma length_lsd_base:
  assumes "2 \<le> b" and "n < b ^ k" and "0 < k"
  shows "length (lsd b n) \<le> k"
  using assms
proof (induction b n arbitrary: k rule: lsd.induct)
  case (1 b n)
  show ?case
  proof (cases "n div b = 0")
    case True
    then show ?thesis using "1.prems" by (subst lsd.simps) simp
  next
    case False
    then obtain j where k: "k = Suc j" "0 < j"
      using "1.prems" by (cases k; cases "k - 1") (auto simp: div_eq_0_iff)
    have "n div b < b ^ j" using "1.prems" k by (simp add: less_mult_imp_div_less mult.commute)
    then have "length (lsd b (n div b)) \<le> j" using False "1.prems"(1) k by (intro "1.IH") auto
    then show ?thesis using False "1.prems"(1) k by (subst lsd.simps) simp
  qed
qed

lemma dec_loop_digits:
  assumes "v \<noteq> 0" and "length buf + length (lsd 10 (unat v)) \<le> 20"
  shows "dec_loop v buf = Inr (buf @ map (\<lambda>d. char_of (48 + d)) (lsd 10 (unat v)))"
  using assms
proof (induction "unat v" arbitrary: v buf rule: less_induct)
  case less
  have m: "unat (v mod 10) = unat v mod 10" "unat (v div 10) = unat v div 10" by (simp_all add: unat_mod unat_div)
  have z: "v div 10 = 0 \<longleftrightarrow> unat v div 10 = 0" using m(2) by (metis unat_eq_zero)
  have len: "length buf < 20" using less.prems(2) by (subst (asm) lsd.simps) (auto split: if_splits)
  show ?case
  proof (cases "unat v div 10 = 0")
    case True
    with z len less.prems(1) m show ?thesis
      by (subst dec_loop.simps, subst lsd.simps) (simp add: dec_loop.simps)
  next
    case False
    then have "unat (v div 10) < unat v" unfolding m(2) by (intro div_less_dividend) (auto intro: gr0I)
    from less.hyps [OF this, of "buf @ [char_of (48 + unat v mod 10)]"] less.prems(2) False z m(2)
    have "dec_loop (v div 10) (buf @ [char_of (48 + unat v mod 10)]) =
      Inr (buf @ char_of (48 + unat v mod 10) # map (\<lambda>d. char_of (48 + d)) (lsd 10 (unat v div 10)))"
      by (subst (asm) (1) lsd.simps) simp
    with len less.prems(1) m False show ?thesis by (subst dec_loop.simps, subst lsd.simps) simp
  qed
qed

lemma print_reversed_digits:
  "\<lbrakk>quote \<notin> set buf; n \<le> length buf\<rbrakk> \<Longrightarrow> filter (\<lambda>c. c \<noteq> quote) (print_reversed n buf) = rev (take n buf)"
proof (induction n)
  case (Suc n)
  then have "buf ! n \<noteq> quote" by (metis Suc_le_lessD nth_mem)
  with Suc show ?case by (simp add: take_Suc_conv_app_nth)
qed simp

lemma PutDec_text_digits:
  "\<exists>text. PutDec_text v = Inr text \<and> filter (\<lambda>c. c \<noteq> quote) text = map (\<lambda>d. char_of (48 + d)) (rev (lsd 10 (unat v)))"
proof (cases "v = 0")
  case True
  have "lsd 10 0 = [0]" by (subst lsd.simps) simp
  moreover have "char_of (48 :: nat) = CHR ''0''" by (simp add: char_of_eq_iff)
  ultimately show ?thesis using True by (simp add: PutDec_text_def quote_def)
next
  case False
  let ?buf = "map (\<lambda>d. char_of (48 + d)) (lsd 10 (unat v))"
  have "unat v < 2 ^ LENGTH(64)" by (rule unsigned_less)
  then have "unat v < 10 ^ 20" by simp
  then have len: "length (lsd 10 (unat v)) \<le> 20" by (intro length_lsd_base) simp_all
  have "quote \<notin> set ?buf" using digit_char_not_quote lsd_less [of 10 _ "unat v"] by force
  with False len dec_loop_digits [of v "[]"] print_reversed_digits [of ?buf "length ?buf"] show ?thesis
    by (simp add: PutDec_text_def rev_map)
qed

section \<open>Properties\<close>

text \<open>
  The number printers are exact: without the digit separators, the hexadecimal and binary
  printers send their prefix and all digits of the value's width, and the decimal printer sends the
  digits without leading zeroes and stays inside its buffer of 20 characters for every 64-bit value.
\<close>

theorem printed_digits_denote_the_value:
  "(\<exists>ds. filter (\<lambda>c. c \<noteq> quote) (PutHex_text sz v) = ''0x'' @ map ((!) digits_uc) ds \<and> length ds = 2 * sz \<and>
     foldl (\<lambda>a d. a * 16 + d) 0 ds = unat v mod 16 ^ (2 * sz)) \<and>
   (\<exists>ds. filter (\<lambda>c. c \<noteq> quote) (PutBin_text sz v) = ''0b'' @ map (\<lambda>d. char_of (48 + d)) ds \<and> length ds = 8 * sz \<and>
     foldl (\<lambda>a d. a * 2 + d) 0 ds = unat v mod 2 ^ (8 * sz)) \<and>
   (\<exists>text. PutDec_text v = Inr text \<and> filter (\<lambda>c. c \<noteq> quote) text = map (\<lambda>d. char_of (48 + d)) (rev (lsd 10 (unat v))))"
proof (intro conjI)
  show "\<exists>ds. filter (\<lambda>c. c \<noteq> quote) (PutHex_text sz v) = ''0x'' @ map ((!) digits_uc) ds \<and> length ds = 2 * sz \<and>
     foldl (\<lambda>a d. a * 16 + d) 0 ds = unat v mod 16 ^ (2 * sz)"
    by (rule exI [of _ "base_digits 16 (2 * sz) (unat v)"])
      (simp add: PutHex_text_def hex_loop_digits foldl_base_digits mult.commute quote_def [symmetric], simp add: base_digits_def quote_def)
  show "\<exists>ds. filter (\<lambda>c. c \<noteq> quote) (PutBin_text sz v) = ''0b'' @ map (\<lambda>d. char_of (48 + d)) ds \<and> length ds = 8 * sz \<and>
     foldl (\<lambda>a d. a * 2 + d) 0 ds = unat v mod 2 ^ (8 * sz)"
    by (rule exI [of _ "base_digits 2 (8 * sz) (unat v)"])
      (simp add: PutBin_text_def bin_loop_digits foldl_base_digits mult.commute, simp add: base_digits_def quote_def)
qed (rule PutDec_text_digits)

text \<open>
  A string put on the console is sent exactly once, in order, when the device keeps accepting
  characters: with the mutex in use and free, the stream sends the whole string and gives back the
  mutex and the interrupt state it found. While the mutex is not in use nothing is sent at all.
\<close>

theorem console_puts_sends_and_restores:
  assumes "tx_ready (device c)" and "\<not> mutex_held c"
  shows "\<exists>c'. Uart_Puts cs c = Some c' \<and> sent (device c') = sent (device c) @ (if useMutex c then cs else []) \<and>
    mutex_held c' = mutex_held c \<and> interrupts_on c' = interrupts_on c \<and> useMutex c' = useMutex c"
proof (cases "useMutex c")
  case True
  from Raw_Puts_ready [OF assms(1), of cs] obtain n where
    "Raw_Puts cs (device c) = Some ((device c)\<lparr>fr_reads := n, sent := sent (device c) @ cs\<rparr>)" by blast
  with True assms(2) show ?thesis
    by (simp add: Uart_Puts_def LockedStream_def stream_Puts_def release_def Let_def)
qed (simp add: Uart_Puts_def LockedStream_def stream_Puts_def release_def assms)

lemma console_puts_sends_and_restores_witness:
  "\<exists>c'. Uart_Puts ''ok'' \<lparr>useMutex = True, mutex_held = False, interrupts_on = True,
     device = \<lparr>FR = \<lambda>_. 0, fr_reads = 0, DR_in = \<lambda>_. 0, dr_reads = 0, sent = []\<rparr>\<rparr> = Some c' \<and> sent (device c') = ''ok'' \<and>
     \<not> mutex_held c' \<and> interrupts_on c'"
  using console_puts_sends_and_restores [of "\<lparr>useMutex = True, mutex_held = False, interrupts_on = True,
     device = \<lparr>FR = \<lambda>_. 0, fr_reads = 0, DR_in = \<lambda>_. 0, dr_reads = 0, sent = []\<rparr>\<rparr>" "''ok''"]
  by (auto simp: tx_ready_def)

end
