(* ===== verification/Mailbox.thy ===== *)
theory Mailbox
  imports Prelude
begin

text \<open>
  The property mailbox of \<^verbatim>\<open>src/Mailbox.cpp\<close> and \<^verbatim>\<open>src/Mailbox.h\<close>: the register protocol of \<open>Send\<close>, and the
  message buffer to which typed tags are added and from which their answers are read. The registers
  are functions from the number of the read to the value read. What the firmware does to a buffer is
  an argument. A poll that never ends is \<open>None\<close>.
\<close>

section \<open>The registers\<close>

record mbox_hw =
  RSTATUS :: "nat \<Rightarrow> u32"
  READ :: "nat \<Rightarrow> u32"
  WSTATUS :: "nat \<Rightarrow> u32"
  rs_reads :: nat
  rd_reads :: nat
  ws_reads :: nat
  written :: "u32 list"

definition MAILBOX_FULL :: "u32 \<Rightarrow> bool" where
  "MAILBOX_FULL s = bit s 31"

definition MAILBOX_EMPTY :: "u32 \<Rightarrow> bool" where
  "MAILBOX_EMPTY s = bit s 30"

text \<open>Stale answers are read until the mailbox is empty.\<close>

partial_function (option) drain :: "mbox_hw \<Rightarrow> mbox_hw option" where
  "drain hw =
     (if \<not> MAILBOX_EMPTY (RSTATUS hw (rs_reads hw)) then drain (hw\<lparr>rs_reads := rs_reads hw + 1, rd_reads := rd_reads hw + 1\<rparr>)
      else Some (hw\<lparr>rs_reads := rs_reads hw + 1\<rparr>))"

partial_function (option) wait_not_full :: "mbox_hw \<Rightarrow> mbox_hw option" where
  "wait_not_full hw =
     (if MAILBOX_FULL (WSTATUS hw (ws_reads hw)) then wait_not_full (hw\<lparr>ws_reads := ws_reads hw + 1\<rparr>) else Some (hw\<lparr>ws_reads := ws_reads hw + 1\<rparr>))"

partial_function (option) wait_answer :: "mbox_hw \<Rightarrow> mbox_hw option" where
  "wait_answer hw =
     (if MAILBOX_EMPTY (RSTATUS hw (rs_reads hw)) then wait_answer (hw\<lparr>rs_reads := rs_reads hw + 1\<rparr>) else Some (hw\<lparr>rs_reads := rs_reads hw + 1\<rparr>))"

partial_function (option) receive :: "u8 \<Rightarrow> u32 \<Rightarrow> mbox_hw \<Rightarrow> mbox_hw res option" where
  "receive ch data hw =
     Option.bind (wait_answer hw) (\<lambda>hw1.
     let r = READ hw1 (rd_reads hw1); hw2 = hw1\<lparr>rd_reads := rd_reads hw1 + 1\<rparr> in
     if r AND 0xF = ucast ch then
       (if r AND 0xFFFFFFF0 \<noteq> data then Some (Inl (Panic ''Mailbox call failed.'')) else Some (Inr hw2))
     else receive ch data hw2)"

definition Send :: "u8 \<Rightarrow> u32 \<Rightarrow> mbox_hw \<Rightarrow> mbox_hw res option" where
  "Send ch data hw =
     (if data AND 0xF \<noteq> 0 then Some (Inl (Panic ''Halt''))
      else
        let r = (data AND 0xFFFFFFF0) OR ucast (ch AND 0xF) in
        Option.bind (drain hw) (\<lambda>hw1.
        Option.bind (wait_not_full hw1) (\<lambda>hw2.
        receive ch data (hw2\<lparr>written := written hw2 @ [r]\<rparr>))))"

definition Send_pointer :: "u64 \<Rightarrow> u8 \<Rightarrow> u64 \<Rightarrow> mbox_hw \<Rightarrow> mbox_hw res option" where
  "Send_pointer GpuMemBase ch data hw =
     (if data < GpuMemBase \<or> GpuMemBase + 0x40000000 \<le> data then Some (Inl (Panic ''Halt''))
      else Send ch (ucast data) hw)"

text \<open>
  \<^verbatim>\<open>SendTags\<close> on a span: \<open>data\<close> are its words, \<open>addr\<close> its address, \<open>firmware\<close> the words after the answer.
\<close>

definition SendTags_span ::
  "(u32 list \<Rightarrow> u32 list) \<Rightarrow> u64 \<Rightarrow> u64 \<Rightarrow> u32 list \<Rightarrow> mbox_hw \<Rightarrow> (bool \<times> u32 list \<times> mbox_hw) res option" where
  "SendTags_span firmware GpuMemBase addr data hw =
     (if length data \<le> 2 then Some (Inl (Panic ''Halt''))
      else
        let data1 = data[0 := of_nat (length data * 4), 1 := 0] in
        Option.bind (Send_pointer GpuMemBase 8 addr hw) (\<lambda>r.
          Some (rbind r (\<lambda>hw'. let data2 = firmware data1 in Inr (data2 ! 1 = 0x80000000, data2, hw')))))"

section \<open>Messages\<close>

record tag_message =
  tag :: u32
  args :: "u32 list"

record mailbox_message =
  Buffer :: "u32 list"
  Size :: nat
  ReadPos :: nat

definition BufferSize :: nat where
  "BufferSize = 256"

definition new_message :: "u32 list \<Rightarrow> mailbox_message" where
  "new_message garbage = \<lparr>Buffer = garbage[1 := 0], Size = 2, ReadPos = 2\<rparr>"

definition put_word :: "u32 \<Rightarrow> mailbox_message \<Rightarrow> mailbox_message res" where
  "put_word w m =
     (if Size m < BufferSize then Inr (m\<lparr>Buffer := (Buffer m)[Size m := w], Size := Size m + 1\<rparr>)
      else Inl (Undefined ''Buffer[Size++]''))"

fun put_words :: "u32 list \<Rightarrow> mailbox_message \<Rightarrow> mailbox_message res" where
  "put_words [] m = Inr m"
| "put_words (w # xs) m = rbind (put_word w m) (put_words xs)"

definition tag_words :: "tag_message \<Rightarrow> u32 list" where
  "tag_words t = tag t # of_nat (length (args t) * 4) # of_nat (length (args t) * 4) # args t"

definition AddTag :: "tag_message \<Rightarrow> mailbox_message \<Rightarrow> mailbox_message res" where
  "AddTag t m =
     (if BufferSize < Size m + length (args t) + 3 then Inl (Panic ''Mailbox buffer overflow'')
      else put_words (tag_words t) m)"

definition SendMessage ::
  "(u32 list \<Rightarrow> u32 list) \<Rightarrow> u64 \<Rightarrow> u64 \<Rightarrow> mailbox_message \<Rightarrow> mbox_hw \<Rightarrow> (bool \<times> mailbox_message \<times> mbox_hw) res option" where
  "SendMessage firmware GpuMemBase addr m hw =
     (if Size m \<le> 2 then Some (Inl (Panic ''Mailbox message is empty''))
      else case put_word 0 m of
        Inl e \<Rightarrow> Some (Inl e)
      | Inr m1 \<Rightarrow>
          let m2 = m1\<lparr>Buffer := (Buffer m1)[0 := of_nat (Size m1 * 4)]\<rparr> in
          Option.bind (SendTags_span firmware GpuMemBase addr (take (Size m2) (Buffer m2)) hw) (\<lambda>r.
            Some (rbind r (\<lambda>(ok, data, hw'). Inr (ok, m2\<lparr>Buffer := data @ drop (Size m2) (Buffer m2)\<rparr>, hw')))))"

definition ReadTag :: "tag_message \<Rightarrow> mailbox_message \<Rightarrow> (tag_message \<times> mailbox_message) res" where
  "ReadTag t m =
     (if Size m < ReadPos m + length (args t) + 3 then Inl (Panic ''Mailbox buffer overflow'')
      else let p = ReadPos m + 3; n = length (args t) in
        Inr (t\<lparr>args := take n (drop p (Buffer m))\<rparr>, m\<lparr>ReadPos := p + n\<rparr>))"

fun AddTags :: "tag_message list \<Rightarrow> mailbox_message \<Rightarrow> mailbox_message res" where
  "AddTags [] m = Inr m"
| "AddTags (t # ts) m = rbind (AddTag t m) (AddTags ts)"

fun ReadTags :: "tag_message list \<Rightarrow> mailbox_message \<Rightarrow> (tag_message list \<times> mailbox_message) res" where
  "ReadTags [] m = Inr ([], m)"
| "ReadTags (t # ts) m = rbind (ReadTag t m) (\<lambda>(t', m1). rbind (ReadTags ts m1) (\<lambda>(ts', m2). Inr (t' # ts', m2)))"

text \<open>The variadic \<^verbatim>\<open>SendTags\<close>: the message lives on the stack at \<open>addr\<close>, with arbitrary words in it.\<close>

definition SendTags ::
  "(u32 list \<Rightarrow> u32 list) \<Rightarrow> u64 \<Rightarrow> u64 \<Rightarrow> u32 list \<Rightarrow> tag_message list \<Rightarrow> mbox_hw \<Rightarrow> (bool \<times> tag_message list \<times> mbox_hw) res option" where
  "SendTags firmware GpuMemBase addr garbage ts hw =
     (case AddTags ts (new_message garbage) of
        Inl e \<Rightarrow> Some (Inl e)
      | Inr m \<Rightarrow>
          Option.bind (SendMessage firmware GpuMemBase addr m hw) (\<lambda>r.
            Some (rbind r (\<lambda>(ok, m1, hw').
              if \<not> ok then Inr (False, ts, hw')
              else rbind (ReadTags ts m1) (\<lambda>(ts', _). Inr (True, ts', hw'))))))"

section \<open>Writing and reading a message\<close>

definition all_words :: "tag_message list \<Rightarrow> u32 list" where
  "all_words ts = concat (map tag_words ts)"

lemma length_tag_words [simp]: "length (tag_words t) = length (args t) + 3"
  by (simp add: tag_words_def)

lemma put_words_ok:
  assumes "Size m + length xs \<le> 256" and "length (Buffer m) = 256"
  shows "put_words xs m = Inr (m\<lparr>Buffer := take (Size m) (Buffer m) @ xs @ drop (Size m + length xs) (Buffer m), Size := Size m + length xs\<rparr>)"
  using assms
proof (induction xs arbitrary: m)
  case (Cons x xs)
  let ?m = "m\<lparr>Buffer := (Buffer m)[Size m := x], Size := Size m + 1\<rparr>"
  have lt: "Size m < length (Buffer m)" using Cons.prems by simp
  have "put_words xs ?m = Inr (?m\<lparr>Buffer := take (Size ?m) (Buffer ?m) @ xs @ drop (Size ?m + length xs) (Buffer ?m), Size := Size ?m + length xs\<rparr>)"
    using Cons.prems by (intro Cons.IH) simp_all
  moreover have "take (Suc (Size m)) ((Buffer m)[Size m := x]) = take (Size m) (Buffer m) @ [x]"
    using lt by (simp add: take_Suc_conv_app_nth)
  ultimately show ?case using lt Cons.prems by (simp add: put_word_def BufferSize_def)
qed simp

lemma AddTag_ok:
  assumes "Size m + length (tag_words t) \<le> 256" and "length (Buffer m) = 256"
  shows "AddTag t m = Inr (m\<lparr>Buffer := take (Size m) (Buffer m) @ tag_words t @ drop (Size m + length (tag_words t)) (Buffer m),
    Size := Size m + length (tag_words t)\<rparr>)"
  using assms put_words_ok [of m "tag_words t"] by (simp add: AddTag_def BufferSize_def)

lemma AddTags_ok:
  assumes "Size m + length (all_words ts) \<le> 256" and "length (Buffer m) = 256"
  shows "AddTags ts m = Inr (m\<lparr>Buffer := take (Size m) (Buffer m) @ all_words ts @ drop (Size m + length (all_words ts)) (Buffer m),
    Size := Size m + length (all_words ts)\<rparr>)"
  using assms
proof (induction ts arbitrary: m)
  case (Cons t ts)
  have "Size m + length (tag_words t) \<le> 256" using Cons.prems(1) by (simp add: all_words_def)
  note AddTag_ok [OF this Cons.prems(2)]
  then show ?case using Cons.prems Cons.IH by (simp add: all_words_def ac_simps del: length_tag_words)
qed (simp add: all_words_def)

definition same_shape :: "tag_message list \<Rightarrow> tag_message list \<Rightarrow> bool" where
  "same_shape ts ts' \<longleftrightarrow> list_all2 (\<lambda>t t'. tag t' = tag t \<and> length (args t') = length (args t)) ts ts'"

lemma ReadTags_ok:
  assumes "same_shape ts ts'" and "drop (ReadPos m) (Buffer m) = all_words ts' @ rest" and "ReadPos m + length (all_words ts') \<le> Size m"
  shows "\<exists>m'. ReadTags ts m = Inr (ts', m')"
  using assms unfolding same_shape_def
proof (induction ts ts' arbitrary: m rule: list_all2_induct)
  case (Cons t ts t' ts')
  let ?n = "length (args t)"
  have words: "drop (ReadPos m) (Buffer m) = tag_words t' @ all_words ts' @ rest" using Cons.prems(1) by (simp add: all_words_def)
  have d3: "drop (ReadPos m + 3) (Buffer m) = args t' @ all_words ts' @ rest"
  proof -
    have "drop (ReadPos m + 3) (Buffer m) = drop 3 (drop (ReadPos m) (Buffer m))" by (simp add: add.commute)
    also have "\<dots> = args t' @ all_words ts' @ rest" unfolding words by (simp add: tag_words_def)
    finally show ?thesis .
  qed
  have n: "?n = length (args t')" using Cons.hyps(1) by simp
  have args: "take ?n (drop (ReadPos m + 3) (Buffer m)) = args t'" unfolding d3 n by simp
  have "drop (ReadPos m + 3 + ?n) (Buffer m) = drop ?n (drop (ReadPos m + 3) (Buffer m))" by (simp add: ac_simps)
  then have rest: "drop (ReadPos m + 3 + ?n) (Buffer m) = all_words ts' @ rest" unfolding d3 n by simp
  have size: "ReadPos m + ?n + 3 \<le> Size m" "ReadPos m + 3 + ?n + length (all_words ts') \<le> Size m"
    using Cons.prems(2) Cons.hyps(1) by (simp_all add: all_words_def)
  have "t\<lparr>args := args t'\<rparr> = t'" using Cons.hyps(1) by simp
  moreover have "\<exists>m'. ReadTags ts (m\<lparr>ReadPos := ReadPos m + 3 + ?n\<rparr>) = Inr (ts', m')"
    using rest size(2) by (intro Cons.IH) simp_all
  ultimately show ?case using args size(1) by (auto simp: ReadTag_def Let_def)
qed simp


lemma two_or_more: "2 < length xs \<Longrightarrow> \<exists>x y zs. xs = x # y # zs"
  by (cases xs; cases "tl xs") auto

lemma SendMessage_ok:
  assumes "2 < Size m" and "Size m < 256" and "length (Buffer m) = 256"
    and "Send_pointer GpuMemBase 8 addr hw = Some (Inr hw')"
    and "firmware (of_nat ((Size m + 1) * 4) # 0 # drop 2 (take (Size m) (Buffer m)) @ [0]) = answer" and "length answer = Size m + 1"
  shows "\<exists>m'. SendMessage firmware GpuMemBase addr m hw = Some (Inr (answer ! 1 = 0x80000000, m', hw')) \<and>
    take (Size m + 1) (Buffer m') = answer \<and> Size m' = Size m + 1 \<and> ReadPos m' = ReadPos m"
proof -
  let ?B = "(Buffer m)[Size m := 0, 0 := of_nat ((Size m + 1) * 4)]"
  have "take (Size m + 1) ?B = (take (Size m) (Buffer m) @ [0])[0 := of_nat ((Size m + 1) * 4)]"
    using assms(2,3) by (simp add: take_update_swap take_Suc_conv_app_nth list_update_append)
  moreover obtain x y zs where "take (Size m) (Buffer m) = x # y # zs"
    using two_or_more [of "take (Size m) (Buffer m)"] assms(1-3) by auto
  ultimately have data: "(take (Size m + 1) ?B)[0 := of_nat ((Size m + 1) * 4), 1 := 0] =
      of_nat ((Size m + 1) * 4) # 0 # drop 2 (take (Size m) (Buffer m)) @ [0]" by simp
  have "length (take (Size m + 1) ?B) = Size m + 1" using assms(2,3) by simp
  with assms data show ?thesis
    by (simp add: SendMessage_def put_word_def BufferSize_def Let_def SendTags_span_def)
qed


section \<open>Properties\<close>


definition example_hw :: mbox_hw where
  "example_hw = \<lparr>RSTATUS = \<lambda>i. if i = 0 then 0x40000000 else 0, READ = \<lambda>_. 0xC0000108, WSTATUS = \<lambda>_. 0,
     rs_reads = 0, rd_reads = 0, ws_reads = 0, written = []\<rparr>"

lemma example_send: "\<exists>hw'. Send_pointer 0xC0000000 8 0xC0000100 example_hw = Some (Inr hw')"
proof -
  let ?hw = "example_hw\<lparr>rs_reads := 1, ws_reads := 1, written := [0xC0000108]\<rparr>"
  have d: "drain example_hw = Some (example_hw\<lparr>rs_reads := 1\<rparr>)"
    by (subst drain.simps) (simp add: example_hw_def MAILBOX_EMPTY_def bit_iff_odd)
  have w: "wait_not_full (example_hw\<lparr>rs_reads := 1\<rparr>) = Some (example_hw\<lparr>rs_reads := 1, ws_reads := 1\<rparr>)"
    by (subst wait_not_full.simps) (simp add: example_hw_def MAILBOX_FULL_def bit_iff_odd)
  have a: "wait_answer ?hw = Some (?hw\<lparr>rs_reads := 2\<rparr>)"
    by (subst wait_answer.simps) (simp add: example_hw_def MAILBOX_EMPTY_def bit_iff_odd)
  have "receive 8 0xC0000100 ?hw = Some (Inr (?hw\<lparr>rs_reads := 2, rd_reads := 1\<rparr>))"
    unfolding receive.simps [of 8 "0xC0000100" ?hw] a by (simp add: example_hw_def)
  with d w have "Send 8 0xC0000100 example_hw = Some (Inr (?hw\<lparr>rs_reads := 2, rd_reads := 1\<rparr>))"
    by (simp add: Send_def example_hw_def)
  then show ?thesis by (simp add: Send_pointer_def)
qed


text \<open>
  A message may be filled to the last word of its buffer, and then sending it writes the end tag
  past the buffer.
\<close>

theorem full_message_end_tag_overflows:
  assumes "Size m + length (args t) + 3 = 256" and "length (Buffer m) = 256"
  shows "\<exists>m'. AddTag t m = Inr m' \<and> SendMessage firmware GpuMemBase addr m' hw = Some (Inl (Undefined ''Buffer[Size++]''))"
  using assms AddTag_ok [of m t] by (simp add: SendMessage_def put_word_def BufferSize_def)

lemma full_message_end_tag_overflows_witness:
  "\<exists>m'. AddTag \<lparr>tag = 1, args = replicate 251 0\<rparr> (new_message (replicate 256 0)) = Inr m' \<and>
     SendMessage id 0 0 m' \<lparr>RSTATUS = \<lambda>_. 0, READ = \<lambda>_. 0, WSTATUS = \<lambda>_. 0, rs_reads = 0, rd_reads = 0, ws_reads = 0, written = []\<rparr> =
       Some (Inl (Undefined ''Buffer[Size++]''))"
  by (rule full_message_end_tag_overflows) (simp_all add: new_message_def)

end
