(* ===== verification/Framebuffer.thy ===== *)
theory Framebuffer
  imports Drawing Uart Mailbox "HOL-Library.Signed_Division"
begin

text \<open>
  The framebuffer over the property mailbox, \<^verbatim>\<open>src/Framebuffer.cpp\<close>: initialisation, page flip and the
  painting of video memory on failure. The loop of a failed initialisation never returns, which is
  \<open>None\<close>.
\<close>

unbundle bit_operations_syntax

section \<open>Painting\<close>

fun panic_fill :: "nat \<Rightarrow> nat \<Rightarrow> u64 \<Rightarrow> memory \<Rightarrow> memory" where
  "panic_fill 0 a v m = m"
| "panic_fill (Suc n) a v m = panic_fill n (a + 8) v (store64 a v m)"

fun panic_repeat :: "nat \<Rightarrow> nat \<Rightarrow> nat \<Rightarrow> u64 \<Rightarrow> memory \<Rightarrow> memory" where
  "panic_repeat 0 n a v m = m"
| "panic_repeat (Suc r) n a v m = panic_repeat r n a v (panic_fill n a v m)"

definition in_int32 :: "int \<Rightarrow> bool" where
  "in_int32 i \<longleftrightarrow> -2147483648 \<le> i \<and> i \<le> 2147483647"

definition Panic_paint :: "color565 \<Rightarrow> int \<Rightarrow> int \<Rightarrow> int \<Rightarrow> memory \<Rightarrow> memory res" where
  "Panic_paint color divisions which rpt m =
     (let vSize = 2097152; vStart = 0x3F000000 - 8 * vSize; size = vSize sdiv divisions in
      if divisions = 0 then Inl (Undefined ''vSize / divisions'')
      else if \<not> in_int32 (size * which) then Inl (Undefined ''size * which'')
      else Inr (panic_repeat (nat rpt) (nat size) (nat (vStart + 8 * (size * which))) (color64 (color16 color)) m))"

section \<open>Messages\<close>

definition newline :: string where
  "newline = [CHR 0x0A]"

definition say :: "string \<Rightarrow> string \<Rightarrow> framebuffer \<Rightarrow> framebuffer" where
  "say label value s = s\<lparr>fb_log := fb_log s @ label @ value @ newline\<rparr>"

definition say_dec :: "string \<Rightarrow> u32 \<Rightarrow> framebuffer \<Rightarrow> framebuffer res" where
  "say_dec label v s = rbind (PutDec_text (ucast v)) (\<lambda>t. Inr (say label t s))"

definition say_hex :: "string \<Rightarrow> u32 \<Rightarrow> framebuffer \<Rightarrow> framebuffer" where
  "say_hex label v s = say label (PutHex_text 4 (ucast v)) s"

function pad_words :: "u32 list \<Rightarrow> u32 list" where
  "pad_words xs = (if length xs AND 3 \<noteq> 0 then pad_words (xs @ [0]) else xs)"
  by pat_completeness auto
termination
proof (relation "measure (\<lambda>xs. (4 - length xs mod 4) mod 4)")
  fix xs :: "u32 list"
  assume "length xs AND 3 \<noteq> 0"
  then have "length xs mod 4 \<noteq> 0" using and_pred_pow2 [of "length xs" 2] by simp
  moreover have "length xs mod 4 < 4" by simp
  ultimately have "length xs mod 4 = 1 \<or> length xs mod 4 = 2 \<or> length xs mod 4 = 3" by linarith
  then show "(xs @ [0], xs) \<in> measure (\<lambda>xs. (4 - length xs mod 4) mod 4)" by (elim disjE) (simp_all add: mod_Suc)
qed simp

definition put_mbox :: "u32 list \<Rightarrow> framebuffer \<Rightarrow> framebuffer" where
  "put_mbox ws s = s\<lparr>mbox := ws @ drop (length ws) (mbox s)\<rparr>"

definition send_mbox ::
  "(u32 list \<Rightarrow> u32 list) \<Rightarrow> u64 \<Rightarrow> u64 \<Rightarrow> u32 list \<Rightarrow> framebuffer \<Rightarrow> mbox_hw \<Rightarrow> (bool \<times> framebuffer \<times> mbox_hw) res option" where
  "send_mbox firmware GpuMemBase mbox_l ws s hw =
     (let s1 = put_mbox ws s; i = length ws in
      Option.bind (SendTags_span firmware GpuMemBase (mbox_l OR GpuMemBase) (take i (mbox s1)) hw) (\<lambda>r.
        Some (rbind r (\<lambda>(ok, data, hw'). Inr (ok, put_mbox data s1, hw')))))"

section \<open>Initialisation\<close>

definition init_request :: "u32 \<Rightarrow> u32 \<Rightarrow> u32 list" where
  "init_request width height = pad_words
     ([0, 0] @
      [0x48003, 8, 0, width, height] @
      [0x48004, 8, 0, width, height * 2] @
      [0x48005, 4, 0, fb_depth] @
      [0x48006, 4, 0, 0] @
      [0x40001, 8, 0, 16, 0] @
      [0x40008, 4, 0, 0] @
      [0])"

definition init_success :: "u64 \<Rightarrow> framebuffer \<Rightarrow> framebuffer res" where
  "init_success GpuMemBase s =
     (let s1 = s\<lparr>fb_addr := ucast (mbox s ! 23 AND 0x3FFFFFFF) + GpuMemBase, fb_pitch := mbox s ! 28,
                Width := mbox s ! 10, Height := mbox s ! 6\<rparr>;
          s2 = say ''Framebuffer address: '' (PutHex_text 8 (fb_addr s1)) s1;
          s3 = say_hex ''Framebuffer size: '' (mbox s ! 24) s2 in
      rbind (say_dec ''Framebuffer pitch: '' (fb_pitch s3) s3) (\<lambda>s4.
      rbind (say_dec ''Framebuffer width: '' (Width s4) s4) (\<lambda>s5.
      rbind (say_dec ''Framebuffer height: '' (Height s5) s5) (\<lambda>s6.
      say_dec ''Framebuffer physical height: '' (mbox s6 ! 11) s6))))"

definition init_failure :: "framebuffer \<Rightarrow> framebuffer res" where
  "init_failure s =
     rbind (say_dec ''Mbox size: '' (mbox s ! 0) (say ''Framebuffer initialization failed.'' [] s)) (\<lambda>s1.
       let s2 = say_hex ''Mbox status: '' (mbox s ! 1) s1;
           s3 = say_hex ''Mbox m1: '' (mbox s ! 4) s2;
           s4 = say_hex ''Mbox m2: '' (mbox s ! 9) s3;
           s5 = say_hex ''Mbox m3: '' (mbox s ! 14) s4;
           s6 = say_hex ''Mbox m4: '' (mbox s ! 18) s5;
           s7 = say_hex ''Mbox m5: '' (mbox s ! 22) s6;
           s8 = say_hex ''Mbox m6: '' (mbox s ! 27) s7;
           s9 = say ''Framebuffer address: '' (PutHex_text 8 (fb_addr s)) s8 in
       say_dec ''Framebuffer pitch: '' (fb_pitch s) s9)"

definition panic_unless :: "bool \<Rightarrow> color565 \<Rightarrow> (color565 \<times> int \<times> int \<times> int) list" where
  "panic_unless b color = (if b then [] else [(color, 4096, 4091, 1000)])"

definition failure_panics :: "u32 list \<Rightarrow> (color565 \<times> int \<times> int \<times> int) list" where
  "failure_panics m =
     panic_unless (m ! 0 = 1024 * 4) (Color565 0x0F 0x1F 0x0F) @
     panic_unless (m ! 1 = 0x80000000) (Color565 0x00 0x3F 0x1F) @
     panic_unless (m ! 1 = 0) (Color565 0x00 0x00 0x00) @
     panic_unless (m ! 4 = 0x80000000) (Color565 0x1F 0x3F 0x1F) @
     panic_unless (m ! 4 = 0) (Color565 0x00 0x00 0x00) @
     panic_unless (m ! 9 = 0x80000000) (Color565 0x00 0x00 0x1F) @
     panic_unless (m ! 9 = 0) (Color565 0x00 0x00 0x00) @
     panic_unless (m ! 14 = 0x80000000) (Color565 0x00 0x3F 0x00) @
     panic_unless (m ! 14 = 0) (Color565 0x00 0x00 0x00) @
     panic_unless (m ! 18 = 0x80000000) (Color565 0x1F 0x00 0x00) @
     panic_unless (m ! 18 = 0) (Color565 0x00 0x00 0x00) @
     panic_unless (m ! 22 = 0x80000000) (Color565 0x1F 0x3F 0x00) @
     panic_unless (m ! 22 = 0) (Color565 0x00 0x00 0x00) @
     panic_unless (m ! 27 = 0x80000000) (Color565 0x1F 0x00 0x1F) @
     panic_unless (m ! 27 = 0) (Color565 0x00 0x00 0x00) @
     [(Color565 0x1F 0x00 0x00, 256 * 4 * 4, (255 * 4 + 2) * 4 + 3, 1),
      (Color565 0x1F 0x3F 0x1F, 1, 0, 1),
      (Color565 0x00 0x00 0x1F, 1, 0, 1)]"

fun run_panics :: "(color565 \<times> int \<times> int \<times> int) list \<Rightarrow> memory \<Rightarrow> memory res" where
  "run_panics [] m = Inr m"
| "run_panics ((color, divisions, which, rpt) # ps) m = rbind (Panic_paint color divisions which rpt m) (run_panics ps)"

partial_function (option) failure_loop :: "framebuffer \<Rightarrow> framebuffer res option" where
  "failure_loop s =
     (case run_panics (failure_panics (mbox s)) (vmem s) of
        Inl e \<Rightarrow> Some (Inl e)
      | Inr m \<Rightarrow> failure_loop (s\<lparr>vmem := m\<rparr>))"

definition Init ::
  "(u32 list \<Rightarrow> u32 list) \<Rightarrow> u64 \<Rightarrow> u64 \<Rightarrow> u32 \<Rightarrow> u32 \<Rightarrow> framebuffer \<Rightarrow> mbox_hw \<Rightarrow> (framebuffer \<times> mbox_hw) res option" where
  "Init firmware GpuMemBase mbox_l width height s hw =
     (let s1 = say ''GPU memory base: '' (PutHex_text 8 GpuMemBase) (say ''Framebuffer initialization started...'' [] s) in
      Option.bind (send_mbox firmware GpuMemBase mbox_l (init_request width height) s1 hw) (\<lambda>r.
      case r of
        Inl e \<Rightarrow> Some (Inl e)
      | Inr (ok, s2, hw') \<Rightarrow>
          if ok then Some (rbind (init_success GpuMemBase s2) (\<lambda>s3. Inr (s3, hw')))
          else case init_failure s2 of
            Inl e \<Rightarrow> Some (Inl e)
          | Inr s3 \<Rightarrow> Option.bind (failure_loop s3) (\<lambda>r. Some (rbind r (\<lambda>s4. Inr (s4, hw'))))))"

section \<open>Flipping\<close>

definition flip_request :: "u32 \<Rightarrow> u32 list" where
  "flip_request offset = pad_words ([0, 0] @ [0x48009, 8, 0, 0, offset] @ [0])"

definition flip_failure :: "framebuffer \<Rightarrow> framebuffer res" where
  "flip_failure s =
     rbind (say_dec ''Mbox size: '' (mbox s ! 0) (say ''Framebuffer flip failed.'' [] s)) (\<lambda>s1.
       let s2 = say_hex ''Mbox status: '' (mbox s ! 1) s1;
           s3 = say_hex ''Mbox status2: '' (mbox s ! 4) s2;
           s4 = say_hex ''Mbox x: '' (mbox s ! 5) s3 in
       Inr (say_hex ''Mbox y: '' (mbox s ! 6) s4))"

definition Flip ::
  "(u32 list \<Rightarrow> u32 list) \<Rightarrow> u64 \<Rightarrow> u64 \<Rightarrow> framebuffer \<Rightarrow> mbox_hw \<Rightarrow> (framebuffer \<times> mbox_hw) res option" where
  "Flip firmware GpuMemBase mbox_l s hw =
     Option.bind (send_mbox firmware GpuMemBase mbox_l (flip_request (yOffset s)) s hw) (\<lambda>r.
       Some (rbind r (\<lambda>(ok, s1, hw').
         if ok then Inr (if yOffset s1 = 0 then s1\<lparr>yOffset := Height s1\<rparr> else s1\<lparr>yOffset := 0\<rparr>, hw')
         else rbind (flip_failure s1) (\<lambda>s2. Inr (s2, hw')))))"

declare pad_words.simps [simp del]

section \<open>Failed initialisation\<close>

lemma run_panics_ok:
  assumes "\<forall>(c, d, w, r) \<in> set ps. d \<noteq> 0 \<and> in_int32 (2097152 sdiv d * w)"
  shows "\<exists>m'. run_panics ps m = Inr m'"
  using assms by (induction ps m rule: run_panics.induct) (auto simp: Panic_paint_def Let_def)

lemma failure_panics_ok: "\<exists>m'. run_panics (failure_panics w) m = Inr m'"
proof (rule run_panics_ok)
  have "set (panic_unless b c) \<subseteq> {(c, 4096, 4091, 1000)}" for b c by (simp add: panic_unless_def)
  then show "\<forall>(c, d, w, r) \<in> set (failure_panics w). d \<noteq> 0 \<and> in_int32 (2097152 sdiv d * w)"
    by (simp add: failure_panics_def panic_unless_def in_int32_def)
qed

lemma failure_loop_never_returns: "failure_loop s = None"
proof (rule ccontr)
  assume "failure_loop s \<noteq> None"
  then obtain r where "failure_loop s = Some r" by blast
  moreover have "False" if "\<And>s r. loop s = Some r \<Longrightarrow> False"
    and "(case run_panics (failure_panics (mbox s)) (vmem s) of Inl e \<Rightarrow> Some (Inl e) | Inr m \<Rightarrow> loop (s\<lparr>vmem := m\<rparr>)) = Some r"
    for loop :: "framebuffer \<Rightarrow> framebuffer res option" and s r
  proof -
    obtain m where "run_panics (failure_panics (mbox s)) (vmem s) = Inr m" using failure_panics_ok by blast
    with that(2) have "loop (s\<lparr>vmem := m\<rparr>) = Some r" by simp
    then show False by (rule that(1))
  qed
  ultimately show False by (rule failure_loop.raw_induct [of "\<lambda>_ _. False", rotated])
qed

section \<open>The two halves\<close>

text \<open>
  The screen has two halves of \<open>Height\<close> rows. \<open>half s o\<close> are the bytes of the half whose first row is \<open>o\<close>.
\<close>

definition screen_ok :: "framebuffer \<Rightarrow> bool" where
  "screen_ok s \<longleftrightarrow> fb_geometry s \<and> 2 * unat (Width s) \<le> unat (fb_pitch s) \<and> 2 * unat (Height s) * unat (fb_pitch s) < 2 ^ 32 \<and>
     (yOffset s = 0 \<or> yOffset s = Height s)"

definition half :: "framebuffer \<Rightarrow> u32 \<Rightarrow> nat set" where
  "half s offset = {unat (fb_addr s) + unat offset * unat (fb_pitch s) ..<
     unat (fb_addr s) + (unat offset + unat (Height s)) * unat (fb_pitch s)}"

lemma unat_add_offsets:
  "unat a + unat u + unat v < 2 ^ 64 \<Longrightarrow> unat (a + ucast u + ucast v) = unat a + unat u + unat v" for a :: u64 and u v :: u32
  by (simp add: unat_word_ariths unat_ucast_u64)

lemma pixel_in_half:
  assumes "screen_ok s" and "x < Width s" and "y < Height s"
  shows "{unat (row_address s y + ucast (x * 2)) ..< unat (row_address s y + ucast (x * 2)) + 2} \<subseteq> half s (yOffset s)"
proof -
  let ?r = "unat y + unat (yOffset s)" and ?p = "unat (fb_pitch s)"
  have geo: "unat (Width s) < 2 ^ 31" "unat (fb_addr s) + 2 ^ 32 + 2 * unat (Width s) \<le> 2 ^ 64"
    and pitch: "2 * unat (Width s) \<le> ?p" and size: "2 * unat (Height s) * ?p < 2 ^ 32" and off: "yOffset s = 0 \<or> yOffset s = Height s"
    using assms(1) by (auto simp: screen_ok_def fb_geometry_def)
  have x: "unat x < unat (Width s)" and y: "unat y < unat (Height s)" using assms(2,3) by (simp_all add: word_less_nat_alt)
  have p: "1 \<le> ?p" using x pitch by linarith
  have r: "?r + 1 \<le> 2 * unat (Height s)" using y off by auto
  then have rp: "(?r + 1) * ?p \<le> 2 * unat (Height s) * ?p" by (rule mult_le_mono1)
  then have "?r * ?p < 2 ^ 32" using size by simp
  moreover have "?r \<le> ?r * ?p" using p by simp
  ultimately have "?r < 2 ^ 32" by linarith
  then have "unat (y + yOffset s) = ?r" by (intro unat_add_in_range) simp
  then have row: "unat ((y + yOffset s) * fb_pitch s) = ?r * ?p" using \<open>?r * ?p < 2 ^ 32\<close> by (simp add: unat_word_ariths)
  have x2: "unat (x * 2) = 2 * unat x" using x geo(1) by (simp add: unat_word_ariths)
  have "unat (row_address s y + ucast (x * 2)) = unat (fb_addr s) + ?r * ?p + 2 * unat x"
    using unat_add_offsets [of "fb_addr s" "(y + yOffset s) * fb_pitch s" "x * 2"] \<open>?r * ?p < 2 ^ 32\<close> geo(2) x
    unfolding row x2 row_address_def by simp
  moreover have "2 * unat x + 2 \<le> ?p" using x pitch by linarith
  moreover have "(?r + 1) * ?p \<le> (unat (yOffset s) + unat (Height s)) * ?p" using y by (intro mult_le_mono1) simp
  moreover have "unat (yOffset s) * ?p \<le> ?r * ?p" by (intro mult_le_mono1) simp
  ultimately show ?thesis by (auto simp: half_def algebra_simps)
qed

lemma halves_disjoint:
  assumes "screen_ok s" and "{o1, o2} = {0, Height s}" and "0 < Height s"
  shows "half s o1 \<inter> half s o2 = {}"
  using assms by (auto simp: half_def doubleton_eq_iff algebra_simps)

lemma WritePixel_outside:
  assumes "screen_ok s" and "a \<notin> half s (yOffset s)"
  shows "vmem (WritePixel x y color s) a = vmem s a"
proof (cases "x < Width s \<and> y < Height s")
  case True
  let ?p = "unat (row_address s y + ucast (x * 2))"
  have "a \<notin> {?p..<?p + 2}" using pixel_in_half [OF assms(1), of x y] assms(2) True by blast
  then show ?thesis by (auto simp: WritePixel_def store16_def)
qed (auto simp: WritePixel_def)

lemma flip_failure_keeps:
  "\<exists>s'. flip_failure s = Inr s' \<and> screen_ok s' = screen_ok s \<and> vmem s' = vmem s \<and> yOffset s' = yOffset s"
proof -
  obtain t where "PutDec_text (ucast (mbox s ! 0)) = Inr t" using PutDec_text_digits by blast
  then show ?thesis by (simp add: flip_failure_def say_dec_def say_hex_def say_def Let_def screen_ok_def fb_geometry_def)
qed

lemma pad_words_8: "length xs = 8 \<Longrightarrow> pad_words xs = xs"
  by (subst pad_words.simps) simp

lemma flip_request_words: "flip_request offset = [0, 0, 0x48009, 8, 0, 0, offset, 0]"
  by (simp add: flip_request_def pad_words_8)

section \<open>Properties\<close>

text \<open>
  C34. Drawing never disturbs the picture that is shown: a flip that the firmware accepts asks it to
  show the half drawn so far, with one message of eight words, and moves drawing to the other half, so
  that no pixel written afterwards, wherever it is, changes a byte of the shown half. A flip that the
  firmware refuses keeps drawing where it was.
\<close>

theorem flip_protects_shown_half:
  assumes "screen_ok s" and "0 < Height s" and "8 \<le> length (mbox s)"
    and "SendTags_span firmware GpuMemBase (mbox_l OR GpuMemBase) [0, 0, 0x48009, 8, 0, 0, yOffset s, 0] hw = Some (Inr (ok, answer, hw'))"
  shows "\<exists>s'. Flip firmware GpuMemBase mbox_l s hw = Some (Inr (s', hw')) \<and> screen_ok s' \<and> vmem s' = vmem s \<and>
    (if ok then (\<forall>x y color a. a \<in> half s (yOffset s) \<longrightarrow> vmem (WritePixel x y color s') a = vmem s a)
     else yOffset s' = yOffset s)"
proof -
  let ?s = "put_mbox answer (put_mbox (flip_request (yOffset s)) s)"
  have "send_mbox firmware GpuMemBase mbox_l (flip_request (yOffset s)) s hw = Some (Inr (ok, ?s, hw'))"
    using assms(4) by (simp add: send_mbox_def flip_request_words put_mbox_def)
  then have flip: "Flip firmware GpuMemBase mbox_l s hw =
      Some (if ok then Inr (if yOffset s = 0 then ?s\<lparr>yOffset := Height s\<rparr> else ?s\<lparr>yOffset := 0\<rparr>, hw')
        else rbind (flip_failure ?s) (\<lambda>s2. Inr (s2, hw')))"
    by (simp add: Flip_def put_mbox_def)
  show ?thesis
  proof (cases ok)
    case True
    define s' where "s' = ?s\<lparr>yOffset := if yOffset s = 0 then Height s else 0\<rparr>"
    have "screen_ok s'" "vmem s' = vmem s" "half s' (yOffset s') = half s (yOffset s')"
      using assms(1) by (auto simp: s'_def screen_ok_def fb_geometry_def put_mbox_def half_def)
    moreover have "half s (yOffset s) \<inter> half s (yOffset s') = {}"
      using assms(1,2) by (intro halves_disjoint) (auto simp: s'_def screen_ok_def)
    ultimately have "vmem (WritePixel x y color s') a = vmem s a" if "a \<in> half s (yOffset s)" for x y color a
      using WritePixel_outside [of s' a x y color] that by auto
    moreover have "Flip firmware GpuMemBase mbox_l s hw = Some (Inr (s', hw'))" using flip True by (simp add: s'_def)
    ultimately show ?thesis using True \<open>screen_ok s'\<close> \<open>vmem s' = vmem s\<close> by (intro exI [of _ s']) simp
  next
    case False
    from flip_failure_keeps [of ?s] obtain s' where s': "flip_failure ?s = Inr s'" "screen_ok s' = screen_ok ?s" "vmem s' = vmem ?s" "yOffset s' = yOffset ?s" by blast
    have "screen_ok ?s" using assms(1) by (simp add: screen_ok_def fb_geometry_def put_mbox_def)
    with s' flip False show ?thesis by (auto simp: put_mbox_def)
  qed
qed

lemma flip_protects_shown_half_witness:
  "\<exists>s'. \<exists>hw'. Flip (\<lambda>req. req[1 := 0x80000000]) 0xC0000000 0x100 (example_screen\<lparr>mbox := replicate 64 0\<rparr>) example_hw = Some (Inr (s', hw')) \<and>
     vmem (WritePixel 3 2 (Color565 0 0 0x1F) s') 0x3C000046 = 0"
proof -
  let ?s = "example_screen\<lparr>mbox := replicate 64 0\<rparr>" and ?fw = "\<lambda>req. req[1 := 0x80000000] :: u32 list"
  from example_send obtain hw' where "Send_pointer 0xC0000000 8 0xC0000100 example_hw = Some (Inr hw')" by blast
  then have sent: "SendTags_span ?fw 0xC0000000 (0x100 OR 0xC0000000) [0, 0, 0x48009, 8, 0, 0, yOffset ?s, 0] example_hw =
      Some (Inr (True, [32, 0x80000000, 0x48009, 8, 0, 0, 0, 0], hw'))"
    by (simp add: SendTags_span_def example_screen_def)
  have ok: "screen_ok ?s" "0 < Height ?s" "8 \<le> length (mbox ?s)"
    by (simp_all add: screen_ok_def fb_geometry_def example_screen_def)
  from flip_protects_shown_half [OF ok sent] obtain s' where
    "Flip ?fw 0xC0000000 0x100 ?s example_hw = Some (Inr (s', hw'))"
    "\<forall>x y color a. a \<in> half ?s (yOffset ?s) \<longrightarrow> vmem (WritePixel x y color s') a = vmem ?s a" by auto
  moreover have "0x3C000046 \<in> half ?s (yOffset ?s)" "vmem ?s 0x3C000046 = 0" by (simp_all add: half_def example_screen_def)
  ultimately show ?thesis by fastforce
qed

end
