(* ===== verification/Gpio.thy ===== *)
theory Gpio
  imports Cpu_Time
begin

text \<open>
  The pins of \<^verbatim>\<open>src/Gpio.cpp\<close>: function select, high detect and pull resistors. Registers are addressed by
  their offset in the GPIO block; each write is also kept in order, because the pull resistors of the
  older boards are set by a sequence of writes. The delays between them change no state.
\<close>

section \<open>Registers\<close>

datatype PullUpDown = NoPull | PullDown | PullUp | Reserved

primrec pud_bits :: "PullUpDown \<Rightarrow> u32" where
  "pud_bits NoPull = 0"
| "pud_bits PullDown = 1"
| "pud_bits PullUp = 2"
| "pud_bits Reserved = 3"

datatype Function = Input | Output | Alt0 | Alt1 | Alt2 | Alt3 | Alt4 | Alt5

primrec func_bits :: "Function \<Rightarrow> u32" where
  "func_bits Input = 0"
| "func_bits Output = 1"
| "func_bits Alt0 = 4"
| "func_bits Alt1 = 5"
| "func_bits Alt2 = 6"
| "func_bits Alt3 = 7"
| "func_bits Alt4 = 3"
| "func_bits Alt5 = 2"

record gpio =
  regs :: "nat \<Rightarrow> u32"
  writes :: "(nat \<times> u32) list"

definition write_reg :: "nat \<Rightarrow> u32 \<Rightarrow> gpio \<Rightarrow> gpio" where
  "write_reg r v g = g\<lparr>regs := (regs g)(r := v), writes := writes g @ [(r, v)]\<rparr>"

definition GPFSEL :: "nat \<Rightarrow> nat" where "GPFSEL i = 0x00 + 4 * i"
definition GPHEN :: "nat \<Rightarrow> nat" where "GPHEN i = 0x64 + 4 * i"
definition GPPUD :: nat where "GPPUD = 0x94"
definition GPPUDCLK :: "nat \<Rightarrow> nat" where "GPPUDCLK i = 0x98 + 4 * i"
definition GPIO_PUP_PDN_CNTRL_REG :: "nat \<Rightarrow> nat" where "GPIO_PUP_PDN_CNTRL_REG i = 0xE4 + 4 * i"

section \<open>Operations\<close>

definition SetFunction :: "nat \<Rightarrow> Function \<Rightarrow> gpio \<Rightarrow> gpio" where
  "SetFunction pin func g =
     (let shift = (pin mod 10) * 3; r = GPFSEL (pin div 10);
          reg = regs g r AND NOT (push_bit shift 0b111) in
      write_reg r (reg OR push_bit shift (func_bits func)) g)"

definition SetHighDetectEnable :: "nat \<Rightarrow> bool \<Rightarrow> gpio \<Rightarrow> gpio" where
  "SetHighDetectEnable pin enable g =
     (let shift = pin mod 32; r = GPHEN (pin div 32); reg = regs g r in
      write_reg r (if enable then reg OR push_bit shift 1 else reg AND NOT (push_bit shift 1)) g)"

definition SetPullUpDown :: "u64 \<Rightarrow> nat \<Rightarrow> PullUpDown \<Rightarrow> gpio \<Rightarrow> gpio" where
  "SetPullUpDown midr pin pud g =
     (if IsRpi4 midr then
        let shift = (pin mod 16) * 2; r = GPIO_PUP_PDN_CNTRL_REG (pin div 16);
            reg = regs g r AND NOT (push_bit shift 0b11) in
        write_reg r (reg OR push_bit shift (pud_bits pud)) g
      else
        let shift = pin mod 32; clk = GPPUDCLK (pin div 32);
            g1 = write_reg GPPUD (pud_bits pud) g;
            g2 = write_reg clk (push_bit shift (of_nat pin)) g1;
            g3 = (if pud_bits pud \<noteq> 0 then write_reg GPPUD 0 g2 else g2) in
        write_reg clk 0 g3)"

section \<open>Fields of registers\<close>

definition get_field :: "nat \<Rightarrow> nat \<Rightarrow> u32 \<Rightarrow> u32" where
  "get_field n s w = take_bit n (drop_bit s w)"

lemma get_field_same:
  assumes "s + n \<le> 32" and "take_bit n v = v"
  shows "get_field n s ((w AND NOT (push_bit s (mask n))) OR push_bit s v) = v"
proof (rule bit_word_eqI)
  fix i
  assume "i < LENGTH(32)"
  have "bit v i \<longleftrightarrow> i < n \<and> bit v i" using assms(2) by (metis bit_take_bit_iff)
  with assms(1) show "bit (get_field n s ((w AND NOT (push_bit s (mask n))) OR push_bit s v)) i = bit v i"
    by (auto simp: get_field_def bit_simps)
qed

lemma get_field_other:
  assumes "s + n \<le> t \<or> t + n \<le> s" and "take_bit n v = v"
  shows "get_field n t ((w AND NOT (push_bit s (mask n))) OR push_bit s v) = get_field n t w"
proof (rule bit_word_eqI)
  fix i
  assume "i < LENGTH(32)"
  have v: "bit v k \<longleftrightarrow> k < n \<and> bit v k" for k using assms(2) by (metis bit_take_bit_iff)
  have "\<not> (s \<le> t + i \<and> t + i - s < n)" if "i < n" using assms(1) that by linarith
  then show "bit (get_field n t ((w AND NOT (push_bit s (mask n))) OR push_bit s v)) i = bit (get_field n t w) i"
    using v [of "t + i - s"] by (auto simp: get_field_def bit_simps dest: bit_imp_le_length)
qed

lemma masks: "mask 3 = (0b111 :: u32)" "mask 2 = (0b11 :: u32)"
  by (simp_all add: mask_eq_exp_minus_1)

lemma func_bits_field: "take_bit 3 (func_bits f) = func_bits f"
  by (cases f) simp_all

lemma pud_bits_field: "take_bit 2 (pud_bits p) = pud_bits p"
  by (cases p) simp_all

lemma slots_apart: "\<lbrakk>q mod k \<noteq> p mod k\<rbrakk> \<Longrightarrow> p mod k * n + n \<le> q mod k * n \<or> q mod k * n + n \<le> p mod k * n" for k n p q :: nat
  by (metis Suc_leI add.commute linorder_neqE_nat mult_Suc mult_le_mono1)

lemma slot_fits: "0 < k \<Longrightarrow> p mod k * n + n \<le> k * n" for k n p :: nat
  using mod_less_divisor [of k p] by (metis Suc_leI add.commute mult_Suc mult_le_mono1)

definition pin_function :: "gpio \<Rightarrow> nat \<Rightarrow> u32" where
  "pin_function g q = get_field 3 ((q mod 10) * 3) (regs g (GPFSEL (q div 10)))"

definition pin_pull :: "gpio \<Rightarrow> nat \<Rightarrow> u32" where
  "pin_pull g q = get_field 2 ((q mod 16) * 2) (regs g (GPIO_PUP_PDN_CNTRL_REG (q div 16)))"

definition pin_detect :: "gpio \<Rightarrow> nat \<Rightarrow> bool" where
  "pin_detect g q = bit (regs g (GPHEN (q div 32))) (q mod 32)"

lemma field_of_slot:
  assumes "0 < k" and "k * n \<le> 32" and "take_bit n v = v"
  shows "get_field n (q mod k * n) ((w AND NOT (push_bit (p mod k * n) (mask n))) OR push_bit (p mod k * n) v) =
    (if q mod k = p mod k then v else get_field n (q mod k * n) w)"
proof (cases "q mod k = p mod k")
  case True
  then show ?thesis using get_field_same [OF _ assms(3)] slot_fits [OF assms(1), of p n] assms(2) by simp
next
  case False
  then show ?thesis using get_field_other [OF slots_apart assms(3)] by simp
qed

lemma same_pin: "p = q \<longleftrightarrow> p div k = q div k \<and> p mod k = q mod k" for k p q :: nat
  by (metis div_mult_mod_eq)

lemma regs_write [simp]: "regs (write_reg r v g) r' = (if r' = r then v else regs g r')"
  by (simp add: write_reg_def)

lemma SetFunction_function:
  "pin_function (SetFunction pin func g) q = (if q = pin then func_bits func else pin_function g q)"
  using field_of_slot [of 10 3 "func_bits func" q _ pin] func_bits_field
  by (auto simp: pin_function_def SetFunction_def Let_def GPFSEL_def masks same_pin [of q pin 10])

lemma SetPullUpDown_pull:
  "IsRpi4 midr \<Longrightarrow> pin_pull (SetPullUpDown midr pin pud g) q = (if q = pin then pud_bits pud else pin_pull g q)"
  using field_of_slot [of 16 2 "pud_bits pud" q _ pin] pud_bits_field
  by (auto simp: pin_pull_def SetPullUpDown_def Let_def GPIO_PUP_PDN_CNTRL_REG_def masks same_pin [of q pin 16])

lemma SetHighDetectEnable_detect:
  "pin_detect (SetHighDetectEnable pin enable g) q = (if q = pin then enable else pin_detect g q)"
  by (auto simp: pin_detect_def SetHighDetectEnable_def Let_def GPHEN_def same_pin [of q pin 32] bit_simps)

lemmas other_registers = pin_function_def pin_pull_def pin_detect_def SetFunction_def SetHighDetectEnable_def SetPullUpDown_def
  Let_def GPFSEL_def GPHEN_def GPIO_PUP_PDN_CNTRL_REG_def

lemma pin_registers: "q < 54 \<Longrightarrow> q div 10 \<le> 5 \<and> q div 32 \<le> 1 \<and> q div 16 \<le> 3" for q :: nat
  by linarith

section \<open>Properties\<close>

text \<open>
  The pins are independent: setting the function, the high detection or, on the Raspberry Pi 4,
  the pull resistor of one of the 54 pins gives that pin the new setting and changes neither another
  pin's setting nor one of the other two settings of any pin.
\<close>

lemma pin_settings_are_independent:
  assumes "pin < 54" and "q < 54" and "IsRpi4 midr"
  shows "pin_function (SetFunction pin func g) q = (if q = pin then func_bits func else pin_function g q) \<and>
    pin_detect (SetFunction pin func g) q = pin_detect g q \<and> pin_pull (SetFunction pin func g) q = pin_pull g q \<and>
    pin_detect (SetHighDetectEnable pin enable g) q = (if q = pin then enable else pin_detect g q) \<and>
    pin_function (SetHighDetectEnable pin enable g) q = pin_function g q \<and> pin_pull (SetHighDetectEnable pin enable g) q = pin_pull g q \<and>
    pin_pull (SetPullUpDown midr pin pud g) q = (if q = pin then pud_bits pud else pin_pull g q) \<and>
    pin_function (SetPullUpDown midr pin pud g) q = pin_function g q \<and> pin_detect (SetPullUpDown midr pin pud g) q = pin_detect g q"
  using pin_registers [OF assms(1)] pin_registers [OF assms(2)] assms(3)
  by (intro conjI SetFunction_function SetHighDetectEnable_detect SetPullUpDown_pull [OF assms(3)]) (auto simp: other_registers)

lemma pin_settings_are_independent_witness:
  "IsRpi4 0x410FD083 \<and>
   pin_pull (SetPullUpDown 0x410FD083 14 PullUp \<lparr>regs = \<lambda>_. 0, writes = []\<rparr>) 15 = pin_pull \<lparr>regs = \<lambda>_. 0, writes = []\<rparr> 15"
proof -
  have board: "IsRpi4 0x410FD083" by (simp add: IsRpi4_def)
  then show ?thesis
    using pin_settings_are_independent [of 14 15 "0x410FD083" Input "\<lparr>regs = \<lambda>_. 0, writes = []\<rparr>" True PullUp] by simp
qed

text \<open>
  On the older boards the pull setting is clocked into the wrong pins: the clock word is the pin's
  number, not a one, shifted to the pin's position, so it selects the pin itself exactly when its
  number is odd. Setting a pull on an even pin, such as pin 14 of the serial port, leaves it out.
\<close>

theorem older_boards_clock_only_odd_pins:
  assumes "\<not> IsRpi4 midr"
  shows "\<exists>w. writes (SetPullUpDown midr pin pud g) = writes g @ [(GPPUD, pud_bits pud), (GPPUDCLK (pin div 32), w)] @
      (if pud = NoPull then [] else [(GPPUD, 0)]) @ [(GPPUDCLK (pin div 32), 0)] \<and>
    (bit w (pin mod 32) \<longleftrightarrow> odd pin)"
proof -
  have "pud_bits pud \<noteq> 0 \<longleftrightarrow> pud \<noteq> NoPull" by (cases pud) simp_all
  moreover have "bit (push_bit (pin mod 32) (of_nat pin) :: u32) (pin mod 32) \<longleftrightarrow> odd pin" by (simp add: bit_simps bit_0)
  ultimately show ?thesis using assms by (auto simp: SetPullUpDown_def Let_def write_reg_def)
qed

lemma older_boards_clock_only_odd_pins_witness:
  "\<exists>w. writes (SetPullUpDown 0x410FD034 14 NoPull \<lparr>regs = \<lambda>_. 0, writes = []\<rparr>) = [(GPPUD, 0), (GPPUDCLK 0, w), (GPPUDCLK 0, 0)] \<and> \<not> bit w 14"
proof -
  have board: "\<not> IsRpi4 0x410FD034" by (simp add: IsRpi4_def)
  from older_boards_clock_only_odd_pins [OF board, of 14 NoPull "\<lparr>regs = \<lambda>_. 0, writes = []\<rparr>"] show ?thesis by simp
qed

end
