(* ===== verification/Usb_Spec.thy ===== *)
theory Usb_Spec
  imports Prelude
begin

text \<open>
  The USB 2.0 data of \<^verbatim>\<open>src/UsbSpec.h\<close>, and the result codes and pipes of \<^verbatim>\<open>src/UsbDevices.h\<close> and
  \<^verbatim>\<open>src/DesignWareUsb.h\<close>. Structures that are read from the bus are records with a decoder from their
  bytes, which are little-endian; packed bit fields are functions on the byte or word that holds them.
\<close>

unbundle bit_operations_syntax

definition le16 :: "u8 \<Rightarrow> u8 \<Rightarrow> u16" where
  "le16 lo hi = ucast lo OR push_bit 8 (ucast hi)"

definition le32 :: "u8 list \<Rightarrow> u32" where
  "le32 b = ucast (b ! 0) OR push_bit 8 (ucast (b ! 1)) OR push_bit 16 (ucast (b ! 2)) OR push_bit 24 (ucast (b ! 3))"

definition bytes16 :: "u16 \<Rightarrow> u8 list" where
  "bytes16 w = [ucast w, ucast (drop_bit 8 w)]"

section \<open>Enumerations\<close>

datatype UsbDirection = USB_DIRECTION_OUT | USB_DIRECTION_IN

datatype UsbSpeed = USB_SPEED_HIGH | USB_SPEED_FULL | USB_SPEED_LOW

datatype usb_transfer_type =
    USB_TRANSFER_TYPE_CONTROL | USB_TRANSFER_TYPE_ISOCHRONOUS | USB_TRANSFER_TYPE_BULK | USB_TRANSFER_TYPE_INTERRUPT

datatype usb_descriptor_type =
    USB_DESCRIPTOR_TYPE_DEVICE | USB_DESCRIPTOR_TYPE_CONFIGURATION | USB_DESCRIPTOR_TYPE_STRING
  | USB_DESCRIPTOR_TYPE_INTERFACE | USB_DESCRIPTOR_TYPE_ENDPOINT | USB_DESCRIPTOR_TYPE_QUALIFIER
  | USB_DESCRIPTOR_TYPE_OTHERSPEED_CONFIG | USB_DESCRIPTOR_TYPE_INTERFACE_POWER | USB_DESCRIPTOR_TYPE_HID
  | USB_DESCRIPTOR_TYPE_HID_REPORT | USB_DESCRIPTOR_TYPE_HID_PHYSICAL | USB_DESCRIPTOR_TYPE_HUB

fun descriptor_code :: "usb_descriptor_type \<Rightarrow> u8" where
  "descriptor_code USB_DESCRIPTOR_TYPE_DEVICE = 1"
| "descriptor_code USB_DESCRIPTOR_TYPE_CONFIGURATION = 2"
| "descriptor_code USB_DESCRIPTOR_TYPE_STRING = 3"
| "descriptor_code USB_DESCRIPTOR_TYPE_INTERFACE = 4"
| "descriptor_code USB_DESCRIPTOR_TYPE_ENDPOINT = 5"
| "descriptor_code USB_DESCRIPTOR_TYPE_QUALIFIER = 6"
| "descriptor_code USB_DESCRIPTOR_TYPE_OTHERSPEED_CONFIG = 7"
| "descriptor_code USB_DESCRIPTOR_TYPE_INTERFACE_POWER = 8"
| "descriptor_code USB_DESCRIPTOR_TYPE_HID = 33"
| "descriptor_code USB_DESCRIPTOR_TYPE_HID_REPORT = 34"
| "descriptor_code USB_DESCRIPTOR_TYPE_HID_PHYSICAL = 35"
| "descriptor_code USB_DESCRIPTOR_TYPE_HUB = 41"

datatype UsbDeviceStatus =
    USB_STATUS_ATTACHED | USB_STATUS_POWERED | USB_STATUS_DEFAULT | USB_STATUS_ADDRESSED | USB_STATUS_CONFIGURED

datatype HubPortFeature =
    FeatureConnection | FeatureEnable | FeatureSuspend | FeatureOverCurrent | FeatureReset | FeaturePower
  | FeatureLowSpeed | FeatureHighSpeed | FeatureConnectionChange | FeatureEnableChange | FeatureSuspendChange
  | FeatureOverCurrentChange | FeatureResetChange

fun feature_code :: "HubPortFeature \<Rightarrow> u16" where
  "feature_code FeatureConnection = 0"
| "feature_code FeatureEnable = 1"
| "feature_code FeatureSuspend = 2"
| "feature_code FeatureOverCurrent = 3"
| "feature_code FeatureReset = 4"
| "feature_code FeaturePower = 8"
| "feature_code FeatureLowSpeed = 9"
| "feature_code FeatureHighSpeed = 10"
| "feature_code FeatureConnectionChange = 16"
| "feature_code FeatureEnableChange = 17"
| "feature_code FeatureSuspendChange = 18"
| "feature_code FeatureOverCurrentChange = 19"
| "feature_code FeatureResetChange = 20"

datatype UsbDeviceRequestRequest =
    GetStatus | ClearFeature | SetFeature | SetAddress | GetDescriptor | SetDescriptor | GetConfiguration
  | SetConfiguration | GetInterface | SetInterface | SynchFrame
  | GetReport | GetIdle | GetProtocol | SetReport | SetIdle | SetProtocol

fun request_code :: "UsbDeviceRequestRequest \<Rightarrow> u8" where
  "request_code GetStatus = 0"
| "request_code ClearFeature = 1"
| "request_code SetFeature = 3"
| "request_code SetAddress = 5"
| "request_code GetDescriptor = 6"
| "request_code SetDescriptor = 7"
| "request_code GetConfiguration = 8"
| "request_code SetConfiguration = 9"
| "request_code GetInterface = 10"
| "request_code SetInterface = 11"
| "request_code SynchFrame = 12"
| "request_code GetReport = 1"
| "request_code GetIdle = 2"
| "request_code GetProtocol = 3"
| "request_code SetReport = 9"
| "request_code SetIdle = 10"
| "request_code SetProtocol = 11"

datatype PacketId = USB_PID_DATA0 | USB_PID_DATA1 | USB_PID_DATA2 | USB_PID_SETUP | USB_MDATA

fun pid_code :: "PacketId \<Rightarrow> u32" where
  "pid_code USB_PID_DATA0 = 0"
| "pid_code USB_PID_DATA1 = 2"
| "pid_code USB_PID_DATA2 = 1"
| "pid_code USB_PID_SETUP = 3"
| "pid_code USB_MDATA = 3"

datatype RESULT =
    Ok | ErrorGeneral | ErrorArgument | ErrorRetry | ErrorDevice | ErrorIncompatible | ErrorCompiler | ErrorMemory
  | ErrorTimeout | ErrorHardware | ErrorTransmission | ErrorDisconnected | ErrorDeviceNumber | ErrorTooManyRetries
  | ErrorIndex | ErrorNotHID | ErrorStall

datatype DWCRESULT =
    DwcOk | DwcErrorGeneral | DwcErrorArgument | DwcErrorDevice | DwcErrorIncompatible | DwcErrorTimeout
  | DwcErrorTransmission | DwcErrorStall

definition MaximumDevices :: nat where
  "MaximumDevices = 32"

section \<open>Pipes and requests\<close>

record usb_pipe =
  MaxPacketSizeInBytes :: u16
  Speed :: UsbSpeed
  EndPoint :: u8
  pipe_Number :: u8
  splitNodePort :: u8
  splitNodePoint :: u8

definition pipe_zero :: usb_pipe where
  "pipe_zero = \<lparr>MaxPacketSizeInBytes = 0, Speed = USB_SPEED_HIGH, EndPoint = 0, pipe_Number = 0, splitNodePort = 0, splitNodePoint = 0\<rparr>"

record usb_request =
  req_Type :: u8
  req_Request :: UsbDeviceRequestRequest
  req_Value :: u16
  req_Index :: u16
  req_Length :: u16

definition request_bytes :: "usb_request \<Rightarrow> u8 list" where
  "request_bytes r = [req_Type r, request_code (req_Request r)] @ bytes16 (req_Value r) @ bytes16 (req_Index r) @ bytes16 (req_Length r)"

definition bmREQ_HUB_FEATURE :: u8 where "bmREQ_HUB_FEATURE = 0x00 OR 0x20 OR 0x00"
definition bmREQ_PORT_FEATURE :: u8 where "bmREQ_PORT_FEATURE = 0x00 OR 0x20 OR 0x03"
definition bmREQ_HUB_STATUS :: u8 where "bmREQ_HUB_STATUS = 0x80 OR 0x20 OR 0x00"
definition bmREQ_PORT_STATUS :: u8 where "bmREQ_PORT_STATUS = 0x80 OR 0x20 OR 0x03"
definition bmREQ_GET_HUB_DESCRIPTOR :: u8 where "bmREQ_GET_HUB_DESCRIPTOR = 0x80 OR 0x20 OR 0x00"
definition bmREQ_GET_DEVICE_DESCRIPTOR :: u8 where "bmREQ_GET_DEVICE_DESCRIPTOR = 0x80 OR 0x00 OR 0x00"

section \<open>Descriptors\<close>

record device_descriptor =
  bLength :: u8
  bDescriptorType :: u8
  bcdUSB :: u16
  bDeviceClass :: u8
  bDeviceSubClass :: u8
  bDeviceProtocol :: u8
  bMaxPacketSize0 :: u8
  idVendor :: u16
  idProduct :: u16
  bcdDevice :: u16
  iManufacturer :: u8
  iProduct :: u8
  iSerialNumber :: u8
  bNumConfigurations :: u8

definition device_descriptor_of :: "u8 list \<Rightarrow> device_descriptor" where
  "device_descriptor_of b =
     \<lparr>bLength = b ! 0, bDescriptorType = b ! 1, bcdUSB = le16 (b ! 2) (b ! 3), bDeviceClass = b ! 4,
      bDeviceSubClass = b ! 5, bDeviceProtocol = b ! 6, bMaxPacketSize0 = b ! 7, idVendor = le16 (b ! 8) (b ! 9),
      idProduct = le16 (b ! 10) (b ! 11), bcdDevice = le16 (b ! 12) (b ! 13), iManufacturer = b ! 14,
      iProduct = b ! 15, iSerialNumber = b ! 16, bNumConfigurations = b ! 17\<rparr>"

definition device_descriptor_bytes :: "device_descriptor \<Rightarrow> u8 list" where
  "device_descriptor_bytes d =
     [bLength d, bDescriptorType d] @ bytes16 (bcdUSB d) @
     [bDeviceClass d, bDeviceSubClass d, bDeviceProtocol d, bMaxPacketSize0 d] @
     bytes16 (idVendor d) @ bytes16 (idProduct d) @ bytes16 (bcdDevice d) @
     [iManufacturer d, iProduct d, iSerialNumber d, bNumConfigurations d]"

definition device_descriptor_zero :: device_descriptor where
  "device_descriptor_zero = device_descriptor_of (replicate 18 0)"

record configuration_descriptor =
  wTotalLength :: u16
  bNumInterfaces :: u8
  bConfigurationValue :: u8
  iConfiguration :: u8
  bmAttributes :: u8
  bMaxPower :: u8

definition configuration_descriptor_of :: "u8 list \<Rightarrow> configuration_descriptor" where
  "configuration_descriptor_of b =
     \<lparr>wTotalLength = le16 (b ! 2) (b ! 3), bNumInterfaces = b ! 4, bConfigurationValue = b ! 5,
      iConfiguration = b ! 6, bmAttributes = b ! 7, bMaxPower = b ! 8\<rparr>"

record interface_descriptor =
  if_Length :: u8
  if_Type :: u8
  if_Number :: u8
  AlternateSetting :: u8
  EndpointCount :: u8
  Class :: u8
  SubClass :: u8
  Protocol :: u8
  StringIndex :: u8

definition interface_of :: "u8 list \<Rightarrow> interface_descriptor" where
  "interface_of b =
     \<lparr>if_Length = b ! 0, if_Type = b ! 1, if_Number = b ! 2, AlternateSetting = b ! 3, EndpointCount = b ! 4,
      Class = b ! 5, SubClass = b ! 6, Protocol = b ! 7, StringIndex = b ! 8\<rparr>"

definition interface_zero :: interface_descriptor where
  "interface_zero = interface_of (replicate 9 0)"

record endpoint_descriptor =
  ep_Length :: u8
  ep_DescriptorType :: u8
  EndpointAddress :: u8
  Attributes :: u8
  Packet :: u16
  Interval :: u8

definition endpoint_of :: "u8 list \<Rightarrow> endpoint_descriptor" where
  "endpoint_of b =
     \<lparr>ep_Length = b ! 0, ep_DescriptorType = b ! 1, EndpointAddress = b ! 2, Attributes = b ! 3,
      Packet = le16 (b ! 4) (b ! 5), Interval = b ! 6\<rparr>"

definition endpoint_zero :: endpoint_descriptor where
  "endpoint_zero = endpoint_of (replicate 7 0)"

definition ep_Number :: "endpoint_descriptor \<Rightarrow> u8" where
  "ep_Number e = EndpointAddress e AND 0xF"

definition ep_Direction :: "endpoint_descriptor \<Rightarrow> UsbDirection" where
  "ep_Direction e = (if bit (EndpointAddress e) 7 then USB_DIRECTION_IN else USB_DIRECTION_OUT)"

definition ep_Type :: "endpoint_descriptor \<Rightarrow> usb_transfer_type" where
  "ep_Type e =
     [USB_TRANSFER_TYPE_CONTROL, USB_TRANSFER_TYPE_ISOCHRONOUS, USB_TRANSFER_TYPE_BULK, USB_TRANSFER_TYPE_INTERRUPT]
       ! unat (Attributes e AND 3)"

definition ep_MaxSize :: "endpoint_descriptor \<Rightarrow> u16" where
  "ep_MaxSize e = Packet e AND 0x7FF"

record hub_descriptor =
  hub_Length :: u8
  hub_Type :: u8
  PortCount :: u8
  hub_Attributes :: u16
  PowerGoodDelay :: u8
  MaximumHubPower :: u8
  DeviceRemovable :: u8
  PortPowerCtrlMask :: u8

definition hub_descriptor_of :: "u8 list \<Rightarrow> hub_descriptor" where
  "hub_descriptor_of b =
     \<lparr>hub_Length = b ! 0, hub_Type = b ! 1, PortCount = b ! 2, hub_Attributes = le16 (b ! 3) (b ! 4),
      PowerGoodDelay = b ! 5, MaximumHubPower = b ! 6, DeviceRemovable = b ! 7, PortPowerCtrlMask = b ! 8\<rparr>"

definition hub_descriptor_bytes :: "hub_descriptor \<Rightarrow> u8 list" where
  "hub_descriptor_bytes d =
     [hub_Length d, hub_Type d, PortCount d] @ bytes16 (hub_Attributes d) @
     [PowerGoodDelay d, MaximumHubPower d, DeviceRemovable d, PortPowerCtrlMask d]"

definition hub_descriptor_zero :: hub_descriptor where
  "hub_descriptor_zero = hub_descriptor_of (replicate 9 0)"

section \<open>Port status\<close>

record port_status =
  Connected :: bool
  Enabled :: bool
  Suspended :: bool
  OverCurrent :: bool
  LowSpeedAttatched :: bool
  HighSpeedAttatched :: bool
  ConnectedChanged :: bool
  EnabledChanged :: bool
  SuspendedChanged :: bool
  OverCurrentChanged :: bool
  ResetChanged :: bool

definition port_status_of :: "u8 list \<Rightarrow> port_status" where
  "port_status_of b =
     (let w = le32 b in
      \<lparr>Connected = bit w 0, Enabled = bit w 1, Suspended = bit w 2, OverCurrent = bit w 3,
       LowSpeedAttatched = bit w 9, HighSpeedAttatched = bit w 10,
       ConnectedChanged = bit w 16, EnabledChanged = bit w 17, SuspendedChanged = bit w 18,
       OverCurrentChanged = bit w 19, ResetChanged = bit w 20\<rparr>)"

section \<open>Decoding and encoding\<close>

lemma bytes16_le16: "bytes16 (le16 lo hi) = [lo, hi]"
  by (auto simp: bytes16_def le16_def intro!: bit_word_eqI)
    (auto simp: bit_simps dest: bit_imp_le_length)

lemma le16_bytes16: "le16 (ucast w) (ucast (drop_bit 8 w)) = w"
  by (rule bit_word_eqI) (auto simp: le16_def bit_simps)

lemma length_bytes16 [simp]: "length (bytes16 w) = 2"
  by (simp add: bytes16_def)

lemma length_request_bytes [simp]: "length (request_bytes r) = 8"
  by (simp add: request_bytes_def)

lemma device_descriptor_of_bytes: "device_descriptor_of (device_descriptor_bytes d) = d"
  by (simp add: device_descriptor_of_def device_descriptor_bytes_def bytes16_def le16_bytes16)

lemma hub_descriptor_of_bytes: "hub_descriptor_of (hub_descriptor_bytes d) = d"
  by (simp add: hub_descriptor_of_def hub_descriptor_bytes_def bytes16_def le16_bytes16)

lemma length_device_descriptor_bytes [simp]: "length (device_descriptor_bytes d) = 18"
  by (simp add: device_descriptor_bytes_def)

lemma length_hub_descriptor_bytes [simp]: "length (hub_descriptor_bytes d) = 9"
  by (simp add: hub_descriptor_bytes_def)

end
