(* ===== verification/Keyboard.thy ===== *)
theory Keyboard
  imports Cpu_Time Usb_Spec
begin

text \<open>
  The keyboard of \<^verbatim>\<open>src/Keyboard.cpp\<close>: the table from characters to key codes, the key states kept from the
  interrupt reports, and the query. The counter's value and the outcome of reading a report are
  arguments: the status and the eight bytes.
\<close>

section \<open>State\<close>

record key_modifiers =
  LeftCtrl :: bool
  LeftShift :: bool
  LeftAlt :: bool
  LeftGui :: bool
  RightCtrl :: bool
  RightShift :: bool
  RightAlt :: bool
  RightGui :: bool

definition modifiers_of :: "u8 \<Rightarrow> key_modifiers" where
  "modifiers_of b =
     \<lparr>LeftCtrl = bit b 0, LeftShift = bit b 1, LeftAlt = bit b 2, LeftGui = bit b 3,
      RightCtrl = bit b 4, RightShift = bit b 5, RightAlt = bit b 6, RightGui = bit b 7\<rparr>"

record keyboard =
  firstKbd :: u8
  PressedKeys :: "u8 list"
  KeyStates :: "u8 \<Rightarrow> bool"
  ModifierStates :: key_modifiers
  nextRefresh :: u64

definition keyboard_zero :: keyboard where
  "keyboard_zero =
     \<lparr>firstKbd = 0, PressedKeys = replicate 6 0, KeyStates = (\<lambda>_. False), ModifierStates = modifiers_of 0, nextRefresh = 0\<rparr>"

section \<open>Operations\<close>

definition CharToKeyCode :: "u8 list" where
  "CharToKeyCode =
     (let k0 = replicate 256 1;
          k1 = fold (\<lambda>c k. k[c := of_nat (c - 97 + 4)]) [97..<123] k0;
          k2 = fold (\<lambda>c k. k[c := of_nat (c - 65 + 4)]) [65..<91] k1;
          k3 = fold (\<lambda>c k. k[c := of_nat (c - 48 + 30)]) [48..<58] k2 in
      k3[32 := 44, 10 := 40, 13 := 40, 9 := 43])"

definition Keyboard_Init :: "(nat \<Rightarrow> bool) \<Rightarrow> keyboard \<Rightarrow> keyboard" where
  "Keyboard_Init IsKeyboard s =
     (case find IsKeyboard [1..<MaximumDevices + 1] of None \<Rightarrow> s | Some i \<Rightarrow> s\<lparr>firstKbd := of_nat i\<rparr>)"

fun clear_loop :: "nat \<Rightarrow> u8 list \<Rightarrow> keyboard \<Rightarrow> keyboard" where
  "clear_loop i [] s = s"
| "clear_loop i (b # bs) s =
     clear_loop (i + 1) bs
       (if b \<noteq> 1 then s\<lparr>KeyStates := (KeyStates s)(PressedKeys s ! i := False), PressedKeys := (PressedKeys s)[i := 0]\<rparr> else s)"

fun press_loop :: "nat \<Rightarrow> u8 list \<Rightarrow> keyboard \<Rightarrow> keyboard" where
  "press_loop i [] s = s"
| "press_loop i (key # bs) s =
     press_loop (i + 1) bs
       (if key = 1 then s else s\<lparr>PressedKeys := (PressedKeys s)[i := key], KeyStates := (KeyStates s)(key := True)\<rparr>)"

definition RefreshStateIfNeeded :: "u64 \<Rightarrow> bool \<times> u8 list \<Rightarrow> keyboard \<Rightarrow> keyboard" where
  "RefreshStateIfNeeded time report s =
     (if firstKbd s = 0 then s
      else if \<not> time_less time (nextRefresh s) then
        (let (ok, buf) = report in
         if ok then
           let s1 = s\<lparr>nextRefresh := time_add time 10000, ModifierStates := modifiers_of (buf ! 0)\<rparr> in
           press_loop 0 (drop 2 buf) (clear_loop 0 (drop 2 buf) s1)
         else s\<lparr>nextRefresh := time_add time 1000\<rparr>)
      else s)"

definition IsKeyPressed :: "nat \<Rightarrow> u64 \<Rightarrow> bool \<times> u8 list \<Rightarrow> keyboard \<Rightarrow> bool \<times> keyboard" where
  "IsKeyPressed key time report s =
     (let s1 = RefreshStateIfNeeded time report s in (KeyStates s1 (CharToKeyCode ! key), s1))"

section \<open>Key states and reports\<close>

text \<open>
  Only keys of the remembered slots are held (the empty slot's code 0 aside), and the rollover code is in
  no slot.
\<close>

definition keyboard_ok :: "keyboard \<Rightarrow> bool" where
  "keyboard_ok s \<longleftrightarrow> length (PressedKeys s) = 6 \<and> (\<forall>k. KeyStates s k \<longrightarrow> k = 0 \<or> k \<in> set (PressedKeys s)) \<and> 1 \<notin> set (PressedKeys s)"

definition refresh_all :: "(u64 \<times> bool \<times> u8 list) list \<Rightarrow> keyboard \<Rightarrow> keyboard" where
  "refresh_all = fold (\<lambda>(time, report). RefreshStateIfNeeded time report)"

lemma held_elsewhere: "\<lbrakk>k \<in> set ks; ks ! i \<noteq> k\<rbrakk> \<Longrightarrow> k \<in> set (ks[i := v])"
  by (metis in_set_conv_nth length_list_update nth_list_update_neq)

lemma clear_one_ok:
  assumes "keyboard_ok s"
  shows "keyboard_ok (s\<lparr>KeyStates := (KeyStates s)(PressedKeys s ! i := False), PressedKeys := (PressedKeys s)[i := 0]\<rparr>)"
  using assms set_update_subset_insert [of "PressedKeys s" i 0] by (auto simp: keyboard_ok_def intro: held_elsewhere)

lemma clear_loop_ok: "keyboard_ok s \<Longrightarrow> keyboard_ok (clear_loop i bs s)"
  by (induction i bs s rule: clear_loop.induct) (simp_all add: clear_one_ok)

lemma clear_loop_slots:
  assumes "length (PressedKeys s) = 6" and "i + length bs \<le> 6" and "j < 6"
  shows "PressedKeys (clear_loop i bs s) ! j =
    (if i \<le> j \<and> j < i + length bs \<and> bs ! (j - i) \<noteq> 1 then 0 else PressedKeys s ! j)"
  using assms
proof (induction i bs s rule: clear_loop.induct)
  case (2 i b bs s)
  have "j = i \<or> j < i \<or> (\<exists>k. j = i + 1 + k)" by (metis less_iff_Suc_add linorder_neqE_nat Suc_eq_plus1 add_Suc_right add.commute add_Suc)
  then show ?case using 2 by (auto simp: nth_list_update)
qed auto

lemma press_one_ok:
  assumes "keyboard_ok s" and "i < 6" and "PressedKeys s ! i = 0" and "b \<noteq> 1"
  shows "keyboard_ok (s\<lparr>PressedKeys := (PressedKeys s)[i := b], KeyStates := (KeyStates s)(b := True)\<rparr>)"
  using assms set_update_subset_insert [of "PressedKeys s" i b] by (auto simp: keyboard_ok_def intro: held_elsewhere set_update_memI)

lemma press_loop_ok:
  assumes "keyboard_ok s" and "i + length bs \<le> 6" and "\<And>j. \<lbrakk>j < length bs; bs ! j \<noteq> 1\<rbrakk> \<Longrightarrow> PressedKeys s ! (i + j) = 0"
  shows "keyboard_ok (press_loop i bs s)"
  using assms
proof (induction i bs s rule: press_loop.induct)
  case (2 i b bs s)
  let ?s = "s\<lparr>PressedKeys := (PressedKeys s)[i := b], KeyStates := (KeyStates s)(b := True)\<rparr>"
  have "keyboard_ok ?s" if "b \<noteq> 1" using press_one_ok [of s i b] "2.prems"(1,2) "2.prems"(3) [of 0] that by simp
  moreover have "PressedKeys (if b = 1 then s else ?s) ! (i + 1 + j) = 0" if "j < length bs" "bs ! j \<noteq> 1" for j
    using "2.prems"(3) [of "Suc j"] that by simp
  ultimately show ?case using 2 by (auto split: if_splits)
qed simp

lemma press_loop_states: "KeyStates (press_loop i bs s) k \<longleftrightarrow> KeyStates s k \<or> k \<in> set bs \<and> k \<noteq> 1"
  by (induction i bs s rule: press_loop.induct) auto

lemma rollover_loops: "set bs \<subseteq> {1} \<Longrightarrow> clear_loop i bs s = s \<and> press_loop i bs s = s"
  by (induction bs arbitrary: i) auto

lemma RefreshStateIfNeeded_ok:
  assumes "keyboard_ok s" and "length (snd report) = 8"
  shows "keyboard_ok (RefreshStateIfNeeded time report s)"
proof -
  obtain ok buf where report: "report = (ok, buf)" by (cases report)
  let ?s = "s\<lparr>nextRefresh := time_add time 10000, ModifierStates := modifiers_of (buf ! 0)\<rparr>"
  have ok: "keyboard_ok ?s" using assms(1) by (simp add: keyboard_ok_def)
  have "PressedKeys (clear_loop 0 (drop 2 buf) ?s) ! j = 0" if "j < length (drop 2 buf)" "drop 2 buf ! j \<noteq> 1" for j
    using clear_loop_slots [of ?s 0 "drop 2 buf" j] that assms report ok by (simp add: keyboard_ok_def)
  then have "keyboard_ok (press_loop 0 (drop 2 buf) (clear_loop 0 (drop 2 buf) ?s))"
    using assms(2) report by (intro press_loop_ok clear_loop_ok ok) simp_all
  moreover have "keyboard_ok (s\<lparr>nextRefresh := time_add time 1000\<rparr>)" using assms(1) by (simp add: keyboard_ok_def)
  ultimately show ?thesis using assms(1) report by (simp add: RefreshStateIfNeeded_def Let_def)
qed

lemma refresh_all_ok:
  "\<lbrakk>keyboard_ok s; \<forall>(time, report) \<in> set evs. length (snd report) = 8\<rbrakk> \<Longrightarrow> keyboard_ok (refresh_all evs s)"
  by (induction evs arbitrary: s) (auto simp: refresh_all_def RefreshStateIfNeeded_ok)

lemma Keyboard_Init_ok: "keyboard_ok (Keyboard_Init IsKeyboard keyboard_zero)"
  by (simp add: Keyboard_Init_def keyboard_ok_def keyboard_zero_def split: option.split)

lemma all_cleared:
  assumes "keyboard_ok s" and "length bs = 6" and "1 \<notin> set bs" and "KeyStates (clear_loop 0 bs s) k"
  shows "k = 0"
proof -
  have len: "length (PressedKeys (clear_loop 0 bs s)) = 6" using clear_loop_ok [OF assms(1)] by (simp add: keyboard_ok_def)
  have "PressedKeys (clear_loop 0 bs s) ! j = 0" if "j < 6" for j
  proof -
    have "bs ! j \<noteq> 1" using assms(2,3) that by (metis nth_mem)
    then show ?thesis using clear_loop_slots [of s 0 bs j] assms(1,2) that by (simp add: keyboard_ok_def)
  qed
  then have "set (PressedKeys (clear_loop 0 bs s)) \<subseteq> {0}" using len by (auto simp: in_set_conv_nth)
  with clear_loop_ok [OF assms(1), of 0 bs] assms(4) show ?thesis by (auto simp: keyboard_ok_def)
qed

lemma key_codes: "length CharToKeyCode = 256" "list_all (\<lambda>c. c \<noteq> 0) CharToKeyCode"
  by code_simp+

section \<open>Properties\<close>

text \<open>
  C37. A key shows as pressed exactly when the last report names it: after any history of reads, with
  failed ones and reports with rollover among them, a read that is due and returns a report without
  rollover makes the query answer whether the character's key code is in that report.
\<close>

theorem keys_follow_reports:
  assumes "\<forall>(time, report) \<in> set evs. length (snd report) = 8" and "s = refresh_all evs (Keyboard_Init IsKeyboard keyboard_zero)"
    and "firstKbd s \<noteq> 0" and "\<not> time_less time (nextRefresh s)"
    and "length buf = 8" and "1 \<notin> set (drop 2 buf)" and "key < 256"
  shows "fst (IsKeyPressed key time (True, buf) s) \<longleftrightarrow> CharToKeyCode ! key \<in> set (drop 2 buf)"
proof -
  let ?s = "s\<lparr>nextRefresh := time_add time 10000, ModifierStates := modifiers_of (buf ! 0)\<rparr>"
  have "keyboard_ok ?s" using refresh_all_ok [OF Keyboard_Init_ok assms(1)] assms(2) by (simp add: keyboard_ok_def)
  then have "KeyStates (clear_loop 0 (drop 2 buf) ?s) (CharToKeyCode ! key) \<Longrightarrow> CharToKeyCode ! key = 0"
    using assms(5,6) by (intro all_cleared) simp_all
  moreover have "CharToKeyCode ! key \<noteq> 0" using key_codes assms(7) by (simp add: list_all_length)
  ultimately show ?thesis using assms(3,4,6) by (auto simp: IsKeyPressed_def RefreshStateIfNeeded_def Let_def press_loop_states)
qed

lemma keys_follow_reports_witness:
  "\<exists>s. fst (IsKeyPressed 97 20000 (True, [0, 0, 4, 0, 0, 0, 0, 0]) s) \<and> \<not> fst (IsKeyPressed 98 20000 (True, [0, 0, 4, 0, 0, 0, 0, 0]) s)"
proof -
  let ?evs = "[(5 :: u64, True, [0, 0, 5, 0, 0, 0, 0, 0] :: u8 list)]"
  define s where "s = refresh_all ?evs (Keyboard_Init (\<lambda>i. i = 3) keyboard_zero)"
  have s: "firstKbd s \<noteq> 0" "\<not> time_less 20000 (nextRefresh s)"
    by (simp_all add: s_def refresh_all_def RefreshStateIfNeeded_def Keyboard_Init_def keyboard_zero_def MaximumDevices_def time_less_def time_diff_def time_add_def upt_rec)
  have "CharToKeyCode ! 97 = 4" "CharToKeyCode ! 98 = 5" by code_simp+
  then show ?thesis using keys_follow_reports [OF _ s_def s, of "[0, 0, 4, 0, 0, 0, 0, 0]" 97] keys_follow_reports [OF _ s_def s, of "[0, 0, 4, 0, 0, 0, 0, 0]" 98]
    by auto
qed

text \<open>
  Nothing shows as pressed by mistake: after any history of reads a character without a key
  code is never pressed, and a failed read, a read that is not due or a report of nothing but rollover
  changes no key.
\<close>

theorem no_phantom_keys:
  assumes "\<forall>(time, report) \<in> set evs. length (snd report) = 8" and "s = refresh_all evs (Keyboard_Init IsKeyboard keyboard_zero)"
    and "length (snd report) = 8"
  shows "(\<forall>key. CharToKeyCode ! key = 1 \<longrightarrow> \<not> fst (IsKeyPressed key time report s)) \<and>
    (\<not> fst report \<or> time_less time (nextRefresh s) \<or> set (drop 2 (snd report)) = {1} \<longrightarrow>
      KeyStates (RefreshStateIfNeeded time report s) = KeyStates s \<and> PressedKeys (RefreshStateIfNeeded time report s) = PressedKeys s)"
proof -
  have "keyboard_ok s" unfolding assms(2) by (intro refresh_all_ok Keyboard_Init_ok assms(1))
  then have "keyboard_ok (RefreshStateIfNeeded time report s)" using assms(3) by (rule RefreshStateIfNeeded_ok)
  then have "\<not> KeyStates (RefreshStateIfNeeded time report s) 1" by (auto simp: keyboard_ok_def)
  then show ?thesis using rollover_loops [of "drop 2 (snd report)" 0]
    by (auto simp: IsKeyPressed_def Let_def RefreshStateIfNeeded_def split: prod.splits)
qed

lemma no_phantom_keys_witness:
  "\<not> fst (IsKeyPressed 33 7 (True, replicate 8 1) (refresh_all [] (Keyboard_Init (\<lambda>i. i = 3) keyboard_zero)))"
proof -
  have "CharToKeyCode ! 33 = 1" by code_simp
  then show ?thesis using no_phantom_keys [of "[]" _ "\<lambda>i. i = 3" "(True, replicate 8 1)" 7] by simp
qed

end
