(* ===== verification/Gamepad.thy ===== *)
theory Gamepad
  imports Cpu_Time Usb_Spec
begin

text \<open>
  The gamepad of \<^verbatim>\<open>src/Gamepad.cpp\<close>: the choice of the device, the two report decoders and the queries.
  What the USB stack says of a device, the counter's values and the outcome of reading a report, its
  status and bytes, are arguments. Messages that are only printed are left out.
\<close>

section \<open>State\<close>

datatype Button = ButtonA | ButtonB | ButtonX | ButtonY | LeftBumper | RightBumper | ButtonLeftTrigger | ButtonRightTrigger | Back | Start | Center
  | LeftStick | RightStick | DPadUp | DPadDown | DPadLeft | DPadRight | AnyUp | AnyDown | AnyLeft | AnyRight

datatype Axis = LeftX | LeftY | RightX | RightY | AxisLeftTrigger | AxisRightTrigger

datatype Device = NoDevice | DragonRise | NintendoSwitchPro

record gamepad =
  firstGamepad :: u8
  firstGamepadType :: Device
  ButtonStates :: "Button \<Rightarrow> bool"
  AxisStates :: "Axis \<Rightarrow> u16"
  pad_nextRefresh :: u64

definition gamepad_zero :: gamepad where
  "gamepad_zero =
     \<lparr>firstGamepad = 0, firstGamepadType = NoDevice, ButtonStates = (\<lambda>_. False), AxisStates = (\<lambda>_. 0), pad_nextRefresh = 0\<rparr>"

definition word16 :: "u8 \<Rightarrow> u8 \<Rightarrow> u16" where
  "word16 lo hi = ucast lo OR push_bit 8 (ucast hi)"

definition axis8 :: "u8 \<Rightarrow> u16" where
  "axis8 v = of_int (sint (v - 128) * 256)"

definition axis16 :: "u16 \<Rightarrow> u16" where
  "axis16 v = of_int (sint (v - 0x7F0) * 16)"

section \<open>DragonRise\<close>

record dragonrise_report =
  dr_buttons :: u16
  dr_x :: u8
  dr_y :: u8

definition dragonrise_decode :: "u8 list \<Rightarrow> dragonrise_report" where
  "dragonrise_decode b = \<lparr>dr_buttons = word16 (b ! 0) (b ! 1) AND 0x1FFF, dr_x = b ! 3, dr_y = b ! 4\<rparr>"

definition DragonRise_RefreshState :: "u64 \<Rightarrow> bool \<times> u8 list \<Rightarrow> gamepad \<Rightarrow> u64 \<times> gamepad" where
  "DragonRise_RefreshState freq read s =
     (let (ok, bytes) = read; r = dragonrise_decode bytes in
      if ok then
        let b1 = (ButtonStates s)
              (ButtonA := bit (dr_buttons r) 1, ButtonB := bit (dr_buttons r) 2, ButtonX := bit (dr_buttons r) 0, ButtonY := bit (dr_buttons r) 3,
               LeftBumper := bit (dr_buttons r) 4, RightBumper := bit (dr_buttons r) 5,
               Back := bit (dr_buttons r) 8, Start := bit (dr_buttons r) 9,
               DPadUp := dr_y r < 64, DPadDown := dr_y r > 192, DPadRight := dr_x r > 192, DPadLeft := dr_x r < 64);
            b2 = b1(AnyUp := b1 DPadUp, AnyDown := b1 DPadDown, AnyRight := b1 DPadRight, AnyLeft := b1 DPadLeft) in
        (GetPerformanceTicksForMs freq 20,
         s\<lparr>ButtonStates := b2, AxisStates := (AxisStates s)(LeftX := axis8 (dr_x r), LeftY := axis8 (dr_y r))\<rparr>)
      else (GetPerformanceTicksForMs freq 1, s))"

section \<open>Nintendo Switch Pro\<close>

record switch_report =
  report_id :: u8
  sw_buttons :: u8
  sw_buttons2 :: u8
  sw_buttons3 :: u8
  sw_leftX :: u16
  sw_leftY :: u8
  sw_rightX :: u16
  sw_rightY :: u8

definition switch_decode :: "u8 list \<Rightarrow> switch_report" where
  "switch_decode b =
     \<lparr>report_id = b ! 0, sw_buttons = b ! 3, sw_buttons2 = b ! 4, sw_buttons3 = b ! 5,
      sw_leftX = word16 (b ! 6) (b ! 7), sw_leftY = b ! 8, sw_rightX = word16 (b ! 9) (b ! 10), sw_rightY = b ! 11\<rparr>"

definition switch_states :: "switch_report \<Rightarrow> gamepad \<Rightarrow> gamepad" where
  "switch_states r s =
     (let b1 = (ButtonStates s)
           (ButtonA := bit (sw_buttons r) 2, ButtonB := bit (sw_buttons r) 3, ButtonX := bit (sw_buttons r) 0, ButtonY := bit (sw_buttons r) 1,
            LeftBumper := bit (sw_buttons3 r) 6, RightBumper := bit (sw_buttons r) 6,
            ButtonLeftTrigger := bit (sw_buttons3 r) 7, ButtonRightTrigger := bit (sw_buttons r) 7,
            Back := bit (sw_buttons2 r) 0, Start := bit (sw_buttons2 r) 1, Center := bit (sw_buttons2 r) 4,
            LeftStick := bit (sw_buttons2 r) 2, RightStick := bit (sw_buttons2 r) 3,
            DPadUp := bit (sw_buttons3 r) 1, DPadDown := bit (sw_buttons3 r) 0,
            DPadRight := bit (sw_buttons3 r) 2, DPadLeft := bit (sw_buttons3 r) 3);
         b2 = b1
           (AnyUp := b1 DPadUp \<or> sw_leftY r > 192, AnyDown := b1 DPadDown \<or> sw_leftY r < 64,
            AnyRight := b1 DPadRight \<or> sw_leftX r > 0xC00, AnyLeft := b1 DPadLeft \<or> sw_leftX r < 0x400) in
      s\<lparr>ButtonStates := b2,
        AxisStates := (AxisStates s)
          (LeftX := axis16 (sw_leftX r), LeftY := axis8 (sw_leftY r), RightX := axis16 (sw_rightX r), RightY := axis8 (sw_rightY r))\<rparr>)"

definition NintendoSwitchPro_RefreshState :: "u64 \<Rightarrow> bool \<times> u8 list \<Rightarrow> gamepad \<Rightarrow> u64 \<times> gamepad" where
  "NintendoSwitchPro_RefreshState freq read s =
     (let (ok, bytes) = read; r = switch_decode bytes in
      if ok then
        if report_id r \<noteq> 0x30 then (GetPerformanceTicksForMs freq 1, s)
        else (GetPerformanceTicksForMs freq 20, switch_states r s)
      else (GetPerformanceTicksForMs freq 1, s))"

section \<open>The first gamepad\<close>

fun find_gamepad :: "(nat \<Rightarrow> bool) \<Rightarrow> (nat \<Rightarrow> device_descriptor) \<Rightarrow> nat list \<Rightarrow> (nat \<times> Device) option" where
  "find_gamepad IsHid GetDeviceDescriptor [] = None"
| "find_gamepad IsHid GetDeviceDescriptor (i # is) =
     (if \<not> IsHid i then find_gamepad IsHid GetDeviceDescriptor is
      else let descriptor = GetDeviceDescriptor i in
        if bDeviceProtocol descriptor \<noteq> 0 then find_gamepad IsHid GetDeviceDescriptor is
        else if idVendor descriptor = 121 \<and> idProduct descriptor = 294 then Some (i, DragonRise)
        else if idVendor descriptor = 1406 \<and> idProduct descriptor = 8201 then Some (i, NintendoSwitchPro)
        else None)"

definition Gamepad_Init :: "(nat \<Rightarrow> bool) \<Rightarrow> (nat \<Rightarrow> device_descriptor) \<Rightarrow> gamepad \<Rightarrow> gamepad" where
  "Gamepad_Init IsHid GetDeviceDescriptor s =
     (case find_gamepad IsHid GetDeviceDescriptor [1..<33] of
        None \<Rightarrow> s
      | Some (i, t) \<Rightarrow> s\<lparr>firstGamepad := of_nat i, firstGamepadType := t\<rparr>)"

section \<open>Queries\<close>

text \<open>\<open>time\<close> is the counter before the report is read and \<open>time'\<close> the counter after it.\<close>

definition Gamepad_RefreshStateIfNeeded :: "u64 \<Rightarrow> u64 \<Rightarrow> u64 \<Rightarrow> bool \<times> u8 list \<Rightarrow> gamepad \<Rightarrow> gamepad" where
  "Gamepad_RefreshStateIfNeeded freq time time' read s =
     (if firstGamepad s = 0 then s
      else if \<not> time_less time (pad_nextRefresh s) then
        case firstGamepadType s of
          NintendoSwitchPro \<Rightarrow>
            let (nextRefreshDelay, s1) = NintendoSwitchPro_RefreshState freq read s in s1\<lparr>pad_nextRefresh := time' + nextRefreshDelay\<rparr>
        | DragonRise \<Rightarrow>
            let (nextRefreshDelay, s1) = DragonRise_RefreshState freq read s in s1\<lparr>pad_nextRefresh := time' + nextRefreshDelay\<rparr>
        | NoDevice \<Rightarrow> s\<lparr>pad_nextRefresh := 0xFFFFFFFFFFFFFFFF\<rparr>
      else s)"

definition IsButtonPressed :: "u64 \<Rightarrow> u64 \<Rightarrow> u64 \<Rightarrow> bool \<times> u8 list \<Rightarrow> Button \<Rightarrow> gamepad \<Rightarrow> bool \<times> gamepad" where
  "IsButtonPressed freq time time' read button s =
     (let s1 = Gamepad_RefreshStateIfNeeded freq time time' read s in (ButtonStates s1 button, s1))"

definition GetAxisState :: "u64 \<Rightarrow> u64 \<Rightarrow> u64 \<Rightarrow> bool \<times> u8 list \<Rightarrow> Axis \<Rightarrow> gamepad \<Rightarrow> int \<times> gamepad" where
  "GetAxisState freq time time' read axis s =
     (let s1 = Gamepad_RefreshStateIfNeeded freq time time' read s in (sint (AxisStates s1 axis), s1))"

section \<open>Axes\<close>

lemma sint_small_u16: "\<lbrakk>- 32768 \<le> k; k < 32768\<rbrakk> \<Longrightarrow> sint (of_int k :: u16) = k"
  by (simp add: signed_of_int signed_take_bit_int_eq_self)

lemma sint_of_int_u8: "\<lbrakk>- 128 \<le> k; k < 128\<rbrakk> \<Longrightarrow> sint (of_int k :: u8) = k"
  by (simp add: signed_of_int signed_take_bit_int_eq_self)

lemma sint_axis8: "sint (axis8 v) = 256 * (uint v - 128)"
proof -
  have v: "0 \<le> uint v" "uint v < 2 ^ LENGTH(8)" by (simp, rule unsigned_less)
  have "v - 128 = of_int (uint v - 128)" by simp
  then have "sint (v - 128) = uint v - 128" using v sint_of_int_u8 [of "uint v - 128"] by simp
  then show ?thesis using v sint_small_u16 [of "(uint v - 128) * 256"] by (simp add: axis8_def)
qed

lemma axis16_low: "axis16 v = of_int (16 * (int (unat v mod 4096) - 2032))"
proof -
  have "axis16 v = (v - 0x7F0) * 16" by (simp add: axis16_def)
  also have "\<dots> = of_int (16 * (int (unat v) - 2032))" by (simp add: algebra_simps)
  also have "\<dots> = of_int (16 * (int (unat v mod 4096) - 2032) + 65536 * int (unat v div 4096))"
  proof -
    have "unat v = 4096 * (unat v div 4096) + unat v mod 4096" by simp
    then have "int (unat v) = 4096 * int (unat v div 4096) + int (unat v mod 4096)" by linarith
    then show ?thesis by (simp add: algebra_simps)
  qed
  also have "\<dots> = of_int (16 * (int (unat v mod 4096) - 2032))"
  proof -
    have "(65536 :: u16) = 0" by simp
    then show ?thesis by (simp only: of_int_add of_int_mult of_int_numeral mult_zero_left add_0_right)
  qed
  finally show ?thesis .
qed

lemma sint_axis16:
  "sint (axis16 v) =
    (let p = 16 * (int (unat v mod 4096) - 2032) in if unat v mod 4096 < 4080 then p else p - 65536)"
proof -
  let ?l = "unat v mod 4096"
  have l: "?l < 4096" by simp
  show ?thesis
  proof (cases "?l < 4080")
    case True
    then show ?thesis using sint_small_u16 [of "16 * (int ?l - 2032)"] by (simp add: axis16_low)
  next
    case False
    have "axis16 v = of_int (16 * (int ?l - 2032) - 65536)" by (simp add: axis16_low)
    then show ?thesis using False l sint_small_u16 [of "16 * (int ?l - 2032) - 65536"] by simp
  qed
qed

section \<open>Properties\<close>

text \<open>
  The sticks: a DragonRise report that is read when due gives axes of exactly 256 times the distance
  from the centre, and each direction button is pressed exactly when its axis is past half way. A
  Switch Pro report gives 16 times the distance of its 12-bit reading from \<^verbatim>\<open>0x7F0\<close>, but the 16 largest
  readings wrap around: a stick held fully to the right reads as fully to the left.
\<close>

theorem stick_axes:
  assumes "firstGamepad s \<noteq> 0" and "\<not> time_less time (pad_nextRefresh s)"
    and "s' = Gamepad_RefreshStateIfNeeded freq time time' (True, bytes) s"
  shows "(firstGamepadType s = DragonRise \<longrightarrow>
      sint (AxisStates s' LeftX) = 256 * (uint (bytes ! 3) - 128) \<and> sint (AxisStates s' LeftY) = 256 * (uint (bytes ! 4) - 128) \<and>
      (ButtonStates s' AnyLeft \<longleftrightarrow> sint (AxisStates s' LeftX) < -16384) \<and> (ButtonStates s' AnyRight \<longleftrightarrow> 16384 < sint (AxisStates s' LeftX)) \<and>
      (ButtonStates s' AnyUp \<longleftrightarrow> sint (AxisStates s' LeftY) < -16384) \<and> (ButtonStates s' AnyDown \<longleftrightarrow> 16384 < sint (AxisStates s' LeftY))) \<and>
    (firstGamepadType s = NintendoSwitchPro \<and> bytes ! 0 = 0x30 \<longrightarrow>
      (let p = int (unat (word16 (bytes ! 6) (bytes ! 7)) mod 4096) in
       sint (AxisStates s' LeftX) = (if p < 4080 then 16 * (p - 2032) else 16 * (p - 2032) - 65536)))"
  using assms(1,2) unfolding assms(3)
  by (auto simp: Gamepad_RefreshStateIfNeeded_def DragonRise_RefreshState_def NintendoSwitchPro_RefreshState_def Let_def
      dragonrise_decode_def switch_decode_def switch_states_def sint_axis8 sint_axis16 word_less_alt)

lemma stick_axes_witness:
  "sint (AxisStates (Gamepad_RefreshStateIfNeeded 54000000 5 6 (True, [0x30, 0, 0, 0, 0, 0, 0xFF, 0x0F, 0x80, 0, 8, 0x80])
     (gamepad_zero\<lparr>firstGamepad := 3, firstGamepadType := NintendoSwitchPro\<rparr>)) LeftX) = -32528"
proof -
  have "word16 0xFF 0x0F = 0xFFF" by (simp add: word16_def)
  then show ?thesis
    using stick_axes [of "gamepad_zero\<lparr>firstGamepad := 3, firstGamepadType := NintendoSwitchPro\<rparr>" 5 _ 54000000 6 "[0x30, 0, 0, 0, 0, 0, 0xFF, 0x0F, 0x80, 0, 8, 0x80]"]
    by (simp add: gamepad_zero_def time_less_def time_diff_def)
qed

text \<open>The search for a gamepad stops at the first generic HID device, whatever it is.\<close>

lemma search_stops_at_other_device:
  assumes "IsHid i" and "bDeviceProtocol (descr i) = 0" and "idVendor (descr i) \<noteq> 121" and "idVendor (descr i) \<noteq> 1406"
  shows "find_gamepad IsHid descr (i # is) = None"
  using assms by (simp add: Let_def)

end
