(* ===== verification/Device_Tree.thy ===== *)
theory Device_Tree
  imports Crt
begin

text \<open>
  The flattened device tree of \<^verbatim>\<open>src/DeviceTree.cpp\<close>: the header, the memory reservations and the walk over
  the structure block, on top of the memory and the string routines of the C runtime. What is
  printed is kept as lines, each a label with the numbers printed with it. The addresses of the string
  literals are an argument; a walk that does not end is \<open>None\<close>.
\<close>

section \<open>Numbers and the header\<close>

definition FDT_MAGIC :: u32 where "FDT_MAGIC = 0xd00dfeed"
definition FDT_BEGIN_NODE :: u32 where "FDT_BEGIN_NODE = 1"
definition FDT_END_NODE :: u32 where "FDT_END_NODE = 2"
definition FDT_PROP :: u32 where "FDT_PROP = 3"
definition FDT_NOP :: u32 where "FDT_NOP = 4"
definition FDT_END :: u32 where "FDT_END = 9"

definition fdt32_to_cpu :: "u32 \<Rightarrow> u32" where
  "fdt32_to_cpu x =
     drop_bit 24 (x AND 0xFF000000) OR drop_bit 8 (x AND 0x00FF0000) OR
     push_bit 8 (x AND 0x0000FF00) OR push_bit 24 (x AND 0x000000FF)"

record fdt_header =
  magic :: u32
  totalsize :: u32
  off_dt_struct :: u32
  off_dt_strings :: u32
  off_mem_rsvmap :: u32
  version :: u32
  last_comp_version :: u32
  boot_cpuid_phys :: u32
  size_dt_strings :: u32
  size_dt_struct :: u32

definition read_header :: "memory \<Rightarrow> nat \<Rightarrow> fdt_header" where
  "read_header m a =
     \<lparr>magic = load32 a m, totalsize = load32 (a + 4) m, off_dt_struct = load32 (a + 8) m, off_dt_strings = load32 (a + 12) m,
      off_mem_rsvmap = load32 (a + 16) m, version = load32 (a + 20) m, last_comp_version = load32 (a + 24) m,
      boot_cpuid_phys = load32 (a + 28) m, size_dt_strings = load32 (a + 32) m, size_dt_struct = load32 (a + 36) m\<rparr>"

type_synonym dtb_line = "string \<times> u64 list"

definition header_lines :: "fdt_header \<Rightarrow> dtb_line list" where
  "header_lines hdr =
     [(''DTB magic found'', []),
      (''DTB total size'', [ucast (fdt32_to_cpu (totalsize hdr))]),
      (''DTB structure offset'', [ucast (fdt32_to_cpu (off_dt_struct hdr))]),
      (''DTB strings offset'', [ucast (fdt32_to_cpu (off_dt_strings hdr))]),
      (''DTB version'', [ucast (fdt32_to_cpu (version hdr))]),
      (''DTB last compatible version'', [ucast (fdt32_to_cpu (last_comp_version hdr))]),
      (''DTB boot CPU ID'', [ucast (fdt32_to_cpu (boot_cpuid_phys hdr))]),
      (''DTB size of strings'', [ucast (fdt32_to_cpu (size_dt_strings hdr))]),
      (''DTB size of structure'', [ucast (fdt32_to_cpu (size_dt_struct hdr))]),
      (''DTB memory reservation map offset'', [ucast (fdt32_to_cpu (off_mem_rsvmap hdr))])]"

partial_function (option) rsvmap_loop :: "memory \<Rightarrow> nat \<Rightarrow> dtb_line list \<Rightarrow> dtb_line list option" where
  "rsvmap_loop m p out =
     (if load64 p m \<noteq> 0 \<and> load64 (p + 8) m \<noteq> 0
      then rsvmap_loop m (p + 16) (out @ [(''Memory reservation'', [load64 p m, load64 (p + 8) m])])
      else Some out)"

section \<open>Properties of nodes\<close>

definition cell_lines :: "(string \<Rightarrow> nat) \<Rightarrow> memory \<Rightarrow> nat \<Rightarrow> nat \<Rightarrow> dtb_line list option" where
  "cell_lines lit m prop_name val =
     Option.bind (strcmp m prop_name (lit ''#address-cells'')) (\<lambda>c1.
     if c1 = 0 then Some [(''Address cells found'', [ucast (fdt32_to_cpu (load32 val m))])]
     else Option.bind (strcmp m prop_name (lit ''#size-cells'')) (\<lambda>c2.
     if c2 = 0 then Some [(''Size cells found'', [ucast (fdt32_to_cpu (load32 val m))])]
     else Option.bind (strcmp m prop_name (lit ''memreserve'')) (\<lambda>c3.
     if c3 = 0 then Some [(''Memory reservation found'', [ucast (fdt32_to_cpu (load32 val m)), ucast (fdt32_to_cpu (load32 (val + 4) m))])]
     else Some [])))"

function reg_loop :: "memory \<Rightarrow> nat \<Rightarrow> nat \<Rightarrow> dtb_line list" where
  "reg_loop m val len =
     (if 12 \<le> len then
        (''Memory base'', [push_bit 32 (ucast (fdt32_to_cpu (load32 val m))) OR ucast (fdt32_to_cpu (load32 (val + 4) m))]) #
        (''Memory size'', [ucast (fdt32_to_cpu (load32 (val + 8) m))]) # reg_loop m (val + 12) (len - 12)
      else [])"
  by pat_completeness auto
termination
  by (relation "measure (\<lambda>(_, _, len). len)") auto

section \<open>The walk\<close>

partial_function (option) walk ::
  "(string \<Rightarrow> nat) \<Rightarrow> memory \<Rightarrow> nat \<Rightarrow> nat \<Rightarrow> bool \<Rightarrow> bool \<Rightarrow> dtb_line list \<Rightarrow> dtb_line list option" where
  "walk lit m strings struct_block in_root_node in_memory_node out =
     (let token = fdt32_to_cpu (load32 struct_block m); p = struct_block + 4 in
      if token = FDT_BEGIN_NODE then
        Option.bind (strlen m p) (\<lambda>len.
          walk lit m strings (p + (len + 4) div 4 * 4) (len = 0) (strncmp m p (lit ''memory'') 6 = 0) out)
      else if token = FDT_END_NODE then walk lit m strings p False False out
      else if token = FDT_PROP then
        (let len = fdt32_to_cpu (load32 p m); nameoff = fdt32_to_cpu (load32 (p + 4) m);
             prop_name = strings + unat nameoff; val = p + 8 in
         Option.bind (if in_root_node \<or> in_memory_node then cell_lines lit m prop_name val else Some []) (\<lambda>cells.
         Option.bind (if in_memory_node then strcmp m prop_name (lit ''reg'') else Some 1) (\<lambda>c.
         if c = 0 then Some (out @ cells @ (''Memory reg found. Length'', [ucast len]) # reg_loop m val (unat len))
         else walk lit m strings (val + unat (len + 3) div 4 * 4) in_root_node in_memory_node (out @ cells))))
      else if token = FDT_END then Some out
      else if token = FDT_NOP then walk lit m strings p in_root_node in_memory_node out
      else Some (out @ [(''Unknown token'', [])]))"

definition parse_dtb :: "(string \<Rightarrow> nat) \<Rightarrow> memory \<Rightarrow> nat \<Rightarrow> dtb_line list option" where
  "parse_dtb lit m dtb =
     (if dtb = 0 then Some [(''No DeviceTree found'', [])]
      else let hdr = read_header m dtb in
        if fdt32_to_cpu (magic hdr) \<noteq> FDT_MAGIC then Some [(''Invalid DTB magic'', [])]
        else
          Option.bind
            (if off_mem_rsvmap hdr \<noteq> 0 then rsvmap_loop m (dtb + unat (fdt32_to_cpu (off_mem_rsvmap hdr))) (header_lines hdr)
             else Some (header_lines hdr)) (\<lambda>out.
          walk lit m (dtb + unat (fdt32_to_cpu (off_dt_strings hdr))) (dtb + unat (fdt32_to_cpu (off_dt_struct hdr))) False False out))"

declare reg_loop.simps [simp del]

section \<open>Big-endian words\<close>

definition from_be :: "u8 \<Rightarrow> u8 \<Rightarrow> u8 \<Rightarrow> u8 \<Rightarrow> u32" where
  "from_be a b c d = push_bit 24 (ucast a) OR push_bit 16 (ucast b) OR push_bit 8 (ucast c) OR ucast d"

definition be32 :: "u32 \<Rightarrow> u8 list" where
  "be32 w = [ucast (drop_bit 24 w), ucast (drop_bit 16 w), ucast (drop_bit 8 w), ucast w]"

lemma bit_ucast_u8_u32: "bit (ucast (b :: u8) :: u32) k \<longleftrightarrow> bit b k"
  using bit_imp_le_length [of b k] by (auto simp: bit_simps)

lemma bit_load32: "bit (load32 a m) k \<longleftrightarrow> k < 32 \<and> bit (m (a + k div 8)) (k mod 8)"
  by (auto simp: load32_def bit_simps bit_load_bytes)

lemma byte_masks: "(0xFF000000 :: u32) = push_bit 24 (mask 8)" "(0x00FF0000 :: u32) = push_bit 16 (mask 8)"
    "(0x0000FF00 :: u32) = push_bit 8 (mask 8)" "(0x000000FF :: u32) = mask 8"
  by (simp_all add: mask_eq_exp_minus_1)

lemma bit_fdt32_to_cpu:
  assumes "r < 8"
  shows "bit (fdt32_to_cpu x) r \<longleftrightarrow> bit x (24 + r)" "bit (fdt32_to_cpu x) (8 + r) \<longleftrightarrow> bit x (16 + r)"
    "bit (fdt32_to_cpu x) (16 + r) \<longleftrightarrow> bit x (8 + r)" "bit (fdt32_to_cpu x) (24 + r) \<longleftrightarrow> bit x r"
  unfolding fdt32_to_cpu_def byte_masks using assms by (auto simp: bit_simps)

lemma bit_from_be:
  assumes "r < 8"
  shows "bit (from_be a b c d) r \<longleftrightarrow> bit d r" "bit (from_be a b c d) (8 + r) \<longleftrightarrow> bit c r"
    "bit (from_be a b c d) (16 + r) \<longleftrightarrow> bit b r" "bit (from_be a b c d) (24 + r) \<longleftrightarrow> bit a r"
  unfolding from_be_def using assms by (auto simp: bit_simps dest: bit_imp_le_length)

lemma bit_load32_byte:
  assumes "r < 8"
  shows "bit (load32 a m) r \<longleftrightarrow> bit (m a) r" "bit (load32 a m) (8 + r) \<longleftrightarrow> bit (m (a + 1)) r"
    "bit (load32 a m) (16 + r) \<longleftrightarrow> bit (m (a + 2)) r" "bit (load32 a m) (24 + r) \<longleftrightarrow> bit (m (a + 3)) r"
proof -
  have "(8 + r) div 8 = 1" "(16 + r) div 8 = 2" "(24 + r) div 8 = 3" "(8 + r) mod 8 = r" "(16 + r) mod 8 = r" "(24 + r) mod 8 = r"
    using assms by presburger+
  then show "bit (load32 a m) r \<longleftrightarrow> bit (m a) r" "bit (load32 a m) (8 + r) \<longleftrightarrow> bit (m (a + 1)) r"
    "bit (load32 a m) (16 + r) \<longleftrightarrow> bit (m (a + 2)) r" "bit (load32 a m) (24 + r) \<longleftrightarrow> bit (m (a + 3)) r"
    using assms by (simp_all add: bit_load32)
qed

lemma load32_be: "fdt32_to_cpu (load32 a m) = from_be (m a) (m (a + 1)) (m (a + 2)) (m (a + 3))"
proof (rule bit_word_eqI)
  fix k
  assume "k < LENGTH(32)"
  then have "k < 32" by simp
  then consider "k < 8" | r where "k = 8 + r" "r < 8" | r where "k = 16 + r" "r < 8" | r where "k = 24 + r" "r < 8"
    by (rule byte_cases)
  then show "bit (fdt32_to_cpu (load32 a m)) k = bit (from_be (m a) (m (a + 1)) (m (a + 2)) (m (a + 3))) k"
    by cases (simp_all add: bit_fdt32_to_cpu bit_from_be bit_load32_byte)
qed

lemma from_be_be32: "from_be (ucast (drop_bit 24 w)) (ucast (drop_bit 16 w)) (ucast (drop_bit 8 w)) (ucast w) = w"
proof (rule bit_word_eqI)
  fix k
  assume "k < LENGTH(32)"
  then have "k < 32" by simp
  then consider "k < 8" | r where "k = 8 + r" "r < 8" | r where "k = 16 + r" "r < 8" | r where "k = 24 + r" "r < 8"
    by (rule byte_cases)
  then show "bit (from_be (ucast (drop_bit 24 w)) (ucast (drop_bit 16 w)) (ucast (drop_bit 8 w)) (ucast w)) k = bit w k"
    by cases (simp_all add: bit_from_be bit_simps)
qed

section \<open>Tokens\<close>

text \<open>
  The structure block as a list of tokens, and what the parser prints for it. A node's name is padded with
  at least one zero byte, a value with up to three.
\<close>

datatype fdt_token = BeginNode "u8 list" | EndNode | Property u32 "u8 list" | Nop

fun encode :: "fdt_token \<Rightarrow> u8 list" where
  "encode (BeginNode n) = be32 FDT_BEGIN_NODE @ n @ replicate ((length n + 4) div 4 * 4 - length n) 0"
| "encode EndNode = be32 FDT_END_NODE"
| "encode (Property off v) =
     be32 FDT_PROP @ be32 (of_nat (length v)) @ be32 off @ v @ replicate ((length v + 3) div 4 * 4 - length v) 0"
| "encode Nop = be32 FDT_NOP"

definition bytes_of :: "string \<Rightarrow> u8 list" where
  "bytes_of s = map of_char s"

definition word_of :: "u8 list \<Rightarrow> nat \<Rightarrow> u64" where
  "word_of v i = ucast (from_be (v ! (4 * i)) (v ! (4 * i + 1)) (v ! (4 * i + 2)) (v ! (4 * i + 3)))"

definition cells_of :: "u8 list \<Rightarrow> u8 list \<Rightarrow> dtb_line list" where
  "cells_of name v =
     (if name = bytes_of ''#address-cells'' then [(''Address cells found'', [word_of v 0])]
      else if name = bytes_of ''#size-cells'' then [(''Size cells found'', [word_of v 0])]
      else if name = bytes_of ''memreserve'' then [(''Memory reservation found'', [word_of v 0, word_of v 1])]
      else [])"

function ranges_of :: "u8 list \<Rightarrow> dtb_line list" where
  "ranges_of v =
     (if 12 \<le> length v then
        (''Memory base'', [push_bit 32 (word_of v 0) OR word_of v 1]) # (''Memory size'', [word_of v 2]) # ranges_of (drop 12 v)
      else [])"
  by pat_completeness auto
termination
  by (relation "measure length") auto

declare ranges_of.simps [simp del]

fun report :: "(u32 \<Rightarrow> u8 list) \<Rightarrow> bool \<Rightarrow> bool \<Rightarrow> fdt_token list \<Rightarrow> dtb_line list" where
  "report name_of in_root in_memory [] = []"
| "report name_of in_root in_memory (BeginNode n # ts) = report name_of (n = []) (take 6 n = bytes_of ''memory'') ts"
| "report name_of in_root in_memory (EndNode # ts) = report name_of False False ts"
| "report name_of in_root in_memory (Nop # ts) = report name_of in_root in_memory ts"
| "report name_of in_root in_memory (Property off v # ts) =
     (if in_root \<or> in_memory then cells_of (name_of off) v else []) @
     (if in_memory \<and> name_of off = bytes_of ''reg''
      then (''Memory reg found. Length'', [of_nat (length v)]) # ranges_of v
      else report name_of in_root in_memory ts)"

definition holds :: "memory \<Rightarrow> nat \<Rightarrow> u8 list \<Rightarrow> bool" where
  "holds m a bs \<longleftrightarrow> (\<forall>i<length bs. m (a + i) = bs ! i)"

definition literals :: "(string \<Rightarrow> nat) \<Rightarrow> memory \<Rightarrow> bool" where
  "literals lit m \<longleftrightarrow>
     (\<forall>s \<in> {''memory'', ''#address-cells'', ''#size-cells'', ''memreserve'', ''reg''}. cstr m (lit s) (bytes_of s))"

text \<open>Node names have no zero byte, values have the cells that are read from them.\<close>

primrec token_ok :: "memory \<Rightarrow> nat \<Rightarrow> (u32 \<Rightarrow> u8 list) \<Rightarrow> fdt_token \<Rightarrow> bool" where
  "token_ok m strings name_of (BeginNode n) \<longleftrightarrow> 0 \<notin> set n"
| "token_ok m strings name_of EndNode \<longleftrightarrow> True"
| "token_ok m strings name_of (Property off v) \<longleftrightarrow>
     cstr m (strings + unat off) (name_of off) \<and> length v + 3 < 2 ^ 32 \<and>
     (name_of off = bytes_of ''#address-cells'' \<or> name_of off = bytes_of ''#size-cells'' \<longrightarrow> 4 \<le> length v) \<and>
     (name_of off = bytes_of ''memreserve'' \<longrightarrow> 8 \<le> length v)"
| "token_ok m strings name_of Nop \<longleftrightarrow> True"

lemma holds_append: "holds m a (xs @ ys) \<longleftrightarrow> holds m a xs \<and> holds m (a + length xs) ys"
proof
  assume h: "holds m a (xs @ ys)"
  have "m (a + length xs + i) = ys ! i" if "i < length ys" for i
    using h [unfolded holds_def, rule_format, of "length xs + i"] that by (simp add: add.assoc)
  moreover have "m (a + i) = xs ! i" if "i < length xs" for i
    using h [unfolded holds_def, rule_format, of i] that by (simp add: nth_append)
  ultimately show "holds m a xs \<and> holds m (a + length xs) ys" by (simp add: holds_def)
next
  assume "holds m a xs \<and> holds m (a + length xs) ys"
  then show "holds m a (xs @ ys)"
    unfolding holds_def by (auto simp: nth_append) (metis add.assoc add_diff_inverse_nat nat_add_left_cancel_less)
qed

lemma holds_be32: "holds m a (be32 w) \<Longrightarrow> fdt32_to_cpu (load32 a m) = w"
proof -
  assume h: "holds m a (be32 w)"
  have "m a = ucast (drop_bit 24 w)" "m (a + 1) = ucast (drop_bit 16 w)" "m (a + 2) = ucast (drop_bit 8 w)" "m (a + 3) = ucast w"
    using h [unfolded holds_def be32_def, rule_format, of 0] h [unfolded holds_def be32_def, rule_format, of 1]
      h [unfolded holds_def be32_def, rule_format, of 2] h [unfolded holds_def be32_def, rule_format, of 3] by simp_all
  then show ?thesis by (simp add: load32_be from_be_be32)
qed

lemma holds_word:
  assumes "holds m a v" and "4 * i + 4 \<le> length v"
  shows "ucast (fdt32_to_cpu (load32 (a + 4 * i) m)) = word_of v i"
proof -
  have "m (a + (4 * i + j)) = v ! (4 * i + j)" if "j < 4" for j using assms that by (simp add: holds_def)
  from this [of 0] this [of 1] this [of 2] this [of 3] show ?thesis
    by (simp add: load32_be word_of_def add.assoc)
qed

lemma length_be32 [simp]: "length (be32 w) = 4"
  by (simp add: be32_def)

lemma holds_cstr:
  assumes "holds m a (n @ replicate k 0)" and "0 < k" and "0 \<notin> set n"
  shows "cstr m a n"
  using assms
proof (induction n arbitrary: a)
  case Nil
  then show ?case by (auto simp: holds_def)
next
  case (Cons x n)
  have "holds m (a + 1) (n @ replicate k 0)" "m a = x"
    using Cons.prems(1) holds_append [of m a "[x]" "n @ replicate k 0"] by (simp_all add: holds_def)
  then show ?case using Cons by simp
qed

section \<open>The walk over tokens\<close>

lemma strcmp_cstr:
  assumes "cstr m a xs" and "cstr m b ys"
  obtains c where "strcmp m a b = Some c" "c = 0 \<longleftrightarrow> xs = ys"
  using strcmp_cmp_bytes [OF assms] cmp_bytes_zero [of xs ys] cstr_nonzero [OF assms(1)] cstr_nonzero [OF assms(2)] that by blast

lemma reg_loop_ranges: "holds m a v \<Longrightarrow> reg_loop m a (length v) = ranges_of v"
proof (induction v arbitrary: a rule: ranges_of.induct)
  case (1 v)
  show ?case
  proof (cases "12 \<le> length v")
    case True
    have "holds m (a + 12) (drop 12 v)" using "1.prems" True holds_append [of m a "take 12 v" "drop 12 v"] by (auto simp: min_def split: if_splits)
    then have "reg_loop m (a + 12) (length v - 12) = ranges_of (drop 12 v)" using "1.IH" [OF True] by simp
    moreover have "ucast (fdt32_to_cpu (load32 a m)) = word_of v 0" "ucast (fdt32_to_cpu (load32 (a + 4) m)) = word_of v 1"
      "ucast (fdt32_to_cpu (load32 (a + 8) m)) = word_of v 2"
      using holds_word [OF "1.prems", of 0] holds_word [OF "1.prems", of 1] holds_word [OF "1.prems", of 2] True by simp_all
    ultimately show ?thesis using True by (subst reg_loop.simps, subst ranges_of.simps) simp
  next
    case False
    then show ?thesis by (subst reg_loop.simps, subst ranges_of.simps) simp
  qed
qed

lemma cell_lines_cells:
  assumes lits: "literals lit m" and name: "cstr m a name" and v: "holds m val v"
    and "name = bytes_of ''#address-cells'' \<or> name = bytes_of ''#size-cells'' \<longrightarrow> 4 \<le> length v"
    and "name = bytes_of ''memreserve'' \<longrightarrow> 8 \<le> length v"
  shows "cell_lines lit m a val = Some (cells_of name v)"
proof -
  have lit: "cstr m (lit ''#address-cells'') (bytes_of ''#address-cells'')" "cstr m (lit ''#size-cells'') (bytes_of ''#size-cells'')"
    "cstr m (lit ''memreserve'') (bytes_of ''memreserve'')" using lits by (simp_all add: literals_def)
  from strcmp_cstr [OF name lit(1)] obtain c1 where "strcmp m a (lit ''#address-cells'') = Some c1" "c1 = 0 \<longleftrightarrow> name = bytes_of ''#address-cells''" .
  moreover from strcmp_cstr [OF name lit(2)] obtain c2 where "strcmp m a (lit ''#size-cells'') = Some c2" "c2 = 0 \<longleftrightarrow> name = bytes_of ''#size-cells''" .
  moreover from strcmp_cstr [OF name lit(3)] obtain c3 where "strcmp m a (lit ''memreserve'') = Some c3" "c3 = 0 \<longleftrightarrow> name = bytes_of ''memreserve''" .
  moreover have "ucast (fdt32_to_cpu (load32 val m)) = word_of v 0" if "4 \<le> length v" using holds_word [OF v, of 0] that by simp
  moreover have "ucast (fdt32_to_cpu (load32 (val + 4) m)) = word_of v 1" if "8 \<le> length v" using holds_word [OF v, of 1] that by simp
  ultimately show ?thesis using assms(4,5) by (auto simp: cell_lines_def cells_of_def)
qed

lemma padded_length: "length (encode (BeginNode n)) = 4 + (length n + 4) div 4 * 4"
    "length (encode (Property off v)) = 12 + (length v + 3) div 4 * 4" "length (encode EndNode) = 4" "length (encode Nop) = 4"
proof -
  have "length n \<le> (length n + 4) div 4 * 4" "length v \<le> (length v + 3) div 4 * 4" by presburger+
  then show "length (encode (BeginNode n)) = 4 + (length n + 4) div 4 * 4"
    "length (encode (Property off v)) = 12 + (length v + 3) div 4 * 4" "length (encode EndNode) = 4" "length (encode Nop) = 4" by simp_all
qed

lemmas fdt_tokens = FDT_BEGIN_NODE_def FDT_END_NODE_def FDT_PROP_def FDT_NOP_def FDT_END_def

lemma walk_begin:
  assumes "literals lit m" and "0 \<notin> set n" and "holds m p (encode (BeginNode n))"
  shows "walk lit m strings p r b out =
    walk lit m strings (p + length (encode (BeginNode n))) (n = []) (take 6 n = bytes_of ''memory'') out"
proof -
  have tok: "fdt32_to_cpu (load32 p m) = FDT_BEGIN_NODE" and "holds m (p + 4) (n @ replicate ((length n + 4) div 4 * 4 - length n) 0)"
    using assms(3) by (simp_all add: holds_append holds_be32 add.assoc)
  moreover have "0 < (length n + 4) div 4 * 4 - length n" by presburger
  ultimately have n: "cstr m (p + 4) n" using assms(2) by (intro holds_cstr)
  have mem: "cstr m (lit ''memory'') (bytes_of ''memory'')" using assms(1) by (simp add: literals_def)
  have "take 6 (bytes_of ''memory'') = bytes_of ''memory''" by (simp add: bytes_of_def)
  moreover have "0 \<notin> set (take 6 n)" using assms(2) by (meson in_set_takeD)
  ultimately have "strncmp m (p + 4) (lit ''memory'') 6 = 0 \<longleftrightarrow> take 6 n = bytes_of ''memory''"
    using strncmp_cmp_bytes [OF n mem, of 6] cmp_bytes_zero cstr_nonzero [OF mem] by metis
  then show ?thesis
    unfolding padded_length using strlen_cstr [OF n] tok by (subst walk.simps) (simp add: add.assoc)
qed

lemma walk_simple:
  "holds m p (encode EndNode) \<Longrightarrow> walk lit m strings p r b out = walk lit m strings (p + 4) False False out"
  "holds m p (encode Nop) \<Longrightarrow> walk lit m strings p r b out = walk lit m strings (p + 4) r b out"
  "holds m p (be32 FDT_END) \<Longrightarrow> walk lit m strings p r b out = Some out"
  by (subst walk.simps, simp add: holds_be32 fdt_tokens)+

lemma walk_property:
  assumes "literals lit m" and "token_ok m strings name_of (Property off v)" and "holds m p (encode (Property off v))"
  shows "walk lit m strings p r b out =
    (let cells = (if r \<or> b then cells_of (name_of off) v else []) in
     if b \<and> name_of off = bytes_of ''reg'' then Some (out @ cells @ (''Memory reg found. Length'', [of_nat (length v)]) # ranges_of v)
     else walk lit m strings (p + length (encode (Property off v))) r b (out @ cells))"
proof -
  have tok: "fdt32_to_cpu (load32 p m) = FDT_PROP" "fdt32_to_cpu (load32 (p + 4) m) = of_nat (length v)"
      "fdt32_to_cpu (load32 (p + 8) m) = off" and v: "holds m (p + 12) v"
    using assms(3) by (simp_all add: holds_append holds_be32 add.assoc)
  have ok: "cstr m (strings + unat off) (name_of off)" "length v + 3 < 2 ^ 32" using assms(2) by simp_all
  have len: "unat (of_nat (length v) :: u32) = length v" "unat (of_nat (length v) + 3 :: u32) = length v + 3"
    using ok(2) by (simp_all add: unsigned_of_nat take_bit_nat_eq_self unat_word_ariths)
  have "cstr m (lit ''reg'') (bytes_of ''reg'')" using assms(1) by (simp add: literals_def)
  then obtain c where c: "strcmp m (strings + unat off) (lit ''reg'') = Some c" "c = 0 \<longleftrightarrow> name_of off = bytes_of ''reg''"
    using ok(1) strcmp_cstr by blast
  have cells: "cell_lines lit m (strings + unat off) (p + 12) = Some (cells_of (name_of off) v)"
    using assms(2) by (intro cell_lines_cells assms(1) v) simp_all
  have "ucast (of_nat (length v) :: u32) = (of_nat (length v) :: u64)" using len(1) of_nat_unat [of "of_nat (length v) :: u32"] by metis
  then show ?thesis
    unfolding padded_length using tok c cells len reg_loop_ranges [OF v]
    by (subst walk.simps) (simp add: fdt_tokens Let_def add.assoc)
qed

lemma walk_report:
  assumes "literals lit m" and "list_all (token_ok m strings name_of) ts" and "holds m p (concat (map encode ts) @ be32 FDT_END)"
  shows "walk lit m strings p r b out = Some (out @ report name_of r b ts)"
  using assms(2,3)
proof (induction ts arbitrary: p r b out)
  case Nil
  then show ?case by (simp add: walk_simple)
next
  case (Cons t ts)
  have t: "holds m p (encode t)" and rest: "holds m (p + length (encode t)) (concat (map encode ts) @ be32 FDT_END)"
    using Cons.prems(2) by (simp_all add: holds_append add.assoc)
  note IH = Cons.IH [OF _ rest]
  have ok: "token_ok m strings name_of t" "list_all (token_ok m strings name_of) ts" using Cons.prems(1) by simp_all
  show ?case
  proof (cases t)
    case (BeginNode n)
    then show ?thesis using walk_begin [OF assms(1) _ t [unfolded BeginNode]] IH ok by simp
  next
    case EndNode
    then show ?thesis using walk_simple(1) [of m p] t IH ok padded_length(3) by simp
  next
    case (Property off v)
    show ?thesis
      using walk_property [OF assms(1) ok(1) [unfolded Property] t [unfolded Property], of r b out] IH [OF ok(2), unfolded Property]
      by (auto simp: Property Let_def simp del: encode.simps)
  next
    case Nop
    then show ?thesis using walk_simple(2) [of m p] t IH ok padded_length(4) by simp
  qed
qed

section \<open>Properties\<close>


definition example_tokens :: "fdt_token list" where
  "example_tokens = [BeginNode (bytes_of ''memory''), Property 0 (be32 0 @ be32 0x1000 @ be32 0x3000), EndNode]"

definition example_bytes :: "u8 list" where
  "example_bytes = replicate 4 0 @ concat (map be32 [FDT_MAGIC, 88, 44, 40, 0, 17, 16, 0, 4, 44]) @ bytes_of ''reg'' @ [0] @
     concat (map encode example_tokens) @ be32 FDT_END @
     bytes_of ''memory'' @ [0] @ bytes_of ''#address-cells'' @ [0] @ bytes_of ''#size-cells'' @ [0] @ bytes_of ''memreserve'' @ [0]"

definition example_memory :: memory where
  "example_memory i = (if i < length example_bytes then example_bytes ! i else 0)"

definition example_literal :: "string \<Rightarrow> nat" where
  "example_literal s =
     (if s = ''memory'' then 92 else if s = ''#address-cells'' then 99 else if s = ''#size-cells'' then 114
      else if s = ''memreserve'' then 126 else 44)"

lemma example_all: "holds example_memory 0 example_bytes"
  by (simp add: holds_def example_memory_def)

lemma length_bytes_of: "length (bytes_of s) = length s"
  by (simp add: bytes_of_def)

lemma length_encode_example: "length (concat (map encode example_tokens)) = 40"
  by (simp add: example_tokens_def bytes_of_def)

lemmas example_parts = example_all [unfolded example_bytes_def holds_append,
  simplified length_append length_encode_example length_bytes_of list.size list.map concat.simps append_Nil2 holds_append, simplified]

lemma example_header:
  "fdt32_to_cpu (load32 4 example_memory) = FDT_MAGIC" "fdt32_to_cpu (load32 12 example_memory) = 44"
  "fdt32_to_cpu (load32 16 example_memory) = 40" "load32 20 example_memory = 0"
proof -
  show "fdt32_to_cpu (load32 4 example_memory) = FDT_MAGIC" "fdt32_to_cpu (load32 12 example_memory) = 44"
    "fdt32_to_cpu (load32 16 example_memory) = 40" using example_parts by (auto intro: holds_be32)
  have "holds example_memory 20 (be32 0)" using example_parts by simp
  then have "example_memory 20 = 0" "example_memory 21 = 0" "example_memory 22 = 0" "example_memory 23 = 0"
    by (auto simp: holds_def be32_def nth_Cons' dest: spec [of _ 0] spec [of _ 1] spec [of _ 2] spec [of _ 3])
  then show "load32 20 example_memory = 0" by (simp add: load32_def eval_nat_numeral)
qed

lemma example_string:
  assumes "holds example_memory a (bytes_of s)" and "holds example_memory (a + length s) [0]" and "0 \<notin> set (bytes_of s)"
  shows "cstr example_memory a (bytes_of s)"
  using assms holds_cstr [of example_memory a "bytes_of s" 1] by (simp add: holds_append length_bytes_of)

lemma literal_bytes:
  "0 \<notin> set (bytes_of ''memory'')" "0 \<notin> set (bytes_of ''#address-cells'')" "0 \<notin> set (bytes_of ''#size-cells'')"
  "0 \<notin> set (bytes_of ''memreserve'')" "0 \<notin> set (bytes_of ''reg'')"
  by (simp_all add: bytes_of_def)

lemma example_strings:
  "cstr example_memory 92 (bytes_of ''memory'')" "cstr example_memory 99 (bytes_of ''#address-cells'')"
  "cstr example_memory 114 (bytes_of ''#size-cells'')" "cstr example_memory 126 (bytes_of ''memreserve'')"
  "cstr example_memory 44 (bytes_of ''reg'')"
  by (rule example_string, use example_parts literal_bytes in \<open>simp_all\<close>)+

lemma example_literals: "literals example_literal example_memory"
  unfolding literals_def using example_strings by (simp add: example_literal_def)

lemma example_struct: "holds example_memory 48 (concat (map encode example_tokens) @ be32 FDT_END)"
  using example_parts by (simp add: holds_append length_encode_example)


end
