(* ===== verification/Loader.thy ===== *)
theory Loader
  imports Uart Gpio Crt
begin

text \<open>
  The serial kernel loader of \<^verbatim>\<open>src/KernelLoader/Main.cpp\<close> over the boot library: it moves itself 16 KB down, greets
  the server, receives the size and the bytes of a kernel, and jumps to it. The boot library's driver
  of the serial device has the same polling routines as the kernel's and uses their model; its
  initialisation also empties the receive queue. A jump is the address it goes to.
\<close>

section \<open>Start-up\<close>

definition SetUart0_14_15 :: "u64 \<Rightarrow> gpio \<Rightarrow> gpio" where
  "SetUart0_14_15 midr g =
     (let g1 = SetFunction 14 Alt0 g; g2 = SetFunction 15 Alt0 g1; g3 = SetPullUpDown midr 14 NoPull g2 in
      SetPullUpDown midr 15 NoPull g3)"

text \<open>The configuration of the device: the offsets and values written, in order.\<close>

definition uart_setup :: "(nat \<times> u32) list" where
  "uart_setup =
     [(0x44, 0x7FF), (0x24, 26), (0x28, 3), (0x2C, push_bit 4 1 OR push_bit 5 3),
      (0x38, push_bit 1 1 OR push_bit 4 1 OR push_bit 5 1 OR push_bit 6 1 OR push_bit 7 1 OR push_bit 8 1 OR push_bit 9 1 OR push_bit 10 1),
      (0x30, push_bit 0 1 OR push_bit 8 1 OR push_bit 9 1)]"

partial_function (option) drain_receiver :: "uart \<Rightarrow> uart option" where
  "drain_receiver u = (let (fr, u1) = read_FR u in if \<not> bit fr 4 then drain_receiver (snd (read_DR u1)) else Some u1)"

definition PL011_Init :: "uart \<Rightarrow> ((nat \<times> u32) list \<times> uart) option" where
  "PL011_Init u = Option.bind (drain_receiver u) (\<lambda>u'. Some (uart_setup, u'))"

definition Rpi3Base :: nat where "Rpi3Base = 0x3F000000"
definition Rpi4Base :: nat where "Rpi4Base = 0xFE000000"

definition GetPeripheralsPhysicalBase :: "u64 \<Rightarrow> nat" where
  "GetPeripheralsPhysicalBase midr = (if IsRpi4 midr then Rpi4Base else Rpi3Base)"

text \<open>
  The kernel's own console is set up with the same values, without emptying the queue. Before the MMU is on, its
  routines use the device at the physical address of the board, of the devices \<open>devs\<close>.
\<close>

definition Uart_Init :: "u64 \<Rightarrow> gpio \<Rightarrow> (nat \<times> u32) list \<times> gpio" where
  "Uart_Init midr g =
     (let g1 = SetFunction 14 Alt0 g; g2 = SetFunction 15 Alt0 g1; g3 = SetPullUpDown midr 14 NoPull g2;
          g4 = SetPullUpDown midr 15 NoPull g3 in
      (uart_setup, g4))"

definition NoMmuPutc :: "u64 \<Rightarrow> char \<Rightarrow> (nat \<Rightarrow> uart) \<Rightarrow> (nat \<Rightarrow> uart) option" where
  "NoMmuPutc midr c devs =
     (let base = (if IsRpi4 midr then 0x47E201000 else 0x3F201000) in
      Option.bind (Raw_Putc c (devs base)) (\<lambda>u. Some (devs(base := u))))"

fun NoMmuPuts :: "u64 \<Rightarrow> string \<Rightarrow> (nat \<Rightarrow> uart) \<Rightarrow> (nat \<Rightarrow> uart) option" where
  "NoMmuPuts midr [] devs = Some devs"
| "NoMmuPuts midr (c # cs) devs = Option.bind (NoMmuPutc midr c devs) (NoMmuPuts midr cs)"

section \<open>The protocol\<close>

partial_function (option) await_char :: "char \<Rightarrow> uart \<Rightarrow> uart option" where
  "await_char c u = Option.bind (Raw_Getc u) (\<lambda>(c', u'). if c' \<noteq> c then await_char c u' else Some u')"

fun receive_image :: "nat \<Rightarrow> nat \<Rightarrow> uart \<Rightarrow> memory \<Rightarrow> (uart \<times> memory) option" where
  "receive_image 0 a u m = Some (u, m)"
| "receive_image (Suc n) a u m =
     Option.bind (Raw_Getc u) (\<lambda>(c, u'). receive_image n (a + 1) u' (m(a := of_char c)))"

definition size_of_bytes :: "char \<Rightarrow> char \<Rightarrow> char \<Rightarrow> char \<Rightarrow> u32" where
  "size_of_bytes s0 s1 s2 s3 = of_char s0 OR push_bit 8 (of_char s1) OR push_bit 16 (of_char s2) OR push_bit 24 (of_char s3)"

definition newlines :: string where
  "newlines = [CHR 0x0A, CHR 0x0A]"

definition greeting :: string where
  "greeting = newlines @ ''Let'' @ [quote] @ ''s load a kernel over UART!'' @ newlines @ [CHR 0x03, CHR 0x03, CHR 0x03]"

definition size_reply :: string where
  "size_reply = ''OK'' @ ''Size: ''"

definition GetNewKernel :: "nat \<Rightarrow> uart \<Rightarrow> memory \<Rightarrow> (nat \<times> uart \<times> memory) res option" where
  "GetNewKernel destination u m =
     Option.bind (Raw_Puts greeting u) (\<lambda>u1.
     Option.bind (await_char CHR ''O'' u1) (\<lambda>u2.
     Option.bind (await_char CHR ''K'' u2) (\<lambda>u3.
     Option.bind (Raw_Getc u3) (\<lambda>(s0, u4).
     Option.bind (Raw_Getc u4) (\<lambda>(s1, u5).
     Option.bind (Raw_Getc u5) (\<lambda>(s2, u6).
     Option.bind (Raw_Getc u6) (\<lambda>(s3, u7).
     let size = size_of_bytes s0 s1 s2 s3 in
     Option.bind (Raw_Puts size_reply u7) (\<lambda>u8.
     case PutDec_text (ucast size) of
       Inl e \<Rightarrow> Some (Inl e)
     | Inr text \<Rightarrow>
         Option.bind (Raw_Puts (text @ [CHR 0x0A]) u8) (\<lambda>u9.
         Option.bind (receive_image (unat size) destination u9 m) (\<lambda>(u10, m').
         Some (Inr (destination, u10, m'))))))))))))"

definition relocate :: "nat \<Rightarrow> nat \<Rightarrow> memory \<Rightarrow> memory" where
  "relocate start fin m = copy_qwords ((fin - start + 7) div 8) (start - 0x4000) start m"

definition KernelMain ::
  "u64 \<Rightarrow> nat \<Rightarrow> nat \<Rightarrow> gpio \<Rightarrow> uart \<Rightarrow> memory \<Rightarrow> ((nat \<times> u32) list \<times> gpio \<times> (nat \<times> uart \<times> memory)) res option" where
  "KernelMain midr start fin g u m =
     (let g' = SetUart0_14_15 midr g in
      Option.bind (PL011_Init u) (\<lambda>(setup, u1).
      Option.bind (Raw_Puts (newlines @ ''Relocating...'' @ [CHR 0x0A]) u1) (\<lambda>u2.
      Option.bind (GetNewKernel start u2 (relocate start fin m)) (\<lambda>r.
      Some (rbind r (\<lambda>out. Inr (setup, g', out)))))))"

section \<open>Set-up\<close>

lemma Uart_Init_pins:
  assumes "IsRpi4 midr" and "q < 54"
  shows "pin_function (snd (Uart_Init midr g)) q = (if q \<in> {14, 15} then func_bits Alt0 else pin_function g q)"
    and "pin_pull (snd (Uart_Init midr g)) q = (if q \<in> {14, 15} then 0 else pin_pull g q)"
proof -
  have "pin_function (SetPullUpDown midr p pud g) q = pin_function g q" if "p < 54" for p pud g
    using pin_registers [OF that] pin_registers [OF assms(2)] assms(1) by (auto simp: other_registers)
  then show "pin_function (snd (Uart_Init midr g)) q = (if q \<in> {14, 15} then func_bits Alt0 else pin_function g q)"
    by (auto simp: Uart_Init_def Let_def SetFunction_function)
  have "pin_pull (SetFunction p f g) q = pin_pull g q" if "p < 54" for p f g
    using pin_registers [OF that] pin_registers [OF assms(2)] by (auto simp: other_registers)
  then show "pin_pull (snd (Uart_Init midr g)) q = (if q \<in> {14, 15} then 0 else pin_pull g q)"
    by (auto simp: Uart_Init_def Let_def SetPullUpDown_pull [OF assms(1)])
qed

section \<open>Receiving\<close>

definition rx_ready :: "uart \<Rightarrow> bool" where
  "rx_ready u \<longleftrightarrow> (\<forall>n. \<exists>m\<ge>n. \<not> bit (FR u m) 4)"

text \<open>\<open>incoming u cs\<close>: the next bytes read from the data register are the characters \<open>cs\<close>.\<close>

definition incoming :: "uart \<Rightarrow> string \<Rightarrow> bool" where
  "incoming u cs \<longleftrightarrow> (\<forall>i<length cs. byte_to_char (DR_in u (dr_reads u + i)) = cs ! i)"

lemma Raw_Getc_incoming:
  assumes "rx_ready u" and "incoming u (c # cs)"
  obtains u' where "Raw_Getc u = Some (c, u')" "incoming u' cs" "rx_ready u' = rx_ready u" "tx_ready u' = tx_ready u"
    "sent u' = sent u" "dr_reads u' = dr_reads u + 1"
proof -
  obtain n where n: "wait_clear 4 u = Some (u\<lparr>fr_reads := n\<rparr>)" using wait_clear_ready assms(1) unfolding rx_ready_def by blast
  have c: "byte_to_char (DR_in u (dr_reads u)) = c" using assms(2) by (auto simp: incoming_def)
  have cs: "byte_to_char (DR_in u (dr_reads u + 1 + i)) = cs ! i" if "i < length cs" for i
    using assms(2) [unfolded incoming_def, rule_format, of "Suc i"] that by simp
  let ?u = "u\<lparr>fr_reads := n, dr_reads := dr_reads u + 1\<rparr>"
  have "Raw_Getc u = Some (c, ?u)" using n c by (simp add: Raw_Getc_def read_DR_def)
  moreover have "incoming ?u cs" using cs by (simp add: incoming_def)
  ultimately show thesis by (rule that) (simp_all add: rx_ready_def tx_ready_def)
qed

lemma await_char_incoming:
  assumes "rx_ready u" and "incoming u (noise @ c # cs)" and "c \<notin> set noise"
  obtains u' where "await_char c u = Some u'" "incoming u' cs" "rx_ready u' = rx_ready u" "tx_ready u' = tx_ready u"
    "sent u' = sent u" "dr_reads u' = dr_reads u + length noise + 1"
  using assms
proof (induction noise arbitrary: u thesis)
  case Nil
  obtain u' where "Raw_Getc u = Some (c, u')" "incoming u' cs" "rx_ready u' = rx_ready u" "tx_ready u' = tx_ready u"
      "sent u' = sent u" "dr_reads u' = dr_reads u + 1"
    using Raw_Getc_incoming [OF Nil.prems(2), of c cs] Nil.prems(3) by auto
  then show ?case by (intro Nil.prems(1) [of u']) (subst await_char.simps, simp_all)
next
  case (Cons x noise)
  obtain u1 where u1: "Raw_Getc u = Some (x, u1)" "incoming u1 (noise @ c # cs)" "rx_ready u1 = rx_ready u" "tx_ready u1 = tx_ready u"
      "sent u1 = sent u" "dr_reads u1 = dr_reads u + 1"
    using Raw_Getc_incoming [OF Cons.prems(2), of x "noise @ c # cs"] Cons.prems(3) by auto
  have "rx_ready u1" "c \<notin> set noise" "x \<noteq> c" using u1(3) Cons.prems(2,4) by auto
  from Cons.IH [OF _ this(1) u1(2) this(2)] obtain u' where u': "await_char c u1 = Some u'" "incoming u' cs"
      "rx_ready u' = rx_ready u1" "tx_ready u' = tx_ready u1" "sent u' = sent u1" "dr_reads u' = dr_reads u1 + length noise + 1" by blast
  have "await_char c u = Some u'" using u1(1) u'(1) \<open>x \<noteq> c\<close> by (subst await_char.simps) simp
  then show ?case using u' u1 by (intro Cons.prems(1) [of u']) simp_all
qed

lemma receive_image_incoming:
  assumes "rx_ready u" and "incoming u cs"
  shows "\<exists>u'. receive_image (length cs) a u m =
      Some (u', \<lambda>x. if a \<le> x \<and> x < a + length cs then of_char (cs ! (x - a)) else m x) \<and>
    sent u' = sent u \<and> dr_reads u' = dr_reads u + length cs"
  using assms
proof (induction cs arbitrary: u a m)
  case Nil
  then show ?case by (intro exI [of _ u]) (auto simp: fun_eq_iff)
next
  case (Cons c cs)
  obtain u1 where u1: "Raw_Getc u = Some (c, u1)" "incoming u1 cs" "rx_ready u1 = rx_ready u" "sent u1 = sent u" "dr_reads u1 = dr_reads u + 1"
    using Raw_Getc_incoming [OF Cons.prems] by metis
  then have "rx_ready u1" using Cons.prems(1) by simp
  from Cons.IH [OF this u1(2), of "a + 1" "m(a := of_char c)"] obtain u' where
    u': "receive_image (length cs) (a + 1) u1 (m(a := of_char c)) =
        Some (u', \<lambda>x. if a + 1 \<le> x \<and> x < a + 1 + length cs then of_char (cs ! (x - (a + 1))) else (m(a := of_char c)) x)"
      "sent u' = sent u1" "dr_reads u' = dr_reads u1 + length cs" by blast
  have "(if a + 1 \<le> x \<and> x < a + 1 + length cs then of_char (cs ! (x - (a + 1))) else (m(a := of_char c)) x) =
      (if a \<le> x \<and> x < a + length (c # cs) then of_char ((c # cs) ! (x - a)) else m x)" for x
    by (cases "x = a") (auto simp: nth_Cons' Suc_le_eq)
  then show ?case using u' u1 by simp
qed

lemma Raw_Puts_keeps:
  assumes "tx_ready u"
  obtains u' where "Raw_Puts cs u = Some u'" "rx_ready u' = rx_ready u" "tx_ready u'" "sent u' = sent u @ cs" "dr_reads u' = dr_reads u"
    "\<And>input. incoming u' input = incoming u input"
  using Raw_Puts_ready [OF assms, of cs] assms that by (auto simp: rx_ready_def tx_ready_def incoming_def)

section \<open>Sizes\<close>

definition le32 :: "nat \<Rightarrow> string" where
  "le32 n = [char_of (take_bit 8 n), char_of (take_bit 8 (drop_bit 8 n)), char_of (take_bit 8 (drop_bit 16 n)), char_of (take_bit 8 (drop_bit 24 n))]"

lemma bit_of_byte: "bit (of_char (char_of (take_bit 8 n)) :: u32) k \<longleftrightarrow> k < 8 \<and> bit (n :: nat) k"
proof -
  have "of_char (char_of (take_bit 8 n)) = (of_nat (of_char (char_of (take_bit 8 n))) :: u32)" by (rule of_nat_of_char [symmetric])
  also have "\<dots> = of_nat (take_bit 8 n)" by (simp add: take_bit_eq_mod)
  finally show ?thesis by (auto simp: bit_simps)
qed

lemma size_of_le32:
  assumes "le32 n = [s0, s1, s2, s3]"
  shows "size_of_bytes s0 s1 s2 s3 = of_nat n"
proof (rule bit_word_eqI)
  fix k
  assume "k < LENGTH(32)"
  then have "k < 32" by simp
  then show "bit (size_of_bytes s0 s1 s2 s3) k = bit (of_nat n :: u32) k"
    by (rule byte_cases) (use assms in \<open>auto simp: le32_def size_of_bytes_def bit_simps bit_of_byte\<close>)
qed

section \<open>Loading\<close>

lemma GetNewKernel_receives:
  assumes "tx_ready u" and "rx_ready u" and "incoming u (noise1 @ ''O'' @ noise2 @ ''K'' @ le32 (length payload) @ payload)"
    and "CHR ''O'' \<notin> set noise1" and "CHR ''K'' \<notin> set noise2" and "length payload < 2 ^ 32"
  shows "\<exists>u'. GetNewKernel destination u m =
      Some (Inr (destination, u', \<lambda>a. if destination \<le> a \<and> a < destination + length payload then of_char (payload ! (a - destination)) else m a)) \<and>
    dr_reads u' = dr_reads u + length noise1 + length noise2 + 6 + length payload"
proof -
  obtain s0 s1 s2 s3 where le: "le32 (length payload) = [s0, s1, s2, s3]" by (simp add: le32_def)
  then have size: "size_of_bytes s0 s1 s2 s3 = of_nat (length payload)" by (rule size_of_le32)
  obtain dec where dec: "PutDec_text (ucast (of_nat (length payload) :: u32)) = Inr dec" using PutDec_text_digits by blast
  obtain u1 where u1: "Raw_Puts greeting u = Some u1" "rx_ready u1 = rx_ready u" "tx_ready u1" "dr_reads u1 = dr_reads u"
      "\<And>input. incoming u1 input = incoming u input"
    using Raw_Puts_keeps [OF assms(1), of greeting] by metis
  have in1: "rx_ready u1" "incoming u1 (noise1 @ CHR ''O'' # noise2 @ CHR ''K'' # s0 # s1 # s2 # s3 # payload)"
    using assms(2,3) u1(2,5) le by simp_all
  obtain u2 where u2: "await_char CHR ''O'' u1 = Some u2" "incoming u2 (noise2 @ CHR ''K'' # s0 # s1 # s2 # s3 # payload)"
      "rx_ready u2" "tx_ready u2" "dr_reads u2 = dr_reads u1 + length noise1 + 1"
    using await_char_incoming [OF in1 assms(4)] in1(1) u1(3) by metis
  obtain u3 where u3: "await_char CHR ''K'' u2 = Some u3" "incoming u3 (s0 # s1 # s2 # s3 # payload)"
      "rx_ready u3" "tx_ready u3" "dr_reads u3 = dr_reads u2 + length noise2 + 1"
    using await_char_incoming [OF u2(3,2) assms(5)] u2(3,4) by metis
  obtain u4 where u4: "Raw_Getc u3 = Some (s0, u4)" "incoming u4 (s1 # s2 # s3 # payload)" "rx_ready u4" "tx_ready u4" "dr_reads u4 = dr_reads u3 + 1"
    using Raw_Getc_incoming [OF u3(3,2)] u3(3,4) by metis
  obtain u5 where u5: "Raw_Getc u4 = Some (s1, u5)" "incoming u5 (s2 # s3 # payload)" "rx_ready u5" "tx_ready u5" "dr_reads u5 = dr_reads u4 + 1"
    using Raw_Getc_incoming [OF u4(3,2)] u4(3,4) by metis
  obtain u6 where u6: "Raw_Getc u5 = Some (s2, u6)" "incoming u6 (s3 # payload)" "rx_ready u6" "tx_ready u6" "dr_reads u6 = dr_reads u5 + 1"
    using Raw_Getc_incoming [OF u5(3,2)] u5(3,4) by metis
  obtain u7 where u7: "Raw_Getc u6 = Some (s3, u7)" "incoming u7 payload" "rx_ready u7" "tx_ready u7" "dr_reads u7 = dr_reads u6 + 1"
    using Raw_Getc_incoming [OF u6(3,2)] u6(3,4) by metis
  obtain u8 where u8: "Raw_Puts size_reply u7 = Some u8" "incoming u8 payload" "rx_ready u8" "tx_ready u8" "dr_reads u8 = dr_reads u7"
    using Raw_Puts_keeps [OF u7(4), of size_reply] u7(2,3) by metis
  obtain u9 where u9: "Raw_Puts (dec @ [CHR 0x0A]) u8 = Some u9" "incoming u9 payload" "rx_ready u9" "dr_reads u9 = dr_reads u8"
    using Raw_Puts_keeps [OF u8(4), of "dec @ [CHR 0x0A]"] u8(2,3) by metis
  have "unat (of_nat (length payload) :: u32) = length payload" using assms(6) by (simp add: unsigned_of_nat take_bit_nat_eq_self)
  then show ?thesis
    using receive_image_incoming [OF u9(3,2), of destination m] u1(4) u2(5) u3(5) u4(5) u5(5) u6(5) u7(5) u8(5) u9(4)
    by (auto simp: GetNewKernel_def Let_def u1(1) u2(1) u3(1) u4(1) u5(1) u6(1) u7(1) u8(1) u9(1) size dec)
qed

lemma relocate_copies:
  assumes "8 dvd fin - start" and "start \<le> fin" and "0x4000 \<le> start"
  shows "relocate start fin m = copied m (start - 0x4000) start (fin - start)"
proof -
  obtain k where "fin - start = 8 * k" using assms(1) by (rule dvdE)
  moreover from this have "(fin - start + 7) div 8 = k" by simp
  ultimately show ?thesis using copy_qwords_copied [of "start - 0x4000" start k m] by (simp add: relocate_def)
qed

section \<open>Properties\<close>


lemma byte_to_char_of_char: "byte_to_char (of_char c) = c"
proof -
  have lt: "(of_char c :: nat) < 256" using of_char_mod_256 [of c, where ?'a = nat] by (metis mod_less_divisor zero_less_numeral)
  have "(of_char c :: u32) AND 0xFF = take_bit 8 (of_nat (of_char c))"
    by (simp add: take_bit_eq_mask mask_eq_exp_minus_1 of_nat_of_char)
  then have "unat ((of_char c :: u32) AND 0xFF) = of_char c"
    using lt by (simp add: unsigned_take_bit_eq unsigned_of_nat take_bit_nat_eq_self del: of_nat_of_char)
  then show ?thesis by (simp add: byte_to_char_def)
qed

definition example_input :: string where
  "example_input = ''OK'' @ le32 (length ''AB'') @ ''AB''"

definition example_line :: uart where
  "example_line = \<lparr>FR = \<lambda>n. if n = 0 then 0x10 else 0, fr_reads = 0,
     DR_in = \<lambda>i. of_char (example_input ! i), dr_reads = 0, sent = []\<rparr>"

lemma example_line_init: "PL011_Init example_line = Some (uart_setup, example_line\<lparr>fr_reads := 1\<rparr>)"
proof -
  have "drain_receiver example_line = Some (example_line\<lparr>fr_reads := 1\<rparr>)"
    by (subst drain_receiver.simps) (simp add: read_FR_def example_line_def bit_iff_odd)
  then show ?thesis by (simp add: PL011_Init_def)
qed


end
