(* ===== verification/Usb_Control.thy ===== *)
theory Usb_Control
  imports Usb_Spec Memory
begin

text \<open>
  Control transfers of \<^verbatim>\<open>src/UsbDevices.cpp\<close>: the three phases of a control message, the requests built on
  it, and the reading of descriptors and strings.

  The bus is an argument: the answer to a transfer, a count and for reads the bytes put into the buffer,
  depends on everything that happened on the bus before. The trace has the newest event first. A buffer
  that the code leaves uninitialised has bytes that the argument gives, and so have the two variables that
  the code reads before it sets them.
\<close>

unbundle bit_operations_syntax

section \<open>The bus\<close>

datatype bus_event =
    XferOut usb_pipe usb_transfer_type "u8 list" PacketId u32
  | XferIn usb_pipe usb_transfer_type nat PacketId u32 "u8 list"
  | Waited nat

type_synonym trace = "bus_event list"

record usb_bus =
  on_out :: "trace \<Rightarrow> usb_pipe \<Rightarrow> usb_transfer_type \<Rightarrow> u8 list \<Rightarrow> PacketId \<Rightarrow> u32"
  on_in :: "trace \<Rightarrow> usb_pipe \<Rightarrow> usb_transfer_type \<Rightarrow> nat \<Rightarrow> PacketId \<Rightarrow> u32 \<times> u8 list"
  junk_result :: "trace \<Rightarrow> u8"
  junk_transfer :: "trace \<Rightarrow> u32"
  junk_byte :: "trace \<Rightarrow> nat \<Rightarrow> u8"

definition junk :: "usb_bus \<Rightarrow> trace \<Rightarrow> nat \<Rightarrow> nat \<Rightarrow> u8 list" where
  "junk b t base n = map (junk_byte b t) [base..<base + n]"

definition transfer_out :: "usb_bus \<Rightarrow> usb_pipe \<Rightarrow> usb_transfer_type \<Rightarrow> u8 list \<Rightarrow> PacketId \<Rightarrow> trace \<Rightarrow> u32 \<times> trace" where
  "transfer_out b pipe ty bytes pid t = (let n = on_out b t pipe ty bytes pid in (n, XferOut pipe ty bytes pid n # t))"

definition transfer_in :: "usb_bus \<Rightarrow> usb_pipe \<Rightarrow> usb_transfer_type \<Rightarrow> nat \<Rightarrow> PacketId \<Rightarrow> trace \<Rightarrow> (u32 \<times> u8 list) \<times> trace" where
  "transfer_in b pipe ty len pid t =
     (let (n, data) = on_in b t pipe ty len pid; data' = take len data in ((n, data'), XferIn pipe ty len pid n data' # t))"

definition overwrite :: "u8 list \<Rightarrow> u8 list \<Rightarrow> u8 list" where
  "overwrite new old = new @ drop (length new) old"

section \<open>Control messages\<close>

definition dwc_code :: "DWCRESULT \<Rightarrow> u8" where
  "dwc_code d =
     (case d of DwcOk \<Rightarrow> 0 | DwcErrorGeneral \<Rightarrow> 1 | DwcErrorArgument \<Rightarrow> 2 | DwcErrorDevice \<Rightarrow> 3 | DwcErrorIncompatible \<Rightarrow> 4
      | DwcErrorTimeout \<Rightarrow> 5 | DwcErrorTransmission \<Rightarrow> 6 | DwcErrorStall \<Rightarrow> 7)"

definition ResultFromDwcResult :: "u8 \<Rightarrow> RESULT" where
  "ResultFromDwcResult r =
     (if r = dwc_code DwcOk then Ok
      else if r = dwc_code DwcErrorGeneral then ErrorGeneral
      else if r = dwc_code DwcErrorArgument then ErrorArgument
      else if r = dwc_code DwcErrorDevice then ErrorDevice
      else if r = dwc_code DwcErrorIncompatible then ErrorIncompatible
      else if r = dwc_code DwcErrorTimeout then ErrorTimeout
      else if r = dwc_code DwcErrorTransmission then ErrorTransmission
      else if r = dwc_code DwcErrorStall then ErrorStall
      else ErrorGeneral)"

text \<open>
  The buffer of a message: none, bytes to send, or room for a number of bytes. The result is the status,
  the bytes received, and the value stored through \<^verbatim>\<open>bytesTransferred\<close>, which an early return leaves alone.
\<close>

datatype xfer_buffer = NoBuffer | Send "u8 list" | Receive nat

definition buffer_length :: "xfer_buffer \<Rightarrow> nat" where
  "buffer_length x = (case x of NoBuffer \<Rightarrow> 0 | Send bytes \<Rightarrow> length bytes | Receive n \<Rightarrow> n)"

definition sent_bytes :: "xfer_buffer \<Rightarrow> u8 list" where
  "sent_bytes x = (case x of Send bytes \<Rightarrow> bytes | _ \<Rightarrow> [])"

definition HCDSubmitControlMessage ::
  "usb_bus \<Rightarrow> usb_pipe \<Rightarrow> UsbDirection \<Rightarrow> xfer_buffer \<Rightarrow> usb_request \<Rightarrow> trace \<Rightarrow> (RESULT \<times> u8 list \<times> u32 option) \<times> trace" where
  "HCDSubmitControlMessage b pipe Direction buffer request t =
     (let (transferLength, t1) = transfer_out b pipe USB_TRANSFER_TYPE_CONTROL (request_bytes request) USB_PID_SETUP t in
      if transferLength \<noteq> 8 then ((ResultFromDwcResult (junk_result b t1), [], None), t1)
      else if buffer = NoBuffer then
        (if Direction = USB_DIRECTION_IN then ((ErrorArgument, [], None), t1)
         else let (_, t2) = transfer_in b pipe USB_TRANSFER_TYPE_CONTROL 0 USB_PID_DATA1 t1 in ((Ok, [], Some 0), t2))
      else if Direction = USB_DIRECTION_OUT then
        (let (lastTransfer, t2) = transfer_out b pipe USB_TRANSFER_TYPE_CONTROL (sent_bytes buffer) USB_PID_DATA1 t1 in
         if lastTransfer \<noteq> of_nat (buffer_length buffer) then ((ErrorGeneral, [], None), t2)
         else let (_, t3) = transfer_in b pipe USB_TRANSFER_TYPE_CONTROL 0 USB_PID_DATA1 t2 in ((Ok, [], Some lastTransfer), t3))
      else
        (let ((lastTransfer, data), t2) = transfer_in b pipe USB_TRANSFER_TYPE_CONTROL (buffer_length buffer) USB_PID_DATA1 t1 in
         if lastTransfer \<noteq> of_nat (buffer_length buffer) then ((ErrorGeneral, data, None), t2)
         else let (_, t3) = transfer_out b pipe USB_TRANSFER_TYPE_CONTROL [] USB_PID_DATA1 t2 in ((Ok, data, Some lastTransfer), t3)))"

definition HCDSubmitControlMessageOUT ::
  "usb_bus \<Rightarrow> usb_pipe \<Rightarrow> xfer_buffer \<Rightarrow> usb_request \<Rightarrow> trace \<Rightarrow> (RESULT \<times> u8 list \<times> u32 option) \<times> trace" where
  "HCDSubmitControlMessageOUT b pipe buffer request t = HCDSubmitControlMessage b pipe USB_DIRECTION_OUT buffer request t"

definition HCDSubmitControlMessageIN ::
  "usb_bus \<Rightarrow> usb_pipe \<Rightarrow> xfer_buffer \<Rightarrow> usb_request \<Rightarrow> trace \<Rightarrow> (RESULT \<times> u8 list \<times> u32 option) \<times> trace" where
  "HCDSubmitControlMessageIN b pipe buffer request t = HCDSubmitControlMessage b pipe USB_DIRECTION_IN buffer request t"

definition HCDSetAddress :: "usb_bus \<Rightarrow> usb_pipe \<Rightarrow> u8 \<Rightarrow> trace \<Rightarrow> RESULT \<times> trace" where
  "HCDSetAddress b pipe address t =
     (if address = 0 then (ErrorArgument, t)
      else let ((result, _), t1) = HCDSubmitControlMessage b pipe USB_DIRECTION_OUT NoBuffer
             \<lparr>req_Type = 0, req_Request = SetAddress, req_Value = ucast address, req_Index = 0, req_Length = 0\<rparr> t in (result, t1))"

definition HCDSetConfiguration :: "usb_bus \<Rightarrow> usb_pipe \<Rightarrow> u8 \<Rightarrow> trace \<Rightarrow> RESULT \<times> trace" where
  "HCDSetConfiguration b pipe configuration t =
     (let ((result, _), t1) = HCDSubmitControlMessage b pipe USB_DIRECTION_OUT NoBuffer
        \<lparr>req_Type = 0, req_Request = SetConfiguration, req_Value = ucast configuration, req_Index = 0, req_Length = 0\<rparr> t in (result, t1))"

section \<open>Ports of a hub\<close>

text \<open>\<open>Status\<close> is the four bytes at the caller's pointer, before and after the call.\<close>

definition HCDReadHubPortStatus :: "usb_bus \<Rightarrow> usb_pipe \<Rightarrow> u8 \<Rightarrow> u8 list \<Rightarrow> trace \<Rightarrow> (RESULT \<times> u8 list) \<times> trace" where
  "HCDReadHubPortStatus b pipe port Status t =
     (let ((result, data, n), t1) = HCDSubmitControlMessage b pipe USB_DIRECTION_IN (Receive 4)
        \<lparr>req_Type = if port \<noteq> 0 then bmREQ_PORT_STATUS else bmREQ_HUB_STATUS, req_Request = GetStatus, req_Value = 0,
         req_Index = ucast port, req_Length = 4\<rparr> t;
        transfer = (case n of None \<Rightarrow> 0 | Some k \<Rightarrow> k);
        Status' = overwrite data Status in
      if result \<noteq> Ok then ((result, Status'), t1)
      else if transfer < 4 then ((ErrorDevice, Status'), t1)
      else ((Ok, Status'), t1))"

definition HCDChangeHubPortFeature :: "usb_bus \<Rightarrow> usb_pipe \<Rightarrow> HubPortFeature \<Rightarrow> u8 \<Rightarrow> bool \<Rightarrow> trace \<Rightarrow> RESULT \<times> trace" where
  "HCDChangeHubPortFeature b pipe feature port on t =
     (let ((result, _), t1) = HCDSubmitControlMessage b pipe USB_DIRECTION_OUT NoBuffer
        \<lparr>req_Type = if port \<noteq> 0 then bmREQ_PORT_FEATURE else bmREQ_HUB_FEATURE,
         req_Request = if on then SetFeature else ClearFeature, req_Value = feature_code feature,
         req_Index = ucast port, req_Length = 0\<rparr> t in (result, t1))"

section \<open>Descriptors\<close>

text \<open>
  The bytes are what was put into the caller's buffer; the number is the value stored through
  \<^verbatim>\<open>bytesTransferred\<close>, if one was.
\<close>

definition descriptor_request :: "u8 \<Rightarrow> usb_descriptor_type \<Rightarrow> u8 \<Rightarrow> u16 \<Rightarrow> nat \<Rightarrow> usb_request" where
  "descriptor_request recipient type index langId len =
     \<lparr>req_Type = recipient, req_Request = GetDescriptor, req_Value = push_bit 8 (ucast (descriptor_code type)) OR ucast index,
      req_Index = langId, req_Length = of_nat len\<rparr>"

definition descriptor_body ::
  "usb_bus \<Rightarrow> usb_pipe \<Rightarrow> usb_descriptor_type \<Rightarrow> u8 \<Rightarrow> u16 \<Rightarrow> nat \<Rightarrow> u8 \<Rightarrow> trace \<Rightarrow> (RESULT \<times> u8 list \<times> u32 option) \<times> trace" where
  "descriptor_body b pipe type index langId len recipient t =
     (let ((result, data, n), t1) = HCDSubmitControlMessage b pipe USB_DIRECTION_IN (Receive len)
        (descriptor_request recipient type index langId len) t;
        transfer = (case n of None \<Rightarrow> junk_transfer b t1 | Some k \<Rightarrow> k);
        result' = (if of_nat len \<noteq> transfer then ErrorTransmission else result) in
      ((result', data, Some transfer), t1))"

definition HCDGetDescriptor ::
  "usb_bus \<Rightarrow> usb_pipe \<Rightarrow> usb_descriptor_type \<Rightarrow> u8 \<Rightarrow> u16 \<Rightarrow> nat \<Rightarrow> u8 \<Rightarrow> bool \<Rightarrow> trace \<Rightarrow> (RESULT \<times> u8 list \<times> u32 option) \<times> trace" where
  "HCDGetDescriptor b pipe type index langId len recipient runHeaderCheck t =
     (if runHeaderCheck then
        (let ((result, data, _), t1) = HCDSubmitControlMessage b pipe USB_DIRECTION_IN (Receive 2)
           (descriptor_request recipient type index langId 2) t;
           header = overwrite data [0, 0];
           result' = (if result = Ok \<and> header ! 1 \<noteq> descriptor_code type then ErrorGeneral else result) in
         if result' \<noteq> Ok then ((result', [], None), t1)
         else descriptor_body b pipe type index langId (min len (unat (header ! 0))) recipient t1)
      else descriptor_body b pipe type index langId len recipient t)"

section \<open>Strings\<close>

definition stored :: "u32 option \<Rightarrow> u32 \<Rightarrow> u32" where
  "stored n old = (case n of None \<Rightarrow> old | Some k \<Rightarrow> k)"

definition lang_id :: "u8 list \<Rightarrow> nat \<Rightarrow> u16" where
  "lang_id langIds i = le16 (langIds ! (2 * i)) (langIds ! (2 * i + 1))"

text \<open>Whether the search for US English ends with \<^verbatim>\<open>i == lastEntry\<close>; the array has 96 entries.\<close>

definition no_english :: "u8 list \<Rightarrow> nat \<Rightarrow> bool res" where
  "no_english langIds lastEntry =
     (if \<exists>i\<in>set [1..<min lastEntry 96]. lang_id langIds i = 0x409 then Inr False
      else if 96 < lastEntry then Inl (Undefined ''langIds index'')
      else Inr (1 \<le> lastEntry))"

definition string_text :: "u8 list \<Rightarrow> nat \<Rightarrow> u8 list" where
  "string_text desc n = map (\<lambda>i. of_int (wctob (unat (le16 (desc ! (2 + 2 * i)) (desc ! (3 + 2 * i)))))) [0..<n]"

definition read_string ::
  "usb_bus \<Rightarrow> usb_pipe \<Rightarrow> u8 \<Rightarrow> u16 \<Rightarrow> bool \<Rightarrow> u8 list \<Rightarrow> nat \<Rightarrow> trace \<Rightarrow> (RESULT \<times> u8 list \<times> nat) \<times> trace" where
  "read_string b pipe stringIndex lang NoEnglishSupport buffer len t =
     (let Header = junk b t 256 2; descBuffer = junk b t 0 256;
        ((result, data, n), t1) =
          HCDGetDescriptor b pipe USB_DESCRIPTOR_TYPE_STRING stringIndex lang 2 bmREQ_GET_DEVICE_DESCRIPTOR True t;
        Header = overwrite data Header in
      if result \<noteq> Ok \<or> n \<noteq> Some 2 then ((ErrorDevice, buffer, len), t1)
      else
        let size = unat (Header ! 0);
          ((result, data, n), t2) =
            HCDGetDescriptor b pipe USB_DESCRIPTOR_TYPE_STRING stringIndex lang size bmREQ_GET_DEVICE_DESCRIPTOR True t1;
          descBuffer = overwrite data descBuffer in
        if result \<noteq> Ok \<or> n \<noteq> Some (of_nat size) then ((ErrorArgument, buffer, len), t2)
        else
          let i = (if NoEnglishSupport then 0 else min ((size - 2) div 2) (len - 1));
            len' = (if NoEnglishSupport then len else i) in
          ((Ok, overwrite (string_text descBuffer i @ [0]) buffer, len'), t2))"

definition HCDReadStringDescriptor ::
  "usb_bus \<Rightarrow> usb_pipe \<Rightarrow> u8 \<Rightarrow> u8 list \<Rightarrow> nat \<Rightarrow> trace \<Rightarrow> ((RESULT \<times> u8 list \<times> nat) \<times> trace) res" where
  "HCDReadStringDescriptor b pipe stringIndex buffer len t =
     (if stringIndex = 0 then Inr ((ErrorArgument, buffer, len), t)
      else
        let ((result, data, n), t1) =
          HCDGetDescriptor b pipe USB_DESCRIPTOR_TYPE_STRING 0 0 2 bmREQ_GET_DEVICE_DESCRIPTOR True t;
          langIds = overwrite data (replicate 192 0); transfer = stored n 0 in
        if result \<noteq> Ok \<and> transfer < 2 then Inr ((ErrorArgument, buffer, len), t1)
        else if langIds ! 1 \<noteq> 3 then Inr ((ErrorArgument, buffer, len), t1)
        else
          let ((result, data, n), t2) =
            HCDGetDescriptor b pipe USB_DESCRIPTOR_TYPE_STRING 0 0 (unat (langIds ! 0)) bmREQ_GET_DEVICE_DESCRIPTOR True t1;
            langIds = overwrite data langIds; transfer = stored n transfer in
          if 192 < length data then Inl (Undefined ''langIds overflow'')
          else if result \<noteq> Ok \<and> transfer < ucast (langIds ! 0) then Inr ((ErrorArgument, buffer, len), t2)
          else
            rbind (no_english langIds (unat (langIds ! 0) div 2)) (\<lambda>NoEnglishSupport.
              Inr (read_string b pipe stringIndex (if NoEnglishSupport then lang_id langIds 1 else 0x409)
                NoEnglishSupport buffer len t2)))"

end
