(* ===== verification/Usb_Tables.thy ===== *)
theory Usb_Tables
  imports Usb_Control
begin

text \<open>
  The device, hub and HID tables of \<^verbatim>\<open>src/UsbDevices.cpp\<close> and \<^verbatim>\<open>src/HidUsbDevices.cpp\<close>: payloads, allocation and
  deallocation of devices, the queries, and transfers on an endpoint with its data toggle.

  A pointer to a device, hub or HID entry is the index into its table, and a null pointer is \<open>None\<close>. The three
  payload pointers of a device share their storage in the code, so they are one component here, and the
  payload's kind says which table it points into. Deallocation recurses into the children of a hub; the
  fuel bounds the depth.
\<close>

unbundle bit_operations_syntax

section \<open>Tables\<close>

definition MaxChildrenPerDevice :: nat where "MaxChildrenPerDevice = 10"
definition MaxInterfacesPerDevice :: nat where "MaxInterfacesPerDevice = 8"
definition MaxEndpointsPerDevice :: nat where "MaxEndpointsPerDevice = 16"
definition MaximumHubs :: nat where "MaximumHubs = 16"
definition MaxHIDPerDevice :: nat where "MaxHIDPerDevice = 4"
definition MaximumHids :: nat where "MaximumHids = 16"

datatype PayLoadType = ErrorPayload | NoPayload | HubPayload | HidPayload | MassStoragePayload

record usb_device =
  ParentNumber :: u8
  ParentPort :: u8
  Pipe0 :: usb_pipe
  ConfigIndex :: u8
  ConfigStringIndex :: u8
  Status :: UsbDeviceStatus
  MaxInterface :: u8
  Interfaces :: "interface_descriptor list"
  Endpoints :: "endpoint_descriptor list list"
  Descriptor :: device_descriptor
  PayLoadId :: PayLoadType
  PayLoad :: "nat option"

definition device_zero :: usb_device where
  "device_zero =
     \<lparr>ParentNumber = 0, ParentPort = 0, Pipe0 = pipe_zero, ConfigIndex = 0, ConfigStringIndex = 0,
      Status = USB_STATUS_ATTACHED, MaxInterface = 0, Interfaces = replicate 8 interface_zero,
      Endpoints = replicate 8 (replicate 16 endpoint_zero), Descriptor = device_descriptor_zero,
      PayLoadId = ErrorPayload, PayLoad = None\<rparr>"

record hub_device =
  MaxChildren :: nat
  Children :: "nat option list"
  HubDescr :: hub_descriptor

definition hub_zero :: hub_device where
  "hub_zero = \<lparr>MaxChildren = 0, Children = replicate 10 None, HubDescr = hub_descriptor_zero\<rparr>"

record hid_descriptor =
  hid_Length :: u8
  hid_Type :: u8
  HidVersion :: u16
  Countrycode :: u8
  DescriptorCount :: u8
  report_Type :: u8
  report_Length :: u16

definition hid_descriptor_of :: "u8 list \<Rightarrow> hid_descriptor" where
  "hid_descriptor_of b =
     \<lparr>hid_Length = b ! 0, hid_Type = b ! 1, HidVersion = le16 (b ! 2) (b ! 3), Countrycode = b ! 4,
      DescriptorCount = b ! 5, report_Type = b ! 6, report_Length = le16 (b ! 7) (b ! 8)\<rparr>"

record hid_device =
  HidDescr :: "hid_descriptor list"
  HIDInterface :: "u8 list"
  MaxHID :: u8

definition hid_zero :: hid_device where
  "hid_zero = \<lparr>HidDescr = replicate 4 (hid_descriptor_of (replicate 9 0)), HIDInterface = replicate 4 0, MaxHID = 0\<rparr>"

record usb =
  DeviceTable :: "usb_device list"
  HubTable :: "hub_device list"
  HidTable :: "hid_device list"
  Trace :: trace

definition usb_zero :: usb where
  "usb_zero =
     \<lparr>DeviceTable = replicate 32 device_zero, HubTable = replicate 16 hub_zero, HidTable = replicate 16 hid_zero, Trace = []\<rparr>"

definition device :: "usb \<Rightarrow> nat \<Rightarrow> usb_device" where
  "device s d = DeviceTable s ! d"

definition update_device :: "nat \<Rightarrow> (usb_device \<Rightarrow> usb_device) \<Rightarrow> usb \<Rightarrow> usb" where
  "update_device d f s = s\<lparr>DeviceTable := (DeviceTable s)[d := f (DeviceTable s ! d)]\<rparr>"

definition update_hub :: "nat \<Rightarrow> (hub_device \<Rightarrow> hub_device) \<Rightarrow> usb \<Rightarrow> usb" where
  "update_hub h f s = s\<lparr>HubTable := (HubTable s)[h := f (HubTable s ! h)]\<rparr>"

definition update_hid :: "nat \<Rightarrow> (hid_device \<Rightarrow> hid_device) \<Rightarrow> usb \<Rightarrow> usb" where
  "update_hid h f s = s\<lparr>HidTable := (HidTable s)[h := f (HidTable s ! h)]\<rparr>"

section \<open>HID payloads\<close>

definition AllocateHidPayload :: "usb \<Rightarrow> nat option \<times> usb" where
  "AllocateHidPayload s =
     (case find (\<lambda>number. MaxHID (HidTable s ! number) = 0) [0..<MaximumHids] of
        None \<Rightarrow> (None, s)
      | Some number \<Rightarrow> (Some number, update_hid number (MaxHID_update (\<lambda>_. of_nat MaxHIDPerDevice)) s))"

definition FreeHidPayload :: "nat \<Rightarrow> usb \<Rightarrow> usb" where
  "FreeHidPayload h s = update_hid h (\<lambda>_. hid_zero) s"

definition SetHidDescriptor :: "nat \<Rightarrow> u8 \<Rightarrow> u8 \<Rightarrow> u8 list \<Rightarrow> u8 \<Rightarrow> usb \<Rightarrow> bool \<times> usb" where
  "SetHidDescriptor h hidIndex interface buffer sz s =
     (let hid = HidTable s ! h in
      if sz \<noteq> 9 then (False, s)
      else if MaxHID hid < of_nat MaxHIDPerDevice \<and> MaxHID hid \<noteq> hidIndex then (False, s)
      else if of_nat MaxHIDPerDevice \<le> hidIndex then (False, s)
      else (True, update_hid h (\<lambda>hid. hid
              \<lparr>HidDescr := (HidDescr hid)[unat hidIndex := hid_descriptor_of buffer],
               HIDInterface := (HIDInterface hid)[unat hidIndex := interface], MaxHID := hidIndex + 1\<rparr>) s))"

definition GetHidCount :: "nat option \<Rightarrow> usb \<Rightarrow> u8" where
  "GetHidCount h s = (case h of None \<Rightarrow> 0 | Some h \<Rightarrow> MaxHID (HidTable s ! h))"

definition AddHidPayload :: "nat option \<Rightarrow> usb \<Rightarrow> RESULT \<times> usb" where
  "AddHidPayload p s =
     (case p of None \<Rightarrow> (ErrorArgument, s)
      | Some d \<Rightarrow>
          if PayLoadId (device s d) \<noteq> NoPayload then (ErrorArgument, s)
          else let (h, s1) = AllocateHidPayload s; s2 = update_device d (PayLoad_update (\<lambda>_. h)) s1 in
            if h = None then (ErrorMemory, s2)
            else (Ok, update_device d (PayLoadId_update (\<lambda>_. HidPayload)) s2))"

definition RemoveHidPayload :: "nat option \<Rightarrow> usb \<Rightarrow> usb" where
  "RemoveHidPayload p s =
     (case p of None \<Rightarrow> s
      | Some d \<Rightarrow>
          (case PayLoad (device s d) of
             Some h \<Rightarrow>
               if PayLoadId (device s d) = HidPayload then
                 update_device d (\<lambda>x. x\<lparr>PayLoad := None, PayLoadId := NoPayload\<rparr>) (FreeHidPayload h s)
               else s
           | None \<Rightarrow> s))"

section \<open>Hub payloads and devices\<close>

definition AddHubPayload :: "nat option \<Rightarrow> usb \<Rightarrow> RESULT \<times> usb" where
  "AddHubPayload p s =
     (case p of None \<Rightarrow> (ErrorArgument, s)
      | Some d \<Rightarrow>
          if PayLoadId (device s d) = NoPayload then
            (case find (\<lambda>number. MaxChildren (HubTable s ! number) = 0) [0..<MaximumHubs] of
               None \<Rightarrow> (ErrorMemory, s)
             | Some number \<Rightarrow>
                 (Ok, update_hub number (MaxChildren_update (\<lambda>_. MaxChildrenPerDevice))
                        (update_device d (\<lambda>x. x\<lparr>PayLoad := Some number, PayLoadId := HubPayload\<rparr>) s)))
          else (ErrorArgument, s))"

definition UsbAllocateDevice :: "usb \<Rightarrow> (RESULT \<times> nat option) \<times> usb" where
  "UsbAllocateDevice s =
     (case find (\<lambda>number. PayLoadId (device s number) = ErrorPayload) [0..<MaximumDevices] of
        None \<Rightarrow> ((ErrorMemory, None), s)
      | Some number \<Rightarrow>
          ((Ok, Some number), update_device number (\<lambda>x. x
             \<lparr>Pipe0 := (Pipe0 x)\<lparr>pipe_Number := of_nat (number + 1)\<rparr>, Status := USB_STATUS_ATTACHED,
              ParentPort := 0, ParentNumber := 0xFF, PayLoadId := NoPayload, PayLoad := None\<rparr>) s))"

definition IsHub_device :: "usb_device \<Rightarrow> bool" where
  "IsHub_device x \<longleftrightarrow> PayLoadId x = HubPayload \<and> PayLoad x \<noteq> None"

text \<open>
  The loop over the children reads the payload pointer and \<^verbatim>\<open>MaxChildren\<close> again in each round; \<^verbatim>\<open>MaxChildren\<close> is
  never more than the size of the array. \<open>free\<close> is the recursive call.
\<close>

fun free_children :: "(nat \<Rightarrow> usb \<Rightarrow> usb res) \<Rightarrow> nat \<Rightarrow> nat list \<Rightarrow> usb \<Rightarrow> usb res" where
  "free_children free d [] s = Inr s"
| "free_children free d (i # is) s =
     (case PayLoad (device s d) of
        None \<Rightarrow> Inl (Undefined ''HubPayload'')
      | Some h \<Rightarrow>
          if i < MaxChildren (HubTable s ! h) then
            (case Children (HubTable s ! h) ! i of
               None \<Rightarrow> free_children free d is s
             | Some c \<Rightarrow> rbind (free c s) (free_children free d is))
          else Inr s)"

definition RemoveHubPayload :: "(nat \<Rightarrow> usb \<Rightarrow> usb res) \<Rightarrow> nat option \<Rightarrow> usb \<Rightarrow> usb res" where
  "RemoveHubPayload free p s =
     (case p of None \<Rightarrow> Inr s
      | Some d \<Rightarrow>
          if PayLoadId (device s d) = HubPayload \<and> PayLoad (device s d) \<noteq> None then
            rbind (free_children free d [0..<MaxChildrenPerDevice] s) (\<lambda>s1.
              case PayLoad (device s1 d) of
                None \<Rightarrow> Inl (Undefined ''HubPayload'')
              | Some h \<Rightarrow>
                  Inr (update_device d (\<lambda>x. x\<lparr>PayLoad := None, PayLoadId := NoPayload\<rparr>) (update_hub h (\<lambda>_. hub_zero) s1)))
          else Inr s)"

definition unlink_parent :: "nat \<Rightarrow> usb \<Rightarrow> usb res" where
  "unlink_parent d s =
     (if ParentNumber (device s d) < of_nat MaximumDevices then
        if ParentNumber (device s d) = 0 then Inl (Undefined ''DeviceTable[-1]'')
        else
          let p = unat (ParentNumber (device s d)) - 1; port = unat (ParentPort (device s d)) in
          case PayLoad (device s p) of
            None \<Rightarrow> Inr s
          | Some h \<Rightarrow>
              Inr (if PayLoadId (device s p) = HubPayload \<and> port < MaxChildren (HubTable s ! h)
                     \<and> Children (HubTable s ! h) ! port = Some d
                   then update_hub h (\<lambda>x. x\<lparr>Children := (Children x)[port := None]\<rparr>) s else s)
      else Inr s)"

fun UsbDeallocateDevice :: "nat \<Rightarrow> nat \<Rightarrow> usb \<Rightarrow> usb res" where
  "UsbDeallocateDevice 0 d s = Inl Diverges"
| "UsbDeallocateDevice (Suc depth) d s =
     rbind
       (if IsHub_device (device s d) then
          rbind (free_children (UsbDeallocateDevice depth) d [0..<MaxChildrenPerDevice] s)
            (RemoveHubPayload (UsbDeallocateDevice depth) (Some d))
        else Inr s)
       (\<lambda>s1. rbind (unlink_parent d s1) (\<lambda>s2. Inr (update_device d (\<lambda>_. device_zero) s2)))"

section \<open>Queries\<close>

definition valid_number :: "u8 \<Rightarrow> bool" where
  "valid_number devNumber \<longleftrightarrow> 0 < devNumber \<and> devNumber \<le> of_nat MaximumDevices"

definition numbered :: "usb \<Rightarrow> u8 \<Rightarrow> usb_device" where
  "numbered s devNumber = device s (unat devNumber - 1)"

definition IsHub :: "usb \<Rightarrow> u8 \<Rightarrow> bool" where
  "IsHub s devNumber = (if valid_number devNumber then IsHub_device (numbered s devNumber) else False)"

definition IsHid :: "usb \<Rightarrow> u8 \<Rightarrow> bool" where
  "IsHid s devNumber \<longleftrightarrow>
     valid_number devNumber \<and> PayLoadId (numbered s devNumber) = HidPayload \<and> PayLoad (numbered s devNumber) \<noteq> None"

definition IsMassStorage :: "usb \<Rightarrow> u8 \<Rightarrow> bool" where
  "IsMassStorage s devNumber \<longleftrightarrow>
     valid_number devNumber \<and> PayLoadId (numbered s devNumber) = MassStoragePayload \<and> PayLoad (numbered s devNumber) \<noteq> None"

definition IsMouse :: "usb \<Rightarrow> u8 \<Rightarrow> bool" where
  "IsMouse s devNumber \<longleftrightarrow>
     valid_number devNumber \<and> PayLoadId (numbered s devNumber) = HidPayload \<and> PayLoad (numbered s devNumber) \<noteq> None
     \<and> Protocol (Interfaces (numbered s devNumber) ! 0) = 2"

definition IsKeyboard :: "usb \<Rightarrow> u8 \<Rightarrow> bool" where
  "IsKeyboard s devNumber \<longleftrightarrow>
     valid_number devNumber \<and> PayLoadId (numbered s devNumber) = HidPayload \<and> PayLoad (numbered s devNumber) \<noteq> None
     \<and> Protocol (Interfaces (numbered s devNumber) ! 0) = 1"

definition UsbGetRootHub :: "usb \<Rightarrow> nat option" where
  "UsbGetRootHub s = (if PayLoadId (device s 0) \<noteq> ErrorPayload then Some 0 else None)"

definition UsbDeviceAtAddress :: "usb \<Rightarrow> u8 \<Rightarrow> nat option" where
  "UsbDeviceAtAddress s devNumber =
     (if devNumber = 0 \<or> of_nat MaximumDevices < devNumber then None
      else let d = unat devNumber - 1 in if PayLoadId (device s d) = ErrorPayload then None else Some d)"

definition GetDeviceNumber :: "usb \<Rightarrow> nat option \<Rightarrow> u8" where
  "GetDeviceNumber s p =
     (case p of None \<Rightarrow> 0 | Some d \<Rightarrow> if PayLoadId (device s d) = ErrorPayload then 0 else pipe_Number (Pipe0 (device s d)))"

definition GetHidDevice :: "usb \<Rightarrow> nat option \<Rightarrow> nat option" where
  "GetHidDevice s p =
     (case p of None \<Rightarrow> None | Some d \<Rightarrow> if PayLoadId (device s d) \<noteq> HidPayload then None else PayLoad (device s d))"

definition GetDeviceDescriptor :: "usb \<Rightarrow> u8 \<Rightarrow> device_descriptor" where
  "GetDeviceDescriptor s devNumber =
     (case UsbDeviceAtAddress s devNumber of None \<Rightarrow> device_descriptor_zero | Some d \<Rightarrow> Descriptor (device s d))"

definition GetInterfaceDescriptor :: "usb \<Rightarrow> nat option \<Rightarrow> u8 \<Rightarrow> interface_descriptor res" where
  "GetInterfaceDescriptor s p interfaceIndex =
     (case p of None \<Rightarrow> Inr interface_zero
      | Some d \<Rightarrow>
          if MaxInterface (device s d) \<le> interfaceIndex then Inr interface_zero
          else if MaxInterfacesPerDevice \<le> unat interfaceIndex then Inl (Undefined ''Interfaces index'')
          else Inr (Interfaces (device s d) ! unat interfaceIndex))"

fun find_endpoint_loop :: "(endpoint_descriptor \<Rightarrow> bool) \<Rightarrow> endpoint_descriptor list \<Rightarrow> nat \<Rightarrow> nat option" where
  "find_endpoint_loop P [] i = None"
| "find_endpoint_loop P (ep # eps) i =
     (if ep_Length ep = 0 then None else if P ep then Some i else find_endpoint_loop P eps (i + 1))"

definition FindEndpoint :: "usb_device \<Rightarrow> u8 \<Rightarrow> usb_transfer_type \<Rightarrow> UsbDirection \<Rightarrow> endpoint_descriptor res" where
  "FindEndpoint x interfaceIndex type direction =
     (if MaxInterface x \<le> interfaceIndex then Inr endpoint_zero
      else if MaxInterfacesPerDevice \<le> unat interfaceIndex then Inl (Undefined ''Endpoints index'')
      else
        let eps = Endpoints x ! unat interfaceIndex in
        case find_endpoint_loop (\<lambda>ep. ep_Type ep = type \<and> ep_Direction ep = direction) eps 0 of
          None \<Rightarrow> Inr endpoint_zero
        | Some i \<Rightarrow> Inr (eps ! i))"

section \<open>Transfers on an endpoint\<close>

definition same_endpoint :: "endpoint_descriptor \<Rightarrow> endpoint_descriptor \<Rightarrow> bool" where
  "same_endpoint e ep \<longleftrightarrow> ep_Number ep = ep_Number e \<and> ep_Direction ep = ep_Direction e \<and> ep_Type ep = ep_Type e"

fun locate_loop :: "endpoint_descriptor \<Rightarrow> endpoint_descriptor list list \<Rightarrow> nat \<Rightarrow> (nat \<times> nat) option" where
  "locate_loop e [] i = None"
| "locate_loop e (eps # rest) i =
     (case find_endpoint_loop (same_endpoint e) eps 0 of
        Some j \<Rightarrow> Some (i, j)
      | None \<Rightarrow> locate_loop e rest (i + 1))"

definition locate_endpoint :: "usb_device \<Rightarrow> endpoint_descriptor \<Rightarrow> (nat \<times> nat) option res" where
  "locate_endpoint x e =
     (case locate_loop e (take (unat (MaxInterface x)) (Endpoints x)) 0 of
        Some ij \<Rightarrow> Inr (Some ij)
      | None \<Rightarrow> if MaxInterfacesPerDevice < unat (MaxInterface x) then Inl (Undefined ''Endpoints index'') else Inr None)"

definition endpoint_pipe :: "usb_device \<Rightarrow> endpoint_descriptor \<Rightarrow> usb_pipe" where
  "endpoint_pipe x e =
     \<lparr>MaxPacketSizeInBytes = ep_MaxSize e, Speed = Speed (Pipe0 x), EndPoint = ep_Number e,
      pipe_Number = pipe_Number (Pipe0 x), splitNodePort = splitNodePort (Pipe0 x), splitNodePoint = splitNodePoint (Pipe0 x)\<rparr>"

definition toggle_pid :: "endpoint_descriptor \<Rightarrow> PacketId" where
  "toggle_pid ep = (if Interval ep AND 0x80 \<noteq> 0 then USB_PID_DATA1 else USB_PID_DATA0)"

definition choose_pid :: "usb_device \<Rightarrow> endpoint_descriptor \<Rightarrow> PacketId res" where
  "choose_pid x e =
     (if ep_Type e = USB_TRANSFER_TYPE_INTERRUPT then
        rbind (locate_endpoint x e) (\<lambda>found.
          Inr (case found of Some (i, j) \<Rightarrow> toggle_pid (Endpoints x ! i ! j) | None \<Rightarrow> USB_PID_DATA0))
      else Inr USB_PID_DATA0)"

definition flip_toggle :: "nat \<Rightarrow> nat \<Rightarrow> usb_device \<Rightarrow> usb_device" where
  "flip_toggle i j x =
     x\<lparr>Endpoints := (Endpoints x)[i := (Endpoints x ! i)[j := (Endpoints x ! i ! j)\<lparr>Interval := Interval (Endpoints x ! i ! j) XOR 0x80\<rparr>]]\<rparr>"

definition update_toggle :: "nat \<Rightarrow> endpoint_descriptor \<Rightarrow> usb \<Rightarrow> usb res" where
  "update_toggle d e s =
     rbind (locate_endpoint (device s d) e) (\<lambda>found.
       Inr (case found of Some (i, j) \<Rightarrow> update_device d (flip_toggle i j) s | None \<Rightarrow> s))"

text \<open>\<open>buffer\<close> holds the bytes to send, or has the length of the room for a read.\<close>

definition HCDEndpointTransfer :: "usb_bus \<Rightarrow> nat \<Rightarrow> endpoint_descriptor \<Rightarrow> u8 list \<Rightarrow> usb \<Rightarrow> ((RESULT \<times> u8 list) \<times> usb) res" where
  "HCDEndpointTransfer b d endpoint buffer s =
     rbind (choose_pid (device s d) endpoint) (\<lambda>packetId.
       let pipe = endpoint_pipe (device s d) endpoint;
         (transferred, buffer', t1) =
           (if ep_Direction endpoint = USB_DIRECTION_IN then
              let ((n, data), t1) = transfer_in b pipe (ep_Type endpoint) (length buffer) packetId (Trace s) in (n, overwrite data buffer, t1)
            else let (n, t1) = transfer_out b pipe (ep_Type endpoint) buffer packetId (Trace s) in (n, buffer, t1));
         s1 = s\<lparr>Trace := t1\<rparr>; result = (if 0 < transferred then Ok else ErrorTransmission) in
       if 0 < transferred \<and> ep_Type endpoint = USB_TRANSFER_TYPE_INTERRUPT
       then rbind (update_toggle d endpoint s1) (\<lambda>s2. Inr ((result, buffer'), s2))
       else Inr ((result, buffer'), s1))"

end
