(* ===== verification/Usb_Tree.thy ===== *)
theory Usb_Tree
  imports Usb_Tables
begin

text \<open>
  The devices as a forest: a hub owns an entry of the hub table, the pointers of that entry are the
  children, and the child's record names its parent and port. On such a forest deallocation frees exactly the
  devices below the one it is called for, with their hub entries, and unlinks it from its parent.
\<close>

section \<open>The forest\<close>

definition owns :: "usb \<Rightarrow> nat \<Rightarrow> nat \<Rightarrow> bool" where
  "owns s d h \<longleftrightarrow> d < 32 \<and> PayLoadId (device s d) = HubPayload \<and> PayLoad (device s d) = Some h"

definition pointer :: "usb \<Rightarrow> nat \<Rightarrow> nat \<Rightarrow> nat option" where
  "pointer s h port = Children (HubTable s ! h) ! port"

definition child :: "usb \<Rightarrow> nat \<Rightarrow> nat \<Rightarrow> bool" where
  "child s d c \<longleftrightarrow> (\<exists>h port. owns s d h \<and> port < 10 \<and> pointer s h port = Some c)"

abbreviation below :: "usb \<Rightarrow> nat \<Rightarrow> nat set" where
  "below s d \<equiv> {x. (child s)\<^sup>*\<^sup>* d x}"

definition sized :: "usb \<Rightarrow> bool" where
  "sized s \<longleftrightarrow> length (DeviceTable s) = 32 \<and> length (HubTable s) = 16 \<and> (\<forall>h<16. length (Children (HubTable s ! h)) = 10 \<and> MaxChildren (HubTable s ! h) \<le> 10)"

text \<open>
  Every pointer in the hub table belongs to one hub, at a port that the hub has, and its target names that hub and port
  as its parent. The last device of the table is no parent. Heights bound the depth of the forest.
\<close>

definition linked :: "usb \<Rightarrow> bool" where
  "linked s \<longleftrightarrow>
     (\<forall>d h. owns s d h \<longrightarrow> h < 16 \<and> (\<forall>d'. owns s d' h \<longrightarrow> d' = d)) \<and>
     (\<forall>h<16. \<forall>port<10. \<forall>c. pointer s h port = Some c \<longrightarrow>
        port < MaxChildren (HubTable s ! h) \<and> c < 32 \<and>
        (\<exists>d<31. owns s d h \<and> ParentNumber (device s c) = of_nat (d + 1) \<and> ParentPort (device s c) = of_nat port)) \<and>
     (\<forall>c<32. PayLoadId (device s c) \<noteq> ErrorPayload \<longrightarrow> ParentNumber (device s c) \<noteq> 0) \<and>
     (\<forall>h<16. \<forall>port<10. \<forall>c. pointer s h port = Some c \<longrightarrow> PayLoadId (device s c) \<noteq> ErrorPayload) \<and>
     (\<exists>height. (\<forall>d. height d < (32 :: nat)) \<and> (\<forall>d c. child s d c \<longrightarrow> height c < height d))"

text \<open>What is left when the devices of \<open>D\<close> are gone.\<close>

definition cleared_hub :: "usb \<Rightarrow> nat set \<Rightarrow> nat \<Rightarrow> hub_device \<Rightarrow> hub_device" where
  "cleared_hub s D h x =
     (if \<exists>d\<in>D. owns s d h then hub_zero
      else x\<lparr>Children := map (\<lambda>p. case p of None \<Rightarrow> None | Some c \<Rightarrow> if c \<in> D then None else Some c) (Children x)\<rparr>)"

definition without :: "nat set \<Rightarrow> usb \<Rightarrow> usb" where
  "without D s =
     s\<lparr>DeviceTable := map (\<lambda>d. if d \<in> D then device_zero else device s d) [0..<32],
       HubTable := map (\<lambda>h. cleared_hub s D h (HubTable s ! h)) [0..<16]\<rparr>"

lemma device_without: "d < 32 \<Longrightarrow> device (without D s) d = (if d \<in> D then device_zero else device s d)"
  by (simp add: device_def without_def)

lemma hub_without: "h < 16 \<Longrightarrow> HubTable (without D s) ! h = cleared_hub s D h (HubTable s ! h)"
  by (simp add: without_def)

lemma owns_without: "owns (without D s) d h \<longleftrightarrow> owns s d h \<and> d \<notin> D"
  unfolding owns_def by (auto simp: device_without device_zero_def split: if_splits)

lemma sized_without: "sized s \<Longrightarrow> sized (without D s)"
  by (simp add: sized_def without_def cleared_hub_def hub_zero_def)

lemma pointer_without:
  assumes "sized s" and "h < 16" and "port < 10"
  shows "pointer (without D s) h port =
    (if \<exists>d\<in>D. owns s d h then None else case pointer s h port of None \<Rightarrow> None | Some c \<Rightarrow> if c \<in> D then None else Some c)"
  using assms by (auto simp: pointer_def hub_without cleared_hub_def hub_zero_def sized_def split: option.splits)

lemma owner:
  assumes "linked s" and "owns s d h"
  shows "h < 16" and "owns s d' h \<Longrightarrow> d' = d"
  using assms unfolding linked_def by blast+

lemma owns_unique: "owns s d h \<Longrightarrow> owns s d h' \<Longrightarrow> h' = h"
  by (simp add: owns_def)

lemma pointer_owned:
  assumes "sized s" and "linked s" and "owns s d h" and "d \<notin> D" and "port < 10"
  shows "pointer (without D s) h port = Some c \<longleftrightarrow> pointer s h port = Some c \<and> c \<notin> D"
proof -
  have "\<not> (\<exists>d'\<in>D. owns s d' h)" using owner(2) [OF assms(2,3)] assms(4) by blast
  then show ?thesis
    using pointer_without [OF assms(1) owner(1) [OF assms(2,3)] assms(5), of D] by (auto split: option.splits)
qed

lemma child_without:
  assumes "sized s" and "linked s"
  shows "child (without D s) d c \<longleftrightarrow> child s d c \<and> d \<notin> D \<and> c \<notin> D"
proof -
  have "(\<exists>port<10. pointer (without D s) h port = Some c) \<longleftrightarrow> (\<exists>port<10. pointer s h port = Some c) \<and> c \<notin> D"
    if "owns s d h" "d \<notin> D" for h
    by (auto simp: pointer_owned [OF assms that])
  then show ?thesis unfolding child_def owns_without by blast
qed

lemma pointerD:
  assumes "linked s" and "h < 16" and "port < 10" and "pointer s h port = Some c"
  shows "port < MaxChildren (HubTable s ! h)" and "c < 32" and "PayLoadId (device s c) \<noteq> ErrorPayload"
    and "\<exists>d<31. owns s d h \<and> ParentNumber (device s c) = of_nat (d + 1) \<and> ParentPort (device s c) = of_nat port"
  using assms unfolding linked_def by blast+

lemma of_nat_u8_inject: "m < 256 \<Longrightarrow> n < 256 \<Longrightarrow> (of_nat m :: u8) = of_nat n \<longleftrightarrow> m = n"
  by (simp add: word_of_nat_eq_iff take_bit_nat_eq_self)

lemma childD:
  assumes "linked s" and "child s d c"
  shows "d < 31" and "c < 32" and "PayLoadId (device s c) \<noteq> ErrorPayload"
    and "ParentNumber (device s c) = of_nat (d + 1)"
proof -
  obtain h port where o: "owns s d h" "port < 10" "pointer s h port = Some c" using assms(2) unfolding child_def by blast
  note p = pointerD [OF assms(1) owner(1) [OF assms(1) o(1)] o(2,3)]
  from p(4) owner(2) [OF assms(1) o(1)] show "d < 31" "ParentNumber (device s c) = of_nat (d + 1)" by blast+
  from p show "c < 32" "PayLoadId (device s c) \<noteq> ErrorPayload" by blast+
qed

lemma unat_of_nat_u8: "n < 256 \<Longrightarrow> unat (of_nat n :: u8) = n"
  by (simp add: unsigned_of_nat take_bit_nat_eq_self)

lemma one_parent:
  assumes "linked s" and "child s d c" and "child s d' c"
  shows "d' = d"
  using childD [OF assms(1,2)] childD [OF assms(1,3)] of_nat_u8_inject [of "d + 1" "d' + 1"] by simp

section \<open>Taking devices out of a forest\<close>

lemma linked_without:
  assumes "sized s" and "linked s"
  shows "linked (without D s)"
proof -
  obtain height where h: "\<forall>d. height d < (32 :: nat)" "\<forall>d c. child s d c \<longrightarrow> height c < height d"
    using assms(2) unfolding linked_def by blast
  have ptr: "pointer s g port = Some c \<and> c \<notin> D \<and> \<not> (\<exists>d\<in>D. owns s d g)"
    if "g < 16" "port < 10" "pointer (without D s) g port = Some c" for g port c
    using that pointer_without [OF assms(1) that(1,2), of D] by (auto split: option.splits if_splits)
  have hub: "MaxChildren (HubTable (without D s) ! g) = MaxChildren (HubTable s ! g)"
    if "g < 16" "\<not> (\<exists>d\<in>D. owns s d g)" for g
    using that by (simp add: hub_without cleared_hub_def)
  have own: "h < 16 \<and> (\<forall>d'. owns (without D s) d' h \<longrightarrow> d' = d)" if "owns (without D s) d h" for d h
    using that owner [OF assms(2)] unfolding owns_without by blast
  have links: "port < MaxChildren (HubTable (without D s) ! g) \<and> c < 32 \<and>
      (\<exists>d<31. owns (without D s) d g \<and> ParentNumber (device (without D s) c) = of_nat (d + 1) \<and> ParentPort (device (without D s) c) = of_nat port)
      \<and> PayLoadId (device (without D s) c) \<noteq> ErrorPayload"
    if "g < 16" "port < 10" "pointer (without D s) g port = Some c" for g port c
  proof -
    from ptr [OF that] have p: "pointer s g port = Some c" and c: "c \<notin> D" and o: "\<not> (\<exists>d\<in>D. owns s d g)" by blast+
    note q = pointerD [OF assms(2) that(1,2) p]
    from q(2) c have "device (without D s) c = device s c" by (simp add: device_without)
    with q c o hub [OF that(1) o] show ?thesis unfolding owns_without by (metis (no_types, lifting))
  qed
  have parents: "ParentNumber (device (without D s) c) \<noteq> 0"
    if "c < 32" "PayLoadId (device (without D s) c) \<noteq> ErrorPayload" for c
    using that assms(2) unfolding linked_def by (auto simp: device_without device_zero_def split: if_splits)
  have "\<forall>d c. child (without D s) d c \<longrightarrow> height c < height d" using h(2) child_without [OF assms] by blast
  with h(1) own links parents show ?thesis unfolding linked_def by blast
qed

lemma usb_eqI:
  assumes "sized s" and "sized s'" and "\<And>d. d < 32 \<Longrightarrow> device s d = device s' d"
    and "\<And>h. h < 16 \<Longrightarrow> HubTable s ! h = HubTable s' ! h" and "HidTable s = HidTable s'" and "Trace s = Trace s'"
  shows "s = s'"
proof -
  have "DeviceTable s = DeviceTable s'" using assms(1-3) by (intro nth_equalityI) (simp_all add: sized_def device_def)
  moreover have "HubTable s = HubTable s'" using assms(1,2,4) by (intro nth_equalityI) (simp_all add: sized_def)
  ultimately show ?thesis using assms(5,6) by simp
qed

lemma without_rest [simp]: "HidTable (without D s) = HidTable s" "Trace (without D s) = Trace s"
  by (simp_all add: without_def)

lemma cleared_hub_empty: "cleared_hub s {} h x = x"
proof -
  have "case_option None Some = (\<lambda>p :: nat option. p)" by (rule ext) (simp split: option.split)
  then show ?thesis by (simp add: cleared_hub_def)
qed

lemma without_empty: "sized s \<Longrightarrow> without {} s = s"
  by (rule usb_eqI [OF sized_without]) (simp_all add: device_without hub_without cleared_hub_empty)

lemma cleared_hub_cleared_hub: "cleared_hub (without D s) E h (cleared_hub s D h x) = cleared_hub s (D \<union> E) h x"
proof (cases "\<exists>d\<in>D. owns s d h")
  case True
  then have "\<exists>d\<in>D \<union> E. owns s d h" by blast
  with True show ?thesis by (auto simp: cleared_hub_def hub_zero_def map_replicate_const)
next
  case False
  then have eq: "(\<exists>d\<in>E. owns (without D s) d h) = (\<exists>d\<in>D \<union> E. owns s d h)" unfolding owns_without by blast
  from False show ?thesis unfolding cleared_hub_def eq by (auto split: option.splits)
qed

lemma without_without: "sized s \<Longrightarrow> without E (without D s) = without (D \<union> E) s"
  by (rule usb_eqI) (auto simp: sized_without device_without hub_without cleared_hub_cleared_hub)

section \<open>Subtrees\<close>

lemma below_without:
  assumes "sized s" and "linked s" and "below s c \<inter> D = {}"
  shows "below (without D s) c = below s c"
proof -
  have sub: "child s d x \<Longrightarrow> d \<notin> D \<Longrightarrow> x \<notin> D \<Longrightarrow> child (without D s) d x" for d x by (simp add: child_without [OF assms(1,2)])
  have "(child (without D s))\<^sup>*\<^sup>* c x" if "(child s)\<^sup>*\<^sup>* c x" for x
    using that
  proof (induction rule: rtranclp_induct)
    case (step y z)
    then have "y \<notin> D" "z \<notin> D" using assms(3) by (auto intro: rtranclp.rtrancl_into_rtrancl)
    with step show ?case by (meson rtranclp.rtrancl_into_rtrancl sub)
  qed simp
  moreover have "(child s)\<^sup>*\<^sup>* c x" if "(child (without D s))\<^sup>*\<^sup>* c x" for x
    using that by (rule rtranclp_mono [THEN predicate2D, rotated]) (auto simp: child_without [OF assms(1,2)])
  ultimately show ?thesis by blast
qed

lemma below_height:
  assumes "\<forall>d c. child s d c \<longrightarrow> height c < (height d :: nat)" and "(child s)\<^sup>*\<^sup>* d x"
  shows "height x \<le> height d"
  using assms(2)
proof (induction rule: rtranclp_induct)
  case (step y z)
  with assms(1) show ?case by (meson less_imp_le order_trans)
qed simp

lemma below_chain:
  assumes "linked s" and "(child s)\<^sup>*\<^sup>* a x" and "(child s)\<^sup>*\<^sup>* c x"
  shows "(child s)\<^sup>*\<^sup>* a c \<or> (child s)\<^sup>*\<^sup>* c a"
  using assms(2,3)
proof (induction rule: rtranclp_induct)
  case (step y z)
  from step.prems show ?case
  proof (cases rule: rtranclp.cases)
    case (rtrancl_into_rtrancl w)
    then have "w = y" using one_parent [OF assms(1) step.hyps(2)] by blast
    with rtrancl_into_rtrancl step.IH show ?thesis by blast
  qed (use step.hyps in \<open>auto intro: rtranclp.rtrancl_into_rtrancl\<close>)
qed simp

lemma siblings_apart:
  assumes "linked s" and "\<forall>d c. child s d c \<longrightarrow> height c < (height d :: nat)"
    and "child s d a" and "child s d c" and "a \<noteq> c"
  shows "below s a \<inter> below s c = {}"
proof -
  have no: "\<not> (child s)\<^sup>*\<^sup>* x y" if "child s d x" "child s d y" "x \<noteq> y" for x y
  proof
    assume "(child s)\<^sup>*\<^sup>* x y"
    with \<open>x \<noteq> y\<close> obtain w where w: "(child s)\<^sup>*\<^sup>* x w" "child s w y" by (metis rtranclp.cases)
    then have "w = d" using one_parent [OF assms(1) that(2)] by blast
    then have "height d \<le> height x" using below_height [OF assms(2) w(1)] by simp
    moreover have "height x < height d" using assms(2) that(1) by blast
    ultimately show False by simp
  qed
  show ?thesis
  proof (rule ccontr)
    assume "below s a \<inter> below s c \<noteq> {}"
    then obtain x where "(child s)\<^sup>*\<^sup>* a x" "(child s)\<^sup>*\<^sup>* c x" by blast
    from below_chain [OF assms(1) this] no [OF assms(3,4)] no [OF assms(4,3)] assms(5) show False by blast
  qed
qed

definition kids :: "usb \<Rightarrow> nat \<Rightarrow> nat \<Rightarrow> nat set" where
  "kids s h port = (case pointer s h port of None \<Rightarrow> {} | Some c \<Rightarrow> below s c)"

lemma child_ports:
  assumes "linked s" and "owns s d h" and "port < 10" and "port' < 10"
    and "pointer s h port = Some c" and "pointer s h port' = Some c"
  shows "port' = port"
  using pointerD(4) [OF assms(1) owner(1) [OF assms(1,2)] assms(3,5)]
    pointerD(4) [OF assms(1) owner(1) [OF assms(1,2)] assms(4,6)] assms(3,4) of_nat_u8_inject [of port port']
  by auto

lemma below_unfold:
  assumes "owns s d h"
  shows "below s d = insert d (\<Union>port\<in>{..<10}. kids s h port)"
proof -
  have "x \<in> insert d (\<Union>port\<in>{..<10}. kids s h port)" if "(child s)\<^sup>*\<^sup>* d x" for x
    using that
  proof (cases rule: converse_rtranclpE)
    case (step c)
    then obtain h' port where "owns s d h'" "port < 10" "pointer s h' port = Some c" unfolding child_def by blast
    with owns_unique [OF assms] step(2) have "x \<in> kids s h port" by (simp add: kids_def)
    with \<open>port < 10\<close> show ?thesis by blast
  qed simp
  moreover have "(child s)\<^sup>*\<^sup>* d x" if k: "x \<in> kids s h port" and p: "port < 10" for x port
  proof -
    obtain c where c: "pointer s h port = Some c" "(child s)\<^sup>*\<^sup>* c x" using k by (auto simp: kids_def split: option.splits)
    have "child s d c" unfolding child_def using assms c(1) p by blast
    with c(2) show ?thesis by (rule converse_rtranclp_into_rtranclp [rotated])
  qed
  ultimately show ?thesis by auto
qed

lemma below_leaf:
  assumes "\<And>h. \<not> owns s d h"
  shows "below s d = {d}"
  using assms by (auto simp: child_def elim: converse_rtranclpE)

section \<open>Deallocation\<close>

locale freeing =
  fixes free :: "nat \<Rightarrow> usb \<Rightarrow> usb res" and height :: "nat \<Rightarrow> nat" and bound :: nat
  assumes frees: "\<lbrakk>sized s; linked s; c < 32; PayLoadId (device s c) \<noteq> ErrorPayload; \<forall>d c. child s d c \<longrightarrow> height c < height d;
      height c < bound\<rbrakk> \<Longrightarrow> free c s = Inr (without (below s c) s)"

context freeing
begin

lemma free_children_below:
  assumes "sized s" and "linked s" and "owns s d h" and "\<forall>d c. child s d c \<longrightarrow> height c < height d" and "height d \<le> bound"
    and "sorted is" and "distinct is" and "set is \<subseteq> {..<10}"
  shows "free_children free d is s = Inr (without (\<Union>port\<in>set is. kids s h port) s)"
  using assms
proof (induction "is" arbitrary: s)
  case Nil
  then show ?case by (simp add: without_empty)
next
  case (Cons i "is")
  note sz = Cons.prems(1) and ln = Cons.prems(2) and ow = Cons.prems(3) and ht = Cons.prems(4)
  note h = owner(1) [OF ln ow]
  have pay: "PayLoad (device s d) = Some h" using ow by (simp add: owns_def)
  have i: "i < 10" and "sorted is" "distinct is" "set is \<subseteq> {..<10}" using Cons.prems(6-8) by simp_all
  note IH = Cons.IH [OF _ _ _ _ Cons.prems(5) this(2-4)]
  show ?case
  proof (cases "i < MaxChildren (HubTable s ! h)")
    case False
    have "pointer s h j = None" if "j \<in> set (i # is)" for j
      using pointerD(1) [OF ln h] that Cons.prems(6,8) False by (metis in_set_conv_nth lessThan_iff not_less_iff_gr_or_eq
          option.exhaust order.strict_trans1 set_ConsD sorted_wrt.simps(2) subsetD leD)
    then have "(\<Union>port\<in>set (i # is). kids s h port) = {}" by (simp add: kids_def)
    with False pay sz show ?thesis by (simp add: without_empty)
  next
    case max: True
    show ?thesis
    proof (cases "pointer s h i")
      case None
      with max pay IH [OF sz ln ow ht] show ?thesis by (simp add: pointer_def kids_def)
    next
      case (Some c)
      note p = pointerD [OF ln h i Some]
      have dc: "child s d c" unfolding child_def using ow i Some by blast
      have "height c < bound" using ht dc Cons.prems(5) by (meson order_less_le_trans)
      note fr = frees [OF sz ln p(2,3) ht this]
      define s1 where "s1 = without (below s c) s"
      have sz1: "sized s1" and ln1: "linked s1" unfolding s1_def using sized_without [OF sz] linked_without [OF sz ln] by blast+
      have nd: "d \<notin> below s c" using below_height [OF ht] ht dc by (metis leD mem_Collect_eq)
      have ow1: "owns s1 d h" unfolding s1_def owns_without using ow nd by blast
      have ht1: "\<forall>d c. child s1 d c \<longrightarrow> height c < height d" unfolding s1_def child_without [OF sz ln] using ht by blast
      have "kids s1 h j = kids s h j" if j: "j \<in> set is" for j
      proof (cases "pointer s h j")
        case None
        with pointer_owned [OF sz ln ow nd] have "pointer s1 h j = None"
          using j Cons.prems(8) unfolding s1_def by (metis insert_subset lessThan_iff list.simps(15) option.exhaust subsetD option.distinct(1))
        with None show ?thesis by (simp add: kids_def)
      next
        case sj: (Some cj)
        have j10: "j < 10" and "j \<noteq> i" using j Cons.prems(7,8) by auto
        have dj: "child s d cj" unfolding child_def using ow j10 sj by blast
        have "cj \<noteq> c" using child_ports [OF ln ow i j10 Some] sj \<open>j \<noteq> i\<close> by blast
        then have apart: "below s cj \<inter> below s c = {}" using siblings_apart [OF ln ht dj dc] by blast
        then have "cj \<notin> below s c" by blast
        with sj have "pointer s1 h j = Some cj" unfolding s1_def using pointer_owned [OF sz ln ow nd j10] by blast
        with sj below_without [OF sz ln apart] show ?thesis by (simp add: kids_def s1_def)
      qed
      then have "(\<Union>port\<in>set is. kids s1 h port) = (\<Union>port\<in>set is. kids s h port)" by simp
      with IH [OF sz1 ln1 ow1 ht1] have "free_children free d is s1 = Inr (without (\<Union>port\<in>set is. kids s h port) s1)" by simp
      then show ?thesis using max pay Some fr
        by (simp add: pointer_def s1_def kids_def without_without [OF sz])
    qed
  qed
qed

end

lemma device_update_device:
  "d < length (DeviceTable s) \<Longrightarrow> device (update_device d f s) x = (if x = d then f (device s d) else device s x)"
  by (simp add: device_def update_device_def)

lemma device_update_hub [simp]: "device (update_hub h f s) x = device s x"
  by (simp add: device_def update_hub_def)

lemma hub_update_hub:
  "h < length (HubTable s) \<Longrightarrow> HubTable (update_hub h f s) ! g = (if g = h then f (HubTable s ! h) else HubTable s ! g)"
  by (simp add: update_hub_def)

lemma update_rest [simp]:
  "HubTable (update_device d f s) = HubTable s" "HidTable (update_device d f s) = HidTable s" "Trace (update_device d f s) = Trace s"
  "length (DeviceTable (update_device d f s)) = length (DeviceTable s)"
  "HidTable (update_hub h g s) = HidTable s" "Trace (update_hub h g s) = Trace s"
  "length (DeviceTable (update_hub h g s)) = length (DeviceTable s)" "length (HubTable (update_hub h g s)) = length (HubTable s)"
  by (simp_all add: update_device_def update_hub_def)

text \<open>
  The last step: \<open>t\<close> is the state in which everything below \<open>d\<close> is gone and \<open>d\<close> has no payload any more.
\<close>

lemma unlink_and_clear:
  assumes "sized s" and "linked s" and "d < 32" and "PayLoadId (device s d) \<noteq> ErrorPayload"
    and D: "D = insert d D'" and "d \<notin> D'"
    and t: "sized t" "HidTable t = HidTable s" "Trace t = Trace s"
    and devs: "\<And>x. x < 32 \<Longrightarrow> x \<noteq> d \<Longrightarrow> device t x = device (without D' s) x"
    and self: "ParentNumber (device t d) = ParentNumber (device s d)" "ParentPort (device t d) = ParentPort (device s d)"
      "\<not> IsHub_device (device t d)"
    and hubs: "\<And>g. g < 16 \<Longrightarrow> HubTable t ! g = (if owns s d g then hub_zero else HubTable (without D' s) ! g)"
  shows "rbind (unlink_parent d t) (\<lambda>s2. Inr (update_device d (\<lambda>_. device_zero) s2)) = Inr (without D s)"
proof -
  have len: "length (DeviceTable t) = 32" "length (HubTable t) = 16" using t(1) by (simp_all add: sized_def)
  define cut where "cut = (\<lambda>g x. if \<exists>d'\<in>D. owns s d' g then hub_zero
      else x\<lparr>Children := map (\<lambda>p. if p = Some d then None else p) (Children x)\<rparr>)"
  have goal: "cut g (HubTable t ! g) = HubTable (without D s) ! g" if "g < 16" for g
    using that hubs [OF that] D
    by (auto simp: cut_def hub_without cleared_hub_def split: option.splits intro!: arg_cong [where f = "\<lambda>c. _\<lparr>Children := c\<rparr>"])
  have fin: "Inr (update_device d (\<lambda>_. device_zero) u) = (Inr (without D s) :: usb res)"
    if u: "sized u" "HidTable u = HidTable s" "Trace u = Trace s" "\<And>x. x < 32 \<Longrightarrow> device u x = device t x"
      "\<And>g. g < 16 \<Longrightarrow> HubTable u ! g = cut g (HubTable t ! g)" for u
  proof -
    have "length (DeviceTable u) = 32" using u(1) by (simp add: sized_def)
    then have "update_device d (\<lambda>_. device_zero) u = without D s"
      using u sized_without [OF assms(1)] devs D goal assms(3)
      by (intro usb_eqI) (auto simp: sized_def device_update_device device_without)
    then show ?thesis by simp
  qed
  have len10: "length (Children (HubTable t ! g)) = 10" if "g < 16" for g using t(1) that by (simp add: sized_def)
  obtain height where ht: "\<And>d c. child s d c \<Longrightarrow> height c < (height d :: nat)" using assms(2) unfolding linked_def by blast
  define p where "p = unat (ParentNumber (device s d)) - 1"
  define port where "port = unat (ParentPort (device s d))"
  have only: "ParentNumber (device s d) < 32 \<and> ParentNumber (device s d) \<noteq> 0 \<and> q = port \<and> p \<noteq> d \<and> device t p = device s p \<and> owns s p g
      \<and> q < MaxChildren (HubTable t ! g)"
    if q: "g < 16" "q < 10" "Children (HubTable t ! g) ! q = Some d" for g q
  proof -
    have "\<not> owns s d g" using q by (auto simp: hubs hub_zero_def)
    with q have "pointer (without D' s) g q = Some d" by (simp add: hubs pointer_def)
    then have s: "pointer s g q = Some d" and no: "\<not> (\<exists>d'\<in>D'. owns s d' g)"
      using pointer_without [OF assms(1) q(1,2), of D'] by (auto split: option.splits if_splits)
    obtain d0 where d0: "d0 < 31" "owns s d0 g" "ParentNumber (device s d) = of_nat (d0 + 1)" "ParentPort (device s d) = of_nat q"
      using pointerD(4) [OF assms(2) q(1,2) s] by blast
    have "unat (of_nat (d0 + 1) :: u8) = d0 + 1" using d0(1) by (intro unat_of_nat_u8) simp
    then have p: "p = d0" and pn: "ParentNumber (device s d) < 32" "ParentNumber (device s d) \<noteq> 0"
      unfolding p_def using d0(1,3) by (auto simp: word_less_nat_alt simp flip: unat_eq_zero)
    have "q = port" unfolding port_def using d0(4) q(2) by (simp add: unsigned_of_nat take_bit_nat_eq_self)
    moreover have "child s d0 d" unfolding child_def using d0(2) q(2) s by blast
    then have "d0 \<noteq> d" using ht by blast
    moreover have "device t d0 = device s d0" using devs [of d0] d0(1,2) no \<open>d0 \<noteq> d\<close> by (auto simp: device_without)
    moreover have "MaxChildren (HubTable t ! g) = MaxChildren (HubTable s ! g)"
      using hubs [OF q(1)] \<open>\<not> owns s d g\<close> no q(1) by (simp add: hub_without cleared_hub_def)
    moreover have "q < MaxChildren (HubTable s ! g)" using pointerD(1) [OF assms(2) q(1,2) s] .
    ultimately show ?thesis using p pn d0(2) by simp
  qed
  have cut_id: "cut g (HubTable t ! g) = HubTable t ! g" if "g < 16" "\<And>q. q < 10 \<Longrightarrow> Children (HubTable t ! g) ! q \<noteq> Some d" for g
  proof -
    have "map (\<lambda>p. if p = Some d then None else p) (Children (HubTable t ! g)) = Children (HubTable t ! g)"
      using that len10 [OF that(1)] by (intro nth_equalityI) auto
    moreover have "HubTable t ! g = hub_zero" if "\<exists>d'\<in>D. owns s d' g"
      using that hubs [OF \<open>g < 16\<close>] D \<open>g < 16\<close> by (auto simp: hub_without cleared_hub_def)
    ultimately show ?thesis by (auto simp: cut_def)
  qed
  show ?thesis
  proof (cases "\<exists>g<16. \<exists>q<10. Children (HubTable t ! g) ! q = Some d")
    case True
    then obtain h where h: "h < 16" "Children (HubTable t ! h) ! port = Some d" "port < 10" and o: "owns s p h"
      using only by blast
    note fact = only [OF h(1,3,2)]
    have "unlink_parent d t = Inr (update_hub h (\<lambda>x. x\<lparr>Children := (Children x)[port := None]\<rparr>) t)"
      using fact h(2) by (simp add: unlink_parent_def self p_def port_def owns_def MaximumDevices_def)
    moreover have "HubTable (update_hub h (\<lambda>x. x\<lparr>Children := (Children x)[port := None]\<rparr>) t) ! g = cut g (HubTable t ! g)"
      if g: "g < 16" for g
    proof (cases "g = h")
      case True
      have "\<not> owns s d h" using owner(2) [OF assms(2) o] fact by blast
      moreover have "\<not> owns s d' h" if "d' \<in> D'" for d'
      proof
        assume "owns s d' h"
        then have "HubTable t ! h = hub_zero" using hubs [OF h(1)] that h(1) by (auto simp: hub_without cleared_hub_def)
        with h show False by (simp add: hub_zero_def)
      qed
      ultimately have no: "\<not> (\<exists>d'\<in>D. owns s d' h)" using D by blast
      have "map (\<lambda>p. if p = Some d then None else p) (Children (HubTable t ! h)) = (Children (HubTable t ! h))[port := None]"
      proof (rule nth_equalityI)
        fix q
        assume "q < length (map (\<lambda>p. if p = Some d then None else p) (Children (HubTable t ! h)))"
        then have q: "q < 10" using len10 [OF h(1)] by simp
        then have "Children (HubTable t ! h) ! q = Some d \<longleftrightarrow> q = port" using only [OF h(1) q] h(2) by blast
        with q len10 [OF h(1)] show "map (\<lambda>p. if p = Some d then None else p) (Children (HubTable t ! h)) ! q =
            (Children (HubTable t ! h))[port := None] ! q"
          by (simp add: nth_list_update)
      qed simp
      with True no h(1) len show ?thesis by (simp add: cut_def hub_update_hub)
    next
      case False
      have "Children (HubTable t ! g) ! q \<noteq> Some d" if "q < 10" for q
        using only [OF g that] owns_unique [OF o] False by blast
      with False cut_id [OF g] h(1) len show ?thesis by (simp add: hub_update_hub)
    qed
    moreover have "sized (update_hub h (\<lambda>x. x\<lparr>Children := (Children x)[port := None]\<rparr>) t)"
      using t(1) h(1) by (auto simp: sized_def hub_update_hub)
    ultimately show ?thesis using fin t(2,3) by simp
  next
    case False
    then have ids: "HubTable t ! g = cut g (HubTable t ! g)" if "g < 16" for g using cut_id [OF that] that by simp
    have "unlink_parent d t = Inr t"
    proof -
      have "ParentNumber (device s d) \<noteq> 0" using assms(2,3,4) unfolding linked_def by blast
      moreover have "\<not> (Children (HubTable t ! h) ! port = Some d)"
        if lt: "ParentNumber (device s d) < 32" and h: "PayLoad (device t p) = Some h" "PayLoadId (device t p) = HubPayload"
          "port < MaxChildren (HubTable t ! h)" for h
      proof -
        have "unat (ParentNumber (device s d)) < 32" using lt by (simp add: word_less_nat_alt)
        then have "p < 32" unfolding p_def by simp
        moreover have "p \<noteq> d" using h(1,2) self(3) by (auto simp: IsHub_device_def)
        ultimately have "device t p = device (without D' s) p" using devs by blast
        with h(1,2) \<open>p < 32\<close> have "owns s p h" by (auto simp: device_without owns_def device_zero_def split: if_splits)
        then have "h < 16" using owner(1) [OF assms(2)] by blast
        moreover have "port < 10" using h(3) t(1) \<open>h < 16\<close> by (auto simp: sized_def intro: order.strict_trans2)
        ultimately show ?thesis using False by blast
      qed
      ultimately show ?thesis
        by (auto simp: unlink_parent_def self MaximumDevices_def Let_def p_def port_def split: option.splits)
    qed
    with fin [OF t(1,2,3) _ ids] show ?thesis by simp
  qed
qed

lemma IsHub_owns: "d < 32 \<Longrightarrow> IsHub_device (device s d) \<longleftrightarrow> (\<exists>h. owns s d h)"
  by (auto simp: IsHub_device_def owns_def)

lemma freeing_step:
  assumes "freeing (UsbDeallocateDevice n) height n"
  shows "freeing (UsbDeallocateDevice (Suc n)) height (Suc n)"
proof
  fix s d
  assume sz: "sized s" and ln: "linked s" and d: "d < 32" "PayLoadId (device s d) \<noteq> ErrorPayload"
    and ht: "\<forall>d c. child s d c \<longrightarrow> height c < height d" and "height d < Suc n"
  then have bound: "height d \<le> n" by simp
  note loop = freeing.free_children_below [OF assms _ _ _ _ bound]
  have upt: "sorted [0..<MaxChildrenPerDevice]" "distinct [0..<MaxChildrenPerDevice]" "set [0..<MaxChildrenPerDevice] \<subseteq> {..<10}"
    by (auto simp: MaxChildrenPerDevice_def)
  show "UsbDeallocateDevice (Suc n) d s = Inr (without (below s d) s)"
  proof (cases "\<exists>h. owns s d h")
    case False
    then have b: "below s d = insert d {}" using below_leaf by blast
    have "rbind (unlink_parent d s) (\<lambda>s2. Inr (update_device d (\<lambda>_. device_zero) s2)) = Inr (without (below s d) s)"
      by (rule unlink_and_clear [OF sz ln d b _ sz refl refl]) (use False d in \<open>simp_all add: without_empty [OF sz] IsHub_owns\<close>)
    then show ?thesis using False d by (simp add: IsHub_owns)
  next
    case True
    then obtain h where ow: "owns s d h" by blast
    define D' where "D' = (\<Union>port\<in>{..<10}. kids s h port)"
    define s1 where "s1 = without D' s"
    have b: "below s d = insert d D'" unfolding D'_def by (rule below_unfold [OF ow])
    have "height x < height d" if "x \<in> D'" for x
    proof -
      from that obtain port c where "port < 10" "pointer s h port = Some c" "(child s)\<^sup>*\<^sup>* c x"
        by (auto simp: D'_def kids_def split: option.splits)
      then have "child s d c" "height x \<le> height c" using ow below_height [OF ht] unfolding child_def by blast+
      with ht show ?thesis by (meson order_le_less_trans)
    qed
    then have nd: "d \<notin> D'" by blast
    have sz1: "sized s1" and ln1: "linked s1" unfolding s1_def using sized_without [OF sz] linked_without [OF sz ln] by blast+
    have ow1: "owns s1 d h" unfolding s1_def owns_without using ow nd by blast
    have ht1: "\<forall>d c. child s1 d c \<longrightarrow> height c < height d" unfolding s1_def child_without [OF sz ln] using ht by blast
    have "set [0..<MaxChildrenPerDevice] = {..<10}" by (auto simp: MaxChildrenPerDevice_def)
    then have first: "free_children (UsbDeallocateDevice n) d [0..<MaxChildrenPerDevice] s = Inr s1"
      using loop [OF sz ln ow ht upt] by (simp add: s1_def D'_def)
    have "kids s1 h port = {}" if "port < 10" for port
    proof -
      have "\<not> (pointer s1 h port = Some c)" for c
      proof -
        have "c \<in> D'" if "pointer s h port = Some c" unfolding D'_def using that \<open>port < 10\<close>
          by (intro UN_I [of port]) (simp_all add: kids_def)
        then show ?thesis unfolding s1_def pointer_owned [OF sz ln ow nd that] by blast
      qed
      then show ?thesis by (auto simp: kids_def split: option.splits)
    qed
    then have "(\<Union>port\<in>set [0..<MaxChildrenPerDevice]. kids s1 h port) = {}" by (simp add: MaxChildrenPerDevice_def)
    then have second: "free_children (UsbDeallocateDevice n) d [0..<MaxChildrenPerDevice] s1 = Inr s1"
      using loop [OF sz1 ln1 ow1 ht1 upt] by (simp add: without_empty [OF sz1])
    define t where "t = update_device d (\<lambda>x. x\<lparr>PayLoad := None, PayLoadId := NoPayload\<rparr>) (update_hub h (\<lambda>_. hub_zero) s1)"
    have removed: "RemoveHubPayload (UsbDeallocateDevice n) (Some d) s1 = Inr t"
      using ow1 second by (simp add: RemoveHubPayload_def owns_def t_def)
    have len: "length (DeviceTable s1) = 32" "length (HubTable s1) = 16" using sz1 by (simp_all add: sized_def)
    note h = owner(1) [OF ln ow]
    have hubs: "HubTable t ! g = (if owns s d g then hub_zero else HubTable (without D' s) ! g)" if "g < 16" for g
    proof -
      have "owns s d g \<longleftrightarrow> g = h" using owns_unique [OF ow] ow by blast
      moreover have "HubTable t ! g = (if g = h then hub_zero else HubTable s1 ! g)" using h len by (simp add: t_def hub_update_hub)
      ultimately show ?thesis by (simp add: s1_def)
    qed
    have szt: "sized t" using sz1 h len by (auto simp: sized_def t_def hub_update_hub hub_zero_def)
    have dev: "device t x = (if x = d then (device s d)\<lparr>PayLoad := None, PayLoadId := NoPayload\<rparr> else device s1 x)" for x
      using len d nd by (simp add: t_def device_update_device s1_def device_without)
    have "rbind (unlink_parent d t) (\<lambda>s2. Inr (update_device d (\<lambda>_. device_zero) s2)) = Inr (without (below s d) s)"
      by (rule unlink_and_clear [OF sz ln d b nd szt]) (simp_all add: hubs dev IsHub_device_def, simp_all add: t_def s1_def)
    then show ?thesis using True d first removed by (simp add: IsHub_owns)
  qed
qed

lemma freeing_all: "freeing (UsbDeallocateDevice n) height n"
proof (induction n)
  case 0
  show ?case by unfold_locales simp
next
  case (Suc n)
  then show ?case by (rule freeing_step)
qed

interpretation dealloc: freeing "UsbDeallocateDevice n" height n for n height
  by (rule freeing_all)

text \<open>The property about \<^verbatim>\<open>UsbDeallocateDevice\<close>.\<close>

lemma deallocate_below:
  assumes "sized s" and "linked s" and "d < 32" and "PayLoadId (device s d) \<noteq> ErrorPayload" and "32 \<le> depth"
  shows "UsbDeallocateDevice depth d s = Inr (without (below s d) s)"
proof -
  obtain height where "\<forall>d. height d < (32 :: nat)" "\<forall>d c. child s d c \<longrightarrow> height c < height d"
    using assms(2) unfolding linked_def by blast
  with assms show ?thesis by (intro dealloc.frees) (auto intro: order.strict_trans2)
qed

section \<open>Properties\<close>

text \<open>
  C6: called for an allocated device of a well-linked forest of hubs, \<^verbatim>\<open>UsbDeallocateDevice\<close> returns, with recursion no
  deeper than 32, and frees exactly the devices below the one it is given, that one included, together
  with their hub entries; every pointer to a freed device is gone, and nothing else changes.
\<close>

theorem deallocation_frees_the_subtree:
  assumes "sized s" and "linked s" and "d < 32" and "PayLoadId (device s d) \<noteq> ErrorPayload" and "32 \<le> depth"
  shows "UsbDeallocateDevice depth d s = Inr (without (below s d) s)"
  using assms by (rule deallocate_below)

definition forest_example :: usb where
  "forest_example =
     usb_zero\<lparr>DeviceTable := (DeviceTable usb_zero)
       [0 := device_zero\<lparr>PayLoadId := HubPayload, PayLoad := Some 0, ParentNumber := 0xFF\<rparr>,
        1 := device_zero\<lparr>PayLoadId := HubPayload, PayLoad := Some 1, ParentNumber := 1\<rparr>,
        2 := device_zero\<lparr>PayLoadId := NoPayload, ParentNumber := 2, ParentPort := 3\<rparr>],
      HubTable := (HubTable usb_zero)
       [0 := hub_zero\<lparr>MaxChildren := 4, Children := (Children hub_zero)[0 := Some 1]\<rparr>,
        1 := hub_zero\<lparr>MaxChildren := 4, Children := (Children hub_zero)[3 := Some 2]\<rparr>]\<rparr>"

lemma forest_example_facts:
  "owns forest_example d h \<longleftrightarrow> (d = 0 \<and> h = 0) \<or> (d = 1 \<and> h = 1)"
  "h < 16 \<Longrightarrow> port < 10 \<Longrightarrow> pointer forest_example h port = Some c \<longleftrightarrow> (h = 0 \<and> port = 0 \<and> c = 1) \<or> (h = 1 \<and> port = 3 \<and> c = 2)"
  "c < 32 \<Longrightarrow> PayLoadId (device forest_example c) \<noteq> ErrorPayload \<longleftrightarrow> c < 3"
  "MaxChildren (HubTable forest_example ! 0) = 4" "MaxChildren (HubTable forest_example ! 1) = 4"
  "ParentNumber (device forest_example 0) = 0xFF" "ParentNumber (device forest_example 1) = 1" "ParentNumber (device forest_example 2) = 2"
  "ParentPort (device forest_example 1) = 0" "ParentPort (device forest_example 2) = 3"
  by (auto simp: owns_def pointer_def device_def forest_example_def usb_zero_def device_zero_def hub_zero_def nth_list_update)

lemma forest_example_child: "child forest_example d c \<longleftrightarrow> (d = 0 \<and> c = 1) \<or> (d = 1 \<and> c = 2)"
proof -
  have "(\<exists>port<10. pointer forest_example h port = Some c) \<longleftrightarrow> (h = 0 \<and> c = 1) \<or> (h = 1 \<and> c = 2)" if "h < 16" for h
  proof -
    have "(\<exists>port<10. pointer forest_example h port = Some c) \<longleftrightarrow>
        (\<exists>port<10. h = 0 \<and> port = 0 \<and> c = 1 \<or> h = 1 \<and> port = (3 :: nat) \<and> c = 2)"
      using forest_example_facts(2) [OF that] by blast
    also have "\<dots> \<longleftrightarrow> (h = 0 \<and> c = 1) \<or> (h = 1 \<and> c = 2)" by auto
    finally show ?thesis .
  qed
  then show ?thesis unfolding child_def forest_example_facts(1) by (auto simp: forest_example_facts(2))
qed

lemma forest_example_linked: "sized forest_example" "linked forest_example"
proof -
  show "sized forest_example"
    by (auto simp: sized_def forest_example_def usb_zero_def hub_zero_def nth_list_update)
  have "ParentNumber (device forest_example c) \<noteq> 0" if "c < 3" for c
  proof -
    have "c = 0 \<or> c = 1 \<or> c = 2" using that by linarith
    then show ?thesis by (elim disjE) (simp_all add: forest_example_facts del: One_nat_def)
  qed
  then show "linked forest_example"
    unfolding linked_def forest_example_child
    by (intro conjI exI [of _ "\<lambda>d. 3 - min 3 d"])
      (auto simp: forest_example_facts simp del: One_nat_def)
qed

theorem deallocation_frees_the_subtree_witness:
  "UsbDeallocateDevice 33 1 forest_example = Inr (without (below forest_example 1) forest_example)"
  by (rule deallocation_frees_the_subtree) (simp_all add: forest_example_linked forest_example_facts)

end
