(* ===== verification/Usb_Hid.thy ===== *)
theory Usb_Hid
  imports Usb_Tables
begin

text \<open>
  Human interface devices, \<^verbatim>\<open>src/HidUsbDevices.cpp\<close>: the requests for reports, protocols and idle rates, interrupt
  transfers, the description of a report descriptor and the enumeration of a device's HID interfaces.
  What \<^verbatim>\<open>describe_hid_descriptor\<close> prints is a list of lines.
\<close>

unbundle bit_operations_syntax

definition on_bus :: "(trace \<Rightarrow> 'a \<times> trace) \<Rightarrow> usb \<Rightarrow> 'a \<times> usb" where
  "on_bus f s = (let (x, t) = f (Trace s) in (x, s\<lparr>Trace := t\<rparr>))"

section \<open>The device behind a number\<close>

definition hid_of :: "usb \<Rightarrow> u8 \<Rightarrow> RESULT + (nat \<times> nat)" where
  "hid_of s devNumber =
     (case UsbDeviceAtAddress s devNumber of
        None \<Rightarrow> Inl ErrorDeviceNumber
      | Some d \<Rightarrow> (case GetHidDevice s (Some d) of None \<Rightarrow> Inl ErrorNotHID | Some h \<Rightarrow> Inr (d, h)))"

definition hid_interface :: "usb \<Rightarrow> nat \<Rightarrow> u8 \<Rightarrow> u8 res" where
  "hid_interface s h hidIndex =
     (if MaxHIDPerDevice \<le> unat hidIndex then Inl (Undefined ''HIDInterface index'')
      else Inr (HIDInterface (HidTable s ! h) ! unat hidIndex))"

section \<open>Reports and settings\<close>

text \<open>\<open>Buffer\<close> is the caller's buffer, \<open>Length\<close> bytes long, or null; the result has its new contents.\<close>

definition HIDReadDescriptor :: "usb_bus \<Rightarrow> u8 \<Rightarrow> u8 \<Rightarrow> u8 list option \<Rightarrow> usb \<Rightarrow> ((RESULT \<times> u8 list) \<times> usb) res" where
  "HIDReadDescriptor b devNumber hidIndex Buffer s =
     (case Buffer of
        None \<Rightarrow> Inr ((ErrorArgument, []), s)
      | Some buf \<Rightarrow>
          if buf = [] then Inr ((ErrorArgument, buf), s)
          else if devNumber = 0 \<or> of_nat MaximumDevices < devNumber then Inr ((ErrorDeviceNumber, buf), s)
          else
            (case hid_of s devNumber of
               Inl e \<Rightarrow> Inr ((e, buf), s)
             | Inr (d, h) \<Rightarrow>
                 if MaxHID (HidTable s ! h) < hidIndex then Inr ((ErrorIndex, buf), s)
                 else
                   rbind (hid_interface s h hidIndex) (\<lambda>interface.
                     let sizeToRead = report_Length (HidDescr (HidTable s ! h) ! unat hidIndex);
                       ((result, data, n), s1) = on_bus
                         (HCDGetDescriptor b (Pipe0 (device s d)) USB_DESCRIPTOR_TYPE_HID_REPORT 0 (ucast interface)
                           (unat sizeToRead) 0x81 False) s;
                       transfer = stored n 0 in
                     if length buf < length data then Inl (Undefined ''Buffer overflow'')
                     else if result \<noteq> Ok \<or> transfer \<noteq> ucast sizeToRead then Inr ((ErrorDevice, overwrite data buf), s1)
                     else Inr ((Ok, overwrite data buf), s1))))"

definition HIDReadReport ::
  "usb_bus \<Rightarrow> u8 \<Rightarrow> u8 \<Rightarrow> u16 \<Rightarrow> u8 list option \<Rightarrow> usb \<Rightarrow> ((RESULT \<times> u8 list) \<times> usb) res" where
  "HIDReadReport b devNumber hidIndex reportValue Buffer s =
     (case Buffer of
        None \<Rightarrow> Inr ((ErrorArgument, []), s)
      | Some buf \<Rightarrow>
          if buf = [] then Inr ((ErrorArgument, buf), s)
          else
            (case hid_of s devNumber of
               Inl e \<Rightarrow> Inr ((e, buf), s)
             | Inr (d, h) \<Rightarrow>
                 rbind (hid_interface s h hidIndex) (\<lambda>interface.
                   let ((result, data, _), s1) = on_bus
                     (HCDSubmitControlMessageIN b (Pipe0 (device s d)) (Receive (length buf))
                       \<lparr>req_Type = 0xa1, req_Request = GetReport, req_Value = reportValue, req_Index = ucast interface,
                        req_Length = of_nat (length buf)\<rparr>) s in
                   Inr ((result, overwrite data buf), s1))))"

definition HIDSetIdle :: "usb_bus \<Rightarrow> u8 \<Rightarrow> u8 \<Rightarrow> usb \<Rightarrow> (RESULT \<times> usb) res" where
  "HIDSetIdle b devNumber hidIndex s =
     (case hid_of s devNumber of
        Inl e \<Rightarrow> Inr (e, s)
      | Inr (d, h) \<Rightarrow>
          rbind (hid_interface s h hidIndex) (\<lambda>interface.
            let ((result, _, _), s1) = on_bus
              (HCDSubmitControlMessageOUT b (Pipe0 (device s d)) NoBuffer
                \<lparr>req_Type = 0xa1, req_Request = SetIdle, req_Value = 0, req_Index = ucast interface, req_Length = 0\<rparr>) s in
            Inr (result, s1)))"

definition HIDWriteReport ::
  "usb_bus \<Rightarrow> u8 \<Rightarrow> u8 \<Rightarrow> u16 \<Rightarrow> u8 list option \<Rightarrow> usb \<Rightarrow> (RESULT \<times> usb) res" where
  "HIDWriteReport b devNumber hidIndex reportValue Buffer s =
     (case Buffer of
        None \<Rightarrow> Inr (ErrorArgument, s)
      | Some buf \<Rightarrow>
          if buf = [] then Inr (ErrorArgument, s)
          else
            (case hid_of s devNumber of
               Inl e \<Rightarrow> Inr (e, s)
             | Inr (d, h) \<Rightarrow>
                 rbind (hid_interface s h hidIndex) (\<lambda>interface.
                   let ((result, _, n), s1) = on_bus
                     (HCDSubmitControlMessageOUT b (Pipe0 (device s d)) (Send buf)
                       \<lparr>req_Type = 0x21, req_Request = SetReport, req_Value = reportValue, req_Index = ucast interface,
                        req_Length = of_nat (length buf)\<rparr>) s in
                   if result \<noteq> Ok then Inr (result, s1)
                   else if stored n 0 \<noteq> of_nat (length buf) then Inr (ErrorGeneral, s1)
                   else Inr (Ok, s1))))"

definition HIDSetProtocol :: "usb_bus \<Rightarrow> u8 \<Rightarrow> u8 \<Rightarrow> u16 \<Rightarrow> usb \<Rightarrow> RESULT \<times> usb" where
  "HIDSetProtocol b devNumber interface protocol s =
     (case hid_of s devNumber of
        Inl e \<Rightarrow> (e, s)
      | Inr (d, h) \<Rightarrow>
          let ((result, _, _), s1) = on_bus
            (HCDSubmitControlMessageOUT b (Pipe0 (device s d)) NoBuffer
              \<lparr>req_Type = 0x21, req_Request = SetProtocol, req_Value = protocol, req_Index = ucast interface, req_Length = 0\<rparr>) s in
          (result, s1))"

section \<open>Interrupt transfers\<close>

text \<open>The interrupt endpoint of a HID interface, or the status that the callers return.\<close>

definition interrupt_endpoint :: "usb \<Rightarrow> u8 \<Rightarrow> u8 \<Rightarrow> (RESULT + nat \<times> u8 \<times> endpoint_descriptor) res" where
  "interrupt_endpoint s devNumber hidIndex =
     (case hid_of s devNumber of
        Inl e \<Rightarrow> Inr (Inl e)
      | Inr (d, h) \<Rightarrow>
          if MaxHID (HidTable s ! h) \<le> hidIndex then Inr (Inl ErrorIndex)
          else
            rbind (hid_interface s h hidIndex) (\<lambda>interfaceIndex.
            rbind (FindEndpoint (device s d) interfaceIndex USB_TRANSFER_TYPE_INTERRUPT USB_DIRECTION_IN) (\<lambda>endpoint.
              if ep_Length endpoint = 0 then Inr (Inl ErrorDevice) else Inr (Inr (d, interfaceIndex, endpoint)))))"

text \<open>The last component of the result is the value stored through \<^verbatim>\<open>BytesTransferred\<close>, if one is.\<close>

definition HIDStartInterruptIN ::
  "usb_bus \<Rightarrow> u8 \<Rightarrow> u8 \<Rightarrow> u8 list option \<Rightarrow> usb \<Rightarrow> ((RESULT \<times> u8 list \<times> u32 option) \<times> usb) res" where
  "HIDStartInterruptIN b devNumber hidIndex Buffer s =
     (case Buffer of
        None \<Rightarrow> Inr ((ErrorArgument, [], None), s)
      | Some buf \<Rightarrow>
          if buf = [] then Inr ((ErrorArgument, buf, None), s)
          else
            rbind (interrupt_endpoint s devNumber hidIndex) (\<lambda>found.
              case found of
                Inl e \<Rightarrow> Inr ((e, buf, None), s)
              | Inr (d, _, endpoint) \<Rightarrow>
                  rbind (HCDEndpointTransfer b d endpoint buf s) (\<lambda>((result, buf'), s1).
                    Inr ((result, buf', Some (if result = Ok then of_nat (length buf) else 0)), s1))))"

definition HIDStopInterruptIN :: "u8 \<Rightarrow> u8 \<Rightarrow> usb \<Rightarrow> RESULT" where
  "HIDStopInterruptIN devNumber hidIndex s =
     (case hid_of s devNumber of
        Inl e \<Rightarrow> e
      | Inr (d, h) \<Rightarrow> if MaxHID (HidTable s ! h) \<le> hidIndex then ErrorIndex else Ok)"

definition HIDReadInterruptReport ::
  "usb_bus \<Rightarrow> u8 \<Rightarrow> u8 \<Rightarrow> u8 list option \<Rightarrow> usb \<Rightarrow> ((RESULT \<times> u8 list \<times> u32 option) \<times> usb) res" where
  "HIDReadInterruptReport b devNumber hidIndex Buffer s = HIDStartInterruptIN b devNumber hidIndex Buffer s"

definition HIDGetInterruptInterval :: "u8 \<Rightarrow> u8 \<Rightarrow> usb \<Rightarrow> (RESULT \<times> u8 option) res" where
  "HIDGetInterruptInterval devNumber hidIndex s =
     rbind (interrupt_endpoint s devNumber hidIndex) (\<lambda>found.
       Inr (case found of Inl e \<Rightarrow> (e, None) | Inr (_, _, endpoint) \<Rightarrow> (Ok, Some (Interval endpoint))))"

definition HIDEnableInterruptIN :: "usb_bus \<Rightarrow> u8 \<Rightarrow> u8 \<Rightarrow> bool \<Rightarrow> u8 \<Rightarrow> bool \<Rightarrow> u8 \<Rightarrow> usb \<Rightarrow> (RESULT \<times> usb) res" where
  "HIDEnableInterruptIN b devNumber hidIndex setProtocol protocolValue setIdleRate idleRate s =
     rbind (interrupt_endpoint s devNumber hidIndex) (\<lambda>found.
       case found of
         Inl e \<Rightarrow> Inr (e, s)
       | Inr (d, interfaceIndex, _) \<Rightarrow>
           let s1 = (if setProtocol then snd (HIDSetProtocol b devNumber interfaceIndex (ucast protocolValue) s) else s);
             s2 = (if setIdleRate then
                     snd (on_bus (HCDSubmitControlMessageOUT b (Pipe0 (device s1 d)) NoBuffer
                       \<lparr>req_Type = 0x21, req_Request = SetIdle, req_Value = push_bit 8 (ucast idleRate),
                        req_Index = ucast interfaceIndex, req_Length = 0\<rparr>) s1)
                   else s1) in
           Inr (Ok, s2))"

definition HIDEnableInterruptINSimple :: "usb_bus \<Rightarrow> u8 \<Rightarrow> u8 \<Rightarrow> usb \<Rightarrow> (RESULT \<times> usb) res" where
  "HIDEnableInterruptINSimple b devNumber hidIndex s = HIDEnableInterruptIN b devNumber hidIndex True 0 True 10 s"

section \<open>Report descriptors\<close>

datatype hid_line = LongItem | Item nat string string u32

definition item_type :: "u8 \<Rightarrow> string" where
  "item_type type =
     (if type = 0 then ''Main'' else if type = 1 then ''Global'' else if type = 2 then ''Local'' else ''Reserved'')"

definition item_tag :: "u8 \<Rightarrow> u8 \<Rightarrow> string" where
  "item_tag type tag =
     (if type = 0 then
        (if tag = 8 then ''Input'' else if tag = 9 then ''Output'' else if tag = 11 then ''Feature''
         else if tag = 10 then ''Collection'' else if tag = 12 then ''End Collection'' else ''Unknown Main'')
      else if type = 1 then
        (if tag = 0 then ''Usage Page'' else if tag = 1 then ''Logical Minimum'' else if tag = 2 then ''Logical Maximum''
         else if tag = 7 then ''Report Size'' else if tag = 8 then ''Report ID'' else if tag = 9 then ''Report Count''
         else ''Unknown Global'')
      else if type = 2 then
        (if tag = 0 then ''Usage'' else if tag = 1 then ''Usage Minimum'' else if tag = 2 then ''Usage Maximum''
         else ''Unknown Local'')
      else ''Unknown'')"

text \<open>\<open>data\<close> is all that can be read at the pointer, \<open>len\<close> the length that was passed.\<close>

fun item_value :: "u8 list \<Rightarrow> nat \<Rightarrow> nat list \<Rightarrow> nat \<Rightarrow> u32 \<Rightarrow> (u32 \<times> nat) res" where
  "item_value data len [] i value = Inr (value, i)"
| "item_value data len (j # js) i value =
     (if i < len then
        if length data \<le> i then Inl (Undefined ''data index'')
        else item_value data len js (i + 1) (value OR push_bit (8 * j) (ucast (data ! i)))
      else item_value data len js i value)"

lemma item_value_index: "item_value data len js i w = Inr (v, i') \<Longrightarrow> i \<le> i' \<and> i' \<le> i + length js"
  by (induction data len js i w rule: item_value.induct) (auto split: if_splits simp: le_Suc_eq)

function describe_hid_descriptor :: "u8 list \<Rightarrow> nat \<Rightarrow> nat \<Rightarrow> hid_line list res" where
  "describe_hid_descriptor data len i =
     (if \<not> i < len then Inr []
      else if length data \<le> i then Inl (Undefined ''data index'')
      else
        let pfx = data ! i; sz = pfx AND 0x03; type = drop_bit 2 pfx AND 0x03; tag = drop_bit 4 pfx AND 0x0F in
        if pfx = 0xFE then Inr [LongItem]
        else
          rbind (item_value data len [0..<unat sz] (i + 1) 0) (\<lambda>(value, i').
          rbind (describe_hid_descriptor data len i') (\<lambda>lines.
            Inr (Item (i' - 1) (item_type type) (item_tag type tag) value # lines))))"
  by pat_completeness auto
termination
  by (relation "measure (\<lambda>(data, len, i). length data - i)") (auto dest!: item_value_index)

declare describe_hid_descriptor.simps [simp del]

section \<open>Enumeration\<close>

definition describe_length :: "u16 \<Rightarrow> nat" where
  "describe_length w = nat ((uint w - 6) mod 2 ^ 64)"

fun hid_loop :: "usb_bus \<Rightarrow> nat \<Rightarrow> nat \<Rightarrow> nat list \<Rightarrow> u8 list \<Rightarrow> usb \<Rightarrow> usb res" where
  "hid_loop b d h [] Buf s = Inr s"
| "hid_loop b d h (i # is) Buf s =
     (if i < unat (MaxHID (HidTable s ! h)) then
        rbind (hid_interface s h (of_nat i)) (\<lambda>interface.
        rbind (GetInterfaceDescriptor s (Some d) interface) (\<lambda>_.
        rbind (HIDReadDescriptor b (GetDeviceNumber s (Some d)) (of_nat i) (Some Buf) s) (\<lambda>((result, Buf'), s1).
          if result = Ok then
            rbind (describe_hid_descriptor (drop 6 Buf') (describe_length (report_Length (HidDescr (HidTable s1 ! h) ! i))) 0) (\<lambda>_.
              hid_loop b d h is Buf' s1)
          else hid_loop b d h is Buf' s1)))
      else Inr s)"

definition EnumerateHID :: "usb_bus \<Rightarrow> nat \<Rightarrow> usb \<Rightarrow> (RESULT \<times> usb) res" where
  "EnumerateHID b d s =
     (case GetHidDevice s (Some d) of
        None \<Rightarrow> Inl (Undefined ''hidDevice'')
      | Some h \<Rightarrow> rbind (hid_loop b d h [0..<256] (junk b (Trace s) 0 1024) s) (\<lambda>s1. Inr (Ok, s1)))"

end
