(* ===== verification/Usb_Enumeration.thy ===== *)
theory Usb_Enumeration
  imports Usb_Hid
begin

text \<open>
  Enumeration in \<^verbatim>\<open>src/UsbDevices.cpp\<close>: resetting a port, the walk over a configuration descriptor, the seven
  steps for a device, hubs and their ports, the checks for changes, and the descriptions of devices.

  \<^verbatim>\<open>EnumerateDevice\<close>, \<^verbatim>\<open>EnumerateHub\<close>, \<^verbatim>\<open>HubCheckConnection\<close> and \<^verbatim>\<open>HubPortConnectionChanged\<close> call each other in a
  circle: the last three take the enumeration of a device as the argument \<open>enum\<close>, and \<open>EnumerateDevice\<close> closes
  the circle with fuel for the depth of hubs. The walk over a configuration has fuel as well; every
  round with a descriptor of a non-zero length moves on in a buffer of 1024 bytes, so 1024 is enough.
\<close>

unbundle bit_operations_syntax

definition pipe_of :: "usb \<Rightarrow> nat \<Rightarrow> usb_pipe" where
  "pipe_of s d = Pipe0 (device s d)"

definition waited :: "nat \<Rightarrow> usb \<Rightarrow> usb" where
  "waited us s = s\<lparr>Trace := Waited us # Trace s\<rparr>"

section \<open>Resetting a port\<close>

text \<open>The argument lists are the values of \<^verbatim>\<open>timeout\<close> after its increment and of \<^verbatim>\<open>retry\<close>.\<close>

fun reset_poll :: "usb_bus \<Rightarrow> usb_pipe \<Rightarrow> u8 \<Rightarrow> nat list \<Rightarrow> u8 list \<Rightarrow> trace \<Rightarrow> (RESULT \<times> nat \<times> u8 list) \<times> trace" where
  "reset_poll b pipe port [] raw t = ((Ok, 10, raw), t)"
| "reset_poll b pipe port (timeout # ts) raw t =
     (let ((result, raw'), t1) = HCDReadHubPortStatus b pipe port raw (Waited 20000 # t); st = port_status_of raw' in
      if result \<noteq> Ok then ((result, timeout, raw'), t1)
      else if \<not> ResetChanged st \<and> \<not> Enabled st \<and> timeout < 10 then reset_poll b pipe port ts raw' t1
      else ((Ok, timeout, raw'), t1))"

fun reset_retry :: "usb_bus \<Rightarrow> usb_pipe \<Rightarrow> u8 \<Rightarrow> nat list \<Rightarrow> u8 list \<Rightarrow> trace \<Rightarrow> RESULT \<times> trace" where
  "reset_retry b pipe port [] raw t = (ErrorDevice, t)"
| "reset_retry b pipe port (retry # rs) raw t =
     (let (result, t1) = HCDChangeHubPortFeature b pipe FeatureReset port True t in
      if result \<noteq> Ok then (result, t1)
      else
        let ((result, timeout, raw'), t2) = reset_poll b pipe port [1..<11] raw t1; st = port_status_of raw' in
        if result \<noteq> Ok then (result, t2)
        else if timeout = 10 then reset_retry b pipe port rs raw' t2
        else if ConnectedChanged st \<or> \<not> Connected st then (ErrorDevice, t2)
        else if Enabled st then
          let (_, t3) = HCDChangeHubPortFeature b pipe FeatureResetChange port False t2 in (Ok, t3)
        else reset_retry b pipe port rs raw' t2)"

definition HubPortReset :: "usb_bus \<Rightarrow> nat \<Rightarrow> nat \<Rightarrow> usb \<Rightarrow> RESULT \<times> usb" where
  "HubPortReset b d port s =
     (if \<not> IsHub_device (device s d) then (ErrorDevice, s)
      else on_bus (reset_retry b (pipe_of s d) (of_nat (port + 1)) [0..<3] (junk b (Trace s) 0 4)) s)"

section \<open>The configuration descriptor\<close>

definition add_interface :: "nat \<Rightarrow> u8 list \<Rightarrow> nat \<Rightarrow> usb \<Rightarrow> usb res" where
  "add_interface d cfg i s =
     (let n = unat (MaxInterface (device s d)) in
      if MaxInterfacesPerDevice \<le> n then Inl (Undefined ''Interfaces index'')
      else if length cfg < i + 9 then Inl (Undefined ''configBuffer index'')
      else Inr (update_device d (\<lambda>x. x\<lparr>Interfaces := (Interfaces x)[n := interface_of (drop i cfg)], MaxInterface := MaxInterface x + 1\<rparr>) s))"

definition add_endpoint :: "nat \<Rightarrow> u8 list \<Rightarrow> nat \<Rightarrow> u8 \<Rightarrow> usb \<Rightarrow> usb res" where
  "add_endpoint d cfg i EndPtCnt s =
     (let n = unat (MaxInterface (device s d)) in
      if n = 0 \<or> MaxInterfacesPerDevice < n \<or> MaxEndpointsPerDevice \<le> unat EndPtCnt then Inl (Undefined ''Endpoints index'')
      else if length cfg < i + 7 then Inl (Undefined ''configBuffer index'')
      else Inr (update_device d (\<lambda>x. x
        \<lparr>Endpoints := (Endpoints x)[n - 1 := (Endpoints x ! (n - 1))[unat EndPtCnt := endpoint_of (drop i cfg)]]\<rparr>) s))"

definition add_hid :: "nat \<Rightarrow> u8 list \<Rightarrow> nat \<Rightarrow> u8 \<Rightarrow> usb \<Rightarrow> ((RESULT \<times> u8) \<times> usb) res" where
  "add_hid d cfg i hidCount s =
     (let (result, s1) = (if hidCount = 0 then AddHidPayload (Some d) s else (Ok, s)) in
      if result \<noteq> Ok then Inr ((result, hidCount), s1)
      else
        (case PayLoad (device s1 d) of
           None \<Rightarrow> Inl (Undefined ''HidPayload'')
         | Some h \<Rightarrow>
             if cfg ! i = 9 \<and> length cfg < i + 9 then Inl (Undefined ''configBuffer index'')
             else
               let (added, s2) = SetHidDescriptor h hidCount (MaxInterface (device s1 d) - 1) (drop i cfg) (cfg ! i) s1 in
               Inr ((Ok, if added then hidCount + 1 else hidCount), s2)))"

fun parse_config :: "nat \<Rightarrow> nat \<Rightarrow> u8 list \<Rightarrow> nat \<Rightarrow> nat \<Rightarrow> u8 \<Rightarrow> u8 \<Rightarrow> usb \<Rightarrow> ((RESULT \<times> u8) \<times> usb) res" where
  "parse_config 0 d cfg end i EndPtCnt hidCount s = Inl Diverges"
| "parse_config (Suc fuel) d cfg end i EndPtCnt hidCount s =
     (if \<not> i < end then Inr ((Ok, hidCount), s)
      else if length cfg \<le> i + 1 then Inl (Undefined ''configBuffer index'')
      else
        let type = cfg ! (i + 1); i' = i + unat (cfg ! i) in
        if type = descriptor_code USB_DESCRIPTOR_TYPE_INTERFACE then
          rbind (add_interface d cfg i s) (\<lambda>s1. parse_config fuel d cfg end i' 0 hidCount s1)
        else if type = descriptor_code USB_DESCRIPTOR_TYPE_ENDPOINT then
          rbind (add_endpoint d cfg i EndPtCnt s) (\<lambda>s1. parse_config fuel d cfg end i' (EndPtCnt + 1) hidCount s1)
        else if type = descriptor_code USB_DESCRIPTOR_TYPE_HID then
          rbind (add_hid d cfg i hidCount s) (\<lambda>((result, hidCount'), s1).
            if result \<noteq> Ok then Inr ((result, hidCount'), s1)
            else parse_config fuel d cfg end i' EndPtCnt hidCount' s1)
        else parse_config fuel d cfg end i' EndPtCnt hidCount s)"

text \<open>\<^verbatim>\<open>i < wTotalLength - 1\<close> compares an unsigned with an \<^verbatim>\<open>int\<close>, so a total length of 0 is the largest bound.\<close>

definition config_end :: "u16 \<Rightarrow> nat" where
  "config_end w = unat (ucast w - 1 :: u32)"

section \<open>Ports and hubs\<close>

definition enum_depth :: nat where "enum_depth = 33"

definition set_child :: "nat \<Rightarrow> nat \<Rightarrow> nat option \<Rightarrow> usb \<Rightarrow> usb" where
  "set_child h port c s = update_hub h (\<lambda>x. x\<lparr>Children := (Children x)[port := c]\<rparr>) s"

definition child_at :: "usb \<Rightarrow> nat \<Rightarrow> nat \<Rightarrow> nat option" where
  "child_at s h port = Children (HubTable s ! h) ! port"

definition drop_child :: "nat \<Rightarrow> nat \<Rightarrow> usb \<Rightarrow> usb res" where
  "drop_child h port s =
     (case child_at s h port of
        None \<Rightarrow> Inl (Undefined ''UsbDeallocateDevice(nullptr)'')
      | Some c \<Rightarrow> rbind (UsbDeallocateDevice enum_depth c s) (\<lambda>s1. Inr (set_child h port None s1)))"

definition attach_speed :: "port_status \<Rightarrow> u8 \<Rightarrow> nat \<Rightarrow> usb_pipe \<Rightarrow> usb_pipe" where
  "attach_speed st hub port p =
     (if HighSpeedAttatched st then p\<lparr>Speed := USB_SPEED_HIGH\<rparr>
      else p\<lparr>Speed := if LowSpeedAttatched st then USB_SPEED_LOW else USB_SPEED_FULL, splitNodePoint := hub, splitNodePort := of_nat port\<rparr>)"

type_synonym enumerate = "nat \<Rightarrow> nat option \<Rightarrow> nat \<Rightarrow> usb \<Rightarrow> (RESULT \<times> usb) res"

definition attach_device :: "enumerate \<Rightarrow> usb_bus \<Rightarrow> nat \<Rightarrow> nat \<Rightarrow> nat \<Rightarrow> u8 list \<Rightarrow> usb \<Rightarrow> (RESULT \<times> usb) res" where
  "attach_device enum b d h port raw s =
     (let (result, s1) = HubPortReset b d port s in
      if result \<noteq> Ok then Inr (result, s1)
      else
        let ((result, p), s2) = UsbAllocateDevice s1 in
        case p of
          None \<Rightarrow> Inr (result, s2)
        | Some c \<Rightarrow>
            let s3 = set_child h port (Some c) s2;
              ((result, raw'), s4) = on_bus (HCDReadHubPortStatus b (pipe_of s3 d) (of_nat (port + 1)) raw) s3 in
            if result \<noteq> Ok then Inr (result, s4)
            else
              let hub = pipe_Number (pipe_of s4 d);
                s5 = update_device c (\<lambda>x. x\<lparr>Pipe0 := attach_speed (port_status_of raw') hub port (Pipe0 x),
                       ParentNumber := hub, ParentPort := of_nat port\<rparr>) s4 in
              rbind (enum c (Some d) port s5) (\<lambda>(result, s6).
                if result \<noteq> Ok then
                  rbind (drop_child h port s6) (\<lambda>s7.
                    Inr (result, snd (on_bus (HCDChangeHubPortFeature b (pipe_of s7 d) FeatureEnable (of_nat (port + 1)) False) s7)))
                else Inr (Ok, s6)))"

definition HubPortConnectionChanged :: "enumerate \<Rightarrow> usb_bus \<Rightarrow> nat \<Rightarrow> nat \<Rightarrow> usb \<Rightarrow> (RESULT \<times> usb) res" where
  "HubPortConnectionChanged enum b d port s =
     (if \<not> IsHub_device (device s d) then Inr (ErrorDevice, s)
      else
        let h = the (PayLoad (device s d));
          ((result, raw), s1) = on_bus (HCDReadHubPortStatus b (pipe_of s d) (of_nat (port + 1)) (junk b (Trace s) 0 4)) s;
          st = port_status_of raw in
        if result \<noteq> Ok then Inr (result, s1)
        else
          let s2 = snd (on_bus (HCDChangeHubPortFeature b (pipe_of s1 d) FeatureConnectionChange (of_nat (port + 1)) False) s1) in
          if (\<not> Connected st \<and> \<not> Enabled st) \<or> child_at s2 h port \<noteq> None then
            rbind (drop_child h port s2) (\<lambda>s3.
              if \<not> Connected st then Inr (Ok, s3) else attach_device enum b d h port raw s3)
          else attach_device enum b d h port raw s2)"

definition clear_feature :: "usb_bus \<Rightarrow> nat \<Rightarrow> nat \<Rightarrow> HubPortFeature \<Rightarrow> usb \<Rightarrow> usb" where
  "clear_feature b d port feature s = snd (on_bus (HCDChangeHubPortFeature b (pipe_of s d) feature (of_nat (port + 1)) False) s)"

definition HubCheckConnection :: "enumerate \<Rightarrow> usb_bus \<Rightarrow> nat \<Rightarrow> nat \<Rightarrow> usb \<Rightarrow> (RESULT \<times> usb) res" where
  "HubCheckConnection enum b d port s =
     (if \<not> IsHub_device (device s d) then Inr (ErrorDevice, s)
      else
        let h = the (PayLoad (device s d));
          ((result, raw), s1) = on_bus (HCDReadHubPortStatus b (pipe_of s d) (of_nat (port + 1)) (junk b (Trace s) 0 4)) s;
          st = port_status_of raw in
        if result \<noteq> Ok then Inr (result, s1)
        else
          rbind (if ConnectedChanged st then HubPortConnectionChanged enum b d port s1 else Inr (Ok, s1)) (\<lambda>(_, s2).
          rbind (if EnabledChanged st then
                   let s3 = clear_feature b d port FeatureEnableChange s2 in
                   if \<not> Enabled st \<and> Connected st \<and> child_at s3 h port \<noteq> None then HubPortConnectionChanged enum b d port s3
                   else Inr (Ok, s3)
                 else Inr (Ok, s2)) (\<lambda>(_, s4).
            let s5 = (if Suspended st then clear_feature b d port FeatureSuspend s4 else s4);
              s6 = (if OverCurrentChanged st then clear_feature b d port FeatureOverCurrentChange s5 else s5);
              s7 = (if ResetChanged st then clear_feature b d port FeatureResetChange s6 else s6) in
            Inr (Ok, s7))))"

fun power_ports :: "usb_bus \<Rightarrow> nat \<Rightarrow> nat list \<Rightarrow> usb \<Rightarrow> usb" where
  "power_ports b d [] s = s"
| "power_ports b d (i # is) s =
     power_ports b d is (snd (on_bus (HCDChangeHubPortFeature b (pipe_of s d) FeaturePower (of_nat (i + 1)) True) s))"

fun check_ports :: "enumerate \<Rightarrow> usb_bus \<Rightarrow> nat \<Rightarrow> nat \<Rightarrow> nat list \<Rightarrow> usb \<Rightarrow> usb res" where
  "check_ports enum b d h [] s = Inr s"
| "check_ports enum b d h (port # ports) s =
     (if port < MaxChildren (HubTable s ! h) then
        rbind (HubCheckConnection enum b d port s) (\<lambda>(_, s1). check_ports enum b d h ports s1)
      else Inr s)"

definition EnumerateHub :: "enumerate \<Rightarrow> usb_bus \<Rightarrow> nat \<Rightarrow> usb \<Rightarrow> (RESULT \<times> usb) res" where
  "EnumerateHub enum b d s =
     (let (result, s1) = AddHubPayload (Some d) s in
      if result \<noteq> Ok then Inr (result, s1)
      else
        let h = the (PayLoad (device s1 d));
          s2 = update_hub h (Children_update (\<lambda>_. replicate MaxChildrenPerDevice None)) s1;
          ((result, data, n), s3) = on_bus
            (HCDGetDescriptor b (pipe_of s2 d) USB_DESCRIPTOR_TYPE_HUB 0 0 9 bmREQ_GET_HUB_DESCRIPTOR True) s2;
          s4 = update_hub h (\<lambda>x. x\<lparr>HubDescr := hub_descriptor_of (overwrite data (hub_descriptor_bytes (HubDescr x)))\<rparr>) s3;
          descr = HubDescr (HubTable s4 ! h) in
        if result \<noteq> Ok \<or> n \<noteq> Some 9 then Inr (ErrorDevice, s4)
        else
          let s5 = (if of_nat MaxChildrenPerDevice < PortCount descr then s4
                    else update_hub h (MaxChildren_update (\<lambda>_. unat (PortCount descr))) s4);
            ((result, _), s6) = on_bus (HCDReadHubPortStatus b (pipe_of s5 d) 0 (junk b (Trace s5) 0 4)) s5 in
          if result \<noteq> Ok then Inr (result, s6)
          else
            let s7 = power_ports b d [0..<MaxChildren (HubTable s6 ! h)] s6;
              s8 = waited 1000 (waited (unat (PowerGoodDelay descr) * 2000) s7) in
            rbind (check_ports enum b d h [0..<MaxChildrenPerDevice] s8) (\<lambda>s9. Inr (Ok, s9)))"

section \<open>Devices\<close>

definition read_string_if :: "usb_bus \<Rightarrow> nat \<Rightarrow> u8 \<Rightarrow> usb \<Rightarrow> usb res" where
  "read_string_if b d index s =
     (if index \<noteq> 0 then
        rbind (HCDReadStringDescriptor b (pipe_of s d) index (junk b (Trace s) 0 256) 256 (Trace s)) (\<lambda>(_, t). Inr (s\<lparr>Trace := t\<rparr>))
      else Inr s)"

definition set_number :: "nat \<Rightarrow> u8 \<Rightarrow> usb \<Rightarrow> usb" where
  "set_number d address s = update_device d (\<lambda>x. x\<lparr>Pipe0 := (Pipe0 x)\<lparr>pipe_Number := address\<rparr>\<rparr>) s"

definition set_packet_size :: "nat \<Rightarrow> u16 \<Rightarrow> usb \<Rightarrow> usb" where
  "set_packet_size d n s = update_device d (\<lambda>x. x\<lparr>Pipe0 := (Pipe0 x)\<lparr>MaxPacketSizeInBytes := n\<rparr>\<rparr>) s"

definition set_status :: "nat \<Rightarrow> UsbDeviceStatus \<Rightarrow> usb \<Rightarrow> usb" where
  "set_status d st s = update_device d (Status_update (\<lambda>_. st)) s"

text \<open>Steps 1 to 3: the first eight bytes, the second reset, and the address.\<close>

definition address_device :: "usb_bus \<Rightarrow> nat \<Rightarrow> nat option \<Rightarrow> nat \<Rightarrow> usb \<Rightarrow> RESULT \<times> usb" where
  "address_device b d ParentHub PortNum s =
     (let address = pipe_Number (pipe_of s d);
        s1 = set_packet_size d 8 (set_number d 0 s);
        ((result, data, n), s2) = on_bus (HCDSubmitControlMessage b (pipe_of s1 d) USB_DIRECTION_IN (Receive 8)
          (descriptor_request bmREQ_GET_DEVICE_DESCRIPTOR USB_DESCRIPTOR_TYPE_DEVICE 0 0 8)) s1;
        desc = device_descriptor_of (overwrite data (replicate 18 0)) in
      if result \<noteq> Ok \<or> stored n (junk_transfer b (Trace s2)) \<noteq> 8
      then (if result \<noteq> Ok then result else ErrorTransmission, s2)
      else
        let s3 = set_status d USB_STATUS_DEFAULT (set_packet_size d (ucast (bMaxPacketSize0 desc)) s2);
          (result, s4) = (case ParentHub of None \<Rightarrow> (Ok, s3) | Some p \<Rightarrow> HubPortReset b p PortNum s3) in
        if result \<noteq> Ok then (result, set_number d address s4)
        else
          let (result, s5) = on_bus (HCDSetAddress b (pipe_of s4 d) address) s4 in
          if result \<noteq> Ok then (result, set_number d address s5)
          else (Ok, set_status d USB_STATUS_ADDRESSED (waited 10000 (set_number d address s5))))"

text \<open>Step 4: the whole device descriptor.\<close>

definition read_device_descriptor :: "usb_bus \<Rightarrow> nat \<Rightarrow> usb \<Rightarrow> RESULT \<times> usb" where
  "read_device_descriptor b d s =
     (let ((result, data, n), s1) = on_bus
        (HCDGetDescriptor b (pipe_of s d) USB_DESCRIPTOR_TYPE_DEVICE 0 0 18 bmREQ_GET_DEVICE_DESCRIPTOR True) s;
        s2 = update_device d (\<lambda>x. x\<lparr>Descriptor := device_descriptor_of (overwrite data (device_descriptor_bytes (Descriptor x)))\<rparr>) s1 in
      if result = Ok \<and> stored n 8 \<noteq> 18 then (ErrorTransmission, s2) else (result, s2))"

text \<open>Step 5: the configuration. The result has the configuration's number and the count of HID interfaces.\<close>

definition read_configuration :: "usb_bus \<Rightarrow> nat \<Rightarrow> usb \<Rightarrow> ((RESULT \<times> u8 \<times> u8) \<times> usb) res" where
  "read_configuration b d s =
     (let ((result, data, n), s1) = on_bus
        (HCDGetDescriptor b (pipe_of s d) USB_DESCRIPTOR_TYPE_CONFIGURATION 0 0 9 bmREQ_GET_DEVICE_DESCRIPTOR True) s;
        configDesc = configuration_descriptor_of (overwrite data (junk b (Trace s) 0 9));
        configNum = bConfigurationValue configDesc in
      if result = Ok \<and> stored n (junk_transfer b (Trace s)) \<noteq> 9 then Inr ((ErrorTransmission, configNum, 0), s1)
      else if result \<noteq> Ok then Inr ((ErrorDevice, configNum, 0), s1)
      else
        let s2 = update_device d (ConfigStringIndex_update (\<lambda>_. iConfiguration configDesc)) s1;
          total = unat (wTotalLength configDesc);
          ((result, data, n), s3) = on_bus (HCDSubmitControlMessage b (pipe_of s2 d) USB_DIRECTION_IN (Receive total)
            (descriptor_request bmREQ_GET_DEVICE_DESCRIPTOR USB_DESCRIPTOR_TYPE_CONFIGURATION 0 0 total)) s2 in
        if 1024 < length data then Inl (Undefined ''configBuffer overflow'')
        else if result \<noteq> Ok then Inr ((result, configNum, 0), s3)
        else if stored n 9 \<noteq> of_nat total then Inr ((ErrorDevice, configNum, 0), s3)
        else
          rbind (parse_config 1024 d (overwrite data (junk b (Trace s2) 0 1024)) (config_end (wTotalLength configDesc)) 0 0 0 s3)
            (\<lambda>((result, hidCount), s4). Inr ((result, configNum, hidCount), s4)))"

text \<open>Steps 6 and 7: the configuration is selected, the strings are read, and hubs and HID devices go on.\<close>

definition finish_device :: "enumerate \<Rightarrow> usb_bus \<Rightarrow> nat \<Rightarrow> u8 \<Rightarrow> u8 \<Rightarrow> usb \<Rightarrow> (RESULT \<times> usb) res" where
  "finish_device enum b d configNum hidCount s =
     (let (result, s1) = on_bus (HCDSetConfiguration b (pipe_of s d) configNum) s in
      if result \<noteq> Ok then Inr (result, s1)
      else
        let s2 = set_status d USB_STATUS_CONFIGURED (update_device d (ConfigIndex_update (\<lambda>_. configNum)) s1);
          descr = Descriptor (device s2 d) in
        rbind (read_string_if b d (iProduct descr) s2) (\<lambda>s3.
        rbind (read_string_if b d (iManufacturer descr) s3) (\<lambda>s4.
        rbind (read_string_if b d (iSerialNumber descr) s4) (\<lambda>s5.
        rbind (read_string_if b d (ConfigStringIndex (device s5 d)) s5) (\<lambda>s6.
          if bDeviceClass descr = 9 then EnumerateHub enum b d s6
          else if 0 < hidCount then EnumerateHID b d s6
          else Inr (Ok, s6))))))"

fun EnumerateDevice :: "nat \<Rightarrow> usb_bus \<Rightarrow> nat \<Rightarrow> nat option \<Rightarrow> nat \<Rightarrow> usb \<Rightarrow> (RESULT \<times> usb) res" where
  "EnumerateDevice 0 b d ParentHub PortNum s = Inl Diverges"
| "EnumerateDevice (Suc depth) b d ParentHub PortNum s =
     (let (result, s1) = address_device b d ParentHub PortNum s in
      if result \<noteq> Ok then Inr (result, s1)
      else
        let (result, s2) = read_device_descriptor b d s1 in
        if result \<noteq> Ok then Inr (result, s2)
        else
          rbind (read_configuration b d s2) (\<lambda>((result, configNum, hidCount), s3).
            if result \<noteq> Ok then Inr (result, s3)
            else finish_device (EnumerateDevice depth b) b d configNum hidCount s3))"

section \<open>The driver's entry points\<close>

text \<open>\<open>hcd\<close> is the error of \<^verbatim>\<open>HCDInitialize\<close>, if it fails.\<close>

definition UsbInitialize :: "u8 option \<Rightarrow> usb_bus \<Rightarrow> usb \<Rightarrow> (RESULT \<times> usb) res" where
  "UsbInitialize hcd b s =
     (case hcd of
        Some e \<Rightarrow> Inr (ResultFromDwcResult e, s)
      | None \<Rightarrow>
          let s1 = update_device 0 (\<lambda>x. x
            \<lparr>Pipe0 := (Pipe0 x)\<lparr>pipe_Number := 1, Speed := USB_SPEED_HIGH\<rparr>, Status := USB_STATUS_ATTACHED,
             PayLoadId := NoPayload, PayLoad := None, ParentNumber := 0xFF, ParentPort := 0\<rparr>) s in
          rbind (EnumerateDevice enum_depth b 0 None 0 s1) (\<lambda>(result, s2).
            if result \<noteq> Ok then Inl (Panic ''Root HUB: Could not enumerate'') else Inr (Ok, s2)))"

fun check_children :: "(nat \<Rightarrow> usb \<Rightarrow> usb res) \<Rightarrow> usb_bus \<Rightarrow> nat \<Rightarrow> nat list \<Rightarrow> usb \<Rightarrow> usb res" where
  "check_children rec b d [] s = Inr s"
| "check_children rec b d (i # is) s =
     (case PayLoad (device s d) of
        None \<Rightarrow> Inl (Undefined ''HubPayload'')
      | Some h \<Rightarrow>
          if i < MaxChildren (HubTable s ! h) then
            rbind (HubCheckConnection (EnumerateDevice enum_depth b) b d i s) (\<lambda>(result, s1).
              if result \<noteq> Ok then check_children rec b d is s1
              else
                (case PayLoad (device s1 d) of
                   None \<Rightarrow> Inl (Undefined ''HubPayload'')
                 | Some h1 \<Rightarrow>
                     (case child_at s1 h1 i of
                        None \<Rightarrow> check_children rec b d is s1
                      | Some c \<Rightarrow> rbind (rec c s1) (check_children rec b d is))))
          else Inr s)"

fun HubCheckForChange :: "nat \<Rightarrow> usb_bus \<Rightarrow> nat \<Rightarrow> usb \<Rightarrow> usb res" where
  "HubCheckForChange 0 b d s = Inl Diverges"
| "HubCheckForChange (Suc depth) b d s =
     (if IsHub_device (device s d) then check_children (HubCheckForChange depth b) b d [0..<MaxChildrenPerDevice] s else Inr s)"

definition UsbCheckForChange :: "usb_bus \<Rightarrow> usb \<Rightarrow> usb res" where
  "UsbCheckForChange b s = (if PayLoadId (device s 0) \<noteq> ErrorPayload then HubCheckForChange enum_depth b 0 s else Inr s)"

definition device_string :: "(usb_device \<Rightarrow> u8) \<Rightarrow> usb_bus \<Rightarrow> u8 \<Rightarrow> u8 list \<Rightarrow> usb \<Rightarrow> ((nat \<times> u8 list) \<times> usb) res" where
  "device_string index b devNumber buffer s =
     (if buffer = [] then Inr ((0, buffer), s)
      else
        (case UsbDeviceAtAddress s devNumber of
           None \<Rightarrow> Inr ((0, buffer), s)
         | Some d \<Rightarrow>
             if index (device s d) = 0 then Inr ((0, buffer), s)
             else
               rbind (HCDReadStringDescriptor b (pipe_of s d) (index (device s d)) buffer (length buffer) (Trace s))
                 (\<lambda>((result, buffer', len), t). Inr ((if result \<noteq> Ok then 0 else len, buffer'), s\<lparr>Trace := t\<rparr>))))"

definition GetDeviceProductString :: "usb_bus \<Rightarrow> u8 \<Rightarrow> u8 list \<Rightarrow> usb \<Rightarrow> ((nat \<times> u8 list) \<times> usb) res" where
  "GetDeviceProductString = device_string (\<lambda>x. iProduct (Descriptor x))"

definition GetDeviceManufacturerString :: "usb_bus \<Rightarrow> u8 \<Rightarrow> u8 list \<Rightarrow> usb \<Rightarrow> ((nat \<times> u8 list) \<times> usb) res" where
  "GetDeviceManufacturerString = device_string (\<lambda>x. iManufacturer (Descriptor x))"

definition GetDeviceSerialNumberString :: "usb_bus \<Rightarrow> u8 \<Rightarrow> u8 list \<Rightarrow> usb \<Rightarrow> ((nat \<times> u8 list) \<times> usb) res" where
  "GetDeviceSerialNumberString = device_string (\<lambda>x. iSerialNumber (Descriptor x))"

definition GetDeviceConfigStringString :: "usb_bus \<Rightarrow> u8 \<Rightarrow> u8 list \<Rightarrow> usb \<Rightarrow> ((nat \<times> u8 list) \<times> usb) res" where
  "GetDeviceConfigStringString = device_string ConfigStringIndex"

definition hub_description :: "u16 \<Rightarrow> string" where
  "hub_description bcd =
     (if bcd = 0x210 then ''USB 2.1 Hub'' else if bcd = 0x200 then ''USB 2.0 Hub'' else if bcd = 0x110 then ''USB 1.1 Hub''
      else if bcd = 0x100 then ''USB 1.0 Hub'' else ''USB Hub'')"

definition interface_description :: "u16 \<Rightarrow> interface_descriptor \<Rightarrow> string" where
  "interface_description bcd i =
     (let c = Class i in
      if c = 0x01 then ''USB Audio Device'' else if c = 0x02 then ''USB CDC Device''
      else if c = 0x03 then
        (if Protocol i = 1 then ''USB Keyboard'' else if Protocol i = 2 then ''USB Mouse'' else ''USB HID'')
      else if c = 0x05 then ''USB Physical Device'' else if c = 0x06 then ''USB Imaging Device''
      else if c = 0x07 then ''USB Printer'' else if c = 0x08 then ''USB Mass Storage Device''
      else if c = 0x09 then hub_description bcd
      else if c = 0x0a then ''USB CDC-Data Device'' else if c = 0x0b then ''USB Smart Card''
      else if c = 0x0d then ''USB Content Secuity Device'' else if c = 0x0e then ''USB Video Device''
      else if c = 0x0f then ''USB Healthcare Device'' else if c = 0x10 then ''USB AV Device''
      else if c = 0xdc then ''USB Diagnostic Device'' else if c = 0xe0 then ''USB Wireless Controller''
      else if c = 0xef then ''USB Miscellaneous Device'' else if c = 0xff then ''Vendor Specific'' else ''Generic Device'')"

definition UsbGetDescription :: "usb \<Rightarrow> nat \<Rightarrow> string" where
  "UsbGetDescription s d =
     (let x = device s d; descr = Descriptor x; c = bDeviceClass descr in
      if Status x = USB_STATUS_ATTACHED then ''New Device (Not Ready)''
      else if Status x = USB_STATUS_POWERED then ''Unknown Device (Not Ready)''
      else if d = 0 then ''USB Root Hub''
      else if c = 0x9 then hub_description (bcdUSB descr)
      else if c = 0xff \<and> idVendor descr = 0x424 \<and> idProduct descr = 0xec00 then ''SMSC LAN9512''
      else if c = 0xff \<or> c = 0x00 then
        (if Status x = USB_STATUS_CONFIGURED then interface_description (bcdUSB descr) (Interfaces x ! 0)
         else if c = 0xff then ''Vendor Specific'' else ''Unconfigured Device'')
      else ''Generic Device'')"

end
