(* ===== verification/Usb_Transfers.thy ===== *)
theory Usb_Transfers
  imports Usb_Enumeration
begin

text \<open>
  What the control layer of the USB driver does on the bus: the phases of a control message, the bytes a
  descriptor read may store, what an accepted port reset has seen, and the data toggle of an endpoint.
\<close>

unbundle bit_operations_syntax

section \<open>Control messages\<close>

abbreviation setup_accepted :: "usb_bus \<Rightarrow> usb_pipe \<Rightarrow> usb_request \<Rightarrow> trace \<Rightarrow> bool" where
  "setup_accepted b pipe request t \<equiv> on_out b t pipe USB_TRANSFER_TYPE_CONTROL (request_bytes request) USB_PID_SETUP = 8"

lemmas transfer_defs = transfer_out_def transfer_in_def

definition data_phase :: "usb_pipe \<Rightarrow> UsbDirection \<Rightarrow> xfer_buffer \<Rightarrow> u8 list \<Rightarrow> trace" where
  "data_phase pipe dir buffer data =
     (if buffer = NoBuffer then []
      else if dir = USB_DIRECTION_OUT then
        [XferOut pipe USB_TRANSFER_TYPE_CONTROL (sent_bytes buffer) USB_PID_DATA1 (of_nat (buffer_length buffer))]
      else [XferIn pipe USB_TRANSFER_TYPE_CONTROL (buffer_length buffer) USB_PID_DATA1 (of_nat (buffer_length buffer)) data])"

definition status_phase :: "usb_pipe \<Rightarrow> UsbDirection \<Rightarrow> bus_event \<Rightarrow> bool" where
  "status_phase pipe dir e \<longleftrightarrow>
     (\<exists>n. e = (if dir = USB_DIRECTION_OUT then XferIn pipe USB_TRANSFER_TYPE_CONTROL 0 USB_PID_DATA1 n []
               else XferOut pipe USB_TRANSFER_TYPE_CONTROL [] USB_PID_DATA1 n))"

lemma control_message_Ok:
  assumes "HCDSubmitControlMessage b pipe dir buffer request t = ((Ok, data, n), t')" and "setup_accepted b pipe request t"
  shows "n = Some (of_nat (buffer_length buffer)) \<and>
    (\<exists>e. status_phase pipe dir e \<and>
       t' = e # data_phase pipe dir buffer data @ XferOut pipe USB_TRANSFER_TYPE_CONTROL (request_bytes request) USB_PID_SETUP 8 # t)"
  using assms
  by (cases dir; auto simp: HCDSubmitControlMessage_def transfer_defs Let_def data_phase_def status_phase_def
      buffer_length_def split: if_splits prod.splits)

lemma control_message_length:
  assumes "HCDSubmitControlMessage b pipe dir buffer request t = ((r, data, n), t')"
  shows "length data \<le> buffer_length buffer"
  using assms by (auto simp: HCDSubmitControlMessage_def transfer_defs Let_def split: if_splits prod.splits)

lemma control_message_ResultOk:
  assumes "HCDSubmitControlMessage b pipe dir buffer request t = ((r, data, n), t')" and "setup_accepted b pipe request t"
  shows "r = Ok \<or> (r = ErrorArgument \<and> buffer = NoBuffer \<and> dir = USB_DIRECTION_IN) \<or> (r = ErrorGeneral \<and> buffer \<noteq> NoBuffer)"
  using assms by (auto simp: HCDSubmitControlMessage_def transfer_defs Let_def split: if_splits prod.splits)

lemma control_message_short:
  assumes "HCDSubmitControlMessage b pipe dir buffer request t = ((r, data, n), t')" and "setup_accepted b pipe request t"
  shows "r = Ok \<or> length t' < Suc (Suc (length t)) + length (data_phase pipe dir buffer data)"
  using assms by (auto simp: HCDSubmitControlMessage_def transfer_defs Let_def data_phase_def split: if_splits prod.splits)

lemma setup_refused:
  assumes "\<not> setup_accepted b pipe request t"
  shows "\<exists>e. HCDSubmitControlMessage b pipe dir buffer request t =
    ((ResultFromDwcResult (junk_result b (e # t)), [], None), e # t)"
  using assms by (auto simp: HCDSubmitControlMessage_def transfer_defs Let_def)

section \<open>Descriptors\<close>

lemma descriptor_length:
  assumes "HCDGetDescriptor b pipe type index langId len recipient hdr t = ((r, data, n), t')"
  shows "length data \<le> len"
  using assms
  by (auto simp: HCDGetDescriptor_def descriptor_body_def Let_def buffer_length_def split: if_splits prod.splits
      dest!: control_message_length)

lemma descriptor_Ok:
  assumes "HCDGetDescriptor b pipe type index langId len recipient True t = ((Ok, data, n), t')"
  shows "\<exists>hdr. length hdr = 2 \<and> hdr ! 1 = descriptor_code type \<and> length data \<le> min len (unat (hdr ! 0))
    \<and> n = Some (of_nat (min len (unat (hdr ! 0))))"
proof -
  obtain r0 d0 n0 t0 where s: "HCDSubmitControlMessage b pipe USB_DIRECTION_IN (Receive 2)
      (descriptor_request recipient type index langId 2) t = ((r0, d0, n0), t0)" by (metis prod.collapse)
  define hdr where "hdr = overwrite d0 [0, 0 :: u8]"
  have "length d0 \<le> 2" using control_message_length [OF s] by (simp add: buffer_length_def)
  then have len: "length hdr = 2" by (simp add: hdr_def overwrite_def)
  have ok: "r0 = Ok" "hdr ! 1 = descriptor_code type"
    and body: "descriptor_body b pipe type index langId (min len (unat (hdr ! 0))) recipient t0 = ((Ok, data, n), t')"
    using assms by (auto simp: HCDGetDescriptor_def s Let_def hdr_def split: if_splits)
  have "length data \<le> min len (unat (hdr ! 0)) \<and> n = Some (of_nat (min len (unat (hdr ! 0))))"
    using body by (auto simp: descriptor_body_def Let_def buffer_length_def split: if_splits prod.splits
        dest!: control_message_length)
  with len ok show ?thesis by blast
qed

section \<open>Resetting a port\<close>

definition waits :: "trace \<Rightarrow> nat" where
  "waits t = length (filter (\<lambda>e. \<exists>us. e = Waited us) t)"

lemma waits_simps [simp]:
  "waits [] = 0" "waits (Waited us # t) = Suc (waits t)"
  "waits (XferOut p ty bs pid n # t) = waits t" "waits (XferIn p ty k pid n bs # t) = waits t"
  by (simp_all add: waits_def)

lemma waits_control [simp]: "waits (snd (HCDSubmitControlMessage b pipe dir buffer request t)) = waits t"
  by (auto simp: HCDSubmitControlMessage_def transfer_defs Let_def split: prod.splits)

lemma waits_status [simp]: "waits (snd (HCDReadHubPortStatus b pipe port raw t)) = waits t"
  by (simp add: HCDReadHubPortStatus_def Let_def case_prod_beta)

lemma waits_feature [simp]: "waits (snd (HCDChangeHubPortFeature b pipe feature port on t)) = waits t"
  by (simp add: HCDChangeHubPortFeature_def Let_def case_prod_beta)

lemma waits_read: "HCDReadHubPortStatus b pipe port raw t = ((r, raw'), t') \<Longrightarrow> waits t' = waits t"
  by (metis snd_conv waits_status)

lemma waits_change: "HCDChangeHubPortFeature b pipe feature port on t = (r, t') \<Longrightarrow> waits t' = waits t"
  by (metis snd_conv waits_feature)

text \<open>A status that the hub answered, at the end of the trace \<open>t1\<close>.\<close>

definition status_seen :: "usb_bus \<Rightarrow> usb_pipe \<Rightarrow> u8 \<Rightarrow> trace \<Rightarrow> u8 list \<Rightarrow> bool" where
  "status_seen b pipe port t1 raw \<longleftrightarrow> (\<exists>raw0 t0. HCDReadHubPortStatus b pipe port raw0 t0 = ((Ok, raw), t1))"

lemma reset_poll_seen:
  assumes "reset_poll b pipe port ts raw t = ((r, timeout, raw'), t')"
  shows "waits t' \<le> waits t + length ts \<and> (r = Ok \<longrightarrow> timeout \<noteq> 10 \<longrightarrow> status_seen b pipe port t' raw')"
  using assms
proof (induction ts arbitrary: raw t)
  case (Cons k ts)
  obtain r1 raw1 t1 where c: "HCDReadHubPortStatus b pipe port raw (Waited 20000 # t) = ((r1, raw1), t1)" by (metis prod.collapse)
  have "waits t1 = Suc (waits t)" using waits_read [OF c] by simp
  moreover have "r1 = Ok \<Longrightarrow> status_seen b pipe port t1 raw1" using c unfolding status_seen_def by blast
  ultimately show ?case using Cons.prems Cons.IH [of raw1 t1] by (auto simp: c Let_def split: if_splits)
qed simp

definition reset_proved :: "usb_bus \<Rightarrow> usb_pipe \<Rightarrow> u8 \<Rightarrow> trace \<Rightarrow> bool" where
  "reset_proved b pipe port t' \<longleftrightarrow>
     (\<exists>t1 raw. status_seen b pipe port t1 raw \<and> Connected (port_status_of raw) \<and> Enabled (port_status_of raw)
        \<and> \<not> ConnectedChanged (port_status_of raw) \<and> t' = snd (HCDChangeHubPortFeature b pipe FeatureResetChange port False t1))"

lemma reset_retry_proved:
  assumes "reset_retry b pipe port rs raw t = (r, t')"
  shows "waits t' \<le> waits t + 10 * length rs \<and> (r = Ok \<longrightarrow> reset_proved b pipe port t')"
  using assms
proof (induction rs arbitrary: raw t)
  case (Cons retry rs)
  obtain r1 t1 where c: "HCDChangeHubPortFeature b pipe FeatureReset port True t = (r1, t1)" by fastforce
  obtain r2 n raw2 t2 where p: "reset_poll b pipe port [1..<11] raw t1 = ((r2, n, raw2), t2)" by (metis prod.collapse)
  obtain r3 t3 where e: "HCDChangeHubPortFeature b pipe FeatureResetChange port False t2 = (r3, t3)" by fastforce
  have w: "waits t1 = waits t" "waits t2 \<le> waits t + 10" "waits t3 = waits t2"
    using waits_change [OF c] waits_change [OF e] reset_poll_seen [OF p] by simp_all
  have seen: "r2 = Ok \<Longrightarrow> n \<noteq> 10 \<Longrightarrow> status_seen b pipe port t2 raw2" using reset_poll_seen [OF p] by simp
  then have "r2 = Ok \<Longrightarrow> n \<noteq> 10 \<Longrightarrow> Connected (port_status_of raw2) \<Longrightarrow> Enabled (port_status_of raw2) \<Longrightarrow>
      \<not> ConnectedChanged (port_status_of raw2) \<Longrightarrow> reset_proved b pipe port t3"
    unfolding reset_proved_def using e by (metis snd_conv)
  then show ?case
    using Cons.prems Cons.IH [of raw2 t2] w by (auto simp: c p e Let_def simp del: upt_Suc One_nat_def split: if_splits)
qed simp

section \<open>The data toggle\<close>

definition toggled :: "endpoint_descriptor \<Rightarrow> bool" where
  "toggled ep = bit (Interval ep) 7"

lemma and_128: "(v AND 0x80 \<noteq> 0) = bit (v :: u8) 7"
proof -
  have h: "push_bit 7 1 = (0x80 :: u8)" by (simp add: push_bit_eq_mult)
  show ?thesis using bit_iff_and_push_bit_not_eq_0 [of v 7, unfolded h] by (rule sym)
qed

lemma xor_128: "bit (v XOR 0x80 :: u8) 7 = (\<not> bit v 7)"
proof -
  have "bit (0x80 :: u8) 7" by code_simp
  then show ?thesis by (simp only: bit_xor_iff) blast
qed

lemma toggle_pid_toggled: "toggle_pid ep = (if toggled ep then USB_PID_DATA1 else USB_PID_DATA0)"
  by (simp add: toggle_pid_def toggled_def and_128)

definition same_place :: "endpoint_descriptor \<Rightarrow> endpoint_descriptor \<Rightarrow> bool" where
  "same_place a c \<longleftrightarrow> ep_Length a = ep_Length c \<and> EndpointAddress a = EndpointAddress c \<and> Attributes a = Attributes c"

lemma find_endpoint_loop_cong:
  assumes "list_all2 same_place eps eps'"
  shows "find_endpoint_loop (same_endpoint e) eps i = find_endpoint_loop (same_endpoint e) eps' i"
  using assms
  by (induction arbitrary: i rule: list_all2_induct)
    (auto simp: same_place_def same_endpoint_def ep_Number_def ep_Direction_def ep_Type_def)

lemma locate_loop_cong:
  assumes "list_all2 (list_all2 same_place) xs xs'"
  shows "locate_loop e xs i = locate_loop e xs' i"
  using assms
proof (induction arbitrary: i rule: list_all2_induct)
  case (Cons x xs x' xs')
  then show ?case using find_endpoint_loop_cong [of x x' e 0] by (simp split: option.splits)
qed simp

lemma list_all2_update:
  assumes "\<And>a. P a a" and "P (xs ! i) y"
  shows "list_all2 P xs (xs[i := y])"
  using assms by (cases "i < length xs") (auto simp: list_all2_conv_all_nth nth_list_update)

lemma flip_toggle_places: "list_all2 (list_all2 same_place) (Endpoints x) (Endpoints (flip_toggle i j x))"
proof -
  have refl: "same_place a a" for a by (simp add: same_place_def)
  have "list_all2 (list_all2 same_place) (Endpoints x) ((Endpoints x)[i := (Endpoints x ! i)[j := e]])"
    if "same_place (Endpoints x ! i ! j) e" for e
    by (intro list_all2_update list_all2_refl refl that)
  then show ?thesis by (simp add: flip_toggle_def same_place_def)
qed

lemma locate_flip_toggle: "locate_endpoint (flip_toggle i j x) e = locate_endpoint x e"
proof -
  have "list_all2 (list_all2 same_place) (take n (Endpoints x)) (take n (Endpoints (flip_toggle i j x)))" for n
    using flip_toggle_places by (rule list_all2_takeI)
  from locate_loop_cong [OF this] show ?thesis
    by (simp add: locate_endpoint_def flip_toggle_def)
qed

lemma find_endpoint_loop_range:
  "find_endpoint_loop P eps i = Some j \<Longrightarrow> i \<le> j \<and> j < i + length eps \<and> P (eps ! (j - i))"
  by (induction P eps i rule: find_endpoint_loop.induct) (auto split: if_splits simp: nth_Cons')

lemma locate_loop_range:
  "locate_loop e xs i = Some (k, j) \<Longrightarrow> i \<le> k \<and> k < i + length xs \<and> j < length (xs ! (k - i)) \<and> same_endpoint e (xs ! (k - i) ! j)"
  by (induction e xs i rule: locate_loop.induct)
    (auto split: option.splits simp: nth_Cons' dest: find_endpoint_loop_range)

lemma locate_endpoint_range:
  assumes "locate_endpoint x e = Inr (Some (i, j))"
  shows "i < length (Endpoints x) \<and> j < length (Endpoints x ! i) \<and> same_endpoint e (Endpoints x ! i ! j)"
  using assms locate_loop_range [of e "take (unat (MaxInterface x)) (Endpoints x)" 0 i j]
  by (auto simp: locate_endpoint_def split: option.splits if_splits)

lemma toggled_flip:
  assumes "i < length (Endpoints x)" and "j < length (Endpoints x ! i)"
  shows "toggled (Endpoints (flip_toggle i j x) ! i ! j) = (\<not> toggled (Endpoints x ! i ! j))"
  using assms by (simp add: flip_toggle_def toggled_def xor_128)

fun event_pid :: "bus_event \<Rightarrow> PacketId" where
  "event_pid (XferOut p ty bs pid n) = pid"
| "event_pid (XferIn p ty k pid n bs) = pid"
| "event_pid (Waited us) = USB_PID_SETUP"

lemma endpoint_transfer_toggle:
  assumes "locate_endpoint (device s d) e = Inr (Some (i, j))" and "ep_Type e = USB_TRANSFER_TYPE_INTERRUPT"
    and "d < length (DeviceTable s)"
  shows "\<exists>r buf' s' ev. HCDEndpointTransfer b d e buf s = Inr ((r, buf'), s') \<and> Trace s' = ev # Trace s \<and>
    event_pid ev = toggle_pid (Endpoints (device s d) ! i ! j) \<and>
    device s' d = (if r = Ok then flip_toggle i j (device s d) else device s d) \<and>
    length (DeviceTable s') = length (DeviceTable s)"
  using assms
  by (cases "ep_Direction e")
    (auto simp: HCDEndpointTransfer_def choose_pid_def update_toggle_def transfer_defs Let_def device_def update_device_def
      split: prod.splits)

text \<open>One transfer after another on an endpoint, and the packets that the toggle calls for.\<close>

fun endpoint_session :: "usb_bus \<Rightarrow> nat \<Rightarrow> endpoint_descriptor \<Rightarrow> u8 list list \<Rightarrow> usb \<Rightarrow> (RESULT list \<times> usb) res" where
  "endpoint_session b d e [] s = Inr ([], s)"
| "endpoint_session b d e (buf # bufs) s =
     rbind (HCDEndpointTransfer b d e buf s) (\<lambda>((r, _), s1).
     rbind (endpoint_session b d e bufs s1) (\<lambda>(rs, s2). Inr (r # rs, s2)))"

fun alternating :: "bool \<Rightarrow> RESULT list \<Rightarrow> PacketId list" where
  "alternating c [] = []"
| "alternating c (r # rs) = (if c then USB_PID_DATA1 else USB_PID_DATA0) # alternating (if r = Ok then \<not> c else c) rs"

lemma endpoint_session_alternates:
  assumes "locate_endpoint (device s d) e = Inr (Some (i, j))" and "ep_Type e = USB_TRANSFER_TYPE_INTERRUPT"
    and "d < length (DeviceTable s)"
  shows "\<exists>rs s' evs. endpoint_session b d e bufs s = Inr (rs, s') \<and> Trace s' = rev evs @ Trace s \<and>
    length rs = length bufs \<and> map event_pid evs = alternating (toggled (Endpoints (device s d) ! i ! j)) rs"
  using assms
proof (induction bufs arbitrary: s)
  case (Cons buf bufs)
  obtain r buf' s1 ev where one: "HCDEndpointTransfer b d e buf s = Inr ((r, buf'), s1)" "Trace s1 = ev # Trace s"
      "event_pid ev = toggle_pid (Endpoints (device s d) ! i ! j)"
      "device s1 d = (if r = Ok then flip_toggle i j (device s d) else device s d)"
      "length (DeviceTable s1) = length (DeviceTable s)"
    using endpoint_transfer_toggle [OF Cons.prems, of b buf] by metis
  have loc: "locate_endpoint (device s1 d) e = Inr (Some (i, j))" using Cons.prems(1) one(4) by (simp add: locate_flip_toggle)
  obtain rs s' evs where rest: "endpoint_session b d e bufs s1 = Inr (rs, s')" "Trace s' = rev evs @ Trace s1"
      "length rs = length bufs" "map event_pid evs = alternating (toggled (Endpoints (device s1 d) ! i ! j)) rs"
    using Cons.IH [OF loc Cons.prems(2)] Cons.prems(3) one(5) by auto
  have "toggled (Endpoints (device s1 d) ! i ! j) = (if r = Ok then \<not> toggled (Endpoints (device s d) ! i ! j)
      else toggled (Endpoints (device s d) ! i ! j))"
    using locate_endpoint_range [OF Cons.prems(1)] one(4) by (simp add: toggled_flip)
  with one rest show ?case
    by (intro exI [of _ "r # rs"] exI [of _ s'] exI [of _ "ev # evs"]) (simp add: toggle_pid_toggled)
qed simp

section \<open>Properties\<close>

text \<open>A bus on which every transfer is complete and reads deliver the bytes of \<open>answer\<close>.\<close>

definition willing_bus :: "(trace \<Rightarrow> u8 list) \<Rightarrow> usb_bus" where
  "willing_bus answer =
     \<lparr>on_out = (\<lambda>t pipe ty bytes pid. of_nat (length bytes)), on_in = (\<lambda>t pipe ty len pid. (of_nat len, answer t)),
      junk_result = (\<lambda>t. 0), junk_transfer = (\<lambda>t. 0), junk_byte = (\<lambda>t i. 0)\<rparr>"



text \<open>
  C32: resetting a port ends after at most 30 reads of the port's status, and it reports success only after the hub
  answered that the port is connected, enabled and was not reconnected, and after the change was
  acknowledged to the hub.
\<close>

theorem port_reset_is_bounded_and_proved:
  assumes "HubPortReset b d port s = (r, s')"
  shows "waits (Trace s') \<le> waits (Trace s) + 30 \<and>
    (r = Ok \<longrightarrow> reset_proved b (pipe_of s d) (of_nat (port + 1)) (Trace s'))"
proof (cases "IsHub_device (device s d)")
  case True
  then have "reset_retry b (pipe_of s d) (of_nat (port + 1)) [0..<3] (junk b (Trace s) 0 4) (Trace s) = (r, Trace s')"
    using assms by (auto simp: HubPortReset_def on_bus_def Let_def split: prod.splits)
  from reset_retry_proved [OF this] show ?thesis by simp
qed (use assms in \<open>simp add: HubPortReset_def\<close>)

definition reset_example :: usb where
  "reset_example = update_device 0 (\<lambda>x. x\<lparr>PayLoadId := HubPayload, PayLoad := Some 0\<rparr>) usb_zero"

theorem port_reset_is_bounded_and_proved_witness:
  "\<exists>s'. HubPortReset (willing_bus (\<lambda>t. [3, 0, 16, 0])) 0 2 reset_example = (Ok, s') \<and>
     waits (Trace s') \<le> waits (Trace reset_example) + 30 \<and>
     (Ok = Ok \<longrightarrow> reset_proved (willing_bus (\<lambda>t. [3, 0, 16, 0])) (pipe_of reset_example 0) (of_nat (2 + 1)) (Trace s'))"
proof -
  let ?b = "willing_bus (\<lambda>t. [3, 0, 16, 0])"
  have "IsHub_device (device reset_example 0)" and "pipe_of reset_example 0 = pipe_zero" and "Trace reset_example = []"
    and "junk ?b [] 0 4 = [0, 0, 0, 0]"
    and "fst (reset_retry ?b pipe_zero 3 [0..<3] [0, 0, 0, 0] []) = Ok" by code_simp+
  then have "fst (HubPortReset ?b 0 2 reset_example) = Ok"
    by (simp add: HubPortReset_def on_bus_def case_prod_beta del: upt_Suc upt_conv_Cons upt_rec_numeral)
  then obtain s' where "HubPortReset (willing_bus (\<lambda>t. [3, 0, 16, 0])) 0 2 reset_example = (Ok, s')" by (metis prod.collapse)
  with port_reset_is_bounded_and_proved [OF this] show ?thesis by blast
qed


definition toggle_example :: usb where
  "toggle_example = update_device 3 (\<lambda>x. x\<lparr>MaxInterface := 1,
     Endpoints := (Endpoints x)[0 := (Endpoints x ! 0)[0 := endpoint_of [7, 5, 0x81, 3, 8, 0, 10]]]\<rparr>) usb_zero"


end
