(* ===== verification/Usb_Typing.thy ===== *)
theory Usb_Typing
  imports Usb_Transfers
begin

text \<open>
  The shape of the USB driver's tables, which every operation of the driver keeps: the arrays have the sizes
  of the code, the counters stay within them, a payload points into the table that its kind says, and
  an allocated device carries the number of its slot. What a driver run does to the tables is an
  inductive relation on its states.
\<close>

section \<open>Outcomes that are returned\<close>

definition ensures :: "'a res \<Rightarrow> ('a \<Rightarrow> bool) \<Rightarrow> bool" where
  "ensures m P \<longleftrightarrow> (\<forall>x. m = Inr x \<longrightarrow> P x)"

named_theorems ensure

lemma ensures_Inr [simp]: "ensures (Inr x) P \<longleftrightarrow> P x"
  by (simp add: ensures_def)

lemma ensures_Inl [simp]: "ensures (Inl e) P"
  by (simp add: ensures_def)

lemma ensures_rbind: "ensures m Q \<Longrightarrow> (\<And>x. Q x \<Longrightarrow> ensures (f x) P) \<Longrightarrow> ensures (rbind m f) P"
  by (cases m) (simp_all add: ensures_def)

lemma ensures_if: "(c \<Longrightarrow> ensures m P) \<Longrightarrow> (\<not> c \<Longrightarrow> ensures n P) \<Longrightarrow> ensures (if c then m else n) P"
  by simp

lemma ensures_option: "(p = None \<Longrightarrow> ensures m P) \<Longrightarrow> (\<And>x. p = Some x \<Longrightarrow> ensures (f x) P) \<Longrightarrow>
    ensures (case p of None \<Rightarrow> m | Some x \<Rightarrow> f x) P"
  by (cases p) simp_all

lemma ensures_weaken: "ensures m Q \<Longrightarrow> (\<And>x. Q x \<Longrightarrow> P x) \<Longrightarrow> ensures m P"
  by (simp add: ensures_def)

lemma ensuresD: "ensures m P \<Longrightarrow> m = Inr x \<Longrightarrow> P x"
  by (simp add: ensures_def)

section \<open>The shape of the tables\<close>

fun typed_payload :: "PayLoadType \<Rightarrow> nat option \<Rightarrow> bool" where
  "typed_payload ErrorPayload p = (p = None)"
| "typed_payload NoPayload p = (p = None)"
| "typed_payload HubPayload p = (\<exists>h<MaximumHubs. p = Some h)"
| "typed_payload HidPayload p = (\<exists>h<MaximumHids. p = Some h)"
| "typed_payload MassStoragePayload p = False"

definition typed_device :: "usb_device \<Rightarrow> bool" where
  "typed_device x \<longleftrightarrow>
     length (Interfaces x) = MaxInterfacesPerDevice \<and> unat (MaxInterface x) \<le> MaxInterfacesPerDevice \<and>
     length (Endpoints x) = MaxInterfacesPerDevice \<and> (\<forall>eps\<in>set (Endpoints x). length eps = MaxEndpointsPerDevice) \<and>
     typed_payload (PayLoadId x) (PayLoad x)"

definition typed_hub :: "hub_device \<Rightarrow> bool" where
  "typed_hub y \<longleftrightarrow>
     length (Children y) = MaxChildrenPerDevice \<and> MaxChildren y \<le> MaxChildrenPerDevice \<and>
     (\<forall>c. Some c \<in> set (Children y) \<longrightarrow> c < MaximumDevices)"

definition typed_hid :: "hid_device \<Rightarrow> bool" where
  "typed_hid z \<longleftrightarrow> length (HidDescr z) = MaxHIDPerDevice \<and> length (HIDInterface z) = MaxHIDPerDevice \<and> unat (MaxHID z) \<le> MaxHIDPerDevice"

definition own_number :: "usb \<Rightarrow> nat \<Rightarrow> bool" where
  "own_number s d \<longleftrightarrow> (PayLoadId (device s d) \<noteq> ErrorPayload \<longrightarrow> pipe_Number (Pipe0 (device s d)) = of_nat (d + 1))"

text \<open>\<open>X\<close> has the devices that are under way to their address, which answer at number 0.\<close>

definition well_formed :: "nat set \<Rightarrow> usb \<Rightarrow> bool" where
  "well_formed X s \<longleftrightarrow>
     length (DeviceTable s) = MaximumDevices \<and> length (HubTable s) = MaximumHubs \<and> length (HidTable s) = MaximumHids \<and>
     (\<forall>x\<in>set (DeviceTable s). typed_device x) \<and> (\<forall>y\<in>set (HubTable s). typed_hub y) \<and> (\<forall>z\<in>set (HidTable s). typed_hid z) \<and>
     (\<forall>d<MaximumDevices. d \<notin> X \<longrightarrow> own_number s d)"

lemmas table_sizes = MaximumDevices_def MaximumHubs_def MaximumHids_def MaxChildrenPerDevice_def MaxInterfacesPerDevice_def
  MaxEndpointsPerDevice_def MaxHIDPerDevice_def

lemma well_formed_trace [simp]: "well_formed X (s\<lparr>Trace := t\<rparr>) = well_formed X s"
  by (simp add: well_formed_def own_number_def device_def)

lemma well_formed_mono: "well_formed X s \<Longrightarrow> X \<subseteq> Y \<Longrightarrow> well_formed Y s"
  unfolding well_formed_def by blast

lemma typed_device_at: "well_formed X s \<Longrightarrow> d < MaximumDevices \<Longrightarrow> typed_device (device s d)"
  by (simp add: well_formed_def device_def)

lemma typed_hub_at: "well_formed X s \<Longrightarrow> h < MaximumHubs \<Longrightarrow> typed_hub (HubTable s ! h)"
  by (simp add: well_formed_def)

lemma typed_hid_at: "well_formed X s \<Longrightarrow> h < MaximumHids \<Longrightarrow> typed_hid (HidTable s ! h)"
  by (simp add: well_formed_def)

lemma hub_payload:
  assumes "well_formed X s" and "d < MaximumDevices" and "PayLoadId (device s d) = HubPayload" and "PayLoad (device s d) = Some h"
  shows "h < MaximumHubs"
  using typed_device_at [OF assms(1,2)] assms(3,4) by (auto simp: typed_device_def)

lemma hid_payload:
  assumes "well_formed X s" and "d < MaximumDevices" and "PayLoadId (device s d) = HidPayload" and "PayLoad (device s d) = Some h"
  shows "h < MaximumHids"
  using typed_device_at [OF assms(1,2)] assms(3,4) by (auto simp: typed_device_def)

lemma payload_kind:
  assumes "well_formed X s" and "d < MaximumDevices" and "PayLoad (device s d) = Some h"
  shows "PayLoadId (device s d) = HubPayload \<or> PayLoadId (device s d) = HidPayload"
  using typed_device_at [OF assms(1,2)] assms(3) by (cases "PayLoadId (device s d)") (auto simp: typed_device_def)

section \<open>Updates\<close>

lemma device_update: "device (update_device d f s) d' = (if d' = d \<and> d < length (DeviceTable s) then f (device s d) else device s d')"
  by (cases "d < length (DeviceTable s)") (auto simp: device_def update_device_def nth_list_update list_update_beyond)

lemma update_device_twice: "update_device d f (update_device d g s) = update_device d (\<lambda>x. f (g x)) s"
  by (cases "d < length (DeviceTable s)") (simp_all add: update_device_def list_update_beyond)

lemma update_device_beyond: "\<not> d < length (DeviceTable s) \<Longrightarrow> update_device d f s = s"
  by (simp add: update_device_def list_update_beyond)

lemma update_hub_beyond: "\<not> h < length (HubTable s) \<Longrightarrow> update_hub h g s = s"
  by (simp add: update_hub_def list_update_beyond)

lemma update_hid_beyond: "\<not> h < length (HidTable s) \<Longrightarrow> update_hid h g' s = s"
  by (simp add: update_hid_def list_update_beyond)

lemma device_other [simp]: "device (update_hub h g s) d = device s d" "device (update_hid h g' s) d = device s d"
  "device (s\<lparr>Trace := t\<rparr>) d = device s d"
  by (simp_all add: device_def update_hub_def update_hid_def)

lemma hub_table_other [simp]: "HubTable (update_device d f s) = HubTable s" "HubTable (update_hid h g' s) = HubTable s"
  by (simp_all add: update_device_def update_hid_def)

lemma hid_table_other [simp]: "HidTable (update_device d f s) = HidTable s" "HidTable (update_hub h g s) = HidTable s"
  by (simp_all add: update_device_def update_hub_def)

lemma well_formed_device:
  assumes "well_formed X s" and "d < MaximumDevices \<Longrightarrow> typed_device (device s d) \<Longrightarrow> typed_device (f (device s d))"
    and "d \<notin> Y \<Longrightarrow> d < MaximumDevices \<Longrightarrow> own_number s d \<or> d \<in> X \<Longrightarrow> PayLoadId (f (device s d)) \<noteq> ErrorPayload \<Longrightarrow>
      pipe_Number (Pipe0 (f (device s d))) = of_nat (d + 1)"
    and "X - {d} \<subseteq> Y"
  shows "well_formed Y (update_device d f s)"
proof (cases "d < MaximumDevices")
  case True
  have "set ((DeviceTable s)[d := f (device s d)]) \<subseteq> insert (f (device s d)) (set (DeviceTable s))" by (rule set_update_subset_insert)
  then have "\<forall>x\<in>set ((DeviceTable s)[d := f (device s d)]). typed_device x"
    using assms(1,2) True typed_device_at [OF assms(1) True] unfolding well_formed_def by blast
  moreover have "own_number (update_device d f s) d'" if "d' < MaximumDevices" "d' \<notin> Y" for d'
    using assms that True unfolding well_formed_def own_number_def
    by (cases "d' = d") (auto simp: device_update)
  ultimately show ?thesis using assms(1) unfolding well_formed_def by (simp add: update_device_def device_def)
next
  case False
  then have "update_device d f s = s" using assms(1) by (intro update_device_beyond) (simp add: well_formed_def)
  moreover have "well_formed Y s" using assms(1,4) False unfolding well_formed_def by blast
  ultimately show ?thesis by simp
qed

text \<open>An update that keeps the number and the kind of the payload.\<close>

lemma well_formed_device_keep:
  assumes "well_formed X s" and "d < MaximumDevices \<Longrightarrow> typed_device (device s d) \<Longrightarrow> typed_device (f (device s d))"
    and "pipe_Number (Pipe0 (f (device s d))) = pipe_Number (Pipe0 (device s d))"
    and "PayLoadId (f (device s d)) \<noteq> ErrorPayload \<Longrightarrow> PayLoadId (device s d) \<noteq> ErrorPayload"
  shows "well_formed X (update_device d f s)"
  using assms by (intro well_formed_device [OF assms(1)]) (auto simp: own_number_def well_formed_def)

lemma well_formed_hub:
  assumes "well_formed X s" and "h < MaximumHubs \<Longrightarrow> typed_hub (HubTable s ! h) \<Longrightarrow> typed_hub (f (HubTable s ! h))"
  shows "well_formed X (update_hub h f s)"
proof (cases "h < MaximumHubs")
  case True
  have "set ((HubTable s)[h := f (HubTable s ! h)]) \<subseteq> insert (f (HubTable s ! h)) (set (HubTable s))" by (rule set_update_subset_insert)
  then have "\<forall>y\<in>set ((HubTable s)[h := f (HubTable s ! h)]). typed_hub y"
    using assms(1,2) True typed_hub_at [OF assms(1) True] unfolding well_formed_def by blast
  then show ?thesis using assms(1) unfolding well_formed_def by (simp add: update_hub_def own_number_def device_def)
next
  case False
  then have "update_hub h f s = s" using assms(1) by (intro update_hub_beyond) (simp add: well_formed_def)
  with assms(1) show ?thesis by simp
qed

lemma well_formed_hid:
  assumes "well_formed X s" and "h < MaximumHids \<Longrightarrow> typed_hid (HidTable s ! h) \<Longrightarrow> typed_hid (f (HidTable s ! h))"
  shows "well_formed X (update_hid h f s)"
proof (cases "h < MaximumHids")
  case True
  have "set ((HidTable s)[h := f (HidTable s ! h)]) \<subseteq> insert (f (HidTable s ! h)) (set (HidTable s))" by (rule set_update_subset_insert)
  then have "\<forall>y\<in>set ((HidTable s)[h := f (HidTable s ! h)]). typed_hid y"
    using assms(1,2) True typed_hid_at [OF assms(1) True] unfolding well_formed_def by blast
  then show ?thesis using assms(1) unfolding well_formed_def by (simp add: update_hid_def own_number_def device_def)
next
  case False
  then have "update_hid h f s = s" using assms(1) by (intro update_hid_beyond) (simp add: well_formed_def)
  with assms(1) show ?thesis by simp
qed

lemma typed_zero [simp]: "typed_device device_zero" "typed_hub hub_zero" "typed_hid hid_zero"
  by (simp_all add: typed_device_def typed_hub_def typed_hid_def device_zero_def hub_zero_def hid_zero_def table_sizes)

lemma well_formed_zero: "well_formed {} usb_zero"
  by (simp add: well_formed_def usb_zero_def own_number_def device_def table_sizes)
    (simp add: device_zero_def)

lemma payload_zero [simp]: "PayLoadId device_zero = ErrorPayload" "PayLoad device_zero = None"
  by (simp_all add: device_zero_def)

section \<open>Payloads, allocation and deallocation\<close>

lemma upt_find: "find P [0..<n] = Some i \<Longrightarrow> i < n \<and> P i"
  by (auto simp: find_Some_iff)

lemma AllocateHidPayload_wf:
  assumes "AllocateHidPayload s = (p, s')" and "well_formed X s"
  shows "well_formed X s' \<and> DeviceTable s' = DeviceTable s \<and> HubTable s' = HubTable s \<and> (\<forall>h. p = Some h \<longrightarrow> h < MaximumHids)"
  using assms
  by (auto simp: AllocateHidPayload_def update_hid_def split: option.splits dest!: upt_find)
    (auto simp flip: update_hid_def intro!: well_formed_hid simp: typed_hid_def table_sizes)

lemma AddHidPayload_wf: "well_formed X s \<Longrightarrow> well_formed X (snd (AddHidPayload p s))"
proof (cases p)
  case (Some d)
  assume wf: "well_formed X s"
  obtain q s1 where a: "AllocateHidPayload s = (q, s1)" by fastforce
  note al = AllocateHidPayload_wf [OF a wf]
  show ?thesis
  proof (cases "PayLoadId (device s d) = NoPayload")
    case True
    then have "PayLoadId (device s1 d) = NoPayload" using al by (simp add: device_def)
    with True al show ?thesis
      unfolding AddHidPayload_def Some
      by (auto simp: a Let_def update_device_twice intro!: well_formed_device_keep) (auto simp: typed_device_def)
  qed (use wf in \<open>simp add: AddHidPayload_def Some\<close>)
qed (simp add: AddHidPayload_def)

lemma SetHidDescriptor_wf: "well_formed X s \<Longrightarrow> well_formed X (snd (SetHidDescriptor h i interface buf sz s))"
  unfolding SetHidDescriptor_def
  by (auto simp: Let_def intro!: well_formed_hid)
    (auto simp: typed_hid_def table_sizes word_le_nat_alt word_less_nat_alt unat_word_ariths)

lemma AddHubPayload_wf: "well_formed X s \<Longrightarrow> well_formed X (snd (AddHubPayload p s))"
  unfolding AddHubPayload_def
  by (auto split: option.split intro!: well_formed_hub well_formed_device_keep dest!: upt_find)
    (auto simp: typed_device_def typed_hub_def)

lemma AddHubPayload_owner:
  assumes "AddHubPayload (Some d) s = (Ok, s')" and "d < length (DeviceTable s)"
  shows "\<exists>h<MaximumHubs. PayLoad (device s' d) = Some h \<and> PayLoadId (device s' d) = HubPayload"
  using assms by (auto simp: AddHubPayload_def device_update split: if_splits option.splits dest!: upt_find)

lemma UsbAllocateDevice_wf:
  assumes "UsbAllocateDevice s = ((r, p), s')" and "well_formed X s"
  shows "well_formed X s' \<and> (r = Ok \<longleftrightarrow> p \<noteq> None) \<and> (\<forall>c. p = Some c \<longrightarrow> c < MaximumDevices)"
proof (cases "find (\<lambda>number. PayLoadId (device s number) = ErrorPayload) [0..<MaximumDevices]")
  case (Some c)
  then have "c < MaximumDevices" using upt_find [OF Some] by blast
  moreover have "r = Ok" "p = Some c" and s': "s' = update_device c (\<lambda>x. x
      \<lparr>Pipe0 := (Pipe0 x)\<lparr>pipe_Number := of_nat (c + 1)\<rparr>, Status := USB_STATUS_ATTACHED,
       ParentPort := 0, ParentNumber := 0xFF, PayLoadId := NoPayload, PayLoad := None\<rparr>) s"
    using assms(1) unfolding UsbAllocateDevice_def Some by auto
  moreover have "well_formed X s'"
    unfolding s' by (rule well_formed_device [OF assms(2)]) (auto simp: typed_device_def)
  ultimately show ?thesis by simp
qed (use assms in \<open>auto simp: UsbAllocateDevice_def\<close>)

lemma child_typed: "typed_hub y \<Longrightarrow> port < MaxChildrenPerDevice \<Longrightarrow> Children y ! port = Some c \<Longrightarrow> c < MaximumDevices"
  unfolding typed_hub_def by (metis nth_mem)

lemma typed_hub_child: "typed_hub y \<Longrightarrow> (\<And>c. p = Some c \<Longrightarrow> c < MaximumDevices) \<Longrightarrow> typed_hub (y\<lparr>Children := (Children y)[port := p]\<rparr>)"
  unfolding typed_hub_def using set_update_subset_insert [of "Children y" port p] by auto

lemma payload_range:
  assumes "well_formed X s" and "d < MaximumDevices" and "PayLoad (device s d) = Some h"
  shows "h < MaximumHubs"
  using payload_kind [OF assms] hub_payload [OF assms(1,2) _ assms(3)] hid_payload [OF assms(1,2) _ assms(3)]
  by (auto simp: table_sizes)

lemma free_children_wf:
  assumes "\<And>c s. c < MaximumDevices \<Longrightarrow> well_formed X s \<Longrightarrow> ensures (free c s) (well_formed X)"
    and "well_formed X s" and "d < MaximumDevices"
  shows "ensures (free_children free d ports s) (well_formed X)"
  using assms(2)
proof (induction ports arbitrary: s)
  case (Cons i ports)
  show ?case
  proof (cases "PayLoad (device s d)")
    case (Some h)
    have h: "h < MaximumHubs" by (rule payload_range [OF Cons.prems assms(3) Some])
    have c: "c < MaximumDevices" if "i < MaxChildren (HubTable s ! h)" "Children (HubTable s ! h) ! i = Some c" for c
      using typed_hub_at [OF Cons.prems h] child_typed that by (metis (no_types, lifting) order_less_le_trans typed_hub_def)
    show ?thesis
      using Cons.prems by (auto simp: Some split: option.split intro!: ensures_rbind [OF assms(1)] c Cons.IH)
  qed simp
qed simp

lemma RemoveHubPayload_wf:
  assumes "\<And>c s. c < MaximumDevices \<Longrightarrow> well_formed X s \<Longrightarrow> ensures (free c s) (well_formed X)"
    and "well_formed X s" and "d < MaximumDevices"
  shows "ensures (RemoveHubPayload free (Some d) s) (well_formed X)"
proof -
  have "ensures (case PayLoad (device t d) of None \<Rightarrow> Inl (Undefined ''HubPayload'')
      | Some h \<Rightarrow> Inr (update_device d (\<lambda>x. x\<lparr>PayLoad := None, PayLoadId := NoPayload\<rparr>) (update_hub h (\<lambda>_. hub_zero) t))) (well_formed X)"
    if "well_formed X t" for t
  proof (cases "PayLoad (device t d)")
    case (Some h)
    have "PayLoadId (device t d) \<noteq> ErrorPayload" using payload_kind [OF that assms(3) Some] by auto
    then show ?thesis
      using Some that by (auto intro!: well_formed_device_keep well_formed_hub) (auto simp: typed_device_def)
  qed simp
  with assms show ?thesis
    unfolding RemoveHubPayload_def by (auto intro!: ensures_rbind free_children_wf)
qed

lemma unlink_parent_wf: "well_formed X s \<Longrightarrow> ensures (unlink_parent d s) (well_formed X)"
  unfolding unlink_parent_def
  by (auto simp: Let_def split: option.split intro!: well_formed_hub typed_hub_child)

lemma deallocate_wf:
  "\<lbrakk>well_formed X s; d < MaximumDevices\<rbrakk> \<Longrightarrow> ensures (UsbDeallocateDevice n d s) (well_formed (X - {d}))"
proof (induction n arbitrary: d s)
  case (Suc n)
  have free: "ensures (UsbDeallocateDevice n c t) (well_formed X)" if "c < MaximumDevices" "well_formed X t" for c t
    using Suc.IH [OF that(2,1)] by (rule ensures_weaken) (erule well_formed_mono, blast)
  show ?case
    unfolding UsbDeallocateDevice.simps
    by (rule ensures_rbind [of _ "well_formed X"])
      (use Suc.prems in \<open>auto intro!: ensures_rbind [OF free_children_wf] RemoveHubPayload_wf free ensures_rbind [OF unlink_parent_wf]
        well_formed_device [of X]\<close>)
qed simp

lemma typed_hub_at_child:
  assumes "well_formed X s" and "h < MaximumHubs" and "port < MaxChildrenPerDevice" and "child_at s h port = Some c"
  shows "c < MaximumDevices"
  using child_typed [OF typed_hub_at [OF assms(1,2)] assms(3)] assms(4) by (simp add: child_at_def)

section \<open>The configuration descriptor\<close>

lemma typed_interface:
  assumes "typed_device x" and "unat (MaxInterface x) < MaxInterfacesPerDevice"
  shows "typed_device (x\<lparr>Interfaces := (Interfaces x)[i := e], MaxInterface := MaxInterface x + 1\<rparr>)"
proof -
  have "unat (MaxInterface x + 1) \<le> Suc (unat (MaxInterface x))" by (simp add: unat_word_ariths)
  with assms show ?thesis by (auto simp: typed_device_def)
qed

lemma typed_endpoint:
  assumes "typed_device x"
  shows "typed_device (x\<lparr>Endpoints := (Endpoints x)[i := (Endpoints x ! i)[j := e]]\<rparr>)"
proof (cases "i < length (Endpoints x)")
  case True
  then have "length eps = MaxEndpointsPerDevice" if "eps \<in> set ((Endpoints x)[i := (Endpoints x ! i)[j := e]])" for eps
    using assms that set_update_subset_insert [of "Endpoints x" i "(Endpoints x ! i)[j := e]"]
    by (auto simp: typed_device_def)
  with assms show ?thesis by (simp add: typed_device_def)
qed (use assms in \<open>simp add: list_update_beyond\<close>)

lemma add_interface_wf: "well_formed X s \<Longrightarrow> ensures (add_interface d cfg i s) (well_formed X)"
  unfolding add_interface_def by (auto simp: Let_def intro!: well_formed_device_keep typed_interface)

lemma add_endpoint_wf: "well_formed X s \<Longrightarrow> ensures (add_endpoint d cfg i n s) (well_formed X)"
  unfolding add_endpoint_def by (auto simp: Let_def intro!: well_formed_device_keep typed_endpoint)

lemma add_hid_wf:
  assumes "well_formed X s"
  shows "ensures (add_hid d cfg i n s) (\<lambda>(_, s'). well_formed X s')"
proof -
  obtain r s1 where a: "(if n = 0 then AddHidPayload (Some d) s else (Ok, s)) = (r, s1)" by fastforce
  then have wf: "well_formed X s1" using AddHidPayload_wf [OF assms, of "Some d"] assms by (auto split: if_splits)
  have "well_formed X s2" if "SetHidDescriptor h n interface buf sz s1 = (added, s2)" for h interface buf sz added s2
    using SetHidDescriptor_wf [OF wf, of h n interface buf sz] that by simp
  with wf show ?thesis unfolding add_hid_def a by (auto simp: Let_def split: option.split prod.split)
qed

lemma parse_config_wf: "well_formed X s \<Longrightarrow> ensures (parse_config n d cfg end i e k s) (\<lambda>(_, s'). well_formed X s')"
proof (induction n arbitrary: i e k s)
  case (Suc n)
  show ?case
    unfolding parse_config.simps Let_def
    using Suc.prems
    by (intro ensures_if ensures_rbind [OF add_interface_wf] ensures_rbind [OF add_endpoint_wf] ensures_rbind [OF add_hid_wf] Suc.IH)
      (auto intro!: Suc.IH)
qed simp

section \<open>Ports\<close>

definition same_tables :: "usb \<Rightarrow> usb \<Rightarrow> bool" where
  "same_tables s s' \<longleftrightarrow> (\<exists>t. s' = s\<lparr>Trace := t\<rparr>)"

lemma on_bus_tables: "on_bus f s = (x, s') \<Longrightarrow> same_tables s s'"
  by (auto simp: on_bus_def same_tables_def Let_def split: prod.splits)

lemma on_bus_snd [simp]: "same_tables s (snd (on_bus f s))"
  by (rule on_bus_tables [of _ _ "fst (on_bus f s)"]) simp

lemma tables_wf: "same_tables s s' \<Longrightarrow> well_formed X s \<Longrightarrow> well_formed X s'"
  by (auto simp: same_tables_def)

lemma tables_eq: "same_tables s s' \<Longrightarrow> DeviceTable s' = DeviceTable s \<and> HubTable s' = HubTable s \<and> HidTable s' = HidTable s"
  by (auto simp: same_tables_def)

lemma tables_device: "same_tables s s' \<Longrightarrow> device s' d = device s d"
  by (simp add: tables_eq device_def)

lemma tables_refl [simp]: "same_tables s s"
  by (auto simp: same_tables_def intro: exI [of _ "Trace s"])

lemma waited_wf [simp]: "well_formed X (waited us s) = well_formed X s"
  by (simp add: waited_def)

lemma HubPortReset_tables: "HubPortReset b d port s = (r, s') \<Longrightarrow> same_tables s s'"
  by (auto simp: HubPortReset_def split: if_splits dest: on_bus_tables)

lemma on_bus_wf: "well_formed X s \<Longrightarrow> well_formed X (snd (on_bus f s))"
  using tables_wf on_bus_snd by blast

lemma set_child_wf:
  assumes "well_formed X s" and "\<And>c. p = Some c \<Longrightarrow> c < MaximumDevices"
  shows "well_formed X (set_child h port p s)"
  unfolding set_child_def using assms by (auto intro!: well_formed_hub typed_hub_child)

lemma drop_child_wf:
  assumes "well_formed X s" and "h < MaximumHubs" and "port < MaxChildrenPerDevice"
    and "\<And>c. child_at s h port = Some c \<Longrightarrow> X \<subseteq> {c}"
  shows "ensures (drop_child h port s) (well_formed {})"
proof (cases "child_at s h port")
  case (Some c)
  have "well_formed (X - {c}) = well_formed {}" using assms(4) [OF Some] by (intro arg_cong [of _ _ well_formed]) blast
  moreover have "c < MaximumDevices" by (rule typed_hub_at_child [OF assms(1-3) Some])
  ultimately have "ensures (UsbDeallocateDevice enum_depth c s) (well_formed {})" using deallocate_wf [OF assms(1)] by metis
  then show ?thesis unfolding drop_child_def Some by (auto elim!: ensures_rbind intro!: set_child_wf)
qed (simp add: drop_child_def)

lemma hub_index:
  assumes "well_formed X s" and "d < MaximumDevices" and "IsHub_device (device s d)"
  shows "the (PayLoad (device s d)) < MaximumHubs"
  using hub_payload [OF assms(1,2)] assms(3) by (auto simp: IsHub_device_def)

text \<open>What the enumeration of a device promises its hub: if it leaves the device without its number, it has
  failed and has not touched the hubs.\<close>

definition enum_result :: "nat \<Rightarrow> usb \<Rightarrow> RESULT \<times> usb \<Rightarrow> bool" where
  "enum_result d s = (\<lambda>(r, s'). well_formed {} s' \<or> r \<noteq> Ok \<and> well_formed {d} s' \<and> HubTable s' = HubTable s)"

definition enum_typed :: "enumerate \<Rightarrow> bool" where
  "enum_typed enum \<longleftrightarrow>
     (\<forall>d p port s. well_formed {} s \<longrightarrow> d < MaximumDevices \<longrightarrow> ensures (enum d p port s) (enum_result d s))"

abbreviation keeps :: "RESULT \<times> usb \<Rightarrow> bool" where
  "keeps \<equiv> \<lambda>(r, s'). well_formed {} s'"

lemma attach_device_wf:
  assumes "enum_typed enum" and "well_formed {} s" and "h < MaximumHubs" and "port < MaxChildrenPerDevice"
  shows "ensures (attach_device enum b d h port raw s) keeps"
proof -
  obtain r1 s1 where a: "HubPortReset b d port s = (r1, s1)" by fastforce
  obtain r2 p s2 where u: "UsbAllocateDevice s1 = ((r2, p), s2)" by (metis prod.collapse)
  have wf1: "well_formed {} s1" using tables_wf [OF HubPortReset_tables [OF a]] assms(2) by blast
  note al = UsbAllocateDevice_wf [OF u wf1]
  show ?thesis
  proof (cases p)
    case None
    then show ?thesis using wf1 al by (simp add: attach_device_def a u Let_def)
  next
    case (Some c)
    define s3 where "s3 = set_child h port (Some c) s2"
    obtain r4 raw4 s4 where st: "on_bus (HCDReadHubPortStatus b (pipe_of s3 d) (of_nat (port + 1)) raw) s3 = ((r4, raw4), s4)"
      by (metis prod.collapse)
    have c: "c < MaximumDevices" and wf3: "well_formed {} s3" using al Some unfolding s3_def by (auto intro!: set_child_wf)
    have wf4: "well_formed {} s4" using tables_wf [OF on_bus_tables [OF st] wf3] .
    define s5 where "s5 = update_device c (\<lambda>x. x\<lparr>Pipe0 := attach_speed (port_status_of raw4) (pipe_Number (pipe_of s4 d)) port (Pipe0 x),
      ParentNumber := pipe_Number (pipe_of s4 d), ParentPort := of_nat port\<rparr>) s4"
    have wf5: "well_formed {} s5" unfolding s5_def using wf4
      by (intro well_formed_device_keep) (auto simp: typed_device_def attach_speed_def)
    have "HubTable s5 = HubTable s3" unfolding s5_def using tables_eq [OF on_bus_tables [OF st]] by simp
    moreover have "length (HubTable s2) = MaximumHubs" "typed_hub (HubTable s2 ! h)"
      using al typed_hub_at assms(3) by (auto simp: well_formed_def)
    ultimately have at: "child_at s5 h port = Some c"
      using assms(3,4) by (simp add: child_at_def s3_def set_child_def update_hub_def typed_hub_def)
    have en: "ensures (enum c (Some d) port s5) (enum_result c s5)" using assms(1) wf5 c by (simp add: enum_typed_def)
    have drop: "ensures (drop_child h port s6) (well_formed {})" if "enum_result c s5 (r, s6)" for r s6
    proof (cases "well_formed {} s6")
      case True
      then show ?thesis by (rule drop_child_wf [OF _ assms(3,4)]) simp
    next
      case False
      with that have six: "well_formed {c} s6" "HubTable s6 = HubTable s5" by (simp_all add: enum_result_def)
      with at have "child_at s6 h port = Some c" by (simp add: child_at_def)
      then show ?thesis by (intro drop_child_wf [OF six(1) assms(3,4)]) simp
    qed
    have rest: "ensures (rbind (enum c (Some d) port s5) (\<lambda>(result, s6).
        if result \<noteq> Ok then
          rbind (drop_child h port s6) (\<lambda>s7.
            Inr (result, snd (on_bus (HCDChangeHubPortFeature b (pipe_of s7 d) FeatureEnable (of_nat (port + 1)) False) s7)))
        else Inr (Ok, s6))) keeps"
      by (rule ensures_rbind [OF en])
        (auto intro!: ensures_rbind [OF drop] on_bus_wf simp: enum_result_def)
    show ?thesis
      by (simp only: attach_device_def a u [unfolded Some] Let_def prod.case option.case st [unfolded s3_def])
        (intro ensures_if rest [unfolded s5_def], simp_all add: wf1 wf4)
  qed
qed

lemma HubPortConnectionChanged_wf:
  assumes "enum_typed enum" and "well_formed {} s" and "d < MaximumDevices" and "port < MaxChildrenPerDevice"
  shows "ensures (HubPortConnectionChanged enum b d port s) keeps"
proof (cases "IsHub_device (device s d)")
  case True
  define h where "h = the (PayLoad (device s d))"
  obtain r raw s1 where st: "on_bus (HCDReadHubPortStatus b (pipe_of s d) (of_nat (port + 1)) (junk b (Trace s) 0 4)) s = ((r, raw), s1)"
    by (metis prod.collapse)
  have h: "h < MaximumHubs" unfolding h_def by (rule hub_index [OF assms(2,3) True])
  have wf1: "well_formed {} s1" using tables_wf [OF on_bus_tables [OF st] assms(2)] .
  define s2 where "s2 = snd (on_bus (HCDChangeHubPortFeature b (pipe_of s1 d) FeatureConnectionChange (of_nat (port + 1)) False) s1)"
  have wf2: "well_formed {} s2" unfolding s2_def by (rule on_bus_wf [OF wf1])
  note attach = attach_device_wf [OF assms(1) _ h assms(4)]
  show ?thesis
    unfolding HubPortConnectionChanged_def
    by (simp only: Let_def st prod.case flip: h_def s2_def)
      (use True wf1 wf2 in \<open>auto intro!: ensures_if attach ensures_rbind [OF drop_child_wf [OF wf2 h assms(4)]]\<close>)
qed (use assms in \<open>simp add: HubPortConnectionChanged_def\<close>)

lemma clear_feature_wf: "well_formed X s \<Longrightarrow> well_formed X (clear_feature b d port feature s)"
  unfolding clear_feature_def by (rule on_bus_wf)

lemma HubCheckConnection_wf:
  assumes "enum_typed enum" and "well_formed {} s" and "d < MaximumDevices" and "port < MaxChildrenPerDevice"
  shows "ensures (HubCheckConnection enum b d port s) keeps"
proof (cases "IsHub_device (device s d)")
  case True
  obtain r raw s1 where st: "on_bus (HCDReadHubPortStatus b (pipe_of s d) (of_nat (port + 1)) (junk b (Trace s) 0 4)) s = ((r, raw), s1)"
    by (metis prod.collapse)
  have wf1: "well_formed {} s1" using tables_wf [OF on_bus_tables [OF st] assms(2)] .
  note changed = HubPortConnectionChanged_wf [OF assms(1) _ assms(3,4)]
  show ?thesis
    unfolding HubCheckConnection_def
    using True wf1
    by (simp only: Let_def st prod.case if_True not_True_eq_False if_False)
      (auto intro!: ensures_if ensures_rbind [of _ keeps] changed clear_feature_wf)
qed (use assms in \<open>simp add: HubCheckConnection_def\<close>)

lemma power_ports_tables: "same_tables s (power_ports b d ports s)"
proof (induction ports arbitrary: s)
  case (Cons i ports)
  have "same_tables s s'" if "same_tables s s1" "same_tables s1 s'" for s1 s' using that by (auto simp: same_tables_def)
  from this [OF on_bus_snd Cons.IH] show ?case by simp
qed simp

lemma check_ports_wf:
  assumes "enum_typed enum" and "well_formed {} s" and "d < MaximumDevices" and "set ports \<subseteq> {..<MaxChildrenPerDevice}"
  shows "ensures (check_ports enum b d h ports s) (well_formed {})"
  using assms(2,4)
proof (induction ports arbitrary: s)
  case (Cons port ports)
  then show ?case
    by (auto intro!: ensures_if ensures_rbind [OF HubCheckConnection_wf [OF assms(1) _ assms(3)]] Cons.IH)
qed simp

lemma EnumerateHub_wf:
  assumes "enum_typed enum" and "well_formed {} s" and "d < MaximumDevices"
  shows "ensures (EnumerateHub enum b d s) keeps"
proof -
  obtain r s1 where a: "AddHubPayload (Some d) s = (r, s1)" by fastforce
  have wf1: "well_formed {} s1" using AddHubPayload_wf [OF assms(2), of "Some d"] a by simp
  define h where "h = the (PayLoad (device s1 d))"
  define s2 where "s2 = update_hub h (Children_update (\<lambda>_. replicate MaxChildrenPerDevice None)) s1"
  obtain r3 data n s3 where g: "on_bus (HCDGetDescriptor b (pipe_of s2 d) USB_DESCRIPTOR_TYPE_HUB 0 0 9 bmREQ_GET_HUB_DESCRIPTOR True) s2
      = ((r3, data, n), s3)" by (metis prod.collapse)
  define s4 where "s4 = update_hub h (\<lambda>x. x\<lparr>HubDescr := hub_descriptor_of (overwrite data (hub_descriptor_bytes (HubDescr x)))\<rparr>) s3"
  define descr where "descr = HubDescr (HubTable s4 ! h)"
  define s5 where "s5 = (if of_nat MaxChildrenPerDevice < PortCount descr then s4
                    else update_hub h (MaxChildren_update (\<lambda>_. unat (PortCount descr))) s4)"
  obtain r6 raw s6 where st: "on_bus (HCDReadHubPortStatus b (pipe_of s5 d) 0 (junk b (Trace s5) 0 4)) s5 = ((r6, raw), s6)"
    by (metis prod.collapse)
  have "well_formed {} s2" unfolding s2_def using wf1 by (auto intro!: well_formed_hub simp: typed_hub_def table_sizes)
  then have "well_formed {} s3" by (rule tables_wf [OF on_bus_tables [OF g]])
  then have wf4: "well_formed {} s4" unfolding s4_def by (auto intro!: well_formed_hub simp: typed_hub_def)
  then have "well_formed {} s5"
    unfolding s5_def by (auto intro!: well_formed_hub simp: typed_hub_def table_sizes word_less_nat_alt)
  then have wf6: "well_formed {} s6" by (rule tables_wf [OF on_bus_tables [OF st]])
  have "well_formed {} (waited k (waited l (power_ports b d ps s6)))" for k l ps
    using tables_wf [OF power_ports_tables wf6] by simp
  then have ports: "ensures (check_ports enum b d h [0..<MaxChildrenPerDevice] (waited k (waited l (power_ports b d ps s6)))) (well_formed {})"
    for k l ps by (intro check_ports_wf assms) auto
  show ?thesis
    unfolding EnumerateHub_def
    by (simp only: a Let_def prod.case g st flip: h_def s2_def s4_def descr_def s5_def)
      (intro ensures_if ensures_rbind [OF ports]; simp add: wf1 wf4 wf6)
qed

section \<open>Human interface devices\<close>

abbreviation stays :: "nat set \<Rightarrow> 'a \<times> usb \<Rightarrow> bool" where
  "stays X \<equiv> \<lambda>(_, s'). well_formed X s'"

lemma on_bus_wfD: "on_bus f s = (x, s') \<Longrightarrow> well_formed X s \<Longrightarrow> well_formed X s'"
  by (rule tables_wf [OF on_bus_tables])

lemma ensures_bind: "(\<And>x. ensures (f x) P) \<Longrightarrow> ensures (rbind m f) P"
  by (cases m) simp_all

lemma ensures_bus: "well_formed X s \<Longrightarrow> (\<And>x s'. well_formed X s' \<Longrightarrow> ensures (g x s') P) \<Longrightarrow>
    ensures (case on_bus f s of (x, s') \<Rightarrow> g x s') P"
  using on_bus_wfD by (cases "on_bus f s") fastforce

lemma ensures_pair: "(\<And>d h. p = (d, h) \<Longrightarrow> ensures (f d h) P) \<Longrightarrow> ensures (case p of (d, h) \<Rightarrow> f d h) P"
  by (cases p) simp

lemma ensures_sum: "(\<And>e. p = Inl e \<Longrightarrow> ensures (f e) P) \<Longrightarrow> (\<And>x. p = Inr x \<Longrightarrow> ensures (g x) P) \<Longrightarrow>
    ensures (case p of Inl e \<Rightarrow> f e | Inr x \<Rightarrow> g x) P"
  by (cases p) simp_all

lemmas hid_rules = ensures_option ensures_if ensures_sum ensures_pair ensures_bind ensures_bus

lemma HIDReadDescriptor_wf: "well_formed X s \<Longrightarrow> ensures (HIDReadDescriptor b n i buf s) (stays X)"
  unfolding HIDReadDescriptor_def Let_def
  by (intro hid_rules; assumption?) (auto split: prod.split)

lemma HIDReadReport_wf: "well_formed X s \<Longrightarrow> ensures (HIDReadReport b n i v buf s) (stays X)"
  unfolding HIDReadReport_def Let_def
  by (intro hid_rules; assumption?) (auto split: prod.split)

lemma HIDSetIdle_wf: "well_formed X s \<Longrightarrow> ensures (HIDSetIdle b n i s) (stays X)"
  unfolding HIDSetIdle_def Let_def
  by (intro hid_rules; assumption?) (auto split: prod.split)

lemma HIDWriteReport_wf: "well_formed X s \<Longrightarrow> ensures (HIDWriteReport b n i v buf s) (stays X)"
  unfolding HIDWriteReport_def Let_def
  by (intro hid_rules; assumption?) (auto split: prod.split)

lemma HIDSetProtocol_wf: "well_formed X s \<Longrightarrow> well_formed X (snd (HIDSetProtocol b n i p s))"
  unfolding HIDSetProtocol_def
  by (auto simp: Let_def split: sum.split prod.split dest: on_bus_wfD)

lemma HIDEnableInterruptIN_wf: "well_formed X s \<Longrightarrow> ensures (HIDEnableInterruptIN b n i sp p si r s) (stays X)"
  unfolding HIDEnableInterruptIN_def
  by (auto simp: Let_def split: sum.split prod.split intro!: ensures_bind on_bus_wf HIDSetProtocol_wf)

lemma flip_toggle_wf: "well_formed X s \<Longrightarrow> well_formed X (update_device d (flip_toggle i j) s)"
  by (intro well_formed_device_keep) (auto simp: flip_toggle_def intro: typed_endpoint)

lemma update_toggle_wf: "well_formed X s \<Longrightarrow> ensures (update_toggle d e s) (well_formed X)"
  unfolding update_toggle_def by (auto intro!: ensures_bind flip_toggle_wf split: option.split)

lemma HCDEndpointTransfer_wf: "well_formed X s \<Longrightarrow> ensures (HCDEndpointTransfer b d e buf s) (stays X)"
  unfolding HCDEndpointTransfer_def
  by (rule ensures_bind) (auto simp: Let_def split: prod.split intro!: ensures_rbind [OF update_toggle_wf])

lemma HIDStartInterruptIN_wf: "well_formed X s \<Longrightarrow> ensures (HIDStartInterruptIN b n i buf s) (stays X)"
  unfolding HIDStartInterruptIN_def
  by (intro ensures_option ensures_if ensures_bind)
    (auto split: sum.split intro!: ensures_rbind [OF HCDEndpointTransfer_wf])

lemma hid_loop_wf: "well_formed X s \<Longrightarrow> ensures (hid_loop b d h is buf s) (well_formed X)"
proof (induction "is" arbitrary: buf s)
  case (Cons i "is")
  note read = HIDReadDescriptor_wf [OF Cons.prems]
  show ?case
    unfolding hid_loop.simps
    by (rule ensures_if, rule ensures_bind, rule ensures_bind, rule ensures_rbind [OF read])
      (auto intro!: ensures_bind Cons.IH simp: Cons.prems)
qed simp

lemma EnumerateHID_wf: "well_formed {} s \<Longrightarrow> ensures (EnumerateHID b d s) keeps"
  unfolding EnumerateHID_def by (auto split: option.split intro!: ensures_rbind [OF hid_loop_wf])

section \<open>Devices\<close>

lemma set_number_wf: "well_formed X s \<Longrightarrow> well_formed (insert d X) (set_number d a s)"
  unfolding set_number_def by (rule well_formed_device) (auto simp: typed_device_def)

lemma set_number_own: "well_formed X s \<Longrightarrow> a = of_nat (d + 1) \<or> PayLoadId (device s d) = ErrorPayload \<Longrightarrow> well_formed (X - {d}) (set_number d a s)"
  unfolding set_number_def by (rule well_formed_device [of X]) (auto simp: typed_device_def)

lemma set_packet_size_wf: "well_formed X s \<Longrightarrow> well_formed X (set_packet_size d n s)"
  unfolding set_packet_size_def by (rule well_formed_device_keep) (auto simp: typed_device_def)

lemma set_status_wf: "well_formed X s \<Longrightarrow> well_formed X (set_status d st s)"
  unfolding set_status_def by (rule well_formed_device_keep) (auto simp: typed_device_def)

lemma set_kind [simp]:
  "PayLoadId (device (set_number d a s) d') = PayLoadId (device s d')"
  "PayLoadId (device (set_packet_size d n s) d') = PayLoadId (device s d')"
  "PayLoadId (device (set_status d st s) d') = PayLoadId (device s d')"
  "PayLoadId (device (waited us s) d') = PayLoadId (device s d')"
  by (simp_all add: set_number_def set_packet_size_def set_status_def waited_def device_update)

lemma set_hubs [simp]:
  "HubTable (set_number d a s) = HubTable s" "HubTable (set_packet_size d n s) = HubTable s"
  "HubTable (set_status d st s) = HubTable s" "HubTable (waited us s) = HubTable s"
  by (simp_all add: set_number_def set_packet_size_def set_status_def waited_def)

lemma address_device_result:
  assumes "address_device b d p port s = (r, s')" and "well_formed {} s" and "d < MaximumDevices"
  shows "HubTable s' = HubTable s \<and> (if well_formed {} s' then True else r \<noteq> Ok \<and> well_formed {d} s')"
proof -
  define a where "a = pipe_Number (pipe_of s d)"
  define s1 where "s1 = set_packet_size d 8 (set_number d 0 s)"
  obtain r2 data n s2 where g: "on_bus (HCDSubmitControlMessage b (pipe_of s1 d) USB_DIRECTION_IN (Receive 8)
      (descriptor_request bmREQ_GET_DEVICE_DESCRIPTOR USB_DESCRIPTOR_TYPE_DEVICE 0 0 8)) s1 = ((r2, data, n), s2)" by (metis prod.collapse)
  define desc where "desc = device_descriptor_of (overwrite data (replicate 18 0))"
  define s3 where "s3 = set_status d USB_STATUS_DEFAULT (set_packet_size d (ucast (bMaxPacketSize0 desc)) s2)"
  obtain r4 s4 where res: "(case p of None \<Rightarrow> (Ok, s3) | Some p \<Rightarrow> HubPortReset b p port s3) = (r4, s4)" by fastforce
  obtain r5 s5 where ad: "on_bus (HCDSetAddress b (pipe_of s4 d) a) s4 = (r5, s5)" by fastforce
  have own: "a = of_nat (d + 1) \<or> PayLoadId (device s d) = ErrorPayload"
    using assms(2,3) unfolding a_def pipe_of_def well_formed_def own_number_def by blast
  have tab: "same_tables s3 s4" using res by (cases p) (auto dest: HubPortReset_tables)
  have w1: "well_formed {d} s1" unfolding s1_def using assms(2) by (intro set_packet_size_wf set_number_wf)
  have w2: "well_formed {d} s2" by (rule tables_wf [OF on_bus_tables [OF g] w1])
  have w3: "well_formed {d} s3" unfolding s3_def using w2 by (intro set_packet_size_wf set_status_wf)
  have w4: "well_formed {d} s4" by (rule tables_wf [OF tab w3])
  have w5: "well_formed {d} s5" by (rule tables_wf [OF on_bus_tables [OF ad] w4])
  have kind: "PayLoadId (device s5 d) = PayLoadId (device s d)" "PayLoadId (device s4 d) = PayLoadId (device s d)"
    using tables_device [OF on_bus_tables [OF g]] tables_device [OF tab] tables_device [OF on_bus_tables [OF ad]]
    by (simp_all add: s3_def s1_def)
  have hubs: "HubTable s2 = HubTable s" "HubTable s4 = HubTable s" "HubTable s5 = HubTable s"
    using tables_eq [OF on_bus_tables [OF g]] tables_eq [OF tab] tables_eq [OF on_bus_tables [OF ad]] by (simp_all add: s3_def s1_def)
  have fin: "well_formed {} (set_number d a s4)" "well_formed {} (set_number d a s5)"
    using set_number_own [OF w4, of a d] set_number_own [OF w5, of a d] own kind by simp_all
  have eq: "address_device b d p port s =
      (if r2 \<noteq> Ok \<or> stored n (junk_transfer b (Trace s2)) \<noteq> 8 then (if r2 \<noteq> Ok then r2 else ErrorTransmission, s2)
       else if r4 \<noteq> Ok then (r4, set_number d a s4)
       else if r5 \<noteq> Ok then (r5, set_number d a s5)
       else (Ok, set_status d USB_STATUS_ADDRESSED (waited 10000 (set_number d a s5))))"
    unfolding address_device_def by (simp only: Let_def g prod.case res ad flip: a_def s1_def desc_def s3_def)
  from assms(1) w2 fin hubs set_status_wf [of "{}" "waited 10000 (set_number d a s5)"] show ?thesis
    unfolding eq by (auto split: if_splits)
qed

lemma read_device_descriptor_wf:
  assumes "read_device_descriptor b d s = (r, s')" and "well_formed X s"
  shows "well_formed X s'"
proof -
  obtain r1 data n s1 where g: "on_bus (HCDGetDescriptor b (pipe_of s d) USB_DESCRIPTOR_TYPE_DEVICE 0 0 18 bmREQ_GET_DEVICE_DESCRIPTOR True) s
      = ((r1, data, n), s1)" by (metis prod.collapse)
  have "well_formed X (update_device d (\<lambda>x. x\<lparr>Descriptor := device_descriptor_of (overwrite data (device_descriptor_bytes (Descriptor x)))\<rparr>) s1)"
    using on_bus_wfD [OF g assms(2)] by (intro well_formed_device_keep) (auto simp: typed_device_def)
  with assms(1) show ?thesis by (auto simp: read_device_descriptor_def g Let_def split: if_splits)
qed

lemma read_configuration_wf:
  assumes "well_formed X s"
  shows "ensures (read_configuration b d s) (stays X)"
proof -
  obtain r1 data n s1 where g: "on_bus (HCDGetDescriptor b (pipe_of s d) USB_DESCRIPTOR_TYPE_CONFIGURATION 0 0 9 bmREQ_GET_DEVICE_DESCRIPTOR True) s
      = ((r1, data, n), s1)" by (metis prod.collapse)
  have wf1: "well_formed X s1" by (rule on_bus_wfD [OF g assms])
  then have "well_formed X (update_device d (ConfigStringIndex_update k) s1)" for k
    by (intro well_formed_device_keep) (auto simp: typed_device_def)
  then show ?thesis
    unfolding read_configuration_def g Let_def prod.case
    using wf1 by (intro ensures_if; simp?) (rule ensures_bus, assumption, auto split: prod.split intro!: ensures_rbind [OF parse_config_wf])
qed

lemma read_string_if_wf: "well_formed X s \<Longrightarrow> ensures (read_string_if b d k s) (well_formed X)"
  unfolding read_string_if_def by (auto intro!: ensures_if ensures_bind)

lemma finish_device_wf:
  assumes "enum_typed enum" and "well_formed {} s" and "d < MaximumDevices"
  shows "ensures (finish_device enum b d configNum hidCount s) keeps"
proof -
  obtain r s1 where c: "on_bus (HCDSetConfiguration b (pipe_of s d) configNum) s = (r, s1)" by fastforce
  have wf1: "well_formed {} s1" by (rule on_bus_wfD [OF c assms(2)])
  then have "well_formed {} (set_status d USB_STATUS_CONFIGURED (update_device d (ConfigIndex_update (\<lambda>_. configNum)) s1))"
    by (intro set_status_wf well_formed_device_keep) (auto simp: typed_device_def)
  with wf1 show ?thesis
    unfolding finish_device_def c Let_def prod.case
    by (intro ensures_if ensures_rbind [OF read_string_if_wf])
      (auto intro!: EnumerateHub_wf EnumerateHID_wf assms)
qed

lemma EnumerateDevice_typed: "enum_typed (EnumerateDevice n b)"
proof (induction n)
  case (Suc n)
  have "ensures (EnumerateDevice (Suc n) b d p port s) (enum_result d s)" if "well_formed {} s" "d < MaximumDevices" for d p port s
  proof -
    obtain r1 s1 where a: "address_device b d p port s = (r1, s1)" by fastforce
    obtain r2 s2 where g: "read_device_descriptor b d s1 = (r2, s2)" by fastforce
    note one = address_device_result [OF a that]
    show ?thesis
    proof (cases "well_formed {} s1")
      case True
      have wf2: "well_formed {} s2" by (rule read_device_descriptor_wf [OF g True])
      have "ensures (rbind (read_configuration b d s2) (\<lambda>((result, configNum, hidCount), s3).
          if result \<noteq> Ok then Inr (result, s3) else finish_device (EnumerateDevice n b) b d configNum hidCount s3)) keeps"
        by (rule ensures_rbind [OF read_configuration_wf [OF wf2]]) (auto intro!: finish_device_wf Suc that)
      then have "ensures (EnumerateDevice (Suc n) b d p port s) keeps"
        using True wf2 by (simp add: a g)
      then show ?thesis by (rule ensures_weaken) (auto simp: enum_result_def)
    next
      case False
      with one show ?thesis by (auto simp: a enum_result_def)
    qed
  qed
  then show ?case by (simp add: enum_typed_def)
qed (simp add: enum_typed_def)

section \<open>The driver\<close>

lemma UsbInitialize_wf:
  assumes "well_formed {} s"
  shows "ensures (UsbInitialize hcd b s) keeps"
proof -
  define s1 where "s1 = update_device 0 (\<lambda>x. x
    \<lparr>Pipe0 := (Pipe0 x)\<lparr>pipe_Number := 1, Speed := USB_SPEED_HIGH\<rparr>, Status := USB_STATUS_ATTACHED,
     PayLoadId := NoPayload, PayLoad := None, ParentNumber := 0xFF, ParentPort := 0\<rparr>) s"
  have "well_formed {} s1" unfolding s1_def by (rule well_formed_device [OF assms]) (auto simp: typed_device_def)
  then have "ensures (EnumerateDevice enum_depth b 0 None 0 s1) (enum_result 0 s1)"
    using EnumerateDevice_typed [of enum_depth b] by (simp add: enum_typed_def MaximumDevices_def)
  then show ?thesis
    using assms unfolding UsbInitialize_def Let_def
    by (auto split: option.split intro!: ensures_rbind [where Q = "enum_result 0 s1"] simp: enum_result_def simp flip: s1_def)
qed

lemma check_children_wf:
  assumes "\<And>c s. c < MaximumDevices \<Longrightarrow> well_formed {} s \<Longrightarrow> ensures (rec c s) (well_formed {})"
    and "well_formed {} s" and "d < MaximumDevices" and "set ports \<subseteq> {..<MaxChildrenPerDevice}"
  shows "ensures (check_children rec b d ports s) (well_formed {})"
  using assms(2,4)
proof (induction ports arbitrary: s)
  case (Cons i ports)
  have i: "i < MaxChildrenPerDevice" and ports: "set ports \<subseteq> {..<MaxChildrenPerDevice}" using Cons.prems(2) by simp_all
  have step: "ensures (case PayLoad (device t d) of None \<Rightarrow> Inl (Undefined ''HubPayload'')
      | Some h1 \<Rightarrow> (case child_at t h1 i of None \<Rightarrow> check_children rec b d ports t
        | Some c \<Rightarrow> rbind (rec c t) (check_children rec b d ports))) (well_formed {})" if "well_formed {} t" for t
    by (intro ensures_option Cons.IH ensures_rbind [OF assms(1)] that ports)
      (auto intro!: typed_hub_at_child [OF that _ i] payload_range [OF that assms(3)])
  show ?case
    unfolding check_children.simps
    by (intro ensures_option ensures_if ensures_rbind [OF HubCheckConnection_wf [OF EnumerateDevice_typed Cons.prems(1) assms(3) i]])
      (auto intro!: ensures_if Cons.IH [OF _ ports] step simp: Cons.prems)
qed simp

lemma HubCheckForChange_wf: "well_formed {} s \<Longrightarrow> d < MaximumDevices \<Longrightarrow> ensures (HubCheckForChange n b d s) (well_formed {})"
proof (induction n arbitrary: d s)
  case (Suc n)
  then show ?case by (auto intro!: check_children_wf)
qed simp

lemma UsbCheckForChange_wf: "well_formed {} s \<Longrightarrow> ensures (UsbCheckForChange b s) (well_formed {})"
  unfolding UsbCheckForChange_def by (auto intro!: HubCheckForChange_wf simp: MaximumDevices_def)

lemma device_string_wf: "well_formed X s \<Longrightarrow> ensures (device_string index b n buf s) (stays X)"
  unfolding device_string_def by (intro ensures_if ensures_option ensures_bind) (auto split: prod.split)

text \<open>
  A run of the driver: it starts on the cleared tables with an initialisation that succeeds, and goes on
  with checks for changes, transfers of reports and reads of strings, each of which returned.
\<close>

inductive driver :: "usb_bus \<Rightarrow> usb \<Rightarrow> bool" for b where
  start: "UsbInitialize None b usb_zero = Inr (Ok, s) \<Longrightarrow> driver b s"
| check: "driver b s \<Longrightarrow> UsbCheckForChange b s = Inr s' \<Longrightarrow> driver b s'"
| interrupt: "driver b s \<Longrightarrow> HIDReadInterruptReport b n i buf s = Inr (x, s') \<Longrightarrow> driver b s'"
| enable: "driver b s \<Longrightarrow> HIDEnableInterruptIN b n i sp p si rate s = Inr (r, s') \<Longrightarrow> driver b s'"
| receive: "driver b s \<Longrightarrow> HIDReadReport b n i v buf s = Inr (y, s') \<Longrightarrow> driver b s'"
| send: "driver b s \<Longrightarrow> HIDWriteReport b n i v buf s = Inr (r, s') \<Longrightarrow> driver b s'"
| descriptor: "driver b s \<Longrightarrow> HIDReadDescriptor b n i buf s = Inr (y, s') \<Longrightarrow> driver b s'"
| idle: "driver b s \<Longrightarrow> HIDSetIdle b n i s = Inr (r, s') \<Longrightarrow> driver b s'"
| protocol: "driver b s \<Longrightarrow> HIDSetProtocol b n interface p s = (r, s') \<Longrightarrow> driver b s'"
| product: "driver b s \<Longrightarrow> GetDeviceProductString b n buffer s = Inr (z, s') \<Longrightarrow> driver b s'"
| manufacturer: "driver b s \<Longrightarrow> GetDeviceManufacturerString b n buffer s = Inr (z, s') \<Longrightarrow> driver b s'"
| serial: "driver b s \<Longrightarrow> GetDeviceSerialNumberString b n buffer s = Inr (z, s') \<Longrightarrow> driver b s'"
| config: "driver b s \<Longrightarrow> GetDeviceConfigStringString b n buffer s = Inr (z, s') \<Longrightarrow> driver b s'"

lemmas driver_operations = UsbCheckForChange_wf HIDStartInterruptIN_wf HIDEnableInterruptIN_wf HIDReadReport_wf HIDWriteReport_wf
  HIDReadDescriptor_wf HIDSetIdle_wf device_string_wf

lemma ensures_stays: "ensures m (stays X) \<Longrightarrow> m = Inr (x, s') \<Longrightarrow> well_formed X s'"
  by (simp add: ensures_def)

lemma driver_well_formed: "driver b s \<Longrightarrow> well_formed {} s"
proof (induction rule: driver.induct)
  case (start s)
  show ?case using ensuresD [OF UsbInitialize_wf [OF well_formed_zero] start] by simp
next
  case (check s s')
  show ?case by (rule ensuresD [OF UsbCheckForChange_wf [OF check.IH] check.hyps(2)])
next
  case (interrupt s n i buf x s')
  then show ?case by (metis HIDReadInterruptReport_def HIDStartInterruptIN_wf ensures_stays)
next
  case (enable s n i sp p si rate r s')
  then show ?case by (metis HIDEnableInterruptIN_wf ensures_stays)
next
  case (receive s n i v buf y s')
  then show ?case by (metis HIDReadReport_wf ensures_stays)
next
  case (send s n i v buf r s')
  then show ?case by (metis HIDWriteReport_wf ensures_stays)
next
  case (descriptor s n i buf y s')
  then show ?case by (metis HIDReadDescriptor_wf ensures_stays)
next
  case (idle s n i r s')
  then show ?case by (metis HIDSetIdle_wf ensures_stays)
next
  case (protocol s n interface p r s')
  then show ?case by (metis HIDSetProtocol_wf snd_conv)
next
  case (product s n buffer z s')
  then show ?case by (metis GetDeviceProductString_def device_string_wf ensures_stays)
next
  case (manufacturer s n buffer z s')
  then show ?case by (metis GetDeviceManufacturerString_def device_string_wf ensures_stays)
next
  case (serial s n buffer z s')
  then show ?case by (metis GetDeviceSerialNumberString_def device_string_wf ensures_stays)
next
  case (config s n buffer z s')
  then show ?case by (metis GetDeviceConfigStringString_def device_string_wf ensures_stays)
qed

end
