(* ===== verification/Usb_Config.thy ===== *)
theory Usb_Config
  imports Usb_Typing
begin

text \<open>
  What the walk over a configuration descriptor records. The descriptors of a configuration are read, as lists of
  bytes, into interfaces with their endpoints and HID descriptors with the interface they follow; the tables of the
  driver show that reading after the walk. A descriptor of length zero keeps the walk in place for ever.
\<close>

section \<open>The reading of a configuration\<close>

type_synonym reading = "(interface_descriptor \<times> endpoint_descriptor list) list \<times> (hid_descriptor \<times> u8) list"

abbreviation kind :: "u8 list \<Rightarrow> u8" where
  "kind x \<equiv> x ! 1"

fun add_to_last :: "'e \<Rightarrow> ('i \<times> 'e list) list \<Rightarrow> ('i \<times> 'e list) list" where
  "add_to_last e [] = []"
| "add_to_last e [(i, es)] = [(i, es @ [e])]"
| "add_to_last e (g # g' # gs) = g # add_to_last e (g' # gs)"

definition add_item :: "reading \<Rightarrow> u8 list \<Rightarrow> reading" where
  "add_item r x =
     (let (gs, hs) = r in
      if kind x = descriptor_code USB_DESCRIPTOR_TYPE_INTERFACE then (gs @ [(interface_of x, [])], hs)
      else if kind x = descriptor_code USB_DESCRIPTOR_TYPE_ENDPOINT then (add_to_last (endpoint_of x) gs, hs)
      else if kind x = descriptor_code USB_DESCRIPTOR_TYPE_HID then (gs, hs @ [(hid_descriptor_of x, of_nat (length gs) - 1)])
      else (gs, hs))"

text \<open>A descriptor that carries its own length, and has the size of its kind.\<close>

definition item_ok :: "u8 list \<Rightarrow> bool" where
  "item_ok x \<longleftrightarrow> 2 \<le> length x \<and> unat (x ! 0) = length x \<and>
     (kind x = descriptor_code USB_DESCRIPTOR_TYPE_INTERFACE \<longrightarrow> 9 \<le> length x) \<and>
     (kind x = descriptor_code USB_DESCRIPTOR_TYPE_ENDPOINT \<longrightarrow> 7 \<le> length x) \<and>
     (kind x = descriptor_code USB_DESCRIPTOR_TYPE_HID \<longrightarrow> length x = 9)"

text \<open>There is room for the next descriptor, and an endpoint follows an interface.\<close>

definition room :: "reading \<Rightarrow> u8 list \<Rightarrow> bool" where
  "room r x \<longleftrightarrow>
     (let (gs, hs) = r in
      (kind x = descriptor_code USB_DESCRIPTOR_TYPE_INTERFACE \<longrightarrow> length gs < MaxInterfacesPerDevice) \<and>
      (kind x = descriptor_code USB_DESCRIPTOR_TYPE_ENDPOINT \<longrightarrow> gs \<noteq> [] \<and> length (snd (last gs)) < MaxEndpointsPerDevice) \<and>
      (kind x = descriptor_code USB_DESCRIPTOR_TYPE_HID \<longrightarrow> length hs < MaxHIDPerDevice))"

fun config_ok :: "reading \<Rightarrow> u8 list list \<Rightarrow> bool" where
  "config_ok r [] = True"
| "config_ok r (x # xs) \<longleftrightarrow> item_ok x \<and> room r x \<and> config_ok (add_item r x) xs"

section \<open>The tables\<close>

definition shows_interfaces :: "usb_device \<Rightarrow> (interface_descriptor \<times> endpoint_descriptor list) list \<Rightarrow> bool" where
  "shows_interfaces x gs \<longleftrightarrow>
     MaxInterface x = of_nat (length gs) \<and> length gs \<le> MaxInterfacesPerDevice \<and>
     (\<forall>j<length gs. Interfaces x ! j = fst (gs ! j) \<and> length (snd (gs ! j)) \<le> MaxEndpointsPerDevice \<and>
        (\<forall>k<length (snd (gs ! j)). Endpoints x ! j ! k = snd (gs ! j) ! k))"

definition shows_hids :: "usb \<Rightarrow> nat \<Rightarrow> (hid_descriptor \<times> u8) list \<Rightarrow> bool" where
  "shows_hids s d hs \<longleftrightarrow>
     length hs \<le> MaxHIDPerDevice \<and>
     (if hs = [] then PayLoadId (device s d) = NoPayload \<and> (\<exists>h<MaximumHids. MaxHID (HidTable s ! h) = 0)
      else PayLoadId (device s d) = HidPayload \<and>
        (\<exists>h<MaximumHids. PayLoad (device s d) = Some h \<and> MaxHID (HidTable s ! h) = of_nat (length hs) \<and>
           (\<forall>k<length hs. HidDescr (HidTable s ! h) ! k = fst (hs ! k) \<and> HIDInterface (HidTable s ! h) ! k = snd (hs ! k))))"

definition tables_show :: "usb \<Rightarrow> nat \<Rightarrow> reading \<Rightarrow> bool" where
  "tables_show s d = (\<lambda>(gs, hs). shows_interfaces (device s d) gs \<and> shows_hids s d hs)"

lemma length_add_to_last [simp]: "length (add_to_last e gs) = length gs"
  by (induction e gs rule: add_to_last.induct) simp_all

lemma add_to_last_Nil [simp]: "add_to_last e gs = [] \<longleftrightarrow> gs = []"
  by (induction e gs rule: add_to_last.induct) simp_all

lemma nth_add_to_last:
  "j < length gs \<Longrightarrow> add_to_last e gs ! j = (if j = length gs - 1 then (fst (gs ! j), snd (gs ! j) @ [e]) else gs ! j)"
  by (induction e gs arbitrary: j rule: add_to_last.induct) (auto simp: nth_Cons')

lemma shows_interfaces_interface:
  assumes "shows_interfaces x gs" and "typed_device x" and "length gs < MaxInterfacesPerDevice"
  shows "shows_interfaces (x\<lparr>Interfaces := (Interfaces x)[length gs := i], MaxInterface := MaxInterface x + 1\<rparr>) (gs @ [(i, [])])"
  using assms by (auto simp: shows_interfaces_def typed_device_def nth_append nth_list_update less_Suc_eq)

lemma shows_interfaces_endpoint:
  assumes "shows_interfaces x gs" and "typed_device x" and "gs \<noteq> []" and "length (snd (last gs)) < MaxEndpointsPerDevice"
  shows "shows_interfaces
    (x\<lparr>Endpoints := (Endpoints x)[length gs - 1 := (Endpoints x ! (length gs - 1))[length (snd (last gs)) := e]]\<rparr>) (add_to_last e gs)"
proof -
  have len: "length (Endpoints x) = MaxInterfacesPerDevice" "\<And>j. j < MaxInterfacesPerDevice \<Longrightarrow> length (Endpoints x ! j) = MaxEndpointsPerDevice"
    using assms(2) by (simp_all add: typed_device_def)
  have "length gs - 1 < MaxInterfacesPerDevice" using assms(1,3) by (cases gs) (auto simp: shows_interfaces_def)
  with assms len show ?thesis
    by (auto simp: shows_interfaces_def nth_add_to_last last_conv_nth nth_append nth_list_update less_Suc_eq split: if_splits)
qed

section \<open>One descriptor\<close>

lemma interface_of_append: "9 \<le> length x \<Longrightarrow> interface_of (x @ y) = interface_of x"
  by (auto simp: interface_of_def nth_append)

lemma endpoint_of_append: "7 \<le> length x \<Longrightarrow> endpoint_of (x @ y) = endpoint_of x"
  by (auto simp: endpoint_of_def nth_append)

lemma hid_descriptor_of_append: "9 \<le> length x \<Longrightarrow> hid_descriptor_of (x @ y) = hid_descriptor_of x"
  by (auto simp: hid_descriptor_of_def nth_append)

lemma unat_small: "n < 256 \<Longrightarrow> unat (of_nat n :: u8) = n"
  by (simp add: unsigned_of_nat take_bit_nat_eq_self)

text \<open>The part of the driver's state that one step changes besides the shown reading.\<close>

definition walk_state :: "usb \<Rightarrow> nat \<Rightarrow> reading \<Rightarrow> u8 \<Rightarrow> u8 \<Rightarrow> bool" where
  "walk_state s d r e k \<longleftrightarrow>
     well_formed {} s \<and> d < MaximumDevices \<and> tables_show s d r \<and>
     (fst r \<noteq> [] \<longrightarrow> e = of_nat (length (snd (last (fst r))))) \<and> k = of_nat (length (snd r))"

lemma shows_hids_cong:
  assumes "PayLoadId (device s' d) = PayLoadId (device s d)" and "PayLoad (device s' d) = PayLoad (device s d)" and "HidTable s' = HidTable s"
  shows "shows_hids s' d hs = shows_hids s d hs"
  using assms by (simp add: shows_hids_def)

lemma interface_step:
  assumes "walk_state s d (gs, hs) e k" and "item_ok x" and "kind x = descriptor_code USB_DESCRIPTOR_TYPE_INTERFACE"
    and "length gs < MaxInterfacesPerDevice" and "drop i cfg = x @ y"
  shows "\<exists>s'. add_interface d cfg i s = Inr s' \<and> walk_state s' d (gs @ [(interface_of x, [])], hs) 0 k"
proof -
  have show_gs: "shows_interfaces (device s d) gs" and wf: "well_formed {} s" and d: "d < MaximumDevices"
    using assms(1) by (simp_all add: walk_state_def tables_show_def)
  have n: "unat (MaxInterface (device s d)) = length gs"
    using show_gs assms(4) by (simp add: shows_interfaces_def unat_small table_sizes)
  have x: "9 \<le> length x" using assms(2,3) by (simp add: item_ok_def)
  have "length (drop i cfg) = length x + length y" using assms(5) by simp
  with x have room: "\<not> length cfg < i + 9" by simp
  define s' where "s' = update_device d (\<lambda>v. v\<lparr>Interfaces := (Interfaces v)[length gs := interface_of x], MaxInterface := MaxInterface v + 1\<rparr>) s"
  have step: "add_interface d cfg i s = Inr s'"
    using room assms(4) by (simp add: add_interface_def n s'_def assms(5) interface_of_append [OF x])
  have wf': "well_formed {} s'" using ensuresD [OF add_interface_wf [OF wf] step] .
  have "d < length (DeviceTable s)" using wf d by (simp add: well_formed_def)
  then have dev: "device s' d = (device s d)\<lparr>Interfaces := (Interfaces (device s d))[length gs := interface_of x], MaxInterface := MaxInterface (device s d) + 1\<rparr>"
    by (simp add: s'_def device_update)
  have keep: "PayLoadId (device s' d) = PayLoadId (device s d)" "PayLoad (device s' d) = PayLoad (device s d)" "HidTable s' = HidTable s"
    by (simp_all add: dev) (simp add: s'_def)
  have "shows_interfaces (device s' d) (gs @ [(interface_of x, [])])"
    unfolding dev by (rule shows_interfaces_interface [OF show_gs typed_device_at [OF wf d] assms(4)])
  moreover have "shows_hids s' d hs" using assms(1) shows_hids_cong [OF keep] by (simp add: walk_state_def tables_show_def)
  ultimately show ?thesis using step wf' d assms(1) by (auto simp: walk_state_def tables_show_def)
qed

lemma endpoint_step:
  assumes "walk_state s d (gs, hs) e k" and "item_ok x" and "kind x = descriptor_code USB_DESCRIPTOR_TYPE_ENDPOINT"
    and "gs \<noteq> []" and "length (snd (last gs)) < MaxEndpointsPerDevice" and "drop i cfg = x @ y"
  shows "\<exists>s'. add_endpoint d cfg i e s = Inr s' \<and> walk_state s' d (add_to_last (endpoint_of x) gs, hs) (e + 1) k"
proof -
  have show_gs: "shows_interfaces (device s d) gs" and wf: "well_formed {} s" and d: "d < MaximumDevices"
    using assms(1) by (simp_all add: walk_state_def tables_show_def)
  have gs: "length gs \<le> 8" using show_gs by (simp add: shows_interfaces_def table_sizes)
  then have n: "unat (MaxInterface (device s d)) = length gs"
    using show_gs by (simp add: shows_interfaces_def unat_small)
  have e: "unat e = length (snd (last gs))"
    using assms(1,4,5) by (simp add: walk_state_def unat_small table_sizes)
  have x: "7 \<le> length x" using assms(2,3) by (simp add: item_ok_def)
  have "length (drop i cfg) = length x + length y" using assms(6) by simp
  with x have room: "\<not> length cfg < i + 7" by simp
  define s' where "s' = update_device d (\<lambda>v. v
      \<lparr>Endpoints := (Endpoints v)[length gs - 1 := (Endpoints v ! (length gs - 1))[length (snd (last gs)) := endpoint_of x]]\<rparr>) s"
  have step: "add_endpoint d cfg i e s = Inr s'"
    using room assms(4,5) gs by (simp add: add_endpoint_def Let_def n e s'_def assms(6) endpoint_of_append [OF x] table_sizes)
  have wf': "well_formed {} s'" using ensuresD [OF add_endpoint_wf [OF wf] step] .
  have "d < length (DeviceTable s)" using wf d by (simp add: well_formed_def)
  then have dev: "device s' d = (device s d)\<lparr>Endpoints := (Endpoints (device s d))
      [length gs - 1 := (Endpoints (device s d) ! (length gs - 1))[length (snd (last gs)) := endpoint_of x]]\<rparr>"
    by (simp add: s'_def device_update)
  have keep: "PayLoadId (device s' d) = PayLoadId (device s d)" "PayLoad (device s' d) = PayLoad (device s d)" "HidTable s' = HidTable s"
    by (simp_all add: dev) (simp add: s'_def)
  have "shows_interfaces (device s' d) (add_to_last (endpoint_of x) gs)"
    unfolding dev by (rule shows_interfaces_endpoint [OF show_gs typed_device_at [OF wf d] assms(4,5)])
  moreover have "shows_hids s' d hs" using assms(1) shows_hids_cong [OF keep] by (simp add: walk_state_def tables_show_def)
  moreover have "last (add_to_last (endpoint_of x) gs) = (fst (last gs), snd (last gs) @ [endpoint_of x])"
    using assms(4) by (simp add: last_conv_nth nth_add_to_last)
  ultimately have "walk_state s' d (add_to_last (endpoint_of x) gs, hs) (e + 1) k"
    using wf' d assms(1,4) by (simp add: walk_state_def tables_show_def)
  with step show ?thesis by blast
qed

lemma hid_step:
  assumes "walk_state s d (gs, hs) e k" and "item_ok x" and "kind x = descriptor_code USB_DESCRIPTOR_TYPE_HID"
    and "length hs < MaxHIDPerDevice" and "drop i cfg = x @ y"
  shows "\<exists>s'. add_hid d cfg i k s = Inr ((Ok, k + 1), s') \<and> walk_state s' d (gs, hs @ [(hid_descriptor_of x, of_nat (length gs) - 1)]) e (k + 1)"
proof -
  have show_gs: "shows_interfaces (device s d) gs" and wf: "well_formed {} s" and d: "d < MaximumDevices"
    and show_hs: "shows_hids s d hs" and k: "k = of_nat (length hs)"
    using assms(1) by (simp_all add: walk_state_def tables_show_def)
  have hs: "length hs < 4" using assms(4) by (simp add: table_sizes)
  have k_nat: "unat k = length hs" using hs k by (simp add: unat_small)
  then have k0: "k = 0 \<longleftrightarrow> hs = []" by (metis length_0_conv unat_eq_zero)
  have x: "length x = 9" "x ! 0 = 9" using assms(2,3) by (simp_all add: item_ok_def word_unat_eq_iff)
  have "length cfg - i = length x + length y" using arg_cong [OF assms(5), of length] by simp
  with x have room: "\<not> length cfg < i + 9" by simp
  then have first: "cfg ! i = 9"
    using arg_cong [OF assms(5), of "\<lambda>c. c ! 0"] x by (auto simp: nth_append)
  have len: "d < length (DeviceTable s)" using wf d by (simp add: well_formed_def)
  obtain s1 h where a: "(if k = 0 then AddHidPayload (Some d) s else (Ok, s)) = (Ok, s1)"
    and one: "h < MaximumHids" "device s1 d = (device s d)\<lparr>PayLoad := Some h, PayLoadId := HidPayload\<rparr>" "HubTable s1 = HubTable s"
      "MaxHID (HidTable s1 ! h) = (if hs = [] then 4 else k)"
      "hs \<noteq> [] \<Longrightarrow> s1 = s"
  proof (cases "hs = []")
    case True
    then have no: "PayLoadId (device s d) = NoPayload" and "\<exists>h<MaximumHids. MaxHID (HidTable s ! h) = 0"
      using show_hs by (simp_all add: shows_hids_def)
    then have "find (\<lambda>number. MaxHID (HidTable s ! number) = 0) [0..<MaximumHids] \<noteq> None" by (simp add: find_None_iff)
    then obtain h where f: "find (\<lambda>number. MaxHID (HidTable s ! number) = 0) [0..<MaximumHids] = Some h" by blast
    then have h: "h < MaximumHids" using upt_find [OF f] by blast
    define s1 where "s1 = update_device d (\<lambda>v. v\<lparr>PayLoad := Some h, PayLoadId := HidPayload\<rparr>) (update_hid h (MaxHID_update (\<lambda>_. of_nat MaxHIDPerDevice)) s)"
    have "AddHidPayload (Some d) s = (Ok, s1)"
      by (simp add: AddHidPayload_def AllocateHidPayload_def no f Let_def s1_def update_device_twice)
    moreover have "length (HidTable s) = MaximumHids" using wf by (simp add: well_formed_def)
    then have "MaxHID (HidTable s1 ! h) = 4" using h by (simp add: s1_def update_hid_def table_sizes)
    moreover have "length (DeviceTable (update_hid h g s)) = length (DeviceTable s)" for g by (simp add: update_hid_def)
    then have "device s1 d = (device s d)\<lparr>PayLoad := Some h, PayLoadId := HidPayload\<rparr>" using len by (simp add: s1_def device_update)
    moreover have "HubTable s1 = HubTable s" by (simp add: s1_def)
    ultimately show ?thesis using that [of s1 h] True h k0 by simp
  next
    case False
    then obtain h where "h < MaximumHids" "PayLoadId (device s d) = HidPayload" "PayLoad (device s d) = Some h" "MaxHID (HidTable s ! h) = of_nat (length hs)"
      using show_hs by (auto simp: shows_hids_def)
    with False k k0 show ?thesis using that [of s h] by simp
  qed
  have wf1: "well_formed {} s1"
    using a AddHidPayload_wf [OF wf, of "Some d"] wf by (auto split: if_splits)
  define z where "z = HidTable s1 ! h"
  have z: "length (HidDescr z) = 4" "length (HIDInterface z) = 4"
    using typed_hid_at [OF wf1 one(1)] by (simp_all add: z_def typed_hid_def table_sizes)
  have gs1: "MaxInterface (device s1 d) = of_nat (length gs)" using show_gs by (simp add: one(2) shows_interfaces_def)
  define s' where "s' = update_hid h (\<lambda>hid. hid\<lparr>HidDescr := (HidDescr hid)[length hs := hid_descriptor_of x],
      HIDInterface := (HIDInterface hid)[length hs := of_nat (length gs) - 1], MaxHID := k + 1\<rparr>) s1"
  have "\<not> (4 \<le> k)" using k_nat hs by (simp add: word_le_nat_alt)
  then have add: "SetHidDescriptor h k (MaxInterface (device s1 d) - 1) (drop i cfg) (cfg ! i) s1 = (True, s')"
    using first x hid_descriptor_of_append [of x y] one(4)
    by (auto simp: SetHidDescriptor_def gs1 s'_def assms(5) k_nat table_sizes)
  have step: "add_hid d cfg i k s = Inr ((Ok, k + 1), s')"
    unfolding add_hid_def a using add by (simp add: one(2) room)
  have wf': "well_formed {} s'" using SetHidDescriptor_wf [OF wf1, of h k "MaxInterface (device s1 d) - 1" "drop i cfg" "cfg ! i"] add by simp
  have "length (HidTable s1) = MaximumHids" using wf1 by (simp add: well_formed_def)
  then have z': "HidTable s' ! h = z\<lparr>HidDescr := (HidDescr z)[length hs := hid_descriptor_of x],
      HIDInterface := (HIDInterface z)[length hs := of_nat (length gs) - 1], MaxHID := k + 1\<rparr>"
    using one(1) by (simp add: s'_def update_hid_def z_def)
  have dev: "device s' d = device s1 d" by (simp add: s'_def)
  have old: "HidDescr z ! j = fst (hs ! j) \<and> HIDInterface z ! j = snd (hs ! j)" if "j < length hs" for j
  proof -
    from that have "hs \<noteq> []" by auto
    then have eq: "s1 = s" by (rule one(5))
    then have "PayLoad (device s d) = Some h" using arg_cong [OF one(2), of PayLoad] by simp
    with eq that show_hs \<open>hs \<noteq> []\<close> show ?thesis by (auto simp: shows_hids_def z_def)
  qed
  have "shows_hids s' d (hs @ [(hid_descriptor_of x, of_nat (length gs) - 1)])"
    using one(1) hs z old unfolding shows_hids_def dev one(2)
    by (auto simp: z' nth_append nth_list_update less_Suc_eq k table_sizes intro!: exI [of _ h])
  moreover have "shows_interfaces (device s' d) gs" unfolding dev one(2) using show_gs by (simp add: shows_interfaces_def)
  ultimately show ?thesis using step wf' d assms(1) by (auto simp: walk_state_def tables_show_def)
qed

section \<open>The walk\<close>

lemma item_step:
  assumes "walk_state s d r e k" and "item_ok x" and "room r x" and "drop i cfg = x @ y" and "i < end"
  shows "\<exists>s1 e1 k1. walk_state s1 d (add_item r x) e1 k1 \<and>
    (\<forall>n. parse_config (Suc n) d cfg end i e k s = parse_config n d cfg end (i + length x) e1 k1 s1)"
proof -
  have two: "2 \<le> length x" "unat (x ! 0) = length x" using assms(2) by (simp_all add: item_ok_def)
  have "length cfg - i = length x + length y" using arg_cong [OF assms(4), of length] by simp
  with two have len: "i + 1 < length cfg" by simp
  then have cfg: "cfg ! (i + 1) = kind x" "cfg ! i = x ! 0"
    using two arg_cong [OF assms(4), of "\<lambda>c. c ! 1"] arg_cong [OF assms(4), of "\<lambda>c. c ! 0"] by (auto simp: nth_append)
  obtain gs hs where r: "r = (gs, hs)" by fastforce
  note head = parse_config.simps(2) [of _ d cfg "end" i e k s]
  consider (interface) "kind x = descriptor_code USB_DESCRIPTOR_TYPE_INTERFACE"
    | (endpoint) "kind x = descriptor_code USB_DESCRIPTOR_TYPE_ENDPOINT"
    | (hid) "kind x = descriptor_code USB_DESCRIPTOR_TYPE_HID"
    | (other) "kind x \<noteq> descriptor_code USB_DESCRIPTOR_TYPE_INTERFACE" "kind x \<noteq> descriptor_code USB_DESCRIPTOR_TYPE_ENDPOINT"
        "kind x \<noteq> descriptor_code USB_DESCRIPTOR_TYPE_HID" by blast
  then show ?thesis
  proof cases
    case interface
    with assms(3) r have "length gs < MaxInterfacesPerDevice" by (simp add: room_def)
    from interface_step [OF assms(1) [unfolded r] assms(2) interface this assms(4)]
    obtain s1 where "add_interface d cfg i s = Inr s1" "walk_state s1 d (add_item r x) 0 k"
      using interface by (auto simp: add_item_def r)
    then show ?thesis using interface len assms(5) cfg two by (intro exI [of _ s1] exI [of _ 0] exI [of _ k]) (simp add: head Let_def)
  next
    case endpoint
    with assms(3) r have "gs \<noteq> []" "length (snd (last gs)) < MaxEndpointsPerDevice" by (simp_all add: room_def)
    from endpoint_step [OF assms(1) [unfolded r] assms(2) endpoint this assms(4)]
    obtain s1 where "add_endpoint d cfg i e s = Inr s1" "walk_state s1 d (add_item r x) (e + 1) k"
      using endpoint by (auto simp: add_item_def r)
    then show ?thesis using endpoint len assms(5) cfg two by (intro exI [of _ s1] exI [of _ "e + 1"] exI [of _ k]) (simp add: head Let_def)
  next
    case hid
    with assms(3) r have "length hs < MaxHIDPerDevice" by (simp add: room_def)
    from hid_step [OF assms(1) [unfolded r] assms(2) hid this assms(4)]
    obtain s1 where "add_hid d cfg i k s = Inr ((Ok, k + 1), s1)" "walk_state s1 d (add_item r x) e (k + 1)"
      using hid by (auto simp: add_item_def r)
    then show ?thesis using hid len assms(5) cfg two by (intro exI [of _ s1] exI [of _ e] exI [of _ "k + 1"]) (simp add: head Let_def)
  next
    case other
    then have "add_item r x = r" by (auto simp: add_item_def r)
    then show ?thesis using other len assms(1,5) cfg two by (intro exI [of _ s] exI [of _ e] exI [of _ k]) (simp add: head Let_def)
  qed
qed

lemma config_walk:
  assumes "walk_state s d r e k" and "config_ok r items" and "length items < fuel" and "cfg = pre @ concat items @ rest"
  shows "\<exists>s' e' k'. parse_config fuel d cfg (length pre + length (concat items) - 1) (length pre) e k s = Inr ((Ok, k'), s') \<and>
    walk_state s' d (foldl add_item r items) e' k'"
  using assms
proof (induction items arbitrary: fuel s r e k pre)
  case Nil
  then obtain n where "fuel = Suc n" by (cases fuel) simp_all
  with Nil show ?case by auto
next
  case (Cons x items)
  from Cons.prems(3) obtain n where n: "fuel = Suc n" "length items < n" by (cases fuel) simp_all
  have x: "item_ok x" "room r x" and items: "config_ok (add_item r x) items" using Cons.prems(2) by simp_all
  then have two: "2 \<le> length x" by (simp add: item_ok_def)
  have rest: "drop (length pre) cfg = x @ (concat items @ rest)" by (simp add: Cons.prems(4))
  have "length pre < length pre + length (concat (x # items)) - 1" using two by simp
  from item_step [OF Cons.prems(1) x rest this] n(1) obtain s1 e1 k1 where one: "walk_state s1 d (add_item r x) e1 k1"
    "parse_config fuel d cfg (length pre + length (concat (x # items)) - 1) (length pre) e k s =
     parse_config n d cfg (length pre + length (concat (x # items)) - 1) (length pre + length x) e1 k1 s1" by blast
  have "cfg = (pre @ x) @ concat items @ rest" by (simp add: Cons.prems(4))
  from Cons.IH [OF one(1) items n(2) this] one(2) show ?case by (simp add: add.assoc)
qed

lemma config_items_bound:
  assumes "config_ok r items"
  shows "2 * length items \<le> length (concat items)"
  using assms
proof (induction items arbitrary: r)
  case (Cons x items)
  have "2 * length items \<le> length (concat items)" by (rule Cons.IH [of "add_item r x"]) (use Cons.prems in simp)
  moreover have "2 \<le> length x" using Cons.prems by (simp add: item_ok_def)
  ultimately show ?case by simp
qed simp

lemma config_end_length:
  assumes "0 < n" and "n \<le> 1024"
  shows "config_end (of_nat n) = n - 1"
proof -
  have u: "unat (ucast (of_nat n :: u16) :: u32) = n"
    using assms(2) by (simp add: unsigned_ucast_eq unsigned_of_nat take_bit_nat_eq_self)
  then have "(1 :: u32) \<le> ucast (of_nat n :: u16)" using assms(1) by (simp add: word_le_nat_alt)
  from unat_sub [OF this] u show ?thesis by (simp add: config_end_def)
qed

text \<open>A descriptor that says it has no bytes keeps the walk where it is.\<close>

lemma config_walk_stuck:
  assumes "i < end" and "i + 1 < length cfg" and "cfg ! i = 0"
    and "cfg ! (i + 1) \<notin> {descriptor_code USB_DESCRIPTOR_TYPE_INTERFACE, descriptor_code USB_DESCRIPTOR_TYPE_ENDPOINT, descriptor_code USB_DESCRIPTOR_TYPE_HID}"
  shows "parse_config fuel d cfg end i e k s = Inl Diverges"
  using assms by (induction fuel) (simp_all add: Let_def)

section \<open>Properties\<close>

text \<open>
  C10: for every configuration that a device may send, descriptors of their own length and size, endpoints after
  an interface, at most 8 interfaces with 16 endpoints each, at most 4 HID descriptors, in at most 1024 bytes, the walk of
  \<^verbatim>\<open>EnumerateDevice\<close> ends and the tables then hold exactly the reading of the descriptors: every interface and endpoint in
  order, and every HID descriptor with the interface it follows, in an entry of the HID table taken for the device.
\<close>

theorem configuration_is_recorded:
  assumes "well_formed {} s" and "d < MaximumDevices" and "MaxInterface (device s d) = 0" and "PayLoadId (device s d) = NoPayload"
    and "\<exists>h<MaximumHids. MaxHID (HidTable s ! h) = 0"
    and "config_ok ([], []) items" and "items \<noteq> []" and "length (concat items) \<le> 1024"
  shows "\<exists>s'. parse_config 1024 d (concat items @ rest) (config_end (of_nat (length (concat items)))) 0 0 0 s =
      Inr ((Ok, of_nat (length (snd (foldl add_item ([], []) items)))), s') \<and>
    tables_show s' d (foldl add_item ([], []) items)"
proof -
  have st: "walk_state s d ([], []) 0 0"
    using assms(1-5) by (simp add: walk_state_def tables_show_def shows_interfaces_def shows_hids_def table_sizes)
  have len: "2 * length items \<le> length (concat items)" by (rule config_items_bound [OF assms(6)])
  moreover have "0 < length items" using assms(7) by simp
  ultimately have "length items < 1024" and pos: "0 < length (concat items)" using assms(8) by linarith+
  then obtain s' e' k' where "parse_config 1024 d (concat items @ rest) (length (concat items) - 1) 0 0 0 s = Inr ((Ok, k'), s')"
    and "walk_state s' d (foldl add_item ([], []) items) e' k'"
    using config_walk [OF st assms(6) \<open>length items < 1024\<close>, of "concat items @ rest" "[]" rest] by auto
  then show ?thesis by (simp add: walk_state_def config_end_length [OF pos assms(8)])
qed

definition keyboard_config :: "u8 list list" where
  "keyboard_config = [[9, 2, 34, 0, 1, 1, 0, 0xA0, 50], [9, 4, 0, 0, 1, 3, 1, 1, 0], [9, 33, 0x11, 1, 0, 1, 34, 63, 0], [7, 5, 0x81, 3, 8, 0, 10]]"

definition allocated_example :: usb where
  "allocated_example = snd (UsbAllocateDevice usb_zero)"

lemma allocated_example_facts:
  "well_formed {} allocated_example" "MaxInterface (device allocated_example 0) = 0" "PayLoadId (device allocated_example 0) = NoPayload"
  "\<exists>h<MaximumHids. MaxHID (HidTable allocated_example ! h) = 0"
proof -
  have f: "find (\<lambda>n. PayLoadId (device usb_zero n) = ErrorPayload) [0..<MaximumDevices] = Some 0"
    by (simp add: table_sizes upt_conv_Cons device_def usb_zero_def)
  obtain r p s where u: "UsbAllocateDevice usb_zero = ((r, p), s)" by (metis prod.collapse)
  from UsbAllocateDevice_wf [OF u well_formed_zero] show "well_formed {} allocated_example" by (simp add: allocated_example_def u)
  show "MaxInterface (device allocated_example 0) = 0" "PayLoadId (device allocated_example 0) = NoPayload"
    by (simp_all add: allocated_example_def UsbAllocateDevice_def f device_update) (simp_all add: usb_zero_def device_def device_zero_def)
  show "\<exists>h<MaximumHids. MaxHID (HidTable allocated_example ! h) = 0"
    by (rule exI [of _ 0]) (simp add: allocated_example_def UsbAllocateDevice_def f, simp add: usb_zero_def hid_zero_def MaximumHids_def)
qed

theorem configuration_is_recorded_witness:
  "\<exists>s'. parse_config 1024 0 (concat keyboard_config @ [0, 0]) (config_end (of_nat (length (concat keyboard_config)))) 0 0 0 allocated_example =
      Inr ((Ok, of_nat (length (snd (foldl add_item ([], []) keyboard_config)))), s') \<and>
    tables_show s' 0 (foldl add_item ([], []) keyboard_config)"
  by (rule configuration_is_recorded)
    (simp_all add: allocated_example_facts allocated_example_facts(4) [unfolded MaximumHids_def] table_sizes
      keyboard_config_def item_ok_def room_def add_item_def)

end
