(* ===== verification/Usb_Driver.thy ===== *)
theory Usb_Driver
  imports Usb_Config
begin

text \<open>
  Runs of the USB driver: every state that a run reaches has well-formed tables, devices answer to the number of
  their slot, and interrupt transfers stay inside the tables. An example bus with one device carries the
  witnesses.
\<close>

section \<open>An example bus\<close>

definition example_config :: "u8 list list" where
  "example_config = [[9, 2, 25, 0, 1, 1, 0, 0xA0, 50], [9, 4, 0, 0, 1, 0xff, 0, 0, 0], [7, 5, 0x81, 3, 8, 0, 10]]"

definition example_reply :: "u8 list \<Rightarrow> u8 list" where
  "example_reply r =
     (if r ! 3 = 1 then [18, 1, 0, 2, 0, 0, 0, 8, 0x5e, 4, 0x50, 7, 0, 1, 0, 0, 0, 1] else concat example_config)"

definition example_bus :: usb_bus where
  "example_bus = willing_bus (\<lambda>t. case t of XferOut p ty bytes pid n # _ \<Rightarrow> example_reply bytes | _ \<Rightarrow> [])"

lemma example_in:
  "\<exists>t'. HCDSubmitControlMessage example_bus p USB_DIRECTION_IN (Receive n) req t =
     ((Ok, take n (example_reply (request_bytes req)), Some (of_nat n)), t')"
  by (simp add: HCDSubmitControlMessage_def transfer_defs example_bus_def willing_bus_def buffer_length_def Let_def)

lemma example_out: "\<exists>t'. HCDSubmitControlMessage example_bus p USB_DIRECTION_OUT NoBuffer req t = ((Ok, [], Some 0), t')"
  by (simp add: HCDSubmitControlMessage_def transfer_defs example_bus_def willing_bus_def buffer_length_def Let_def)

lemma example_set_address: "a \<noteq> 0 \<Longrightarrow> \<exists>t'. HCDSetAddress example_bus p a t = (Ok, t')"
  by (simp add: HCDSetAddress_def HCDSubmitControlMessage_def transfer_defs example_bus_def willing_bus_def Let_def)

lemma example_set_configuration: "\<exists>t'. HCDSetConfiguration example_bus p c t = (Ok, t')"
  by (simp add: HCDSetConfiguration_def HCDSubmitControlMessage_def transfer_defs example_bus_def willing_bus_def Let_def)

lemma request_type:
  "request_bytes (descriptor_request r ty 0 l n) ! 3 = descriptor_code ty"
  by (cases ty; simp add: request_bytes_def descriptor_request_def bytes16_def; code_simp)

lemma example_descriptor:
  assumes "ty = USB_DESCRIPTOR_TYPE_DEVICE \<and> n = 18 \<or> ty = USB_DESCRIPTOR_TYPE_CONFIGURATION \<and> n = 9"
  shows "\<exists>t'. HCDGetDescriptor example_bus p ty 0 0 n bmREQ_GET_DEVICE_DESCRIPTOR True t =
    ((Ok, take n (example_reply (request_bytes (descriptor_request 0 ty 0 0 n))), Some (of_nat n)), t')"
proof -
  obtain t1 where a: "HCDSubmitControlMessage example_bus p USB_DIRECTION_IN (Receive 2) (descriptor_request bmREQ_GET_DEVICE_DESCRIPTOR ty 0 0 2) t =
     ((Ok, take 2 (example_reply (request_bytes (descriptor_request bmREQ_GET_DEVICE_DESCRIPTOR ty 0 0 2))), Some (of_nat 2)), t1)"
    using example_in by blast
  obtain t2 where c: "HCDSubmitControlMessage example_bus p USB_DIRECTION_IN (Receive n) (descriptor_request bmREQ_GET_DEVICE_DESCRIPTOR ty 0 0 n) t1 =
     ((Ok, take n (example_reply (request_bytes (descriptor_request bmREQ_GET_DEVICE_DESCRIPTOR ty 0 0 n))), Some (of_nat n)), t2)"
    using example_in by blast
  from assms a c show ?thesis
    by (elim disjE conjE)
      (simp_all add: HCDGetDescriptor_def descriptor_body_def Let_def example_reply_def request_type overwrite_def example_config_def)
qed

lemma example_address:
  assumes "0 < length (DeviceTable s)" and "pipe_Number (Pipe0 (device s 0)) \<noteq> 0"
  shows "\<exists>t f. address_device example_bus 0 None 0 s = (Ok, (update_device 0 f s)\<lparr>Trace := t\<rparr>) \<and>
    (\<forall>x. MaxInterface (f x) = MaxInterface x \<and> PayLoadId (f x) = PayLoadId x)"
proof -
  define a where "a = pipe_Number (Pipe0 (device s 0))"
  define s1 where "s1 = set_packet_size 0 8 (set_number 0 0 s)"
  obtain t2 where m: "HCDSubmitControlMessage example_bus (pipe_of s1 0) USB_DIRECTION_IN (Receive 8)
      (descriptor_request bmREQ_GET_DEVICE_DESCRIPTOR USB_DESCRIPTOR_TYPE_DEVICE 0 0 8) (Trace s1) =
     ((Ok, take 8 (example_reply (request_bytes (descriptor_request bmREQ_GET_DEVICE_DESCRIPTOR USB_DESCRIPTOR_TYPE_DEVICE 0 0 8))), Some 8), t2)"
    using example_in [of "pipe_of s1 0" 8] by (metis of_nat_numeral)
  define s3 where "s3 = set_status 0 USB_STATUS_DEFAULT (set_packet_size 0 8 (s1\<lparr>Trace := t2\<rparr>))"
  obtain t4 where ad: "HCDSetAddress example_bus (pipe_of s3 0) a (Trace s3) = (Ok, t4)"
    using example_set_address assms(2) unfolding a_def by blast
  have "(bMaxPacketSize0 (device_descriptor_of (overwrite (take 8 (example_reply (request_bytes
      (descriptor_request bmREQ_GET_DEVICE_DESCRIPTOR USB_DESCRIPTOR_TYPE_DEVICE 0 0 8)))) (replicate 18 0)))) = 8"
    by (simp add: example_reply_def request_type device_descriptor_of_def overwrite_def)
  then have "address_device example_bus 0 None 0 s =
      (Ok, set_status 0 USB_STATUS_ADDRESSED (waited 10000 (set_number 0 a (s3\<lparr>Trace := t4\<rparr>))))"
    using m ad by (simp add: address_device_def Let_def on_bus_def a_def pipe_of_def stored_def flip: s1_def s3_def)
  also have "set_status 0 USB_STATUS_ADDRESSED (waited 10000 (set_number 0 a (s3\<lparr>Trace := t4\<rparr>))) =
      (update_device 0 (\<lambda>x. x\<lparr>Pipe0 := (Pipe0 x)\<lparr>MaxPacketSizeInBytes := 8, pipe_Number := a\<rparr>, Status := USB_STATUS_ADDRESSED\<rparr>) s)\<lparr>Trace := Waited 10000 # t4\<rparr>"
    using assms(1)
    by (intro usb.equality) (simp_all add: set_status_def waited_def set_number_def s3_def s1_def set_packet_size_def update_device_def)
  finally show ?thesis by (intro exI conjI) (assumption, simp)
qed

lemma parse_config_frame:
  assumes "d < length (DeviceTable s)"
  shows "ensures (parse_config n d cfg end i e k s) (\<lambda>(_, s'). d < length (DeviceTable s') \<and>
    Descriptor (device s' d) = Descriptor (device s d) \<and> ConfigStringIndex (device s' d) = ConfigStringIndex (device s d))"
  using assms
proof (induction n arbitrary: i e k s)
  case (Suc n)
  define same where "same = (\<lambda>s'. d < length (DeviceTable s') \<and>
    Descriptor (device s' d) = Descriptor (device s d) \<and> ConfigStringIndex (device s' d) = ConfigStringIndex (device s d))"
  have upd: "same (update_device d f s')" if "same s'" "\<And>x. Descriptor (f x) = Descriptor x" "\<And>x. ConfigStringIndex (f x) = ConfigStringIndex x" for f s'
    using that by (simp add: same_def device_update) (simp add: update_device_def)
  have hid: "same (update_hid h g s')" if "same s'" for h g s' using that by (simp add: same_def) (simp add: update_hid_def)
  have s: "same s" using Suc.prems by (simp add: same_def)
  have IH: "ensures (parse_config n d cfg end i e k s1) (\<lambda>(_, s'). same s')" if "same s1" for i e k s1
    using Suc.IH [of s1 i e k] that by (auto simp: same_def ensures_def)
  have 1: "ensures (add_interface d cfg i s) same" and 2: "ensures (add_endpoint d cfg i e s) same"
    using s by (auto simp: add_interface_def add_endpoint_def Let_def intro!: upd)
  have 3: "ensures (add_hid d cfg i k s) (\<lambda>(_, s'). same s')"
  proof -
    obtain r s1 where a: "(if k = 0 then AddHidPayload (Some d) s else (Ok, s)) = (r, s1)" by fastforce
    then have "same s1"
      using s by (auto simp: AddHidPayload_def AllocateHidPayload_def Let_def split: if_splits option.splits intro!: upd hid)
    then show ?thesis
      unfolding add_hid_def a by (auto simp: SetHidDescriptor_def Let_def split: option.split prod.split intro!: upd hid split: if_splits)
  qed
  have "ensures (parse_config (Suc n) d cfg end i e k s) (\<lambda>(_, s'). same s')"
    unfolding parse_config.simps Let_def
    using s by (intro ensures_if ensures_rbind [OF 1] ensures_rbind [OF 2] ensures_rbind [OF 3] IH) (auto intro!: IH)
  then show ?case by (simp add: same_def)
qed simp

lemma example_configuration:
  assumes "well_formed {} s" and "MaxInterface (device s 0) = 0" and "PayLoadId (device s 0) = NoPayload"
    and "\<exists>h<MaximumHids. MaxHID (HidTable s ! h) = 0"
  shows "\<exists>s'. read_configuration example_bus 0 s = Inr ((Ok, 1, 0), s') \<and> well_formed {} s' \<and>
    Descriptor (device s' 0) = Descriptor (device s 0) \<and> ConfigStringIndex (device s' 0) = 0 \<and>
    tables_show s' 0 ([(interface_of [9, 4, 0, 0, 1, 0xff, 0, 0, 0], [endpoint_of [7, 5, 0x81, 3, 8, 0, 10]])], [])"
proof -
  obtain t1 where g: "HCDGetDescriptor example_bus (pipe_of s 0) USB_DESCRIPTOR_TYPE_CONFIGURATION 0 0 9 bmREQ_GET_DEVICE_DESCRIPTOR True (Trace s) =
    ((Ok, take 9 (example_reply (request_bytes (descriptor_request 0 USB_DESCRIPTOR_TYPE_CONFIGURATION 0 0 9))), Some (of_nat 9)), t1)"
    using example_descriptor by blast
  define s2 where "s2 = update_device 0 (ConfigStringIndex_update (\<lambda>_. 0)) (s\<lparr>Trace := t1\<rparr>)"
  obtain t3 where m: "HCDSubmitControlMessage example_bus (pipe_of s2 0) USB_DIRECTION_IN (Receive 25)
      (descriptor_request bmREQ_GET_DEVICE_DESCRIPTOR USB_DESCRIPTOR_TYPE_CONFIGURATION 0 0 25) (Trace s2) =
     ((Ok, take 25 (example_reply (request_bytes (descriptor_request bmREQ_GET_DEVICE_DESCRIPTOR USB_DESCRIPTOR_TYPE_CONFIGURATION 0 0 25))), Some (of_nat 25)), t3)"
    using example_in [of "pipe_of s2 0" 25] by blast
  define s3 where "s3 = s2\<lparr>Trace := t3\<rparr>"
  define cfg where "cfg = overwrite (concat example_config) (junk example_bus (Trace s2) 0 1024)"
  have len: "length (DeviceTable s) = 32" using assms(1) by (simp add: well_formed_def table_sizes)
  have dev: "device s3 0 = (device s 0)\<lparr>ConfigStringIndex := 0\<rparr>" using len by (simp add: s3_def s2_def device_update)
  have "well_formed {} s2"
    unfolding s2_def by (rule well_formed_device_keep) (simp_all add: assms(1) typed_device_def)
  then have wf3: "well_formed {} s3" by (simp add: s3_def)
  have hids: "HidTable s3 = HidTable s" by (simp add: s3_def s2_def)
  have st: "walk_state s3 0 ([], []) 0 0"
    using wf3 assms(2-4) by (simp add: walk_state_def tables_show_def shows_interfaces_def shows_hids_def dev hids table_sizes)
  have ok: "config_ok ([], []) example_config"
    by (simp add: example_config_def item_ok_def room_def add_item_def table_sizes)
  obtain s' e' k' where w: "parse_config 1024 0 cfg (length (concat example_config) - 1) 0 0 0 s3 = Inr ((Ok, k'), s')"
    "walk_state s' 0 (foldl add_item ([], []) example_config) e' k'"
    using config_walk [OF st ok, of 1024 cfg "[]"] unfolding cfg_def overwrite_def
    by (auto simp: example_config_def)
  have read: "foldl add_item ([], []) example_config =
      ([(interface_of [9, 4, 0, 0, 1, 0xff, 0, 0, 0], [endpoint_of [7, 5, 0x81, 3, 8, 0, 10]])], [])"
    by (simp add: example_config_def add_item_def)
  then have k: "k' = 0" using w(2) by (simp add: walk_state_def)
  have conf: "configuration_descriptor_of (overwrite (take 9 (concat example_config)) j) =
      \<lparr>wTotalLength = 25, bNumInterfaces = 1, bConfigurationValue = 1, iConfiguration = 0, bmAttributes = 0xA0, bMaxPower = 50\<rparr>" for j
    by (simp add: configuration_descriptor_of_def example_config_def overwrite_def le16_def)
  have ends: "config_end 25 = length (concat example_config) - 1" by (simp add: config_end_def example_config_def)
  have all: "take 25 (concat example_config) = concat example_config" "\<not> 1024 < length (concat example_config)"
    by (simp_all add: example_config_def)
  have "read_configuration example_bus 0 s = Inr ((Ok, 1, 0), s')"
    using g m w(1) k
    by (simp add: read_configuration_def Let_def on_bus_def conf example_reply_def request_type stored_def ends all
        flip: s2_def s3_def cfg_def)
  moreover have "ensures (parse_config 1024 0 cfg (length (concat example_config) - 1) 0 0 0 s3) (\<lambda>(_, s'). 0 < length (DeviceTable s') \<and>
      Descriptor (device s' 0) = Descriptor (device s3 0) \<and> ConfigStringIndex (device s' 0) = ConfigStringIndex (device s3 0))"
    by (rule parse_config_frame) (use wf3 in \<open>simp add: well_formed_def table_sizes\<close>)
  then have "Descriptor (device s' 0) = Descriptor (device s 0)" "ConfigStringIndex (device s' 0) = 0"
    using w(1) by (simp_all add: ensures_def dev)
  ultimately show ?thesis using w(2) by (simp add: walk_state_def read)
qed

lemma example_start: "\<exists>s. UsbInitialize None example_bus usb_zero = Inr (Ok, s) \<and>
  tables_show s 0 ([(interface_of [9, 4, 0, 0, 1, 0xff, 0, 0, 0], [endpoint_of [7, 5, 0x81, 3, 8, 0, 10]])], [])"
proof -
  define s0 where "s0 = update_device 0 (\<lambda>x. x
    \<lparr>Pipe0 := (Pipe0 x)\<lparr>pipe_Number := 1, Speed := USB_SPEED_HIGH\<rparr>, Status := USB_STATUS_ATTACHED,
     PayLoadId := NoPayload, PayLoad := None, ParentNumber := 0xFF, ParentPort := 0\<rparr>) usb_zero"
  have wf0: "well_formed {} s0" unfolding s0_def by (rule well_formed_device [OF well_formed_zero]) (auto simp: typed_device_def)
  have len: "length (DeviceTable s0) = 32" using wf0 by (simp add: well_formed_def table_sizes)
  have dev0: "pipe_Number (Pipe0 (device s0 0)) = 1" "MaxInterface (device s0 0) = 0" "PayLoadId (device s0 0) = NoPayload"
    and hid0: "MaxHID (HidTable s0 ! 0) = 0"
    by (simp_all add: s0_def device_update) (simp_all add: usb_zero_def device_def device_zero_def hid_zero_def)
  obtain t1 f where a: "address_device example_bus 0 None 0 s0 = (Ok, (update_device 0 f s0)\<lparr>Trace := t1\<rparr>)"
    and f: "\<forall>x. MaxInterface (f x) = MaxInterface x \<and> PayLoadId (f x) = PayLoadId x"
    using example_address [of s0] len dev0(1) by auto
  define s1 where "s1 = (update_device 0 f s0)\<lparr>Trace := t1\<rparr>"
  have wf1: "well_formed {} s1" using address_device_result [OF a wf0] by (auto simp: s1_def table_sizes split: if_splits)
  have dev1: "MaxInterface (device s1 0) = 0" "PayLoadId (device s1 0) = NoPayload" and hid1: "MaxHID (HidTable s1 ! 0) = 0"
    using f dev0 hid0 len by (simp_all add: s1_def device_update)
  obtain t2 where g: "HCDGetDescriptor example_bus (pipe_of s1 0) USB_DESCRIPTOR_TYPE_DEVICE 0 0 18 bmREQ_GET_DEVICE_DESCRIPTOR True (Trace s1) =
    ((Ok, take 18 (example_reply (request_bytes (descriptor_request 0 USB_DESCRIPTOR_TYPE_DEVICE 0 0 18))), Some (of_nat 18)), t2)"
    using example_descriptor by blast
  define D where "D = device_descriptor_of [18, 1, 0, 2, 0, 0, 0, 8, 0x5e, 4, 0x50, 7, 0, 1, 0, 0, 0, 1]"
  define s2 where "s2 = update_device 0 (Descriptor_update (\<lambda>_. D)) (s1\<lparr>Trace := t2\<rparr>)"
  have over: "device_descriptor_of (overwrite [18, 1, 0, 2, 0, 0, 0, 8, 0x5e, 4, 0x50, 7, 0, 1, 0, 0, 0, 1] old) = D" for old
    by (simp add: D_def overwrite_def device_descriptor_of_def)
  have r: "read_device_descriptor example_bus 0 s1 = (Ok, s2)"
    using g by (simp add: read_device_descriptor_def Let_def on_bus_def example_reply_def request_type stored_def over s2_def)
  have wf2: "well_formed {} s2" by (rule read_device_descriptor_wf [OF r wf1])
  have len1: "length (DeviceTable s1) = 32" using wf1 by (simp add: well_formed_def table_sizes)
  then have dev2: "MaxInterface (device s2 0) = 0" "PayLoadId (device s2 0) = NoPayload" "Descriptor (device s2 0) = D"
    and hid2: "MaxHID (HidTable s2 ! 0) = 0"
    using dev1 hid1 by (simp_all add: s2_def device_update)
  obtain s3 where c: "read_configuration example_bus 0 s2 = Inr ((Ok, 1, 0), s3)" and wf3: "well_formed {} s3"
    and dev3: "Descriptor (device s3 0) = D" "ConfigStringIndex (device s3 0) = 0"
    and shown: "tables_show s3 0 ([(interface_of [9, 4, 0, 0, 1, 0xff, 0, 0, 0], [endpoint_of [7, 5, 0x81, 3, 8, 0, 10]])], [])"
  proof -
    have "\<exists>h<MaximumHids. MaxHID (HidTable s2 ! h) = 0" using hid2 by (intro exI [of _ 0]) (simp add: table_sizes)
    from example_configuration [OF wf2 dev2(1,2) this] that show ?thesis unfolding dev2(3) by blast
  qed
  obtain t4 where sc: "HCDSetConfiguration example_bus (pipe_of s3 0) 1 (Trace s3) = (Ok, t4)" using example_set_configuration by blast
  define s4 where "s4 = set_status 0 USB_STATUS_CONFIGURED (update_device 0 (ConfigIndex_update (\<lambda>_. 1)) (s3\<lparr>Trace := t4\<rparr>))"
  have len3: "length (DeviceTable s3) = 32" using wf3 by (simp add: well_formed_def table_sizes)
  then have dev4: "Descriptor (device s4 0) = D" "ConfigStringIndex (device s4 0) = 0"
    using dev3 by (simp_all add: s4_def set_status_def update_device_twice device_update)
  have zero: "iProduct D = 0" "iManufacturer D = 0" "iSerialNumber D = 0" "bDeviceClass D = 0"
    by (simp_all add: D_def device_descriptor_of_def)
  have fin: "finish_device enum example_bus 0 1 0 s3 = Inr (Ok, s4)" for enum
    using sc by (simp add: finish_device_def on_bus_def Let_def read_string_if_def dev4 zero flip: s4_def)
  have "EnumerateDevice enum_depth example_bus 0 None 0 s0 = Inr (Ok, s4)"
    by (simp add: enum_depth_def numeral_eq_Suc a r c fin flip: s1_def)
  then have "UsbInitialize None example_bus usb_zero = Inr (Ok, s4)" by (simp add: UsbInitialize_def Let_def flip: s0_def)
  moreover have "tables_show s4 0 ([(interface_of [9, 4, 0, 0, 1, 0xff, 0, 0, 0], [endpoint_of [7, 5, 0x81, 3, 8, 0, 10]])], [])"
    using shown len3 by (simp add: tables_show_def shows_interfaces_def shows_hids_def s4_def set_status_def update_device_twice device_update)
  ultimately show ?thesis by blast
qed

section \<open>What the tables promise\<close>

lemma device_address:
  assumes "well_formed {} s" and "UsbDeviceAtAddress s n = Some d"
  shows "d < MaximumDevices" and "PayLoadId (device s d) \<noteq> ErrorPayload" and "d + 1 = unat n" and "pipe_Number (Pipe0 (device s d)) = n"
proof -
  from assms(2) have n: "n \<noteq> 0" "\<not> 32 < n" "d = unat n - 1" "PayLoadId (device s d) \<noteq> ErrorPayload"
    by (auto simp: UsbDeviceAtAddress_def table_sizes Let_def split: if_splits)
  then have "0 < unat n" "unat n \<le> 32" by (simp_all add: word_less_nat_alt not_less unat_gt_0)
  with n show d: "d < MaximumDevices" "d + 1 = unat n" by (simp_all add: table_sizes)
  show "PayLoadId (device s d) \<noteq> ErrorPayload" by (rule n(4))
  have "pipe_Number (Pipe0 (device s d)) = of_nat (d + 1)"
    using assms(1) d(1) n(4) by (simp add: well_formed_def own_number_def)
  then show "pipe_Number (Pipe0 (device s d)) = n" by (simp only: d(2)) simp
qed

lemma interrupt_endpoint_inside:
  assumes "well_formed {} s"
  shows "\<exists>r. interrupt_endpoint s n i = Inr r \<and> (\<forall>d interface e. r = Inr (d, interface, e) \<longrightarrow> d < MaximumDevices)"
proof (cases "hid_of s n")
  case (Inl e)
  then show ?thesis by (simp add: interrupt_endpoint_def)
next
  case (Inr p)
  obtain d h where p: "p = (d, h)" by fastforce
  then have d: "d < MaximumDevices" and h: "h < MaximumHids"
    using Inr device_address(1) [OF assms] hid_payload [OF assms]
    by (auto simp: hid_of_def GetHidDevice_def split: option.splits if_splits)
  show ?thesis
  proof (cases "MaxHID (HidTable s ! h) \<le> i")
    case True
    then show ?thesis by (simp add: interrupt_endpoint_def Inr p)
  next
    case False
    then have "unat i < MaxHIDPerDevice"
      using typed_hid_at [OF assms h] by (simp add: typed_hid_def word_le_nat_alt)
    then obtain k where k: "hid_interface s h i = Inr k" by (simp add: hid_interface_def)
    have "unat (MaxInterface (device s d)) \<le> MaxInterfacesPerDevice" using typed_device_at [OF assms d] by (simp add: typed_device_def)
    then have "\<exists>e. FindEndpoint (device s d) k USB_TRANSFER_TYPE_INTERRUPT USB_DIRECTION_IN = Inr e"
      by (auto simp: FindEndpoint_def Let_def word_le_nat_alt split: option.split)
    with False k d show ?thesis by (auto simp: interrupt_endpoint_def Inr p)
  qed
qed

lemma locate_endpoint_inside: "typed_device x \<Longrightarrow> \<exists>r. locate_endpoint x e = Inr r"
  by (auto simp: locate_endpoint_def typed_device_def split: option.split)

lemma endpoint_transfer_inside:
  assumes "well_formed {} s" and "d < MaximumDevices"
  shows "\<exists>x s'. HCDEndpointTransfer b d e buf s = Inr (x, s')"
proof -
  obtain r where r: "locate_endpoint (device s d) e = Inr r" using locate_endpoint_inside [OF typed_device_at [OF assms]] by blast
  have "locate_endpoint (device (s\<lparr>Trace := t\<rparr>) d) e = Inr r" for t using r by simp
  with r show ?thesis
    by (auto simp: HCDEndpointTransfer_def choose_pid_def update_toggle_def Let_def split: prod.split)
qed

lemma interrupt_read_inside:
  assumes "well_formed {} s"
  shows "\<exists>x s'. HIDReadInterruptReport b n i buf s = Inr (x, s')"
proof (cases buf)
  case (Some bytes)
  obtain r where r: "interrupt_endpoint s n i = Inr r" "\<forall>d interface e. r = Inr (d, interface, e) \<longrightarrow> d < MaximumDevices"
    using interrupt_endpoint_inside [OF assms] by blast
  show ?thesis
  proof (cases r)
    case (Inr p)
    obtain d k e where p: "p = (d, k, e)" by (metis prod.collapse)
    with Inr r(2) endpoint_transfer_inside [OF assms] obtain x s' where "HCDEndpointTransfer b d e bytes s = Inr (x, s')" by blast
    then show ?thesis by (cases x) (simp add: HIDReadInterruptReport_def HIDStartInterruptIN_def Some r(1) Inr p)
  qed (simp add: HIDReadInterruptReport_def HIDStartInterruptIN_def Some r(1))
qed (simp add: HIDReadInterruptReport_def HIDStartInterruptIN_def)

section \<open>Properties\<close>

lemma example_driver: "\<exists>s. driver example_bus s"
  using example_start driver.start by blast



text \<open>
  C36: in every state of a run the number of a device leads back to it: \<^verbatim>\<open>UsbDeviceAtAddress\<close> of the number that
  \<^verbatim>\<open>GetDeviceNumber\<close> gives for a slot is that slot if it is in use, and nothing otherwise.
\<close>

theorem device_numbers_round_trip:
  assumes "driver b s" and "d < MaximumDevices"
  shows "UsbDeviceAtAddress s (GetDeviceNumber s (Some d)) = (if PayLoadId (device s d) = ErrorPayload then None else Some d)"
proof (cases "PayLoadId (device s d) = ErrorPayload")
  case False
  then have "pipe_Number (Pipe0 (device s d)) = of_nat (d + 1)"
    using driver_well_formed [OF assms(1)] assms(2) by (simp add: well_formed_def own_number_def)
  moreover have n: "unat (of_nat (d + 1) :: u8) = d + 1" using assms(2) by (intro unat_small) (simp add: table_sizes)
  moreover have "of_nat (d + 1) \<noteq> (0 :: u8)" "\<not> 32 < (of_nat (d + 1) :: u8)"
    using n assms(2) by (auto simp: word_less_nat_alt table_sizes simp flip: unat_eq_0)
  ultimately show ?thesis using False by (simp add: UsbDeviceAtAddress_def GetDeviceNumber_def table_sizes del: of_nat_Suc of_nat_add)
qed (simp add: UsbDeviceAtAddress_def GetDeviceNumber_def)

theorem device_numbers_round_trip_witness:
  "\<exists>s. driver example_bus s \<and>
     UsbDeviceAtAddress s (GetDeviceNumber s (Some 0)) = (if PayLoadId (device s 0) = ErrorPayload then None else Some 0)"
proof -
  obtain s where "driver example_bus s" using example_driver by blast
  with device_numbers_round_trip [OF this, of 0] show ?thesis by (auto simp: table_sizes)
qed



end
