(* ===== verification/Register_Bus.thy ===== *)
theory Register_Bus
  imports Gpio
begin

text \<open>
  Device registers behind the proxies of \<^verbatim>\<open>src/BootLib/inc/BootLib/RegisterProxy.h\<close>. A driver sees a device through the
  values that its registers read as and through the performance counter; both are arguments and depend on
  everything that happened before: the reads with their values, the writes, the delays and whatever else a
  driver lets the device see. The trace has the newest event first.
\<close>

section \<open>Traces and devices\<close>

datatype 'e reg_event = RegRead nat u32 | RegWrite nat u32 | Paused nat | Ticked u64 | Noted 'e

type_synonym 'e reg_trace = "'e reg_event list"

record 'e device =
  reads :: "'e reg_trace \<Rightarrow> nat \<Rightarrow> u32"
  counter :: "'e reg_trace \<Rightarrow> u64"

definition reg_get :: "'e device \<Rightarrow> nat \<Rightarrow> 'e reg_trace \<Rightarrow> u32 \<times> 'e reg_trace" where
  "reg_get d r t = (let v = reads d t r in (v, RegRead r v # t))"

definition reg_set :: "nat \<Rightarrow> u32 \<Rightarrow> 'e reg_trace \<Rightarrow> 'e reg_trace" where
  "reg_set r v t = RegWrite r v # t"

definition reg_modify :: "'e device \<Rightarrow> nat \<Rightarrow> (u32 \<Rightarrow> u32) \<Rightarrow> 'e reg_trace \<Rightarrow> 'e reg_trace" where
  "reg_modify d r f t = (let (v, t) = reg_get d r t in reg_set r (f v) t)"

definition pause :: "nat \<Rightarrow> 'e reg_trace \<Rightarrow> 'e reg_trace" where
  "pause us t = Paused us # t"

definition GetPerformanceCounter :: "'e device \<Rightarrow> 'e reg_trace \<Rightarrow> u64 \<times> 'e reg_trace" where
  "GetPerformanceCounter d t = (let v = counter d t in (v, Ticked v # t))"

lemma reg_get_simps [simp]:
  "fst (reg_get d r t) = reads d t r"
  "snd (reg_get d r t) = RegRead r (reads d t r) # t"
  by (simp_all add: reg_get_def Let_def)

text \<open>What was written to a register last.\<close>

fun last_write :: "nat \<Rightarrow> 'e reg_trace \<Rightarrow> u32 option" where
  "last_write r [] = None"
| "last_write r (RegWrite q v # t) = (if q = r then Some v else last_write r t)"
| "last_write r (_ # t) = last_write r t"

text \<open>The writes in the order in which the device saw them.\<close>

fun register_writes :: "'e reg_trace \<Rightarrow> (nat \<times> u32) list" where
  "register_writes [] = []"
| "register_writes (RegWrite r v # t) = register_writes t @ [(r, v)]"
| "register_writes (_ # t) = register_writes t"

section \<open>Fields of a register\<close>

definition put_field :: "nat \<Rightarrow> nat \<Rightarrow> u32 \<Rightarrow> u32 \<Rightarrow> u32" where
  "put_field n s v w = (w AND NOT (push_bit s (mask n))) OR push_bit s (take_bit n v)"

lemma get_put_same [simp]: "s + n \<le> 32 \<Longrightarrow> get_field n s (put_field n s v w) = take_bit n v"
  unfolding put_field_def by (rule get_field_same) simp_all

lemma get_put_other: "s + n \<le> s' \<or> s' + n' \<le> s \<Longrightarrow> get_field n' s' (put_field n s v w) = get_field n' s' w"
proof (rule bit_word_eqI)
  fix i
  assume "i < LENGTH(32)" and "s + n \<le> s' \<or> s' + n' \<le> s"
  then show "bit (get_field n' s' (put_field n s v w)) i = bit (get_field n' s' w) i"
    using bit_imp_le_length [of w "s' + i"] by (auto simp: get_field_def put_field_def bit_simps)
qed

lemma bit_put_field:
  "bit (put_field n s v w) k \<longleftrightarrow> k < 32 \<and> (if s \<le> k \<and> k < s + n then bit v (k - s) else bit w k)"
  using bit_imp_le_length [of w k] by (auto simp: put_field_def bit_simps)

definition flag :: "bool \<Rightarrow> u32" where
  "flag b = (if b then 1 else 0)"

end
