(* ===== verification/Sd_Card.thy ===== *)
theory Sd_Card
  imports Register_Bus
begin

text \<open>
  The card reader of \<^verbatim>\<open>src/SdCard.cpp\<close>: the register protocol of the host controller, the set-up of the card and
  the reading of blocks. Addresses are relative to the peripheral base; the five variables of the anonymous
  namespace and the pins are the state. What is printed is left out. The C type \<^verbatim>\<open>unsigned long\<close> has 64 bits,
  an \<^verbatim>\<open>int\<close> that is stored in it is sign-extended.
\<close>

unbundle bit_operations_syntax

section \<open>Registers and constants\<close>

definition SdCard_RegistersOffset :: nat where "SdCard_RegistersOffset = 0x300000"
definition BLKSIZECNT :: nat where "BLKSIZECNT = SdCard_RegistersOffset + 0x04"
definition ARG1 :: nat where "ARG1 = SdCard_RegistersOffset + 0x08"
definition CMDTM :: nat where "CMDTM = SdCard_RegistersOffset + 0x0C"
definition RESP0 :: nat where "RESP0 = SdCard_RegistersOffset + 0x10"
definition RESP1 :: nat where "RESP1 = SdCard_RegistersOffset + 0x14"
definition RESP2 :: nat where "RESP2 = SdCard_RegistersOffset + 0x18"
definition RESP3 :: nat where "RESP3 = SdCard_RegistersOffset + 0x1C"
definition DATA :: nat where "DATA = SdCard_RegistersOffset + 0x20"
definition STATUS :: nat where "STATUS = SdCard_RegistersOffset + 0x24"
definition CONTROL0 :: nat where "CONTROL0 = SdCard_RegistersOffset + 0x28"
definition CONTROL1 :: nat where "CONTROL1 = SdCard_RegistersOffset + 0x2C"
definition INTERRUPT :: nat where "INTERRUPT = SdCard_RegistersOffset + 0x30"
definition INT_MASK :: nat where "INT_MASK = SdCard_RegistersOffset + 0x34"
definition INT_EN :: nat where "INT_EN = SdCard_RegistersOffset + 0x38"
definition SLOTISR_VER :: nat where "SLOTISR_VER = SdCard_RegistersOffset + 0xFC"
definition WIFI_SELECT :: nat where "WIFI_SELECT = 0x2000D0"

lemmas sd_regs =
  SdCard_RegistersOffset_def BLKSIZECNT_def ARG1_def CMDTM_def RESP0_def RESP1_def RESP2_def RESP3_def DATA_def STATUS_def
  CONTROL0_def CONTROL1_def INTERRUPT_def INT_MASK_def INT_EN_def SLOTISR_VER_def WIFI_SELECT_def

abbreviation (input) SD_OK :: u32 where "SD_OK \<equiv> 0"
abbreviation SD_TIMEOUT :: u32 where "SD_TIMEOUT \<equiv> -1"
abbreviation SD_ERROR :: u32 where "SD_ERROR \<equiv> -2"

abbreviation CMD_NEED_APP :: u32 where "CMD_NEED_APP \<equiv> 0x80000000"
abbreviation CMD_RSPNS_48 :: u32 where "CMD_RSPNS_48 \<equiv> 0x00020000"
abbreviation CMD_ERRORS_MASK :: u32 where "CMD_ERRORS_MASK \<equiv> 0xfff9c004"
abbreviation CMD_RCA_MASK :: u32 where "CMD_RCA_MASK \<equiv> 0xffff0000"
abbreviation (input) CMD_GO_IDLE :: u32 where "CMD_GO_IDLE \<equiv> 0x00000000"
abbreviation CMD_ALL_SEND_CID :: u32 where "CMD_ALL_SEND_CID \<equiv> 0x02010000"
abbreviation CMD_SEND_REL_ADDR :: u32 where "CMD_SEND_REL_ADDR \<equiv> 0x03020000"
abbreviation CMD_CARD_SELECT :: u32 where "CMD_CARD_SELECT \<equiv> 0x07030000"
abbreviation CMD_SEND_IF_COND :: u32 where "CMD_SEND_IF_COND \<equiv> 0x08020000"
abbreviation CMD_STOP_TRANS :: u32 where "CMD_STOP_TRANS \<equiv> 0x0C030000"
abbreviation CMD_READ_SINGLE :: u32 where "CMD_READ_SINGLE \<equiv> 0x11220010"
abbreviation CMD_READ_MULTI :: u32 where "CMD_READ_MULTI \<equiv> 0x12220032"
abbreviation CMD_SET_BLOCKCNT :: u32 where "CMD_SET_BLOCKCNT \<equiv> 0x17020000"
abbreviation CMD_APP_CMD :: u32 where "CMD_APP_CMD \<equiv> 0x37000000"
abbreviation CMD_SET_BUS_WIDTH :: u32 where "CMD_SET_BUS_WIDTH \<equiv> 0x86020000"
abbreviation CMD_SEND_OP_COND :: u32 where "CMD_SEND_OP_COND \<equiv> 0xA9020000"
abbreviation CMD_SEND_SCR :: u32 where "CMD_SEND_SCR \<equiv> 0xB3220010"

abbreviation SR_READ_AVAILABLE :: u32 where "SR_READ_AVAILABLE \<equiv> 0x00000800"
abbreviation SR_DAT_INHIBIT :: u32 where "SR_DAT_INHIBIT \<equiv> 0x00000002"
abbreviation SR_CMD_INHIBIT :: u32 where "SR_CMD_INHIBIT \<equiv> 0x00000001"
abbreviation SR_APP_CMD :: u32 where "SR_APP_CMD \<equiv> 0x00000020"
abbreviation INT_DATA_TIMEOUT :: u32 where "INT_DATA_TIMEOUT \<equiv> 0x00100000"
abbreviation INT_CMD_TIMEOUT :: u32 where "INT_CMD_TIMEOUT \<equiv> 0x00010000"
abbreviation INT_READ_RDY :: u32 where "INT_READ_RDY \<equiv> 0x00000020"
abbreviation INT_CMD_DONE :: u32 where "INT_CMD_DONE \<equiv> 0x00000001"
abbreviation INT_ERROR_MASK :: u32 where "INT_ERROR_MASK \<equiv> 0x017E8000"
abbreviation C0_HCTL_DWITDH :: u32 where "C0_HCTL_DWITDH \<equiv> 0x00000002"
abbreviation C1_SRST_HC :: u32 where "C1_SRST_HC \<equiv> 0x01000000"
abbreviation C1_TOUNIT_MAX :: u32 where "C1_TOUNIT_MAX \<equiv> 0x000e0000"
abbreviation C1_CLK_EN :: u32 where "C1_CLK_EN \<equiv> 0x00000004"
abbreviation C1_CLK_STABLE :: u32 where "C1_CLK_STABLE \<equiv> 0x00000002"
abbreviation C1_CLK_INTLEN :: u32 where "C1_CLK_INTLEN \<equiv> 0x00000001"
abbreviation HOST_SPEC_NUM :: u32 where "HOST_SPEC_NUM \<equiv> 0x00ff0000"
abbreviation HOST_SPEC_V2 :: u64 where "HOST_SPEC_V2 \<equiv> 1"
abbreviation SCR_SD_BUS_WIDTH_4 :: u64 where "SCR_SD_BUS_WIDTH_4 \<equiv> 0x00000400"
abbreviation SCR_SUPP_SET_BLKCNT :: u64 where "SCR_SUPP_SET_BLKCNT \<equiv> 0x02000000"
abbreviation SCR_SUPP_CCS :: u64 where "SCR_SUPP_CCS \<equiv> 0x00000001"
abbreviation ACMD41_VOLTAGE :: u64 where "ACMD41_VOLTAGE \<equiv> 0x00ff8000"
abbreviation ACMD41_CMD_COMPLETE :: u64 where "ACMD41_CMD_COMPLETE \<equiv> 0x80000000"
abbreviation ACMD41_CMD_CCS :: u64 where "ACMD41_CMD_CCS \<equiv> 0x40000000"
abbreviation ACMD41_ARG_HC :: u32 where "ACMD41_ARG_HC \<equiv> 0x51ff8000"

record sd =
  sd_trace :: "unit reg_trace"
  sd_gpio :: gpio
  sd_scr0 :: u64
  sd_scr1 :: u64
  sd_rca :: u64
  sd_err :: u64
  sd_hv :: u64

definition sd_get :: "unit device \<Rightarrow> nat \<Rightarrow> sd \<Rightarrow> u32 \<times> sd" where
  "sd_get d r s = (let (v, t) = reg_get d r (sd_trace s) in (v, s\<lparr>sd_trace := t\<rparr>))"

definition sd_set :: "nat \<Rightarrow> u32 \<Rightarrow> sd \<Rightarrow> sd" where
  "sd_set r v s = s\<lparr>sd_trace := reg_set r v (sd_trace s)\<rparr>"

definition sd_modify :: "unit device \<Rightarrow> nat \<Rightarrow> (u32 \<Rightarrow> u32) \<Rightarrow> sd \<Rightarrow> sd" where
  "sd_modify d r f s = s\<lparr>sd_trace := reg_modify d r f (sd_trace s)\<rparr>"

definition sd_pause :: "nat \<Rightarrow> sd \<Rightarrow> sd" where
  "sd_pause ms s = s\<lparr>sd_trace := pause (1000 * ms) (sd_trace s)\<rparr>"

section \<open>Waiting\<close>

text \<open>
  The loops count an \<^verbatim>\<open>int\<close> down with \<^verbatim>\<open>cnt--\<close> as their last condition, so a loop that gives up leaves the count
  at -1, and one that succeeds at its last test leaves it at 0.
\<close>

fun sd_status_loop :: "unit device \<Rightarrow> u32 \<Rightarrow> nat \<Rightarrow> sd \<Rightarrow> int \<times> sd" where
  "sd_status_loop d m cnt s =
     (let (st, s) = sd_get d STATUS s in
      if st AND m = 0 then (int cnt, s)
      else
        let (i, s) = sd_get d INTERRUPT s in
        if i AND INT_ERROR_MASK \<noteq> 0 then (int cnt, s)
        else (case cnt of 0 \<Rightarrow> (-1, s) | Suc n \<Rightarrow> sd_status_loop d m n (sd_pause 1 s)))"

declare sd_status_loop.simps [simp del]

definition sd_status :: "unit device \<Rightarrow> u32 \<Rightarrow> sd \<Rightarrow> u32 \<times> sd" where
  "sd_status d m s =
     (let (cnt, s) = sd_status_loop d m 500000 s in
      if cnt \<le> 0 then (SD_ERROR, s)
      else let (i, s) = sd_get d INTERRUPT s in (if i AND INT_ERROR_MASK \<noteq> 0 then SD_ERROR else SD_OK, s))"

fun sd_int_loop :: "unit device \<Rightarrow> u32 \<Rightarrow> nat \<Rightarrow> sd \<Rightarrow> int \<times> sd" where
  "sd_int_loop d m cnt s =
     (let (i, s) = sd_get d INTERRUPT s in
      if i AND m \<noteq> 0 then (int cnt, s)
      else (case cnt of 0 \<Rightarrow> (-1, s) | Suc n \<Rightarrow> sd_int_loop d m n (sd_pause 1 s)))"

declare sd_int_loop.simps [simp del]

definition sd_int :: "unit device \<Rightarrow> u32 \<Rightarrow> sd \<Rightarrow> u32 \<times> sd" where
  "sd_int d m s =
     (let (cnt, s) = sd_int_loop d (m OR INT_ERROR_MASK) 1000000 s;
          (r, s) = sd_get d INTERRUPT s in
      if cnt \<le> 0 \<or> r AND INT_CMD_TIMEOUT \<noteq> 0 \<or> r AND INT_DATA_TIMEOUT \<noteq> 0 then (SD_TIMEOUT, sd_set INTERRUPT r s)
      else if r AND INT_ERROR_MASK \<noteq> 0 then (SD_ERROR, sd_set INTERRUPT r s)
      else (0, sd_set INTERRUPT m s))"

section \<open>Commands\<close>

text \<open>The part of \<^verbatim>\<open>sd_cmd\<close> after the application prefix, and the answers it reads.\<close>

definition sd_answer :: "unit device \<Rightarrow> u32 \<Rightarrow> u32 \<Rightarrow> sd \<Rightarrow> u32 \<times> sd" where
  "sd_answer d code arg s =
     (let (r, s) = sd_get d RESP0 s in
      if code = CMD_GO_IDLE \<or> code = CMD_APP_CMD then (0, s)
      else if code = CMD_APP_CMD OR CMD_RSPNS_48 then (r AND SR_APP_CMD, s)
      else if code = CMD_SEND_OP_COND then (r, s)
      else if code = CMD_SEND_IF_COND then (if r = arg then SD_OK else SD_ERROR, s)
      else if code = CMD_ALL_SEND_CID then
        let (r3, s) = sd_get d RESP3 s; (r2, s) = sd_get d RESP2 s; (r1, s) = sd_get d RESP1 s in
        (r OR r3 OR r2 OR r1, s)
      else if code = CMD_SEND_REL_ADDR then
        (r AND CMD_RCA_MASK,
         s\<lparr>sd_err := ucast (((r AND 0x1fff) OR push_bit 6 (r AND 0x2000) OR push_bit 8 (r AND 0x4000) OR push_bit 8 (r AND 0x8000))
                            AND CMD_ERRORS_MASK)\<rparr>)
      else (r AND CMD_ERRORS_MASK, s))"

definition sd_issue :: "unit device \<Rightarrow> u32 \<Rightarrow> u32 \<Rightarrow> sd \<Rightarrow> u32 \<times> sd" where
  "sd_issue d code arg s =
     (let (e, s) = sd_status d SR_CMD_INHIBIT s in
      if e \<noteq> 0 then (0, s\<lparr>sd_err := scast SD_TIMEOUT\<rparr>)
      else
        let (i, s) = sd_get d INTERRUPT s;
            s = sd_set CMDTM code (sd_set ARG1 arg (sd_set INTERRUPT i s));
            s = (if code = CMD_SEND_OP_COND then sd_pause 1000 s
                 else if code = CMD_SEND_IF_COND \<or> code = CMD_APP_CMD then sd_pause 100 s
                 else s);
            (r, s) = sd_int d INT_CMD_DONE s in
        if r \<noteq> 0 then (0, s\<lparr>sd_err := scast r\<rparr>) else sd_answer d code arg s)"

function sd_cmd :: "unit device \<Rightarrow> u32 \<Rightarrow> u32 \<Rightarrow> sd \<Rightarrow> u32 \<times> sd" where
  "sd_cmd d code arg s =
     (let s = s\<lparr>sd_err := 0\<rparr> in
      if code AND CMD_NEED_APP \<noteq> 0 then
        let rca = sd_rca s;
            (r, s) = sd_cmd d (CMD_APP_CMD OR (if rca \<noteq> 0 then CMD_RSPNS_48 else 0)) (ucast rca) s in
        if rca \<noteq> 0 \<and> r = 0 then (0, s\<lparr>sd_err := scast SD_ERROR\<rparr>)
        else sd_issue d (code AND NOT CMD_NEED_APP) arg s
      else sd_issue d code arg s)"
  by pat_completeness auto
termination
  by (relation "measure (\<lambda>(d, code, arg, s). if code AND CMD_NEED_APP \<noteq> 0 then 1 else 0)") auto

declare sd_cmd.simps [simp del]

section \<open>The clock\<close>

fun inhibit_loop :: "unit device \<Rightarrow> nat \<Rightarrow> sd \<Rightarrow> int \<times> sd" where
  "inhibit_loop d cnt s =
     (let (st, s) = sd_get d STATUS s in
      if st AND (SR_CMD_INHIBIT OR SR_DAT_INHIBIT) = 0 then (int cnt, s)
      else (case cnt of 0 \<Rightarrow> (-1, s) | Suc n \<Rightarrow> inhibit_loop d n (sd_pause 1 s)))"

declare inhibit_loop.simps [simp del]

fun stable_loop :: "unit device \<Rightarrow> nat \<Rightarrow> sd \<Rightarrow> int \<times> sd" where
  "stable_loop d cnt s =
     (let (c, s) = sd_get d CONTROL1 s in
      if c AND C1_CLK_STABLE \<noteq> 0 then (int cnt, s)
      else (case cnt of 0 \<Rightarrow> (-1, s) | Suc n \<Rightarrow> stable_loop d n (sd_pause 10 s)))"

declare stable_loop.simps [simp del]

definition shift_step :: "u32 \<Rightarrow> nat \<Rightarrow> u32 \<times> nat \<Rightarrow> u32 \<times> nat" where
  "shift_step m k xs = (let (x, s) = xs in if x AND m = 0 then (push_bit k x, s - k) else (x, s))"

text \<open>
  The frequency is one of two constants, so the division is by a positive number.
\<close>

definition clock_shift :: "u32 \<Rightarrow> nat" where
  "clock_shift x =
     (if x = 0 then 0
      else
        let xs = shift_step 0x80000000 1 (shift_step 0xc0000000 2 (shift_step 0xf0000000 4
                   (shift_step 0xff000000 8 (shift_step 0xffff0000 16 (x, 32)))));
            s = snd xs; s = (if 0 < s then s - 1 else s) in
        if 7 < s then 7 else s)"

definition clock_divider :: "u64 \<Rightarrow> u32 \<Rightarrow> u32" where
  "clock_divider hv f =
     (let c = 500000000 div (f * 6); s = clock_shift (c - 1);
          d = (if HOST_SPEC_V2 < hv then c else push_bit s 1);
          d = (if d \<le> 2 then 2 else d);
          h = (if HOST_SPEC_V2 < hv then drop_bit 2 (d AND 0x300) else 0) in
      push_bit 8 (d AND 0x0ff) OR h)"

definition sd_clk :: "unit device \<Rightarrow> u32 \<Rightarrow> sd \<Rightarrow> u32 \<times> sd" where
  "sd_clk d f s =
     (let (cnt, s) = inhibit_loop d 100000 s in
      if cnt \<le> 0 then (SD_ERROR, s)
      else
        let s = sd_pause 10 (sd_modify d CONTROL1 (\<lambda>c. c AND NOT C1_CLK_EN) s);
            s = sd_pause 10 (sd_modify d CONTROL1 (\<lambda>c. (c AND 0xffff003f) OR clock_divider (sd_hv s) f) s);
            s = sd_pause 10 (sd_modify d CONTROL1 (\<lambda>c. c OR C1_CLK_EN) s);
            (cnt, s) = stable_loop d 10000 s in
        if cnt \<le> 0 then (SD_ERROR, s) else (SD_OK, s))"

section \<open>Set-up\<close>

definition init_pins :: "unit device \<Rightarrow> u64 \<Rightarrow> sd \<Rightarrow> sd" where
  "init_pins d midr s =
     (if IsRpi4 midr then sd_modify d WIFI_SELECT (\<lambda>v. v OR 2) s
      else
        let g = SetHighDetectEnable 47 True (SetPullUpDown midr 47 PullUp (SetFunction 47 Alt3 (sd_gpio s)));
            g = SetFunction 49 Alt3 (SetFunction 48 Alt3 g);
            g = SetPullUpDown midr 49 PullUp (SetPullUpDown midr 48 PullUp g);
            g = SetFunction 53 Alt3 (SetFunction 52 Alt3 (SetFunction 51 Alt3 (SetFunction 50 Alt3 g)));
            g = SetPullUpDown midr 53 PullUp (SetPullUpDown midr 52 PullUp (SetPullUpDown midr 51 PullUp (SetPullUpDown midr 50 PullUp g))) in
        s\<lparr>sd_gpio := g\<rparr>)"

fun reset_loop :: "unit device \<Rightarrow> nat \<Rightarrow> sd \<Rightarrow> int \<times> sd" where
  "reset_loop d cnt s =
     (let (c, s) = sd_get d CONTROL1 (sd_pause 10 s) in
      if c AND C1_SRST_HC = 0 then (int cnt, s)
      else (case cnt of 0 \<Rightarrow> (-1, s) | Suc n \<Rightarrow> reset_loop d n s))"

declare reset_loop.simps [simp del]

text \<open>The count that the reset leaves decides about a message only.\<close>

definition init_reset :: "unit device \<Rightarrow> sd \<Rightarrow> sd" where
  "init_reset d s =
     (let (v, s) = sd_get d SLOTISR_VER s;
          s = s\<lparr>sd_hv := ucast (drop_bit 16 (v AND HOST_SPEC_NUM))\<rparr>;
          s = sd_modify d CONTROL1 (\<lambda>c. c OR C1_SRST_HC) (sd_set CONTROL0 0 s);
          (_, s) = reset_loop d 10000 s in
      sd_pause 10 (sd_modify d CONTROL1 (\<lambda>c. c OR C1_CLK_INTLEN OR C1_TOUNIT_MAX) s))"

definition init_identify :: "unit device \<Rightarrow> sd \<Rightarrow> bool \<times> sd" where
  "init_identify d s =
     (let (e, s) = sd_clk d 400000 s in
      if e \<noteq> 0 then (False, s)
      else
        let s = sd_set INT_MASK 0xffffffff (sd_set INT_EN 0xffffffff s);
            s = s\<lparr>sd_scr0 := 0, sd_scr1 := 0, sd_rca := 0, sd_err := 0\<rparr>;
            (_, s) = sd_cmd d CMD_GO_IDLE 0 s in
        if sd_err s \<noteq> 0 then (False, s)
        else let (_, s) = sd_cmd d CMD_SEND_IF_COND 0x000001AA s in (sd_err s = 0, s))"

text \<open>The loop on \<^verbatim>\<open>ACMD41\<close>: \<open>None\<close> is the early return, otherwise the last answer and the count.\<close>

fun op_cond_loop :: "unit device \<Rightarrow> nat \<Rightarrow> u64 \<Rightarrow> sd \<Rightarrow> (u64 \<times> int) option \<times> sd" where
  "op_cond_loop d cnt result s =
     (if result AND ACMD41_CMD_COMPLETE \<noteq> 0 then (Some (result, int cnt), s)
      else (case cnt of
        0 \<Rightarrow> (Some (result, -1), s)
      | Suc n \<Rightarrow>
          let (r, s) = sd_cmd d CMD_SEND_OP_COND ACMD41_ARG_HC (s\<lparr>sd_trace := pause 400 (sd_trace s)\<rparr>) in
          if sd_err s \<noteq> scast SD_TIMEOUT \<and> sd_err s \<noteq> 0 then (None, s) else op_cond_loop d n (scast r) s))"

declare op_cond_loop.simps [simp del]

definition init_op_cond :: "unit device \<Rightarrow> sd \<Rightarrow> u64 option \<times> sd" where
  "init_op_cond d s =
     (case op_cond_loop d 6 0 s of
        (None, s) \<Rightarrow> (None, s)
      | (Some (result, cnt), s) \<Rightarrow>
          (if result AND ACMD41_CMD_COMPLETE = 0 \<or> cnt = 0 then None
           else if result AND ACMD41_VOLTAGE = 0 then None
           else if result AND ACMD41_CMD_CCS \<noteq> 0 then Some SCR_SUPP_CCS
           else Some 0, s))"

definition init_select :: "unit device \<Rightarrow> sd \<Rightarrow> bool \<times> sd" where
  "init_select d s =
     (let (_, s) = sd_cmd d CMD_ALL_SEND_CID 0 s;
          (rca, s) = sd_cmd d CMD_SEND_REL_ADDR 0 s;
          s = s\<lparr>sd_rca := scast rca\<rparr> in
      if sd_err s \<noteq> 0 then (False, s)
      else
        let (e, s) = sd_clk d 25000000 s in
        if e \<noteq> 0 then (False, s)
        else let (_, s) = sd_cmd d CMD_CARD_SELECT (ucast (sd_rca s)) s in (sd_err s = 0, s))"

text \<open>
  The wait for the two words of the card's configuration tests a count that it never changes, so it does not
  end when the words do not come.
\<close>

partial_function (option) scr_loop :: "unit device \<Rightarrow> nat \<Rightarrow> sd \<Rightarrow> sd option" where
  "scr_loop d r s =
     (if r < 2 then
        let (st, s) = sd_get d STATUS s in
        if st AND SR_READ_AVAILABLE \<noteq> 0 then
          let (v, s) = sd_get d DATA s in
          scr_loop d (r + 1) (if r = 0 then s\<lparr>sd_scr0 := ucast v\<rparr> else s\<lparr>sd_scr1 := ucast v\<rparr>)
        else scr_loop d r (sd_pause 1 s)
      else Some s)"

definition init_scr :: "unit device \<Rightarrow> sd \<Rightarrow> (bool \<times> sd) option" where
  "init_scr d s =
     (let (e, s) = sd_status d SR_DAT_INHIBIT s in
      if e \<noteq> 0 then Some (False, s)
      else
        let s = sd_set BLKSIZECNT (push_bit 16 1 OR 8) s;
            (_, s) = sd_cmd d CMD_SEND_SCR 0 s in
        if sd_err s \<noteq> 0 then Some (False, s)
        else
          let (e, s) = sd_int d INT_READ_RDY s in
          if e \<noteq> 0 then Some (False, s) else map_option (Pair True) (scr_loop d 0 s))"

definition init_width :: "unit device \<Rightarrow> sd \<Rightarrow> bool \<times> sd" where
  "init_width d s =
     (if sd_scr0 s AND SCR_SD_BUS_WIDTH_4 \<noteq> 0 then
        let (_, s) = sd_cmd d CMD_SET_BUS_WIDTH (ucast (sd_rca s OR 2)) s in
        if sd_err s \<noteq> 0 then (False, s) else (True, sd_modify d CONTROL0 (\<lambda>c. c OR C0_HCTL_DWITDH) s)
      else (True, s))"

definition SdCard_Init :: "unit device \<Rightarrow> u64 \<Rightarrow> sd \<Rightarrow> (bool \<times> sd) option" where
  "SdCard_Init d midr s =
     (let (ok, s) = init_identify d (init_reset d (init_pins d midr s)) in
      if \<not> ok then Some (False, s)
      else
        let (ccs, s) = init_op_cond d s in
        case ccs of
          None \<Rightarrow> Some (False, s)
        | Some ccs \<Rightarrow>
            let (ok, s) = init_select d s in
            if \<not> ok then Some (False, s)
            else Option.bind (init_scr d s) (\<lambda>(ok, s).
              if \<not> ok then Some (False, s)
              else
                let (ok, s) = init_width d s in
                if \<not> ok then Some (False, s)
                else Some (True, s\<lparr>sd_scr0 := (sd_scr0 s AND NOT SCR_SUPP_CCS) OR ccs\<rparr>)))"

section \<open>Reading blocks\<close>

fun read_words :: "unit device \<Rightarrow> nat \<Rightarrow> sd \<Rightarrow> u32 list \<times> sd" where
  "read_words d 0 s = ([], s)"
| "read_words d (Suc n) s =
     (let (v, s) = sd_get d DATA s; (vs, s) = read_words d n s in (v # vs, s))"

text \<open>
  The words stored from the start of the caller's buffer are part of the result. The block counter is an
  \<^verbatim>\<open>int\<close>.
\<close>

fun read_blocks :: "unit device \<Rightarrow> u32 \<Rightarrow> nat \<Rightarrow> nat \<Rightarrow> sd \<Rightarrow> (bool \<times> u32 list \<times> sd) res" where
  "read_blocks d lba 0 c s = Inr (True, [], s)"
| "read_blocks d lba (Suc n) c s =
     (let single = (sd_scr0 s AND SCR_SUPP_CCS = 0);
          s = (if single then snd (sd_cmd d CMD_READ_SINGLE ((lba + of_nat c) * 512) s) else s) in
      if single \<and> sd_err s \<noteq> 0 then Inr (False, [], s)
      else
        let (r, s) = sd_int d INT_READ_RDY s in
        if r \<noteq> 0 then Inr (False, [], s\<lparr>sd_err := scast r\<rparr>)
        else
          let (block, s) = read_words d 128 s in
          if c = 2147483647 then Inl (Undefined ''signed overflow'')
          else rbind (read_blocks d lba n (c + 1) s) (\<lambda>(ok, rest, s). Inr (ok, block @ rest, s)))"

definition read_start :: "unit device \<Rightarrow> u32 \<Rightarrow> u32 \<Rightarrow> sd \<Rightarrow> bool \<times> sd" where
  "read_start d lba count s =
     (if sd_scr0 s AND SCR_SUPP_CCS \<noteq> 0 then
        let announce = (1 < count \<and> sd_scr0 s AND SCR_SUPP_SET_BLKCNT \<noteq> 0);
            s = (if announce then snd (sd_cmd d CMD_SET_BLOCKCNT count s) else s) in
        if announce \<and> sd_err s \<noteq> 0 then (False, s)
        else
          let s = sd_set BLKSIZECNT (push_bit 16 count OR 512) s;
              (_, s) = sd_cmd d (if count = 1 then CMD_READ_SINGLE else CMD_READ_MULTI) lba s in
          (sd_err s = 0, s)
      else (True, sd_set BLKSIZECNT (push_bit 16 1 OR 512) s))"

definition ReadBlock :: "unit device \<Rightarrow> u32 \<Rightarrow> u32 \<Rightarrow> sd \<Rightarrow> (bool \<times> u32 list \<times> sd) res" where
  "ReadBlock d lba count s =
     (let count = (if count < 1 then 1 else count);
          (e, s) = sd_status d SR_DAT_INHIBIT s in
      if e \<noteq> 0 then Inr (False, [], s\<lparr>sd_err := scast SD_TIMEOUT\<rparr>)
      else
        let (ok, s) = read_start d lba count s in
        if \<not> ok then Inr (False, [], s)
        else rbind (read_blocks d lba (unat count) 0 s) (\<lambda>(ok, words, s).
          if \<not> ok then Inr (False, words, s)
          else
            let s = (if 1 < count \<and> sd_scr0 s AND SCR_SUPP_SET_BLKCNT = 0 \<and> sd_scr0 s AND SCR_SUPP_CCS \<noteq> 0
                     then snd (sd_cmd d CMD_STOP_TRANS 0 s) else s) in
            Inr (sd_err s = 0, words, s)))"

end
