(* ===== verification/Sd_Correctness.thy ===== *)
theory Sd_Correctness
  imports Sd_Card
begin

text \<open>
  What the card reader does with a card that keeps its documented protocol: every block it is asked for arrives
  in order. The protocol is stated on the trace, as laws on the values that the registers read as.
\<close>

unbundle bit_operations_syntax

section \<open>The protocol of a card\<close>

text \<open>The read command in progress: its code, its argument and the number of words taken since.\<close>

fun transfer_pos :: "unit reg_trace \<Rightarrow> (u32 \<times> u32 \<times> nat) option" where
  "transfer_pos [] = None"
| "transfer_pos (RegWrite r v # t) =
     (if r = CMDTM then map_option (\<lambda>a. (v, a, 0)) (last_write ARG1 t) else transfer_pos t)"
| "transfer_pos (RegRead r v # t) =
     (if r = DATA then map_option (\<lambda>(c, a, k). (c, a, k + 1)) (transfer_pos t) else transfer_pos t)"
| "transfer_pos (_ # t) = transfer_pos t"

definition blocks_asked :: "unit reg_trace \<Rightarrow> nat" where
  "blocks_asked t = (case last_write BLKSIZECNT t of None \<Rightarrow> 0 | Some v \<Rightarrow> unat (drop_bit 16 v))"

text \<open>The word that the card sends next, and whether it still has one to send.\<close>

definition words_asked :: "u32 \<Rightarrow> unit reg_trace \<Rightarrow> nat" where
  "words_asked c t = (if c = CMD_READ_SINGLE then 128 else if c = CMD_READ_MULTI then 128 * blocks_asked t else 0)"

definition first_block :: "bool \<Rightarrow> u32 \<Rightarrow> nat" where
  "first_block hc a = (if hc then unat a else unat a div 512)"

text \<open>Polls of the interrupt and of the status register.\<close>

fun int_polls :: "unit device \<Rightarrow> nat \<Rightarrow> unit reg_trace \<Rightarrow> unit reg_trace" where
  "int_polls d 0 t = t"
| "int_polls d (Suc n) t = int_polls d n (pause 1000 (snd (reg_get d INTERRUPT t)))"

fun status_polls :: "unit device \<Rightarrow> nat \<Rightarrow> unit reg_trace \<Rightarrow> unit reg_trace" where
  "status_polls d 0 t = t"
| "status_polls d (Suc n) t = status_polls d n (pause 1000 (snd (reg_get d INTERRUPT (snd (reg_get d STATUS t)))))"

definition int_soon :: "unit device \<Rightarrow> u32 \<Rightarrow> unit reg_trace \<Rightarrow> bool" where
  "int_soon d m t \<longleftrightarrow> (\<exists>n < 1000000. reads d (int_polls d n t) INTERRUPT AND m \<noteq> 0)"

definition line_free_soon :: "unit device \<Rightarrow> u32 \<Rightarrow> unit reg_trace \<Rightarrow> bool" where
  "line_free_soon d m t \<longleftrightarrow> (\<exists>n < 500000. reads d (status_polls d n t) STATUS AND m = 0)"

definition no_errors :: "unit device \<Rightarrow> bool" where
  "no_errors d \<longleftrightarrow> (\<forall>t. reads d t INTERRUPT AND (INT_ERROR_MASK OR INT_CMD_TIMEOUT) = 0)"

definition takes_commands :: "unit device \<Rightarrow> bool" where
  "takes_commands d \<longleftrightarrow>
     (\<forall>t. line_free_soon d SR_CMD_INHIBIT t) \<and> (\<forall>t code. int_soon d INT_CMD_DONE (reg_set CMDTM code t))"

definition sends_blocks :: "unit device \<Rightarrow> bool \<Rightarrow> (nat \<Rightarrow> u32 list) \<Rightarrow> bool" where
  "sends_blocks d hc disk \<longleftrightarrow>
     (\<forall>t c a k. transfer_pos t = Some (c, a, k) \<and> k < words_asked c t \<longrightarrow>
        int_soon d INT_READ_RDY t \<and> reads d t DATA = disk (first_block hc a + k div 128) ! (k mod 128))"

definition honest_card :: "unit device \<Rightarrow> bool \<Rightarrow> (nat \<Rightarrow> u32 list) \<Rightarrow> bool" where
  "honest_card d hc disk \<longleftrightarrow>
     no_errors d \<and> takes_commands d \<and> sends_blocks d hc disk \<and> (\<forall>b. length (disk b) = 128)"

section \<open>Harmless events\<close>

fun harmless :: "unit reg_event \<Rightarrow> bool" where
  "harmless (RegRead r v) = (r \<noteq> DATA)"
| "harmless (RegWrite r v) = (r = INTERRUPT)"
| "harmless _ = True"

definition extends :: "sd \<Rightarrow> sd \<Rightarrow> bool" where
  "extends s s' \<longleftrightarrow> (\<exists>es. list_all harmless es \<and> s' = s\<lparr>sd_trace := es @ sd_trace s\<rparr>)"

lemma extends_refl [simp]: "extends s s"
  unfolding extends_def by (rule exI [of _ "[]"]) simp

lemma extends_trans [trans]:
  assumes "extends s s'" and "extends s' s''"
  shows "extends s s''"
proof -
  obtain es es' where "list_all harmless es" "s' = s\<lparr>sd_trace := es @ sd_trace s\<rparr>"
    and "list_all harmless es'" "s'' = s'\<lparr>sd_trace := es' @ sd_trace s'\<rparr>"
    using assms by (auto simp: extends_def)
  then show ?thesis by (auto simp: extends_def intro!: exI [of _ "es' @ es"])
qed

lemma extends_get: "r \<noteq> DATA \<Longrightarrow> extends s (snd (sd_get d r s))"
  by (auto simp: extends_def sd_get_def reg_get_def Let_def intro!: exI [of _ "[RegRead r (reads d (sd_trace s) r)]"])

lemma extends_pause: "extends s (sd_pause ms s)"
  by (auto simp: extends_def sd_pause_def pause_def intro!: exI [of _ "[Paused (1000 * ms)]"])

lemma extends_ack: "extends s (sd_set INTERRUPT v s)"
  by (auto simp: extends_def sd_set_def reg_set_def intro!: exI [of _ "[RegWrite INTERRUPT v]"])

lemma transfer_pos_harmless: "list_all harmless es \<Longrightarrow> transfer_pos (es @ t) = transfer_pos t"
proof (induction es)
  case (Cons e es)
  then show ?case by (cases e) (auto simp: sd_regs)
qed simp

lemma last_write_harmless: "list_all harmless es \<Longrightarrow> r \<noteq> INTERRUPT \<Longrightarrow> last_write r (es @ t) = last_write r t"
proof (induction es)
  case (Cons e es)
  then show ?case by (cases e) auto
qed simp

lemma extends_pos: "extends s s' \<Longrightarrow> transfer_pos (sd_trace s') = transfer_pos (sd_trace s)"
  by (auto simp: extends_def transfer_pos_harmless)

lemma extends_last_write:
  "extends s s' \<Longrightarrow> r \<noteq> INTERRUPT \<Longrightarrow> last_write r (sd_trace s') = last_write r (sd_trace s)"
  by (auto simp: extends_def last_write_harmless)

lemma extends_fields:
  assumes "extends s s'"
  shows "sd_scr0 s' = sd_scr0 s" "sd_err s' = sd_err s" "sd_rca s' = sd_rca s" "sd_hv s' = sd_hv s"
  using assms by (auto simp: extends_def)

lemma sd_get_simps [simp]:
  "fst (sd_get d r s) = reads d (sd_trace s) r"
  "sd_trace (snd (sd_get d r s)) = RegRead r (reads d (sd_trace s) r) # sd_trace s"
  by (simp_all add: sd_get_def reg_get_def Let_def)

lemma reg_distinct [simp]: "INTERRUPT \<noteq> DATA" "STATUS \<noteq> DATA" "RESP0 \<noteq> DATA" "ARG1 \<noteq> INTERRUPT" "BLKSIZECNT \<noteq> INTERRUPT"
  "CMDTM \<noteq> DATA" "CMDTM \<noteq> ARG1" "CMDTM \<noteq> BLKSIZECNT" "ARG1 \<noteq> BLKSIZECNT" "CMDTM \<noteq> INTERRUPT" "ARG1 \<noteq> CMDTM"
  by (simp_all add: sd_regs)

section \<open>The waits\<close>

lemma and_or_eq_0: "(x :: u32) AND (a OR b) = 0 \<longleftrightarrow> x AND a = 0 \<and> x AND b = 0"
  by (simp add: bit.conj_disj_distrib or_eq_0_iff)

lemma sd_get_eq: "sd_get d r s = (reads d (sd_trace s) r, snd (sd_get d r s))"
  by (simp add: prod_eq_iff)

lemma sd_int_loop_soon:
  assumes "n < cnt" and "reads d (int_polls d n (sd_trace s)) INTERRUPT AND m \<noteq> 0"
  shows "\<exists>k s'. sd_int_loop d m cnt s = (k, s') \<and> 0 < k \<and> extends s s'"
  using assms
proof (induction n arbitrary: cnt s)
  case 0
  then show ?case
    using extends_get [of INTERRUPT s d]
    by (subst sd_int_loop.simps) (auto simp: Let_def case_prod_beta)
next
  case (Suc n)
  let ?s = "snd (sd_get d INTERRUPT s)"
  obtain c where c: "cnt = Suc c" "n < c" using Suc.prems(1) by (cases cnt) auto
  have ext: "extends s ?s" "extends s (sd_pause 1 ?s)"
    using extends_get [of INTERRUPT s d] extends_trans [OF extends_get [of INTERRUPT s d] extends_pause] by simp_all
  have "sd_trace (sd_pause 1 ?s) = pause 1000 (snd (reg_get d INTERRUPT (sd_trace s)))"
    by (simp add: sd_pause_def sd_get_def reg_get_def Let_def)
  then have "reads d (int_polls d n (sd_trace (sd_pause 1 ?s))) INTERRUPT AND m \<noteq> 0" using Suc.prems(2) by simp
  from Suc.IH [OF c(2) this] obtain k s' where
    "sd_int_loop d m c (sd_pause 1 ?s) = (k, s')" "0 < k" "extends (sd_pause 1 ?s) s'" by auto
  with ext c show ?case
    by (subst sd_int_loop.simps)
      (auto simp: Let_def case_prod_beta intro: extends_trans)
qed

lemma sd_int_ok:
  assumes "no_errors d" and "int_soon d m (sd_trace s)"
  shows "\<exists>s'. sd_int d m s = (0, s') \<and> extends s s'"
proof -
  from assms(2) obtain n where n: "n < 1000000" "reads d (int_polls d n (sd_trace s)) INTERRUPT AND m \<noteq> 0"
    by (auto simp: int_soon_def)
  then have "reads d (int_polls d n (sd_trace s)) INTERRUPT AND (m OR INT_ERROR_MASK) \<noteq> 0"
    by (simp add: and_or_eq_0)
  from sd_int_loop_soon [OF n(1) this] obtain k s1 where
    s1: "sd_int_loop d (m OR INT_ERROR_MASK) 1000000 s = (k, s1)" "0 < k" "extends s s1" by auto
  define r where "r = reads d (sd_trace s1) INTERRUPT"
  have "r AND (INT_ERROR_MASK OR INT_CMD_TIMEOUT) = 0" using assms(1) by (simp add: no_errors_def r_def)
  then have r: "r AND INT_ERROR_MASK = 0" "r AND INT_CMD_TIMEOUT = 0"
    by (simp_all only: and_or_eq_0)
  have "r AND INT_DATA_TIMEOUT = r AND (INT_ERROR_MASK AND INT_DATA_TIMEOUT)" by simp
  also have "\<dots> = (r AND INT_ERROR_MASK) AND INT_DATA_TIMEOUT" by (simp only: and.assoc)
  finally have r': "r AND INT_DATA_TIMEOUT = 0" using r by simp
  let ?s2 = "snd (sd_get d INTERRUPT s1)"
  have "sd_int d m s = (0, sd_set INTERRUPT m ?s2)"
    using s1(1,2) r r' by (simp add: sd_int_def case_prod_beta flip: r_def)
  moreover have "extends s (sd_set INTERRUPT m ?s2)"
    using s1(3) extends_get [of INTERRUPT s1 d] extends_ack by (auto intro: extends_trans)
  ultimately show ?thesis by blast
qed

lemma sd_status_loop_soon:
  assumes "no_errors d" and "n < cnt" and "reads d (status_polls d n (sd_trace s)) STATUS AND m = 0"
  shows "\<exists>k s'. sd_status_loop d m cnt s = (k, s') \<and> 0 < k \<and> extends s s'"
  using assms(2,3)
proof (induction n arbitrary: cnt s)
  case 0
  then show ?case
    using extends_get [of STATUS s d] by (subst sd_status_loop.simps) (auto simp: Let_def case_prod_beta)
next
  case (Suc n)
  let ?s = "snd (sd_get d STATUS s)" and ?s2 = "snd (sd_get d INTERRUPT (snd (sd_get d STATUS s)))"
  obtain c where c: "cnt = Suc c" "n < c" using Suc.prems(1) by (cases cnt) auto
  have e1: "extends s ?s" by (rule extends_get) simp
  have e2: "extends s (sd_pause 1 ?s2)" using e1 extends_get [of INTERRUPT ?s d] extends_pause by (auto intro: extends_trans)
  have "sd_trace (sd_pause 1 ?s2) = pause 1000 (snd (reg_get d INTERRUPT (snd (reg_get d STATUS (sd_trace s)))))"
    by (simp add: sd_pause_def sd_get_def reg_get_def Let_def)
  then have "reads d (status_polls d n (sd_trace (sd_pause 1 ?s2))) STATUS AND m = 0" using Suc.prems(2) by simp
  from Suc.IH [OF c(2) this] obtain k s' where
    "sd_status_loop d m c (sd_pause 1 ?s2) = (k, s')" "0 < k" "extends (sd_pause 1 ?s2) s'" by auto
  moreover have "reads d (sd_trace ?s) INTERRUPT AND INT_ERROR_MASK = 0"
    using assms(1) unfolding no_errors_def and_or_eq_0 by blast
  ultimately show ?case
    using e1 e2 c by (subst sd_status_loop.simps) (auto simp: Let_def case_prod_beta intro: extends_trans)
qed

lemma sd_status_ok:
  assumes "no_errors d" and "line_free_soon d m (sd_trace s)"
  shows "\<exists>s'. sd_status d m s = (0, s') \<and> extends s s'"
proof -
  from assms obtain k s1 where s1: "sd_status_loop d m 500000 s = (k, s1)" "0 < k" "extends s s1"
    using sd_status_loop_soon by (metis line_free_soon_def)
  let ?s2 = "snd (sd_get d INTERRUPT s1)"
  have "reads d (sd_trace s1) INTERRUPT AND INT_ERROR_MASK = 0"
    using assms(1) unfolding no_errors_def and_or_eq_0 by blast
  then have "sd_status d m s = (0, ?s2)" using s1 by (simp add: sd_status_def case_prod_beta)
  then show ?thesis using s1(3) extends_get [of INTERRUPT s1 d] by (auto intro: extends_trans)
qed

section \<open>Commands\<close>

text \<open>A command that needs no prefix and whose answer is not an address.\<close>

definition plain_command :: "u32 \<Rightarrow> bool" where
  "plain_command code \<longleftrightarrow> code \<in> {CMD_READ_SINGLE, CMD_READ_MULTI, CMD_SET_BLOCKCNT, CMD_STOP_TRANS}"

lemma sd_answer_plain:
  assumes "plain_command code"
  shows "\<exists>r s'. sd_answer d code arg s = (r, s') \<and> extends s s'"
  using assms extends_get [of RESP0 s d]
  by (auto simp: plain_command_def sd_answer_def case_prod_beta)

definition commanded :: "u32 \<Rightarrow> u32 \<Rightarrow> sd \<Rightarrow> sd \<Rightarrow> bool" where
  "commanded code arg s s' \<longleftrightarrow>
     (\<exists>s1. extends (s\<lparr>sd_err := 0\<rparr>) s1 \<and> extends (sd_set CMDTM code (sd_set ARG1 arg s1)) s')"

lemma sd_cmd_plain:
  assumes "no_errors d" and "takes_commands d" and "plain_command code"
  shows "\<exists>r s'. sd_cmd d code arg s = (r, s') \<and> commanded code arg s s'"
proof -
  let ?s = "s\<lparr>sd_err := 0\<rparr>"
  obtain s1 where s1: "sd_status d SR_CMD_INHIBIT ?s = (0, s1)" "extends ?s s1"
    using sd_status_ok [OF assms(1)] assms(2) unfolding takes_commands_def by meson
  let ?s2 = "snd (sd_get d INTERRUPT s1)" and ?i = "reads d (sd_trace s1) INTERRUPT"
  let ?s3 = "sd_set CMDTM code (sd_set ARG1 arg (sd_set INTERRUPT ?i ?s2))"
  have e2: "extends ?s (sd_set INTERRUPT ?i ?s2)"
    using s1(2) extends_get [of INTERRUPT s1 d] extends_ack by (auto intro: extends_trans)
  have "int_soon d INT_CMD_DONE (sd_trace ?s3)"
    using assms(2) by (simp add: takes_commands_def sd_set_def)
  then obtain s4 where s4: "sd_int d INT_CMD_DONE ?s3 = (0, s4)" "extends ?s3 s4"
    using sd_int_ok [OF assms(1)] by blast
  obtain r s5 where s5: "sd_answer d code arg s4 = (r, s5)" "extends s4 s5"
    using sd_answer_plain [OF assms(3)] by blast
  have "code AND CMD_NEED_APP = 0" "code \<noteq> CMD_SEND_OP_COND" "code \<noteq> CMD_SEND_IF_COND" "code \<noteq> CMD_APP_CMD"
    using assms(3) by (auto simp: plain_command_def)
  then have "sd_cmd d code arg s = (r, s5)"
    using s1(1) s4(1) s5(1) by (subst sd_cmd.simps) (simp add: sd_issue_def case_prod_beta Let_def)
  moreover have "commanded code arg s s5"
    unfolding commanded_def using e2 s4(2) s5(2) by (blast intro: extends_trans)
  ultimately show ?thesis by blast
qed

lemma commanded_facts:
  assumes "commanded code arg s s'"
  shows "transfer_pos (sd_trace s') = Some (code, arg, 0)"
    and "blocks_asked (sd_trace s') = blocks_asked (sd_trace s)"
    and "sd_scr0 s' = sd_scr0 s" and "sd_err s' = 0"
proof -
  from assms obtain s1 where e: "extends (s\<lparr>sd_err := 0\<rparr>) s1" "extends (sd_set CMDTM code (sd_set ARG1 arg s1)) s'"
    by (auto simp: commanded_def)
  show "transfer_pos (sd_trace s') = Some (code, arg, 0)"
    using extends_pos [OF e(2)] by (simp add: sd_set_def reg_set_def)
  show "blocks_asked (sd_trace s') = blocks_asked (sd_trace s)"
    using extends_last_write [OF e(2), of BLKSIZECNT] extends_last_write [OF e(1), of BLKSIZECNT]
    by (simp add: blocks_asked_def sd_set_def reg_set_def)
  show "sd_scr0 s' = sd_scr0 s" "sd_err s' = 0"
    using extends_fields [OF e(2)] extends_fields [OF e(1)] by (simp_all add: sd_set_def)
qed

section \<open>Blocks\<close>

lemma words_asked_cong: "blocks_asked t = blocks_asked t' \<Longrightarrow> words_asked c t = words_asked c t'"
  by (simp add: words_asked_def)

lemma sends_blocksD:
  assumes "sends_blocks d hc disk" and "transfer_pos t = Some (c, a, k)" and "k < words_asked c t"
  shows "int_soon d INT_READ_RDY t" and "reads d t DATA = disk (first_block hc a + k div 128) ! (k mod 128)"
  using assms unfolding sends_blocks_def by blast+

lemma read_words_ok:
  assumes "sends_blocks d hc disk" and "transfer_pos (sd_trace s) = Some (c, a, k)"
    and "k + n \<le> words_asked c (sd_trace s)"
  shows "\<exists>s'. read_words d n s = (map (\<lambda>i. disk (first_block hc a + i div 128) ! (i mod 128)) [k ..< k + n], s') \<and>
    transfer_pos (sd_trace s') = Some (c, a, k + n) \<and> blocks_asked (sd_trace s') = blocks_asked (sd_trace s) \<and>
    sd_scr0 s' = sd_scr0 s \<and> sd_err s' = sd_err s"
  using assms(2,3)
proof (induction n arbitrary: k s)
  case (Suc n)
  let ?s = "snd (sd_get d DATA s)"
  have v: "reads d (sd_trace s) DATA = disk (first_block hc a + k div 128) ! (k mod 128)"
    using Suc.prems(2) by (intro sends_blocksD(2) [OF assms(1) Suc.prems(1)]) simp
  have "transfer_pos (sd_trace ?s) = Some (c, a, k + 1)" and asked: "blocks_asked (sd_trace ?s) = blocks_asked (sd_trace s)"
    using Suc.prems(1) by (simp_all add: blocks_asked_def)
  moreover have "k + 1 + n \<le> words_asked c (sd_trace ?s)"
    using Suc.prems(2) words_asked_cong [OF asked] by simp
  ultimately obtain s' where
    "read_words d n ?s = (map (\<lambda>i. disk (first_block hc a + i div 128) ! (i mod 128)) [k + 1 ..< k + 1 + n], s')"
    "transfer_pos (sd_trace s') = Some (c, a, k + 1 + n)" "blocks_asked (sd_trace s') = blocks_asked (sd_trace s)"
    "sd_scr0 s' = sd_scr0 ?s" "sd_err s' = sd_err ?s"
    using Suc.IH [of ?s "k + 1"] by auto
  moreover have "[k ..< k + Suc n] = k # [k + 1 ..< k + 1 + n]" by (simp add: upt_conv_Cons)
  ultimately show ?case using v by (simp add: case_prod_beta sd_get_def Let_def del: upt_Suc)
qed simp

lemma disk_block:
  assumes "length (disk (f + k)) = 128"
  shows "map (\<lambda>i. disk (f + i div 128) ! (i mod 128)) [128 * k ..< 128 * k + 128] = disk (f + k)"
proof (rule nth_equalityI)
  fix i
  assume "i < length (map (\<lambda>i. disk (f + i div 128) ! (i mod 128)) [128 * k ..< 128 * k + 128])"
  then have "i < 128" by simp
  then have "(128 * k + i) div 128 = k" "(128 * k + i) mod 128 = i" by simp_all
  with \<open>i < 128\<close> show "map (\<lambda>i. disk (f + i div 128) ! (i mod 128)) [128 * k ..< 128 * k + 128] ! i = disk (f + k) ! i"
    by simp
qed (use assms in simp)

text \<open>One block of a transfer in progress.\<close>

lemma take_block:
  assumes "honest_card d hc disk" and "transfer_pos (sd_trace s) = Some (c, a, 128 * k)"
    and "128 * k + 128 \<le> words_asked c (sd_trace s)"
  shows "\<exists>s1 s2. sd_int d INT_READ_RDY s = (0, s1) \<and> read_words d 128 s1 = (disk (first_block hc a + k), s2) \<and>
    transfer_pos (sd_trace s2) = Some (c, a, 128 * k + 128) \<and> blocks_asked (sd_trace s2) = blocks_asked (sd_trace s) \<and>
    sd_scr0 s2 = sd_scr0 s \<and> sd_err s2 = sd_err s"
proof -
  have card: "no_errors d" "sends_blocks d hc disk" "\<And>b. length (disk b) = 128" using assms(1) by (auto simp: honest_card_def)
  have "int_soon d INT_READ_RDY (sd_trace s)" using assms(3) by (intro sends_blocksD(1) [OF card(2) assms(2)]) simp
  then obtain s1 where s1: "sd_int d INT_READ_RDY s = (0, s1)" "extends s s1" using sd_int_ok [OF card(1)] by blast
  have pos: "transfer_pos (sd_trace s1) = Some (c, a, 128 * k)" using extends_pos [OF s1(2)] assms(2) by simp
  have asked: "blocks_asked (sd_trace s1) = blocks_asked (sd_trace s)"
    using extends_last_write [OF s1(2), of BLKSIZECNT] by (simp add: blocks_asked_def)
  then have "128 * k + 128 \<le> words_asked c (sd_trace s1)" using assms(3) words_asked_cong by metis
  from read_words_ok [OF card(2) pos this] obtain s2 where
    "read_words d 128 s1 = (map (\<lambda>i. disk (first_block hc a + i div 128) ! (i mod 128)) [128 * k ..< 128 * k + 128], s2)"
    "transfer_pos (sd_trace s2) = Some (c, a, 128 * k + 128)" "blocks_asked (sd_trace s2) = blocks_asked (sd_trace s1)"
    "sd_scr0 s2 = sd_scr0 s1" "sd_err s2 = sd_err s1" by auto
  then show ?thesis
    using s1 asked extends_fields [OF s1(2)] disk_block [of disk "first_block hc a" k] card(3) by auto
qed

text \<open>A transfer of many blocks after one command, on a high-capacity card.\<close>

lemma read_blocks_multi:
  assumes "honest_card d True disk" and "sd_scr0 s AND SCR_SUPP_CCS \<noteq> 0"
    and "transfer_pos (sd_trace s) = Some (c, a, 128 * k)" and "128 * (k + n) \<le> words_asked c (sd_trace s)" and "k + n \<le> 2147483647"
  shows "\<exists>s'. read_blocks d lba n k s = Inr (True, concat (map disk [unat a + k ..< unat a + k + n]), s') \<and>
    sd_scr0 s' = sd_scr0 s \<and> sd_err s' = sd_err s"
  using assms(2-)
proof (induction n arbitrary: k s)
  case (Suc n)
  have "128 * k + 128 \<le> words_asked c (sd_trace s)" using Suc.prems(3) by simp
  from take_block [OF assms(1) Suc.prems(2) this] obtain s1 s2 where s2: "sd_int d INT_READ_RDY s = (0, s1)"
    "read_words d 128 s1 = (disk (first_block True a + k), s2)" "transfer_pos (sd_trace s2) = Some (c, a, 128 * (k + 1))"
    "blocks_asked (sd_trace s2) = blocks_asked (sd_trace s)" "sd_scr0 s2 = sd_scr0 s" "sd_err s2 = sd_err s"
    by (auto simp: algebra_simps)
  have "128 * (k + 1 + n) \<le> words_asked c (sd_trace s2)" using Suc.prems(3) words_asked_cong [OF s2(4), of c] by simp
  then obtain s' where s': "read_blocks d lba n (k + 1) s2 = Inr (True, concat (map disk [unat a + (k + 1) ..< unat a + (k + 1) + n]), s')"
    "sd_scr0 s' = sd_scr0 s2" "sd_err s' = sd_err s2"
    using Suc.IH [of s2 "k + 1"] Suc.prems s2 by auto
  have "[unat a + k ..< unat a + k + Suc n] = (unat a + k) # [unat a + (k + 1) ..< unat a + (k + 1) + n]"
    by (simp add: upt_conv_Cons)
  then show ?case using s2 s' Suc.prems(1,4) by (simp add: first_block_def)
qed simp

text \<open>One command for each block, on a card that is addressed by bytes.\<close>

lemma read_blocks_single:
  assumes "honest_card d False disk" and "sd_scr0 s AND SCR_SUPP_CCS = 0"
    and "(unat lba + k + n) * 512 \<le> 4294967296" and "sd_err s = 0"
  shows "\<exists>s'. read_blocks d lba n k s = Inr (True, concat (map disk [unat lba + k ..< unat lba + k + n]), s') \<and>
    sd_scr0 s' = sd_scr0 s \<and> sd_err s' = 0"
  using assms(2-)
proof (induction n arbitrary: k s)
  case (Suc n)
  let ?a = "(lba + of_nat k) * 512 :: u32"
  have "unat ?a = (unat lba + k) * 512" using Suc.prems(2) by (simp add: unat_word_ariths unat_of_nat)
  then have a: "first_block False ?a = unat lba + k" by (simp add: first_block_def)
  obtain r s0 where s0: "sd_cmd d CMD_READ_SINGLE ?a s = (r, s0)" "commanded CMD_READ_SINGLE ?a s s0"
    using sd_cmd_plain [of d CMD_READ_SINGLE ?a s] assms(1) by (auto simp: honest_card_def plain_command_def)
  note f = commanded_facts [OF s0(2)]
  have "128 * 0 + 128 \<le> words_asked CMD_READ_SINGLE (sd_trace s0)" by (simp add: words_asked_def)
  from take_block [OF assms(1) _ this, of ?a] f(1) obtain s1 s2 where s2: "sd_int d INT_READ_RDY s0 = (0, s1)"
    "read_words d 128 s1 = (disk (first_block False ?a + 0), s2)" "sd_scr0 s2 = sd_scr0 s0" "sd_err s2 = sd_err s0" by auto
  obtain s' where s': "read_blocks d lba n (k + 1) s2 = Inr (True, concat (map disk [unat lba + (k + 1) ..< unat lba + (k + 1) + n]), s')"
    "sd_scr0 s' = sd_scr0 s2" "sd_err s' = 0"
    using Suc.IH [of s2 "k + 1"] Suc.prems f s2 by auto
  have "[unat lba + k ..< unat lba + k + Suc n] = (unat lba + k) # [unat lba + (k + 1) ..< unat lba + (k + 1) + n]"
    by (simp add: upt_conv_Cons)
  then show ?case using s0 f s2 s' Suc.prems a by (simp add: Let_def)
qed simp

section \<open>Reading\<close>

lemma blocks_asked_write:
  assumes "unat count < 65536"
  shows "blocks_asked (RegWrite BLKSIZECNT (push_bit 16 count OR 512) # t) = unat count"
proof -
  have "drop_bit 16 (push_bit 16 count OR 512) = (take_bit 16 count :: u32)"
    by (rule bit_word_eqI) (auto simp: bit_simps bit_numeral_rec)
  moreover have "unat (take_bit 16 count) = unat count" using assms by (simp add: unsigned_take_bit_eq take_bit_nat_eq_self)
  ultimately show ?thesis by (simp add: blocks_asked_def)
qed

lemma read_start_multi:
  assumes "honest_card d True disk" and "sd_scr0 s AND SCR_SUPP_CCS \<noteq> 0" and "1 \<le> unat count" and "unat count < 65536"
  shows "\<exists>c s'. read_start d lba count s = (True, s') \<and> transfer_pos (sd_trace s') = Some (c, lba, 0) \<and>
    128 * unat count \<le> words_asked c (sd_trace s') \<and> sd_scr0 s' = sd_scr0 s \<and> sd_err s' = 0"
proof -
  have card: "no_errors d" "takes_commands d" using assms(1) by (auto simp: honest_card_def)
  let ?announce = "1 < count \<and> sd_scr0 s AND SCR_SUPP_SET_BLKCNT \<noteq> 0"
  define s0 where "s0 = (if ?announce then snd (sd_cmd d CMD_SET_BLOCKCNT count s) else s)"
  have "plain_command CMD_SET_BLOCKCNT" by (simp add: plain_command_def)
  from sd_cmd_plain [OF card this, of count s] have s0: "sd_scr0 s0 = sd_scr0 s" "\<not> (?announce \<and> sd_err s0 \<noteq> 0)"
    using commanded_facts by (auto simp: s0_def)
  define c where "c = (if count = 1 then CMD_READ_SINGLE else CMD_READ_MULTI)"
  let ?s1 = "sd_set BLKSIZECNT (push_bit 16 count OR 512) s0"
  have "plain_command c" by (simp add: plain_command_def c_def)
  from sd_cmd_plain [OF card this, of lba ?s1] obtain r s2 where
    s2: "sd_cmd d c lba ?s1 = (r, s2)" "commanded c lba ?s1 s2" by blast
  note f = commanded_facts [OF s2(2)]
  have "blocks_asked (sd_trace s2) = unat count" using f(2) blocks_asked_write [OF assms(4)] by (simp add: sd_set_def reg_set_def)
  moreover have "unat count = 1" if "count = 1" using that by simp
  ultimately have "128 * unat count \<le> words_asked c (sd_trace s2)" by (simp add: words_asked_def c_def)
  moreover have "sd_scr0 s2 = sd_scr0 s" using f(3) s0(1) by (simp add: sd_set_def)
  moreover have "read_start d lba count s = (True, s2)"
    unfolding read_start_def Let_def s0_def [symmetric] c_def [symmetric] using s0(2) s2(1) f(4) assms(2) by (auto simp: s0_def)
  ultimately show ?thesis using f(1,4) by blast
qed

lemma read_block_honest:
  assumes "honest_card d hc disk" and "sd_scr0 s AND SCR_SUPP_CCS \<noteq> 0 \<longleftrightarrow> hc"
    and "line_free_soon d SR_DAT_INHIBIT (sd_trace s)" and "1 \<le> unat count" and "unat count < 65536"
    and "hc \<or> (unat lba + unat count) * 512 \<le> 4294967296"
  shows "\<exists>s'. ReadBlock d lba count s = Inr (True, concat (map disk [unat lba ..< unat lba + unat count]), s') \<and> sd_err s' = 0"
proof -
  have card: "no_errors d" "takes_commands d" using assms(1) by (auto simp: honest_card_def)
  have count: "\<not> count < 1" using assms(4) by (simp add: word_less_nat_alt)
  obtain s1 where s1: "sd_status d SR_DAT_INHIBIT s = (0, s1)" "extends s s1" using sd_status_ok [OF card(1) assms(3)] by blast
  note scr = extends_fields(1) [OF s1(2)]
  have stop: "plain_command CMD_STOP_TRANS" by (simp add: plain_command_def)
  show ?thesis
  proof (cases hc)
    case True
    then have card': "honest_card d True disk" using assms(1) by simp
    have hc: "sd_scr0 s1 AND SCR_SUPP_CCS \<noteq> 0" using assms(2) scr True by simp
    obtain c s2 where s2: "read_start d lba count s1 = (True, s2)" "transfer_pos (sd_trace s2) = Some (c, lba, 128 * 0)"
      "128 * (0 + unat count) \<le> words_asked c (sd_trace s2)" "sd_scr0 s2 = sd_scr0 s1" "sd_err s2 = 0"
      using read_start_multi [OF card' hc assms(4,5), of lba] by auto
    obtain s3 where s3: "read_blocks d lba (unat count) 0 s2 = Inr (True, concat (map disk [unat lba ..< unat lba + unat count]), s3)"
      "sd_scr0 s3 = sd_scr0 s2" "sd_err s3 = 0"
      using read_blocks_multi [OF card' _ s2(2,3), of lba] assms(5) hc s2(4,5) by auto
    have "sd_err (snd (sd_cmd d CMD_STOP_TRANS 0 s3)) = 0"
      using sd_cmd_plain [OF card stop, of 0 s3] commanded_facts(4) by force
    then show ?thesis using s1(1) s2(1) s3 count by (auto simp: ReadBlock_def Let_def)
  next
    case False
    let ?s2 = "sd_set BLKSIZECNT (push_bit 16 1 OR 512) s1"
    have not_hc: "sd_scr0 s AND SCR_SUPP_CCS = 0" using False assms(2) by simp
    obtain n where n: "unat count = Suc n" using assms(4) by (cases "unat count") auto
    define a where "a = (lba + of_nat 0) * 512"
    obtain r s3 where s3: "sd_cmd d CMD_READ_SINGLE a ?s2 = (r, s3)" "commanded CMD_READ_SINGLE a ?s2 s3"
      using sd_cmd_plain [OF card, of CMD_READ_SINGLE a ?s2] by (auto simp: plain_command_def)
    have "\<exists>s'. read_blocks d lba (unat count) 0 (?s2\<lparr>sd_err := 0\<rparr>) =
        Inr (True, concat (map disk [unat lba ..< unat lba + unat count]), s') \<and> sd_scr0 s' = sd_scr0 s \<and> sd_err s' = 0"
      using read_blocks_single [of d disk "?s2\<lparr>sd_err := 0\<rparr>" lba 0 "unat count"] assms(1,6) False not_hc scr by (simp add: sd_set_def)
    moreover have "sd_cmd d CMD_READ_SINGLE a (?s2\<lparr>sd_err := 0\<rparr>) = sd_cmd d CMD_READ_SINGLE a ?s2"
      by (subst (1 2) sd_cmd.simps) simp
    then have "read_blocks d lba (unat count) 0 (?s2\<lparr>sd_err := 0\<rparr>) = read_blocks d lba (unat count) 0 ?s2"
      using not_hc scr unfolding n a_def by (simp add: sd_set_def)
    ultimately show ?thesis using s1(1) not_hc scr count by (auto simp: ReadBlock_def read_start_def Let_def)
  qed
qed


text \<open>A card whose waits end at once, with an address-dependent pattern in its blocks.\<close>

definition example_disk :: "nat \<Rightarrow> u32 list" where
  "example_disk b = map (\<lambda>i. of_nat (1000 * b + i)) [0..<128]"

definition example_card :: "unit device" where
  "example_card =
     \<lparr>reads = (\<lambda>t r. if r = INTERRUPT then 0x21 else if r = DATA then
         (case transfer_pos t of None \<Rightarrow> 0 | Some (c, a, k) \<Rightarrow> example_disk (unat a + k div 128) ! (k mod 128)) else 0),
      counter = (\<lambda>t. 0)\<rparr>"

definition ready_sd :: sd where
  "ready_sd = \<lparr>sd_trace = [], sd_gpio = \<lparr>regs = (\<lambda>_. 0), writes = []\<rparr>, sd_scr0 = SCR_SUPP_CCS, sd_scr1 = 0, sd_rca = 0x10000,
     sd_err = 0, sd_hv = 2\<rparr>"

lemma example_card_honest: "honest_card example_card True example_disk"
proof -
  have int: "reads example_card t INTERRUPT = 0x21" and free: "reads example_card t STATUS = 0" for t
    by (simp_all add: example_card_def sd_regs)
  have "int_soon example_card m t" if "0x21 AND m \<noteq> 0" for m t
    unfolding int_soon_def by (rule exI [of _ 0]) (simp add: int that)
  moreover have "line_free_soon example_card m t" for m t
    unfolding line_free_soon_def by (rule exI [of _ 0]) (simp add: free)
  ultimately show ?thesis
    by (simp add: honest_card_def no_errors_def takes_commands_def sends_blocks_def int example_disk_def)
      (auto simp: example_card_def first_block_def example_disk_def sd_regs)
qed

lemma example_read:
  "\<exists>s'. ReadBlock example_card 5 3 ready_sd = Inr (True, concat (map example_disk [5, 6, 7]), s')"
proof -
  have "line_free_soon example_card SR_DAT_INHIBIT (sd_trace ready_sd)"
    unfolding line_free_soon_def by (rule exI [of _ 0]) (simp add: example_card_def sd_regs)
  then show ?thesis
    using read_block_honest [OF example_card_honest, of ready_sd 3 5] by (auto simp: ready_sd_def upt_rec)
qed


section \<open>Any card\<close>

lemma length_read_words: "length (fst (read_words d n s)) = n"
  by (induction n arbitrary: s) (auto simp: case_prod_beta)

lemma read_blocks_length:
  assumes "read_blocks d lba n c s = Inr (ok, ws, s')"
  shows "length ws \<le> 128 * n \<and> (ok \<longrightarrow> length ws = 128 * n)"
  using assms
proof (induction n arbitrary: c s ok ws s')
  case (Suc n)
  then show ?case
    using length_read_words [of d 128]
    by (auto simp: Let_def case_prod_beta rbind_eq_Inr split: if_splits)
qed auto

text \<open>
  C5: Whatever the card does, \<^verbatim>\<open>ReadBlock\<close> stores at most the 512 bytes of each block that was asked for, exactly that
  many when it reports success, and one block when it is asked for none.
\<close>

theorem read_block_fills_the_buffer:
  assumes "ReadBlock d lba count s = Inr (ok, words, s')"
  shows "length words \<le> 128 * max 1 (unat count) \<and> (ok \<longrightarrow> length words = 128 * max 1 (unat count))"
proof -
  let ?n = "if count < 1 then 1 else count"
  have n: "unat ?n = max 1 (unat count)" by (simp add: word_less_nat_alt max_def)
  obtain e s1 where s1: "sd_status d SR_DAT_INHIBIT s = (e, s1)" by fastforce
  obtain go s2 where s2: "read_start d lba ?n s1 = (go, s2)" by fastforce
  show ?thesis
  proof (cases "e = 0 \<and> go")
    case True
    then obtain ok' s3 where "read_blocks d lba (unat ?n) 0 s2 = Inr (ok', words, s3)" and "ok \<longrightarrow> ok'"
      using assms s1 s2 unfolding ReadBlock_def Let_def by (auto simp: rbind_eq_Inr simp del: split_paired_Ex split: if_splits)
    then show ?thesis using read_blocks_length unfolding n by metis
  next
    case False
    then have "words = [] \<and> \<not> ok" using assms s1 s2 unfolding ReadBlock_def Let_def by (auto split: if_splits)
    then show ?thesis by simp
  qed
qed

theorem read_block_fills_the_buffer_witness:
  "\<exists>words s'. ReadBlock example_card 5 3 ready_sd = Inr (True, words, s') \<and> length words = 128 * max 1 (unat (3 :: u32))"
  using example_read read_block_fills_the_buffer by blast

text \<open>
  The wait for the configuration of the card has a count that it does not change: with a card that never has a
  word to read it does not end. The branch of \<^verbatim>\<open>sd_cmd\<close> for the answer to \<^verbatim>\<open>CMD_SEND_OP_COND\<close> and its delay of a second
  are never taken, because the prefix bit has been removed from the code.
\<close>

lemma scr_loop_stuck:
  assumes "\<And>t. reads d t STATUS AND SR_READ_AVAILABLE = 0" and "r < 2"
  shows "scr_loop d r s = None"
proof -
  have "d' = d \<longrightarrow> r' < 2 \<longrightarrow> False" if "scr_loop d' r' s' = Some s''" for d' r' s' s''
    using that
    by (rule scr_loop.raw_induct [of "\<lambda>d' r' s' s''. d' = d \<longrightarrow> r' < 2 \<longrightarrow> False", rotated])
      (auto simp: case_prod_beta Let_def assms(1) split: if_splits)
  then show ?thesis using assms(2) by (cases "scr_loop d r s") auto
qed

lemma op_cond_branch_is_dead: "code AND NOT CMD_NEED_APP \<noteq> CMD_SEND_OP_COND"
proof
  assume "code AND NOT CMD_NEED_APP = CMD_SEND_OP_COND"
  then have "bit (code AND NOT CMD_NEED_APP) 31 = bit CMD_SEND_OP_COND 31" by simp
  then show False by (simp add: bit_simps)
qed

end
