(* ===== verification/Usb_Channel.thy ===== *)
theory Usb_Channel
  imports Register_Bus Usb_Spec
begin

text \<open>
  A channel of the USB host controller, \<^verbatim>\<open>src/DesignWareUsbChannel.cpp\<close>: its registers, the decision about what follows
  a transmission, the interrupt handler and the two transfer coroutines. Addresses are relative to the core
  registers. An argument says whether the interrupt of a transmission ever comes; when it does not, the
  coroutine is never resumed and the transfer is \<open>None\<close>, as is a transfer that repeats for ever.
\<close>

unbundle bit_operations_syntax

section \<open>Registers\<close>

fun transfer_code :: "usb_transfer_type \<Rightarrow> u32" where
  "transfer_code USB_TRANSFER_TYPE_CONTROL = 0"
| "transfer_code USB_TRANSFER_TYPE_ISOCHRONOUS = 1"
| "transfer_code USB_TRANSFER_TYPE_BULK = 2"
| "transfer_code USB_TRANSFER_TYPE_INTERRUPT = 3"

fun direction_code :: "UsbDirection \<Rightarrow> u32" where
  "direction_code USB_DIRECTION_OUT = 0"
| "direction_code USB_DIRECTION_IN = 1"

text \<open>\<^verbatim>\<open>HostChannelCharacteristic\<close>, \<^verbatim>\<open>HostChannelSplitControl\<close> and \<^verbatim>\<open>HostTransferSize\<close> as words.\<close>

definition HostChannelCharacteristic :: "usb_pipe \<Rightarrow> usb_transfer_type \<Rightarrow> UsbDirection \<Rightarrow> u32" where
  "HostChannelCharacteristic pipe ty dir =
     put_field 7 22 (ucast (pipe_Number pipe)) (put_field 2 18 (transfer_code ty)
       (put_field 1 17 (flag (Speed pipe = USB_SPEED_LOW)) (put_field 1 15 (direction_code dir)
         (put_field 4 11 (ucast (EndPoint pipe)) (put_field 11 0 (ucast (MaxPacketSizeInBytes pipe)) 0)))))"

definition channel_enable :: "u32 \<Rightarrow> u32" where
  "channel_enable = put_field 1 31 1"

definition launch_fields :: "u32 \<Rightarrow> u32 \<Rightarrow> u32" where
  "launch_fields nextFrame r = put_field 2 20 1 (put_field 1 29 (nextFrame AND 1) r)"

definition HostChannelSplitControl :: "usb_pipe \<Rightarrow> u32" where
  "HostChannelSplitControl pipe =
     (if Speed pipe \<noteq> USB_SPEED_HIGH
      then put_field 1 31 1 (put_field 7 7 (ucast (splitNodePoint pipe)) (put_field 7 0 (ucast (splitNodePort pipe)) 0))
      else 0)"

definition complete_split :: "bool \<Rightarrow> u32 \<Rightarrow> u32" where
  "complete_split b = put_field 1 16 (flag b)"

definition HostTransferSize :: "u32 \<Rightarrow> u32 \<Rightarrow> PacketId \<Rightarrow> u32" where
  "HostTransferSize bytes count pid = put_field 2 29 (pid_code pid) (put_field 10 19 count (put_field 19 0 bytes 0))"

definition packet_count :: "u32 \<Rightarrow> u32" where
  "packet_count = get_field 10 19"

text \<open>The flags of \<^verbatim>\<open>ChannelInterrupts\<close>.\<close>

definition TransferComplete :: "u32 \<Rightarrow> bool" where "TransferComplete i = bit i 0"
definition Halt :: "u32 \<Rightarrow> bool" where "Halt i = bit i 1"
definition AhbError :: "u32 \<Rightarrow> bool" where "AhbError i = bit i 2"
definition Stall :: "u32 \<Rightarrow> bool" where "Stall i = bit i 3"
definition NegativeAcknowledgement :: "u32 \<Rightarrow> bool" where "NegativeAcknowledgement i = bit i 4"
definition Acknowledgement :: "u32 \<Rightarrow> bool" where "Acknowledgement i = bit i 5"
definition NotYet :: "u32 \<Rightarrow> bool" where "NotYet i = bit i 6"
definition TransactionError :: "u32 \<Rightarrow> bool" where "TransactionError i = bit i 7"
definition BabbleError :: "u32 \<Rightarrow> bool" where "BabbleError i = bit i 8"
definition FrameOverrun :: "u32 \<Rightarrow> bool" where "FrameOverrun i = bit i 9"
definition DataToggleError :: "u32 \<Rightarrow> bool" where "DataToggleError i = bit i 10"

section \<open>What follows a transmission\<close>

record send_control =
  SplitTries :: u8
  PacketTries :: u8
  GlobalTries :: u8
  LongerDelay :: bool
  ActionResendSplit :: bool
  ActionRetry :: bool
  ActionFatalError :: bool
  Success :: bool

definition no_control :: send_control where
  "no_control = \<lparr>SplitTries = 0, PacketTries = 0, GlobalTries = 0, LongerDelay = False, ActionResendSplit = False,
     ActionRetry = False, ActionFatalError = False, Success = False\<rparr>"

definition count_try :: "bool \<Rightarrow> send_control \<Rightarrow> send_control" where
  "count_try packetSplit c =
     (if packetSplit then
        let c = c\<lparr>SplitTries := SplitTries c + 1\<rparr> in
        if SplitTries c = 5 then c\<lparr>ActionFatalError := True\<rparr> else c\<lparr>ActionResendSplit := True\<rparr>
      else
        let c = c\<lparr>PacketTries := PacketTries c + 1\<rparr> in
        if PacketTries c = 3 then c\<lparr>ActionFatalError := True\<rparr> else c\<lparr>ActionRetry := True\<rparr>)"

definition HCDCheckErrorAndAction :: "u32 \<Rightarrow> bool \<Rightarrow> send_control \<Rightarrow> DWCRESULT \<times> send_control" where
  "HCDCheckErrorAndAction i packetSplit c0 =
     (let c = c0\<lparr>ActionResendSplit := False, ActionRetry := False, LongerDelay := False\<rparr> in
      if AhbError i then (DwcErrorDevice, c\<lparr>ActionFatalError := True\<rparr>)
      else if DataToggleError i then (DwcErrorTransmission, c\<lparr>ActionFatalError := True\<rparr>)
      else if Acknowledgement i then
        (DwcOk, (if TransferComplete i then c\<lparr>Success := True\<rparr> else c\<lparr>ActionResendSplit := True\<rparr>)\<lparr>GlobalTries := 0\<rparr>)
      else if packetSplit \<and> SplitTries c + 1 = 5 \<or> \<not> packetSplit \<and> PacketTries c + 1 = 3 then
        (DwcErrorTransmission, count_try packetSplit c)
      else
        let c = count_try packetSplit c in
        if \<not> Stall i \<and> \<not> BabbleError i \<and> \<not> FrameOverrun i then
          (if NegativeAcknowledgement i then (DwcErrorTransmission, c)
           else if NotYet i then (DwcErrorTransmission, c)
           else (DwcErrorTimeout, c))
        else
          let c = c\<lparr>GlobalTries := GlobalTries c + 1\<rparr> in
          if GlobalTries c = 3 then
            (DwcErrorTransmission, c\<lparr>ActionRetry := False, ActionResendSplit := False, ActionFatalError := True\<rparr>)
          else if Stall i then (DwcErrorStall, c)
          else if BabbleError i \<or> FrameOverrun i \<or> TransactionError i then (DwcErrorTransmission, c)
          else (DwcErrorGeneral, c))"

section \<open>The channel\<close>

text \<open>
  The bytes that the processor puts into the buffer of the channel are events that the device sees; what the
  device puts there is an argument. A waiting coroutine is its transmission number and its address, 0 for none.
\<close>

datatype dma_event = DmaOut "u8 list"

record channel_device = "dma_event device" +
  interrupts :: "dma_event reg_trace \<Rightarrow> bool"
  dma :: "dma_event reg_trace \<Rightarrow> nat \<Rightarrow> u8"

record hcd_channel =
  m_Number :: nat
  m_Prepared :: bool
  m_InTransfer :: bool
  m_OutTransfer :: bool
  m_SplitEnabled :: bool
  m_Size :: u32
  m_Pipe :: usb_pipe
  m_Type :: usb_transfer_type
  m_Direction :: UsbDirection
  m_Callback :: u64
  m_Context :: u64
  m_currentTransmissionNumber :: u64
  m_waitingCoroutineHandle :: "u64 \<times> u64"
  m_interruptStatus :: u32
  m_DmaBuffer :: u64
  ch_trace :: "dma_event reg_trace"

definition MaxPacketSize :: nat where "MaxPacketSize = 1024"

definition channel_base :: "nat \<Rightarrow> nat" where "channel_base n = 0x500 + 0x20 * n"

definition CH_Characteristic :: "hcd_channel \<Rightarrow> nat" where "CH_Characteristic ch = channel_base (m_Number ch) + 0x00"
definition CH_SplitCtrl :: "hcd_channel \<Rightarrow> nat" where "CH_SplitCtrl ch = channel_base (m_Number ch) + 0x04"
definition CH_Interrupt :: "hcd_channel \<Rightarrow> nat" where "CH_Interrupt ch = channel_base (m_Number ch) + 0x08"
definition CH_InterruptMask :: "hcd_channel \<Rightarrow> nat" where "CH_InterruptMask ch = channel_base (m_Number ch) + 0x0C"
definition CH_TransferSize :: "hcd_channel \<Rightarrow> nat" where "CH_TransferSize ch = channel_base (m_Number ch) + 0x10"
definition CH_DmaAddr :: "hcd_channel \<Rightarrow> nat" where "CH_DmaAddr ch = channel_base (m_Number ch) + 0x14"
definition FRAMECONTROL :: nat where "FRAMECONTROL = 0x408"

lemmas channel_regs =
  channel_base_def CH_Characteristic_def CH_SplitCtrl_def CH_Interrupt_def CH_InterruptMask_def CH_TransferSize_def
  CH_DmaAddr_def FRAMECONTROL_def

definition ch_get :: "channel_device \<Rightarrow> nat \<Rightarrow> hcd_channel \<Rightarrow> u32 \<times> hcd_channel" where
  "ch_get d r ch = (let (v, t) = reg_get (device.truncate d) r (ch_trace ch) in (v, ch\<lparr>ch_trace := t\<rparr>))"

definition ch_set :: "nat \<Rightarrow> u32 \<Rightarrow> hcd_channel \<Rightarrow> hcd_channel" where
  "ch_set r v ch = ch\<lparr>ch_trace := reg_set r v (ch_trace ch)\<rparr>"

definition ch_modify :: "channel_device \<Rightarrow> nat \<Rightarrow> (u32 \<Rightarrow> u32) \<Rightarrow> hcd_channel \<Rightarrow> hcd_channel" where
  "ch_modify d r f ch = (let (v, ch) = ch_get d r ch in ch_set r (f v) ch)"

definition ch_pause :: "nat \<Rightarrow> hcd_channel \<Rightarrow> hcd_channel" where
  "ch_pause us ch = ch\<lparr>ch_trace := pause us (ch_trace ch)\<rparr>"

definition GetCurrentFrame :: "channel_device \<Rightarrow> hcd_channel \<Rightarrow> u32 \<times> hcd_channel" where
  "GetCurrentFrame d ch = (let (v, ch) = ch_get d FRAMECONTROL ch in (get_field 16 0 v, ch))"

definition HCDChannel :: "nat \<Rightarrow> u64 \<Rightarrow> dma_event reg_trace \<Rightarrow> hcd_channel" where
  "HCDChannel number buffer t =
     (let ch = \<lparr>m_Number = number, m_Prepared = False, m_InTransfer = False, m_OutTransfer = False, m_SplitEnabled = False,
                m_Size = 0, m_Pipe = pipe_zero, m_Type = USB_TRANSFER_TYPE_CONTROL, m_Direction = USB_DIRECTION_OUT,
                m_Callback = 0, m_Context = 0, m_currentTransmissionNumber = 0, m_waitingCoroutineHandle = (0, 0),
                m_interruptStatus = 0, m_DmaBuffer = buffer, ch_trace = t\<rparr> in
      ch_set (CH_Characteristic ch) 0 ch)"

text \<open>Division by a packet size of 0 is undefined.\<close>

definition Prepare ::
  "usb_pipe \<Rightarrow> usb_transfer_type \<Rightarrow> UsbDirection \<Rightarrow> PacketId \<Rightarrow> u32 \<Rightarrow> u64 \<Rightarrow> u64 \<Rightarrow> hcd_channel \<Rightarrow> hcd_channel res" where
  "Prepare pipe ty dir pid bytes callback context ch =
     (let ch = ch_set (CH_InterruptMask ch) 0 (ch_set (CH_Interrupt ch) 0xFFFFFFFF ch);
          ch = ch_set (CH_Characteristic ch) (HostChannelCharacteristic pipe ty dir) ch;
          ch = ch_set (CH_SplitCtrl ch) (HostChannelSplitControl pipe) ch in
      if Speed pipe \<noteq> USB_SPEED_LOW \<and> MaxPacketSizeInBytes pipe = 0 then Inl (Undefined ''division by zero'')
      else
        let count = (if Speed pipe = USB_SPEED_LOW then (bytes + 7) div 8
                     else (bytes + ucast (MaxPacketSizeInBytes pipe) - 1) div ucast (MaxPacketSizeInBytes pipe));
            count = take_bit 10 count;
            count = (if count = 0 then 1 else count) in
        Inr ((ch_set (CH_TransferSize ch) (HostTransferSize bytes count pid) ch)
             \<lparr>m_Prepared := True, m_InTransfer := False, m_OutTransfer := False,
              m_SplitEnabled := (Speed pipe \<noteq> USB_SPEED_HIGH), m_Size := bytes, m_Pipe := pipe, m_Type := ty,
              m_Direction := dir, m_Callback := callback, m_Context := context\<rparr>))"

definition StartInTransfer :: "channel_device \<Rightarrow> hcd_channel \<Rightarrow> hcd_channel" where
  "StartInTransfer d ch =
     (let ch = ch\<lparr>m_InTransfer := True\<rparr>;
          ch = ch_set (CH_InterruptMask ch) 0x1B (ch_set (CH_Interrupt ch) 0xFFFFFFFF ch);
          ch = ch_modify d (CH_SplitCtrl ch) (complete_split False) ch;
          ch = ch_set (CH_DmaAddr ch) (ucast (m_DmaBuffer ch)) ch;
          (frame, ch) = GetCurrentFrame d ch in
      ch_modify d (CH_Characteristic ch) (\<lambda>r. launch_fields (frame + 1) (channel_enable r)) ch)"

section \<open>Transmissions\<close>

text \<open>\<open>HandleInterrupt\<close> also says which coroutine its spark resumes.\<close>

definition HandleInterrupt :: "channel_device \<Rightarrow> hcd_channel \<Rightarrow> u64 option \<times> hcd_channel" where
  "HandleInterrupt d ch =
     (let address = snd (m_waitingCoroutineHandle ch);
          ch = ch\<lparr>m_waitingCoroutineHandle := (0, 0)\<rparr>;
          ch = (if address \<noteq> 0 then let (i, ch) = ch_get d (CH_Interrupt ch) ch in ch\<lparr>m_interruptStatus := i\<rparr> else ch);
          ch = ch_set (CH_InterruptMask ch) 0 (ch_set (CH_Interrupt ch) 0xFFFFFFFF ch) in
      (if address \<noteq> 0 then Some address else None, ch))"

definition StartTransmission :: "hcd_channel \<Rightarrow> u64 \<times> hcd_channel" where
  "StartTransmission ch =
     (let n = m_currentTransmissionNumber ch + 1 in (n, ch\<lparr>m_currentTransmissionNumber := n\<rparr>))"

definition await_suspend :: "channel_device \<Rightarrow> u64 \<Rightarrow> u64 \<Rightarrow> hcd_channel \<Rightarrow> hcd_channel" where
  "await_suspend d number handle ch =
     (let ch = ch\<lparr>m_waitingCoroutineHandle := (number, handle)\<rparr>;
          ch = ch_modify d (CH_InterruptMask ch) (\<lambda>r. r OR 2) ch in
      ch_modify d (CH_Characteristic ch) channel_enable ch)"

text \<open>
  A transmission from the point of view of the coroutine at address \<open>co\<close>: it is suspended, the interrupt comes, and
  the spark resumes it with the status that the handler has read. No time-out is armed.
\<close>

definition transmit :: "channel_device \<Rightarrow> u64 \<Rightarrow> hcd_channel \<Rightarrow> (u32 \<times> hcd_channel) option" where
  "transmit d co ch =
     (let (n, ch) = StartTransmission ch; ch = await_suspend d n co ch in
      if interrupts d (ch_trace ch) then
        (case HandleInterrupt d ch of
           (Some a, ch) \<Rightarrow> Some (m_interruptStatus ch, ch)
         | (None, ch) \<Rightarrow> None)
      else None)"

section \<open>Transfers\<close>

definition program_channel :: "usb_pipe \<Rightarrow> usb_transfer_type \<Rightarrow> UsbDirection \<Rightarrow> hcd_channel \<Rightarrow> hcd_channel" where
  "program_channel pipe ty dir ch =
     ch_set (CH_SplitCtrl ch) (HostChannelSplitControl pipe) (ch_set (CH_Characteristic ch) (HostChannelCharacteristic pipe ty dir) ch)"

definition packet_size :: "usb_pipe \<Rightarrow> u32" where
  "packet_size pipe = (if Speed pipe = USB_SPEED_LOW then 8 else ucast (MaxPacketSizeInBytes pipe))"

definition packets_for :: "usb_pipe \<Rightarrow> u32 \<Rightarrow> u32 res" where
  "packets_for pipe bytes =
     (if bytes = 0 then Inr 1
      else if MaxPacketSizeInBytes pipe = 0 then Inl (Undefined ''division by zero'')
      else Inr ((bytes + ucast (MaxPacketSizeInBytes pipe) - 1) div ucast (MaxPacketSizeInBytes pipe)))"

definition clear_channel :: "channel_device \<Rightarrow> hcd_channel \<Rightarrow> hcd_channel" where
  "clear_channel d ch =
     ch_modify d (CH_SplitCtrl ch) (complete_split False)
       (ch_set (CH_InterruptMask ch) 0 (ch_set (CH_Interrupt ch) 0xFFFFFFFF ch))"

definition launch :: "channel_device \<Rightarrow> hcd_channel \<Rightarrow> hcd_channel" where
  "launch d ch =
     (let ch = ch_set (CH_DmaAddr ch) (ucast (m_DmaBuffer ch)) ch; (frame, ch) = GetCurrentFrame d ch in
      ch_modify d (CH_Characteristic ch) (launch_fields (frame + 1)) ch)"

text \<open>
  One transmission with its evaluation: \<open>None\<close> in the second component is the early return with 0.
\<close>

definition attempt ::
  "channel_device \<Rightarrow> u64 \<Rightarrow> bool \<Rightarrow> send_control \<Rightarrow> hcd_channel \<Rightarrow> (send_control option \<times> hcd_channel) option" where
  "attempt d co isLowSpeed ctrl ch =
     Option.bind (transmit d co ch) (\<lambda>(st, ch).
       if \<not> Halt st then Some (None, ch)
       else
         let (_, ch) = ch_get d (CH_SplitCtrl ch) ch; ctrl = snd (HCDCheckErrorAndAction st isLowSpeed ctrl) in
         Some (if ActionFatalError ctrl then None else Some ctrl, ch))"

partial_function (option) resend_loop ::
  "channel_device \<Rightarrow> u64 \<Rightarrow> bool \<Rightarrow> send_control \<Rightarrow> hcd_channel \<Rightarrow> (send_control option \<times> hcd_channel) option" where
  "resend_loop d co isLowSpeed ctrl ch =
     (if \<not> ActionResendSplit ctrl then Some (Some ctrl, ch)
      else
        let ch = ch_pause 250 ch;
            ch = ch_set (CH_InterruptMask ch) 0 (ch_set (CH_Interrupt ch) 0xFFFFFFFF ch);
            ch = ch_modify d (CH_SplitCtrl ch) (complete_split True) ch in
        Option.bind (attempt d co isLowSpeed ctrl ch) (\<lambda>(c, ch).
          case c of
            None \<Rightarrow> Some (None, ch)
          | Some ctrl \<Rightarrow> resend_loop d co isLowSpeed ctrl (ch_pause (if LongerDelay ctrl then 10000 else 2500) ch)))"

definition send_packets ::
  "channel_device \<Rightarrow> u64 \<Rightarrow> bool \<Rightarrow> send_control \<Rightarrow> hcd_channel \<Rightarrow> (send_control option \<times> hcd_channel) option" where
  "send_packets d co isLowSpeed ctrl ch =
     Option.bind (attempt d co isLowSpeed ctrl ch) (\<lambda>(c, ch).
       case c of
         None \<Rightarrow> Some (None, ch)
       | Some ctrl \<Rightarrow> resend_loop d co isLowSpeed (ctrl\<lparr>SplitTries := 0\<rparr>) ch)"

definition transferred :: "u32 \<Rightarrow> u32 \<Rightarrow> u32 \<Rightarrow> u32 \<Rightarrow> u32 \<Rightarrow> u32" where
  "transferred bytes packetSize count current new =
     (if 0 < new then (current - new) * packetSize else bytes - (count - current) * packetSize)"

definition take_dma :: "channel_device \<Rightarrow> hcd_channel \<Rightarrow> u32 \<Rightarrow> u32 \<Rightarrow> u8 list \<Rightarrow> u8 list res" where
  "take_dma d ch offset n buffer =
     (if n \<noteq> 0 \<and> (MaxPacketSize < unat n \<or> length buffer < unat offset + unat n) then Inl (Undefined ''index'')
      else Inr (take (unat offset) buffer @ map (dma d (ch_trace ch)) [0..<unat n] @ drop (unat offset + unat n) buffer))"

partial_function (option) in_loop ::
  "channel_device \<Rightarrow> u64 \<Rightarrow> usb_pipe \<Rightarrow> u32 \<Rightarrow> u32 \<Rightarrow> u32 \<Rightarrow> u32 \<Rightarrow> send_control \<Rightarrow> u8 list \<Rightarrow> hcd_channel \<Rightarrow>
   (u32 \<times> u8 list \<times> hcd_channel) res option" where
  "in_loop d co pipe bytes count offset current ctrl buffer ch =
     (if \<not> 0 < current then Some (Inr (bytes, buffer, ch))
      else
        Option.bind (send_packets d co (Speed pipe \<noteq> USB_SPEED_HIGH) ctrl (launch d (clear_channel d ch))) (\<lambda>(c, ch).
          case c of
            None \<Rightarrow> Some (Inr (0, buffer, ch))
          | Some ctrl \<Rightarrow>
              let (v, ch) = ch_get d (CH_TransferSize ch) ch; new = packet_count v;
                  n = transferred bytes (packet_size pipe) count current new in
              if Success ctrl then
                (case take_dma d ch offset n buffer of
                   Inl e \<Rightarrow> Some (Inl e)
                 | Inr buffer \<Rightarrow> in_loop d co pipe bytes count (offset + n) new ctrl buffer ch)
              else in_loop d co pipe bytes count offset new ctrl buffer ch))"

definition TransferIn ::
  "channel_device \<Rightarrow> u64 \<Rightarrow> usb_pipe \<Rightarrow> usb_transfer_type \<Rightarrow> u8 list \<Rightarrow> PacketId \<Rightarrow> hcd_channel \<Rightarrow>
   (u32 \<times> u8 list \<times> hcd_channel) res option" where
  "TransferIn d co pipe ty buffer pid ch =
     (let ch = program_channel pipe ty USB_DIRECTION_IN ch; bytes = of_nat (length buffer) in
      case packets_for pipe bytes of
        Inl e \<Rightarrow> Some (Inl e)
      | Inr count \<Rightarrow>
          let ch = ch_set (CH_TransferSize ch) (HostTransferSize bytes count pid) ch in
          in_loop d co pipe bytes count 0 count no_control buffer ch)"

text \<open>The bytes that are left are copied for each transmission; the index bound of the loop has 64 bits.\<close>

definition put_dma :: "u32 \<Rightarrow> u8 list \<Rightarrow> hcd_channel \<Rightarrow> hcd_channel res" where
  "put_dma offset buffer ch =
     (if length buffer < unat offset then Inl (Undefined ''index'')
      else Inr (ch\<lparr>ch_trace := Noted (DmaOut (drop (unat offset) buffer)) # ch_trace ch\<rparr>))"

partial_function (option) out_loop ::
  "channel_device \<Rightarrow> u64 \<Rightarrow> usb_pipe \<Rightarrow> u8 list \<Rightarrow> u32 \<Rightarrow> u32 \<Rightarrow> u32 \<Rightarrow> u32 \<Rightarrow> send_control \<Rightarrow> hcd_channel \<Rightarrow>
   (u32 \<times> hcd_channel) res option" where
  "out_loop d co pipe buffer bytes count offset current ctrl ch =
     (if \<not> 0 < current then Some (Inr (bytes, ch))
      else
        (case put_dma offset buffer (clear_channel d ch) of
           Inl e \<Rightarrow> Some (Inl e)
         | Inr ch \<Rightarrow>
             Option.bind (send_packets d co (Speed pipe \<noteq> USB_SPEED_HIGH) ctrl (launch d ch)) (\<lambda>(c, ch).
               case c of
                 None \<Rightarrow> Some (Inr (0, ch))
               | Some ctrl \<Rightarrow>
                   let (v, ch) = ch_get d (CH_TransferSize ch) ch; new = packet_count v;
                       n = transferred bytes (packet_size pipe) count current new in
                   out_loop d co pipe buffer bytes count (if Success ctrl then offset + n else offset) new ctrl ch)))"

definition TransferOut ::
  "channel_device \<Rightarrow> u64 \<Rightarrow> usb_pipe \<Rightarrow> usb_transfer_type \<Rightarrow> u8 list \<Rightarrow> PacketId \<Rightarrow> hcd_channel \<Rightarrow> (u32 \<times> hcd_channel) res option" where
  "TransferOut d co pipe ty buffer pid ch =
     (if MaxPacketSize < length buffer then Some (Inr (0, ch))
      else
        let ch = program_channel pipe ty USB_DIRECTION_OUT ch; bytes = of_nat (length buffer) in
        case packets_for pipe bytes of
          Inl e \<Rightarrow> Some (Inl e)
        | Inr count \<Rightarrow>
            let ch = ch_set (CH_TransferSize ch) (HostTransferSize bytes count pid) ch in
            out_loop d co pipe buffer bytes count 0 count no_control ch)"

end
