(* ===== verification/Channel_Transfers.thy ===== *)
theory Channel_Transfers
  imports Usb_Channel
begin

text \<open>
  The transfers of a channel: they end when the device keeps answering and its packet counter falls, they stay
  inside the caller's buffer and the buffer of the channel, and they report all of the bytes or none.
\<close>

section \<open>What the registers say\<close>

text \<open>The packet counter as it was seen last, and the last interrupt status.\<close>

fun packets_left :: "nat \<Rightarrow> dma_event reg_trace \<Rightarrow> u32" where
  "packets_left r [] = 0"
| "packets_left r (RegRead q v # t) = (if q = r then packet_count v else packets_left r t)"
| "packets_left r (RegWrite q v # t) = (if q = r then packet_count v else packets_left r t)"
| "packets_left r (_ # t) = packets_left r t"

fun last_status :: "nat \<Rightarrow> dma_event reg_trace \<Rightarrow> u32" where
  "last_status r [] = 0"
| "last_status r (RegRead q v # t) = (if q = r then v else last_status r t)"
| "last_status r (_ # t) = last_status r t"

definition sound :: "u32 \<Rightarrow> bool" where
  "sound i \<longleftrightarrow> \<not> AhbError i \<and> \<not> DataToggleError i \<and> Acknowledgement i"

definition completed :: "u32 \<Rightarrow> bool" where
  "completed i \<longleftrightarrow> sound i \<and> TransferComplete i"

definition half_way :: "u32 \<Rightarrow> bool" where
  "half_way i \<longleftrightarrow> sound i \<and> \<not> TransferComplete i"

abbreviation status_of :: "hcd_channel \<Rightarrow> u32" where
  "status_of ch \<equiv> last_status (CH_Interrupt ch) (ch_trace ch)"

abbreviation left_of :: "hcd_channel \<Rightarrow> u32" where
  "left_of ch \<equiv> packets_left (CH_TransferSize ch) (ch_trace ch)"

text \<open>The packet counter does not rise.\<close>

definition counts_down :: "channel_device \<Rightarrow> hcd_channel \<Rightarrow> bool" where
  "counts_down d ch \<longleftrightarrow>
     (\<forall>t. packet_count (reads d t (CH_TransferSize ch)) \<le> packets_left (CH_TransferSize ch) t)"

text \<open>
  Every transmission is answered and halts the channel, a half-way acknowledgement is not followed by another
  one, and a completed transmission lowers the packet counter.
\<close>

definition responsive :: "channel_device \<Rightarrow> hcd_channel \<Rightarrow> bool" where
  "responsive d ch \<longleftrightarrow>
     (\<forall>t. interrupts d t \<and> Halt (reads d t (CH_Interrupt ch)) \<and>
        (half_way (last_status (CH_Interrupt ch) t) \<longrightarrow> \<not> half_way (reads d t (CH_Interrupt ch))) \<and>
        (completed (last_status (CH_Interrupt ch) t) \<and> 0 < packets_left (CH_TransferSize ch) t \<longrightarrow>
           packet_count (reads d t (CH_TransferSize ch)) < packets_left (CH_TransferSize ch) t))"

section \<open>Steps that leave the two alone\<close>

definition still :: "hcd_channel \<Rightarrow> hcd_channel \<Rightarrow> bool" where
  "still ch ch' \<longleftrightarrow> m_Number ch' = m_Number ch \<and> left_of ch' = left_of ch \<and> status_of ch' = status_of ch"

definition counted :: "hcd_channel \<Rightarrow> hcd_channel \<Rightarrow> bool" where
  "counted ch ch' \<longleftrightarrow> m_Number ch' = m_Number ch \<and> left_of ch' = left_of ch"

lemma same_number:
  assumes "m_Number ch' = m_Number ch"
  shows "CH_Characteristic ch' = CH_Characteristic ch" "CH_SplitCtrl ch' = CH_SplitCtrl ch" "CH_Interrupt ch' = CH_Interrupt ch"
    "CH_InterruptMask ch' = CH_InterruptMask ch" "CH_TransferSize ch' = CH_TransferSize ch" "CH_DmaAddr ch' = CH_DmaAddr ch"
  using assms by (simp_all add: channel_regs)

lemma laws_same_number:
  assumes "m_Number ch' = m_Number ch"
  shows "counts_down d ch' = counts_down d ch" and "responsive d ch' = responsive d ch"
  using same_number [OF assms] by (simp_all add: counts_down_def responsive_def)

lemma laws_counted:
  assumes "counted ch ch'"
  shows "counts_down d ch \<Longrightarrow> counts_down d ch'" and "responsive d ch \<Longrightarrow> responsive d ch'"
  using assms laws_same_number [of ch' ch d] unfolding counted_def by metis+

lemma channel_registers_apart [simp]:
  "CH_Characteristic ch \<noteq> CH_TransferSize ch" "CH_SplitCtrl ch \<noteq> CH_TransferSize ch" "CH_Interrupt ch \<noteq> CH_TransferSize ch"
  "CH_InterruptMask ch \<noteq> CH_TransferSize ch" "CH_DmaAddr ch \<noteq> CH_TransferSize ch" "FRAMECONTROL \<noteq> CH_TransferSize ch"
  "CH_Characteristic ch \<noteq> CH_Interrupt ch" "CH_SplitCtrl ch \<noteq> CH_Interrupt ch" "CH_InterruptMask ch \<noteq> CH_Interrupt ch"
  "CH_DmaAddr ch \<noteq> CH_Interrupt ch" "FRAMECONTROL \<noteq> CH_Interrupt ch" "CH_TransferSize ch \<noteq> CH_Interrupt ch"
  by (simp_all add: channel_regs)

lemma still_refl [simp]: "still ch ch"
  by (simp add: still_def)

lemma still_trans: "still a b \<Longrightarrow> still b c \<Longrightarrow> still a c"
  unfolding still_def by (metis same_number(3,5))

lemma counted_trans: "counted a b \<Longrightarrow> counted b c \<Longrightarrow> counted a c"
  unfolding counted_def by (metis same_number(5))

lemma still_counted: "still a b \<Longrightarrow> counted a b"
  by (simp add: still_def counted_def)

lemma trace_device [simp]: "reads (device.truncate d) = reads d"
  by (simp add: device.defs)

lemma ch_get_eq: "ch_get d r ch = (reads d (ch_trace ch) r, ch\<lparr>ch_trace := RegRead r (reads d (ch_trace ch) r) # ch_trace ch\<rparr>)"
  by (simp add: ch_get_def reg_get_def Let_def)

lemma still_set: "r \<noteq> CH_TransferSize ch \<Longrightarrow> still ch (ch_set r v ch)"
  by (simp add: still_def ch_set_def reg_set_def channel_regs)

lemma still_get: "r \<noteq> CH_TransferSize ch \<Longrightarrow> r \<noteq> CH_Interrupt ch \<Longrightarrow> still ch (snd (ch_get d r ch))"
  by (simp add: still_def ch_get_eq channel_regs)

lemma still_pause: "still ch (ch_pause us ch)"
  by (simp add: still_def ch_pause_def pause_def channel_regs)

lemma still_modify: "r \<noteq> CH_TransferSize ch \<Longrightarrow> r \<noteq> CH_Interrupt ch \<Longrightarrow> still ch (ch_modify d r f ch)"
  by (simp add: still_def ch_modify_def ch_get_eq ch_set_def reg_set_def channel_regs)

lemma number_set [simp]: "m_Number (ch_set r v ch) = m_Number ch"
  by (simp add: ch_set_def)

lemma number_pause [simp]: "m_Number (ch_pause us ch) = m_Number ch"
  by (simp add: ch_pause_def)

lemma still_clear: "still ch (clear_channel d ch)"
  unfolding clear_channel_def
  by (intro still_trans [OF _ still_modify] still_trans [OF _ still_set] still_refl) (simp_all add: channel_regs)

lemma still_launch: "still ch (launch d ch)"
proof -
  let ?ch1 = "ch_set (CH_DmaAddr ch) (ucast (m_DmaBuffer ch)) ch"
  have "still ch ?ch1" by (rule still_set) simp
  moreover have "still ?ch1 (snd (GetCurrentFrame d ?ch1))"
    using still_get [of FRAMECONTROL ?ch1 d] by (simp add: GetCurrentFrame_def case_prod_beta)
  moreover have "still (snd (GetCurrentFrame d ?ch1)) (launch d ch)"
    unfolding launch_def Let_def case_prod_beta by (rule still_modify) simp_all
  ultimately show ?thesis using still_trans by blast
qed

lemma still_resend:
  "still ch (let ch = ch_pause 250 ch; ch = ch_set (CH_InterruptMask ch) 0 (ch_set (CH_Interrupt ch) 0xFFFFFFFF ch) in
     ch_modify d (CH_SplitCtrl ch) (complete_split True) ch)"
  unfolding Let_def
  by (intro still_trans [OF _ still_modify] still_trans [OF _ still_set] still_pause) (simp_all add: channel_regs)

section \<open>Transmissions\<close>

lemma still_suspend: "still ch (await_suspend d n co ch)"
  unfolding await_suspend_def Let_def
  by (intro still_trans [OF _ still_modify]) (simp_all add: channel_regs still_def)

lemma HandleInterrupt_result:
  assumes "snd (m_waitingCoroutineHandle ch) = co"
  shows "fst (HandleInterrupt d ch) = (if co \<noteq> 0 then Some co else None)"
    and "co \<noteq> 0 \<Longrightarrow> m_interruptStatus (snd (HandleInterrupt d ch)) = reads d (ch_trace ch) (CH_Interrupt ch)"
    and "m_Number (snd (HandleInterrupt d ch)) = m_Number ch"
    and "co \<noteq> 0 \<Longrightarrow> ch_trace (snd (HandleInterrupt d ch)) =
      RegWrite (CH_InterruptMask ch) 0 # RegWrite (CH_Interrupt ch) 0xFFFFFFFF #
      RegRead (CH_Interrupt ch) (reads d (ch_trace ch) (CH_Interrupt ch)) # ch_trace ch"
  using assms by (simp_all add: HandleInterrupt_def Let_def ch_get_eq ch_set_def reg_set_def channel_regs)

text \<open>A transmission keeps the packet counter, and its status is what the handler read.\<close>

lemma transmit_Some:
  assumes "transmit d co ch = Some (st, ch')"
  shows "counted ch ch' \<and> st = status_of ch' \<and> (\<exists>t. st = reads d t (CH_Interrupt ch) \<and> last_status (CH_Interrupt ch) t = status_of ch)"
proof -
  obtain n ch0 where n: "StartTransmission ch = (n, ch0)" by fastforce
  define ch1 where "ch1 = await_suspend d n co ch0"
  have "still ch ch0" using n by (auto simp: StartTransmission_def Let_def still_def channel_regs)
  then have q: "still ch ch1" using still_trans [OF _ still_suspend] by (simp add: ch1_def)
  have co: "snd (m_waitingCoroutineHandle ch1) = co"
    by (simp add: ch1_def await_suspend_def Let_def ch_modify_def ch_get_eq ch_set_def)
  note handled = HandleInterrupt_result [OF co, of d]
  have "transmit d co ch =
      (if interrupts d (ch_trace ch1) then
         (case HandleInterrupt d ch1 of (Some a, c) \<Rightarrow> Some (m_interruptStatus c, c) | (None, c) \<Rightarrow> None)
       else None)"
    by (simp add: transmit_def n ch1_def)
  with assms have "co \<noteq> 0" and ch': "ch' = snd (HandleInterrupt d ch1)" and "st = m_interruptStatus ch'"
    using handled(1) by (auto split: if_splits prod.splits option.splits)
  then have st: "st = reads d (ch_trace ch1) (CH_Interrupt ch1)" using handled(2) by simp
  have trace: "ch_trace ch' = RegWrite (CH_InterruptMask ch1) 0 # RegWrite (CH_Interrupt ch1) 0xFFFFFFFF #
      RegRead (CH_Interrupt ch1) (reads d (ch_trace ch1) (CH_Interrupt ch1)) # ch_trace ch1"
    and number: "m_Number ch' = m_Number ch1"
    using handled(3) handled(4) [OF \<open>co \<noteq> 0\<close>] ch' by simp_all
  have "counted ch1 ch'" and "status_of ch' = st"
    using trace st same_number [OF number] number by (simp_all add: counted_def)
  moreover have "CH_Interrupt ch1 = CH_Interrupt ch" "last_status (CH_Interrupt ch) (ch_trace ch1) = status_of ch"
    using q same_number(3) [of ch1 ch] unfolding still_def by metis+
  ultimately show ?thesis using st counted_trans [OF still_counted [OF q]] by metis
qed

lemma transmit_total:
  assumes "responsive d ch" and "co \<noteq> 0"
  shows "\<exists>st ch'. transmit d co ch = Some (st, ch')"
  using assms
  by (auto simp: transmit_def responsive_def case_prod_beta HandleInterrupt_def Let_def await_suspend_def ch_modify_def ch_get_eq
      ch_set_def StartTransmission_def)

lemma attempt_Some:
  assumes "attempt d co low ctrl ch = Some (c, ch')"
  shows "counted ch ch'"
    and "c = Some ctrl' \<Longrightarrow>
      ctrl' = snd (HCDCheckErrorAndAction (status_of ch') low ctrl) \<and> \<not> ActionFatalError ctrl' \<and>
      (\<exists>t. status_of ch' = reads d t (CH_Interrupt ch) \<and> last_status (CH_Interrupt ch) t = status_of ch)"
proof -
  from assms obtain st ch1 where t: "transmit d co ch = Some (st, ch1)"
    and r: "(if \<not> Halt st then (None, ch1)
      else (if ActionFatalError (snd (HCDCheckErrorAndAction st low ctrl)) then None else Some (snd (HCDCheckErrorAndAction st low ctrl)),
        snd (ch_get d (CH_SplitCtrl ch1) ch1))) = (c, ch')"
    by (auto simp: attempt_def case_prod_beta Let_def bind_eq_Some_conv split: if_splits)
  note s = transmit_Some [OF t]
  have "still ch1 (snd (ch_get d (CH_SplitCtrl ch1) ch1))" by (rule still_get) simp_all
  with r have q: "still ch1 ch'" by (auto split: if_splits)
  then show "counted ch ch'" using s by (blast intro: counted_trans still_counted)
  show "ctrl' = snd (HCDCheckErrorAndAction (status_of ch') low ctrl) \<and> \<not> ActionFatalError ctrl' \<and>
      (\<exists>t. status_of ch' = reads d t (CH_Interrupt ch) \<and> last_status (CH_Interrupt ch) t = status_of ch)" if "c = Some ctrl'"
  proof -
    obtain t where t: "st = reads d t (CH_Interrupt ch)" "last_status (CH_Interrupt ch) t = status_of ch" using s by blast
    have "status_of ch' = st" using q s by (simp add: still_def)
    then show ?thesis using r t that by (intro conjI exI [of _ t]) (auto split: if_splits)
  qed
qed

lemma attempt_total:
  assumes "responsive d ch" and "co \<noteq> 0"
  shows "\<exists>c ch'. attempt d co low ctrl ch = Some (c, ch')"
  using transmit_total [OF assms] by (auto simp: attempt_def case_prod_beta Let_def)

text \<open>What the evaluation of a transmission leaves when it is not fatal.\<close>

lemma check_action:
  assumes "c = snd (HCDCheckErrorAndAction i low c0)" and "\<not> ActionFatalError c"
  shows "completed i \<Longrightarrow> \<not> ActionResendSplit c \<and> PacketTries c = PacketTries c0"
    and "half_way i \<Longrightarrow> ActionResendSplit c \<and> PacketTries c = PacketTries c0 \<and> SplitTries c = SplitTries c0"
    and "\<not> sound i \<Longrightarrow> low \<Longrightarrow>
      ActionResendSplit c \<and> PacketTries c = PacketTries c0 \<and> SplitTries c = SplitTries c0 + 1 \<and> SplitTries c \<noteq> 5"
    and "\<not> sound i \<Longrightarrow> \<not> low \<Longrightarrow> \<not> ActionResendSplit c \<and> PacketTries c = PacketTries c0 + 1 \<and> PacketTries c \<noteq> 3"
proof -
  let ?c = "c0\<lparr>ActionResendSplit := False, ActionRetry := False, LongerDelay := False\<rparr>"
  show "\<not> ActionResendSplit c \<and> PacketTries c = PacketTries c0" if "completed i"
    using that assms(1) by (simp add: HCDCheckErrorAndAction_def completed_def sound_def Let_def)
  show "ActionResendSplit c \<and> PacketTries c = PacketTries c0 \<and> SplitTries c = SplitTries c0" if "half_way i"
    using that assms(1) by (simp add: HCDCheckErrorAndAction_def half_way_def sound_def Let_def)
  have unsound: "\<not> AhbError i \<and> \<not> DataToggleError i \<and>
      (ActionResendSplit c, PacketTries c, SplitTries c) =
      (ActionResendSplit (count_try low ?c), PacketTries (count_try low ?c), SplitTries (count_try low ?c)) \<and>
      \<not> (low \<and> SplitTries c0 + 1 = 5 \<or> \<not> low \<and> PacketTries c0 + 1 = 3)" if "\<not> sound i"
  proof -
    define c1 where "c1 = count_try low ?c"
    have "ActionFatalError c" if "AhbError i \<or> DataToggleError i"
      using that unfolding assms(1) by (auto simp: HCDCheckErrorAndAction_def Let_def)
    then have a: "\<not> AhbError i" "\<not> DataToggleError i" using assms(2) by auto
    then have ack: "\<not> Acknowledgement i" using that by (simp add: sound_def)
    let ?last = "low \<and> SplitTries ?c + 1 = 5 \<or> \<not> low \<and> PacketTries ?c + 1 = 3"
    have "ActionFatalError c1" if ?last using that by (auto simp: c1_def count_try_def Let_def)
    moreover have "c = c1" if ?last
      using assms(1)
      unfolding HCDCheckErrorAndAction_def Let_def c1_def [symmetric] if_not_P [OF a(1)] if_not_P [OF a(2)] if_not_P [OF ack] if_P [OF that]
      by simp
    ultimately have b: "\<not> ?last" using assms(2) by blast
    have "c = c1 \<or> c = c1\<lparr>GlobalTries := GlobalTries c1 + 1\<rparr> \<or> ActionFatalError c"
      using assms(1) a ack b
      unfolding HCDCheckErrorAndAction_def Let_def c1_def [symmetric] if_not_P [OF a(1)] if_not_P [OF a(2)] if_not_P [OF ack] if_not_P [OF b]
      by (auto split: if_splits)
    then show ?thesis using a b assms(2) unfolding c1_def by auto
  qed
  show "ActionResendSplit c \<and> PacketTries c = PacketTries c0 \<and> SplitTries c = SplitTries c0 + 1 \<and> SplitTries c \<noteq> 5"
    if "\<not> sound i" "low"
    using unsound [OF that(1)] that(2) by (simp add: count_try_def Let_def)
  show "\<not> ActionResendSplit c \<and> PacketTries c = PacketTries c0 + 1 \<and> PacketTries c \<noteq> 3" if "\<not> sound i" "\<not> low"
    using unsound [OF that(1)] that(2) by (simp add: count_try_def Let_def)
qed

lemma status_cases: obtains "completed i" | "half_way i" | "\<not> sound i"
  by (auto simp: completed_def half_way_def)

section \<open>One packet with its repetitions\<close>

lemma resend_loop_counted:
  assumes "resend_loop d co low ctrl ch = Some (c, ch')"
  shows "counted ch ch'"
proof -
  have "counted ch (snd res)" if "resend_loop d co low ctrl ch = Some res" for d co low ctrl ch res
  proof (rule resend_loop.raw_induct [of "\<lambda>d co low ctrl ch res. counted ch (snd res)", rotated, OF that])
    fix loop :: "channel_device \<Rightarrow> u64 \<Rightarrow> bool \<Rightarrow> send_control \<Rightarrow> hcd_channel \<Rightarrow> (send_control option \<times> hcd_channel) option"
      and d co low ctrl ch res
    assume IH: "\<And>d co low ctrl ch res. loop d co low ctrl ch = Some res \<Longrightarrow> counted ch (snd res)"
    define ch1 where "ch1 = (let ch = ch_pause 250 ch; ch = ch_set (CH_InterruptMask ch) 0 (ch_set (CH_Interrupt ch) 0xFFFFFFFF ch) in
      ch_modify d (CH_SplitCtrl ch) (complete_split True) ch)"
    assume "(if \<not> ActionResendSplit ctrl then Some (Some ctrl, ch)
      else
        let ch = ch_pause 250 ch; ch = ch_set (CH_InterruptMask ch) 0 (ch_set (CH_Interrupt ch) 0xFFFFFFFF ch);
            ch = ch_modify d (CH_SplitCtrl ch) (complete_split True) ch in
        Option.bind (attempt d co low ctrl ch) (\<lambda>(c, ch).
          case c of
            None \<Rightarrow> Some (None, ch)
          | Some ctrl \<Rightarrow> loop d co low ctrl (ch_pause (if LongerDelay ctrl then 10000 else 2500) ch))) = Some res"
    then consider "res = (Some ctrl, ch)" | x ch2 where "attempt d co low ctrl ch1 = Some (x, ch2)"
        "(case x of None \<Rightarrow> Some (None, ch2)
          | Some ctrl \<Rightarrow> loop d co low ctrl (ch_pause (if LongerDelay ctrl then 10000 else 2500) ch2)) = Some res"
      by (auto simp: Let_def bind_eq_Some_conv ch1_def split: if_splits)
    then show "counted ch (snd res)"
    proof cases
      case 1
      then show ?thesis by (simp add: counted_def)
    next
      case (2 x ch2)
      have "still ch ch1" unfolding ch1_def by (rule still_resend)
      then have c2: "counted ch ch2" using counted_trans [OF still_counted attempt_Some(1) [OF 2(1)]] by blast
      show ?thesis
      proof (cases x)
        case None
        then show ?thesis using 2(2) c2 by auto
      next
        case (Some c)
        let ?ch3 = "ch_pause (if LongerDelay c then 10000 else 2500) ch2"
        have "counted ?ch3 (snd res)" using 2(2) Some by (intro IH) simp
        then show ?thesis using c2 counted_trans still_counted [OF still_pause] by blast
      qed
    qed
  qed
  then show ?thesis using assms by fastforce
qed

lemma send_packets_counted:
  assumes "send_packets d co low ctrl ch = Some (c, ch')"
  shows "counted ch ch'"
  using assms
  by (auto simp: send_packets_def bind_eq_Some_conv split: option.splits
      intro: counted_trans attempt_Some(1) dest!: attempt_Some(1) resend_loop_counted)

text \<open>
  A packet is settled when it was completed, or, without split transactions, when another try was counted.
\<close>

definition settled :: "bool \<Rightarrow> u8 \<Rightarrow> send_control \<Rightarrow> hcd_channel \<Rightarrow> bool" where
  "settled low tries c ch \<longleftrightarrow>
     completed (status_of ch) \<and> PacketTries c = tries \<or> \<not> low \<and> PacketTries c = tries + 1 \<and> PacketTries c \<noteq> 3"

lemma attempt_settles:
  assumes "attempt d co low ctrl ch = Some (Some c, ch')"
  shows "\<not> ActionResendSplit c \<Longrightarrow> settled low (PacketTries ctrl) c ch'"
    and "ActionResendSplit c \<Longrightarrow> PacketTries c = PacketTries ctrl"
    and "ActionResendSplit c \<Longrightarrow>
      half_way (status_of ch') \<and> SplitTries c = SplitTries ctrl \<or> low \<and> SplitTries c = SplitTries ctrl + 1 \<and> SplitTries c \<noteq> 5"
proof -
  have c: "c = snd (HCDCheckErrorAndAction (status_of ch') low ctrl)" and f: "\<not> ActionFatalError c"
    using attempt_Some(2) [OF assms refl] by auto
  note check = check_action [OF c f]
  show "\<not> ActionResendSplit c \<Longrightarrow> settled low (PacketTries ctrl) c ch'"
    and "ActionResendSplit c \<Longrightarrow> PacketTries c = PacketTries ctrl"
    and "ActionResendSplit c \<Longrightarrow>
      half_way (status_of ch') \<and> SplitTries c = SplitTries ctrl \<or> low \<and> SplitTries c = SplitTries ctrl + 1 \<and> SplitTries c \<noteq> 5"
    by (cases rule: status_cases [of "status_of ch'"]; use check in \<open>cases low; auto simp: settled_def\<close>)+
qed

definition resends_left :: "send_control \<Rightarrow> hcd_channel \<Rightarrow> nat" where
  "resends_left c ch = 2 * (5 - unat (SplitTries c)) + (if half_way (status_of ch) then 0 else 1)"

lemma split_tries_less:
  assumes "SplitTries c = SplitTries c0 + 1" and "SplitTries c \<noteq> 5" and "unat (SplitTries c0) < 5"
  shows "unat (SplitTries c) = unat (SplitTries c0) + 1" and "unat (SplitTries c) < 5"
proof -
  show a: "unat (SplitTries c) = unat (SplitTries c0) + 1" using assms by (simp add: unat_word_ariths)
  have "unat (SplitTries c) \<noteq> 5"
  proof
    assume "unat (SplitTries c) = 5"
    then have "SplitTries c = word_of_nat 5" by (simp only: word_unat_eq_iff) simp
    then show False using assms(2) by simp
  qed
  then show "unat (SplitTries c) < 5" using a assms(3) by linarith
qed

lemma resend_loop_total:
  assumes "responsive d ch" and "co \<noteq> 0" and "ActionResendSplit ctrl" and "unat (SplitTries ctrl) < 5"
  shows "\<exists>c ch'. resend_loop d co low ctrl ch = Some (c, ch') \<and>
    (\<forall>c'. c = Some c' \<longrightarrow> settled low (PacketTries ctrl) c' ch')"
  using assms
proof (induction "resends_left ctrl ch" arbitrary: ctrl ch rule: less_induct)
  case less
  define ch1 where "ch1 = (let ch = ch_pause 250 ch; ch = ch_set (CH_InterruptMask ch) 0 (ch_set (CH_Interrupt ch) 0xFFFFFFFF ch) in
      ch_modify d (CH_SplitCtrl ch) (complete_split True) ch)"
  have q: "still ch ch1" unfolding ch1_def by (rule still_resend)
  have r1: "responsive d ch1" using laws_counted(2) [OF still_counted [OF q]] less.prems(1) by blast
  obtain x ch2 where a: "attempt d co low ctrl ch1 = Some (x, ch2)" using attempt_total [OF r1 less.prems(2)] by blast
  have unfold: "resend_loop d co low ctrl ch = (case x of None \<Rightarrow> Some (None, ch2)
      | Some c \<Rightarrow> resend_loop d co low c (ch_pause (if LongerDelay c then 10000 else 2500) ch2))"
    using less.prems(3) a by (subst resend_loop.simps) (simp add: ch1_def Let_def)
  show ?case
  proof (cases x)
    case None
    then show ?thesis using unfold by simp
  next
    case (Some c)
    note set = attempt_settles [OF a [unfolded Some]]
    define ch3 where "ch3 = ch_pause (if LongerDelay c then 10000 else 2500) ch2"
    have q3: "still ch2 ch3" unfolding ch3_def by (rule still_pause)
    show ?thesis
    proof (cases "ActionResendSplit c")
      case False
      then have "resend_loop d co low ctrl ch = Some (Some c, ch3)"
        using unfold Some by (subst (asm) (2) resend_loop.simps) (simp add: ch3_def)
      moreover have "settled low (PacketTries ctrl) c ch3"
        using set(1) [OF False] q3 by (simp add: settled_def still_def)
      ultimately show ?thesis by blast
    next
      case True
      have count: "counted ch ch3"
        using still_counted [OF q] attempt_Some(1) [OF a] still_counted [OF q3] counted_trans by blast
      have r3: "responsive d ch3" using laws_counted(2) [OF count] less.prems(1) by blast
      obtain t where t: "status_of ch2 = reads d t (CH_Interrupt ch1)" "last_status (CH_Interrupt ch1) t = status_of ch1"
        using attempt_Some(2) [OF a Some] by blast
      have status: "status_of ch3 = status_of ch2" "status_of ch1 = status_of ch" using q q3 by (simp_all add: still_def)
      have "half_way (status_of ch) \<longrightarrow> \<not> half_way (status_of ch2)"
        using r1 t status(2) unfolding responsive_def by metis
      then have "resends_left c ch3 < resends_left ctrl ch \<and> unat (SplitTries c) < 5"
        using set(3) [OF True] status(1) less.prems(4) split_tries_less [of c ctrl] by (auto simp: resends_left_def)
      then obtain c' ch' where "resend_loop d co low c ch3 = Some (c', ch')"
        "\<forall>c''. c' = Some c'' \<longrightarrow> settled low (PacketTries c) c'' ch'"
        using less.hyps [of c ch3] r3 less.prems(2) True by blast
      then show ?thesis using unfold Some set(2) [OF True] by (simp add: ch3_def)
    qed
  qed
qed

lemma send_packets_total:
  assumes "responsive d ch" and "co \<noteq> 0"
  shows "\<exists>c ch'. send_packets d co low ctrl ch = Some (c, ch') \<and>
    (\<forall>c'. c = Some c' \<longrightarrow> settled low (PacketTries ctrl) c' ch')"
proof -
  obtain x ch1 where a: "attempt d co low ctrl ch = Some (x, ch1)" using attempt_total [OF assms] by blast
  show ?thesis
  proof (cases x)
    case None
    then show ?thesis using a by (simp add: send_packets_def)
  next
    case (Some c)
    note set = attempt_settles [OF a [unfolded Some]]
    have s: "send_packets d co low ctrl ch = resend_loop d co low (c\<lparr>SplitTries := 0\<rparr>) ch1"
      using a Some by (simp add: send_packets_def)
    show ?thesis
    proof (cases "ActionResendSplit c")
      case False
      then have "resend_loop d co low (c\<lparr>SplitTries := 0\<rparr>) ch1 = Some (Some (c\<lparr>SplitTries := 0\<rparr>), ch1)"
        by (subst resend_loop.simps) simp
      then show ?thesis using s set(1) [OF False] by (simp add: settled_def)
    next
      case True
      have "responsive d ch1" using laws_counted(2) [OF attempt_Some(1) [OF a]] assms(1) by blast
      from resend_loop_total [OF this assms(2), of "c\<lparr>SplitTries := 0\<rparr>" low] show ?thesis
        using s set(2) [OF True] True by simp
    qed
  qed
qed

section \<open>The packets of a transfer\<close>

text \<open>The counter after a packet, and the channel once it was read.\<close>

definition new_count :: "channel_device \<Rightarrow> hcd_channel \<Rightarrow> u32" where
  "new_count d ch = packet_count (fst (ch_get d (CH_TransferSize ch) ch))"

definition read_count :: "channel_device \<Rightarrow> hcd_channel \<Rightarrow> hcd_channel" where
  "read_count d ch = snd (ch_get d (CH_TransferSize ch) ch)"

lemma read_count_facts:
  "m_Number (read_count d ch) = m_Number ch" "left_of (read_count d ch) = new_count d ch"
  by (simp_all add: read_count_def new_count_def ch_get_eq channel_regs)

lemma new_count_le:
  assumes "counts_down d ch" and "counted ch ch'" and "left_of ch \<le> current"
  shows "new_count d ch' \<le> current"
proof -
  have "counts_down d ch'" using laws_counted(1) [OF assms(2)] assms(1) by blast
  then have "new_count d ch' \<le> left_of ch'" by (simp add: counts_down_def new_count_def ch_get_eq)
  then show ?thesis using assms(2,3) by (simp add: counted_def)
qed

lemma new_count_less:
  assumes "counts_down d ch" and "responsive d ch" and "counted ch ch'" and "left_of ch \<le> current" and "0 < current"
    and "completed (status_of ch')"
  shows "new_count d ch' < current"
proof -
  have laws: "counts_down d ch'" "responsive d ch'" using laws_counted [OF assms(3)] assms(1,2) by blast+
  have left: "left_of ch' \<le> current" using assms(3,4) by (simp add: counted_def)
  show ?thesis
  proof (cases "left_of ch' = 0")
    case True
    then have "new_count d ch' \<le> 0" using laws(1) unfolding counts_down_def new_count_def ch_get_eq by (metis fst_conv)
    then show ?thesis using assms(5) by simp
  next
    case False
    then have "new_count d ch' < left_of ch'"
      using laws(2) assms(6) unfolding responsive_def new_count_def ch_get_eq by (simp add: word_gt_0)
    then show ?thesis using left by simp
  qed
qed

text \<open>What a round of either loop does to the number of packets and to the number of tries.\<close>

definition rounds_left :: "u32 \<Rightarrow> send_control \<Rightarrow> nat" where
  "rounds_left current c = unat current + (3 - unat (PacketTries c))"

lemma tries_below_3:
  assumes "PacketTries c' = PacketTries c + 1" and "PacketTries c' \<noteq> 3" and "unat (PacketTries c) < 3"
  shows "unat (PacketTries c') = unat (PacketTries c) + 1" and "unat (PacketTries c') < 3"
proof -
  show a: "unat (PacketTries c') = unat (PacketTries c) + 1" using assms by (simp add: unat_word_ariths)
  have "unat (PacketTries c') \<noteq> 3"
  proof
    assume "unat (PacketTries c') = 3"
    then have "PacketTries c' = word_of_nat 3" by (simp only: word_unat_eq_iff) simp
    then show False using assms(2) by simp
  qed
  then show "unat (PacketTries c') < 3" using a assms(3) by linarith
qed

lemma round_total:
  assumes "responsive d ch" and "counts_down d ch" and "co \<noteq> 0" and "0 < current" and "left_of ch \<le> current"
    and "unat (PacketTries ctrl) < 3"
  shows "\<exists>x ch'. send_packets d co low ctrl ch = Some (x, ch') \<and> counted ch ch' \<and>
    (\<forall>c. x = Some c \<longrightarrow> unat (PacketTries c) < 3 \<and> rounds_left (new_count d ch') c < rounds_left current ctrl)"
proof -
  obtain x ch' where s: "send_packets d co low ctrl ch = Some (x, ch')"
    and set: "\<And>c. x = Some c \<Longrightarrow> settled low (PacketTries ctrl) c ch'"
    using send_packets_total [OF assms(1,3)] by blast
  note c = send_packets_counted [OF s]
  have "unat (PacketTries c) < 3 \<and> rounds_left (new_count d ch') c < rounds_left current ctrl" if "x = Some c" for c
    using set [OF that] unfolding settled_def
  proof (elim disjE conjE)
    assume fin: "completed (status_of ch')" "PacketTries c = PacketTries ctrl"
    then have "unat (new_count d ch') < unat current"
      using new_count_less [OF assms(2,1) c assms(5,4)] by (simp add: word_less_nat_alt)
    then show ?thesis using fin(2) assms(6) by (simp add: rounds_left_def)
  next
    assume "PacketTries c = PacketTries ctrl + 1" "PacketTries c \<noteq> 3"
    then have "unat (PacketTries c) = unat (PacketTries ctrl) + 1" "unat (PacketTries c) < 3"
      using tries_below_3 assms(6) by blast+
    moreover have "unat (new_count d ch') \<le> unat current"
      using new_count_le [OF assms(2) c assms(5)] by (simp add: word_le_nat_alt)
    ultimately show ?thesis using assms(6) by (simp add: rounds_left_def)
  qed
  then show ?thesis using s c by blast
qed

lemma in_loop_total:
  assumes "responsive d ch" and "counts_down d ch" and "co \<noteq> 0" and "left_of ch \<le> current" and "unat (PacketTries ctrl) < 3"
  shows "\<exists>r. in_loop d co pipe n count offset current ctrl buffer ch = Some r"
  using assms
proof (induction "rounds_left current ctrl" arbitrary: offset current ctrl buffer ch rule: less_induct)
  case less
  show ?case
  proof (cases "0 < current")
    case False
    then show ?thesis by (subst in_loop.simps) simp
  next
    case True
    define ch1 where "ch1 = launch d (clear_channel d ch)"
    have c1: "counted ch ch1" using still_counted [OF still_trans [OF still_clear still_launch]] by (simp add: ch1_def)
    note laws = laws_counted [OF c1]
    have left: "left_of ch1 \<le> current" using c1 less.prems(4) by (simp add: counted_def)
    from round_total [OF laws(2) [OF less.prems(1)] laws(1) [OF less.prems(2)] less.prems(3) True left less.prems(5)]
    obtain x ch2 where s: "send_packets d co (Speed pipe \<noteq> USB_SPEED_HIGH) ctrl ch1 = Some (x, ch2)" "counted ch1 ch2"
      and later: "\<And>c. x = Some c \<Longrightarrow> unat (PacketTries c) < 3 \<and> rounds_left (new_count d ch2) c < rounds_left current ctrl"
      by metis
    show ?thesis
    proof (cases x)
      case None
      then show ?thesis using True s(1) by (subst in_loop.simps) (simp add: ch1_def)
    next
      case (Some c)
      let ?ch3 = "read_count d ch2"
      have c3: "counts_down d ?ch3" "responsive d ?ch3"
        using laws_counted [OF counted_trans [OF c1 s(2)]] less.prems(1,2) laws_same_number [of ?ch3 ch2 d] read_count_facts(1)
        by metis+
      have rec: "\<exists>r. in_loop d co pipe n count o' (new_count d ch2) c b ?ch3 = Some r" for o' b
        using later [OF Some] c3 less.prems(3) by (intro less.hyps) (simp_all add: read_count_facts)
      show ?thesis
        using True s(1) Some rec
        by (subst in_loop.simps)
          (auto simp: ch1_def [symmetric] case_prod_beta Let_def read_count_def [symmetric] new_count_def [symmetric] split: sum.splits)
    qed
  qed
qed

lemma out_loop_total:
  assumes "responsive d ch" and "counts_down d ch" and "co \<noteq> 0" and "left_of ch \<le> current" and "unat (PacketTries ctrl) < 3"
  shows "\<exists>r. out_loop d co pipe buffer n count offset current ctrl ch = Some r"
  using assms
proof (induction "rounds_left current ctrl" arbitrary: offset current ctrl ch rule: less_induct)
  case less
  show ?case
  proof (cases "0 < current")
    case False
    then show ?thesis by (subst out_loop.simps) simp
  next
    case pos: True
    show ?thesis
    proof (cases "put_dma offset buffer (clear_channel d ch)")
      case (Inl e)
      then show ?thesis using pos by (subst out_loop.simps) simp
    next
      case (Inr ch0)
      define ch1 where "ch1 = launch d ch0"
      have "still (clear_channel d ch) ch0" using Inr by (auto simp: put_dma_def still_def channel_regs split: if_splits)
      then have c1: "counted ch ch1"
        using still_counted [OF still_trans [OF still_clear still_trans [OF _ still_launch]]] by (simp add: ch1_def)
      note laws = laws_counted [OF c1]
      have left: "left_of ch1 \<le> current" using c1 less.prems(4) by (simp add: counted_def)
      from round_total [OF laws(2) [OF less.prems(1)] laws(1) [OF less.prems(2)] less.prems(3) pos left less.prems(5)]
      obtain x ch2 where s: "send_packets d co (Speed pipe \<noteq> USB_SPEED_HIGH) ctrl ch1 = Some (x, ch2)" "counted ch1 ch2"
        and later: "\<And>c. x = Some c \<Longrightarrow> unat (PacketTries c) < 3 \<and> rounds_left (new_count d ch2) c < rounds_left current ctrl"
        by metis
      show ?thesis
      proof (cases x)
        case None
        then show ?thesis using pos s(1) Inr by (subst out_loop.simps) (simp add: ch1_def)
      next
        case (Some c)
        let ?ch3 = "read_count d ch2"
        have c3: "counts_down d ?ch3" "responsive d ?ch3"
          using laws_counted [OF counted_trans [OF c1 s(2)]] less.prems(1,2) laws_same_number [of ?ch3 ch2 d] read_count_facts(1)
          by metis+
        have rec: "\<exists>r. out_loop d co pipe buffer n count o' (new_count d ch2) c ?ch3 = Some r" for o'
          using later [OF Some] c3 less.prems(3) by (intro less.hyps) (simp_all add: read_count_facts)
        show ?thesis
          using pos s(1) Some rec Inr
          by (subst out_loop.simps)
            (auto simp: ch1_def [symmetric] case_prod_beta Let_def read_count_def [symmetric] new_count_def [symmetric])
      qed
    qed
  qed
qed

section \<open>Transfers return\<close>

lemma packet_count_of_size: "packet_count (HostTransferSize bytes count pid) = take_bit 10 count"
  by (simp add: packet_count_def HostTransferSize_def get_put_other)

text \<open>The channel as the loops find it: the counter that the device holds is not above the one that they count with.\<close>

definition programmed :: "usb_pipe \<Rightarrow> usb_transfer_type \<Rightarrow> UsbDirection \<Rightarrow> u32 \<Rightarrow> u32 \<Rightarrow> PacketId \<Rightarrow> hcd_channel \<Rightarrow> hcd_channel" where
  "programmed pipe ty dir bytes count pid ch =
     ch_set (CH_TransferSize (program_channel pipe ty dir ch)) (HostTransferSize bytes count pid) (program_channel pipe ty dir ch)"

lemma programmed_facts:
  "m_Number (programmed pipe ty dir bytes count pid ch) = m_Number ch"
  "left_of (programmed pipe ty dir bytes count pid ch) \<le> count"
proof -
  show "m_Number (programmed pipe ty dir bytes count pid ch) = m_Number ch"
    by (simp add: programmed_def program_channel_def)
  have "left_of (programmed pipe ty dir bytes count pid ch) = take_bit 10 count"
    by (simp add: programmed_def program_channel_def ch_set_def reg_set_def channel_regs packet_count_of_size)
  then show "left_of (programmed pipe ty dir bytes count pid ch) \<le> count"
    by (simp add: word_le_nat_alt take_bit_eq_mod unat_mod)
qed

lemma TransferIn_programmed:
  "TransferIn d co pipe ty buffer pid ch =
     (case packets_for pipe (of_nat (length buffer)) of
        Inl e \<Rightarrow> Some (Inl e)
      | Inr count \<Rightarrow> in_loop d co pipe (of_nat (length buffer)) count 0 count no_control buffer
          (programmed pipe ty USB_DIRECTION_IN (of_nat (length buffer)) count pid ch))"
  by (simp add: TransferIn_def programmed_def Let_def split: sum.split)

lemma TransferOut_programmed:
  "TransferOut d co pipe ty buffer pid ch =
     (if MaxPacketSize < length buffer then Some (Inr (0, ch))
      else case packets_for pipe (of_nat (length buffer)) of
        Inl e \<Rightarrow> Some (Inl e)
      | Inr count \<Rightarrow> out_loop d co pipe buffer (of_nat (length buffer)) count 0 count no_control
          (programmed pipe ty USB_DIRECTION_OUT (of_nat (length buffer)) count pid ch))"
  by (simp add: TransferOut_def programmed_def Let_def split: sum.split)


text \<open>A device that completes every packet at once.\<close>

definition prompt_device :: channel_device where
  "prompt_device = \<lparr>reads = (\<lambda>t r. if r = 0x508 then 0x23 else 0), counter = (\<lambda>t. 0), interrupts = (\<lambda>t. True), dma = (\<lambda>t i. of_nat i)\<rparr>"

definition first_channel :: hcd_channel where
  "first_channel = HCDChannel 0 0x10000 []"

lemma prompt_laws: "responsive prompt_device first_channel" "counts_down prompt_device first_channel"
proof -
  have n: "m_Number first_channel = 0" by (simp add: first_channel_def HCDChannel_def Let_def ch_set_def)
  have s: "Halt 0x23" "completed 0x23" "packet_count 0 = 0"
    by (simp_all add: Halt_def completed_def sound_def TransferComplete_def Acknowledgement_def AhbError_def DataToggleError_def
        packet_count_def get_field_def)
  then have "\<not> half_way 0x23" by (simp add: completed_def half_way_def)
  then show "responsive prompt_device first_channel" using n s by (simp add: responsive_def channel_regs prompt_device_def)
  show "counts_down prompt_device first_channel" using n s by (simp add: counts_down_def channel_regs prompt_device_def)
qed


section \<open>Transfers stay inside the buffers\<close>

text \<open>
  With \<open>q\<close> bytes per packet: \<open>k\<close> packets of \<open>C\<close> are left, \<open>offset\<close> bytes were copied, and all packets but the last fit
  into \<open>S\<close> bytes.
\<close>

definition inside :: "u32 \<Rightarrow> u32 \<Rightarrow> u32 \<Rightarrow> u32 \<Rightarrow> u32 \<Rightarrow> bool" where
  "inside S q C offset k \<longleftrightarrow>
     unat S \<le> 1024 \<and> k \<le> C \<and> unat offset \<le> (unat C - unat k) * unat q \<and> (unat C - 1) * unat q \<le> unat S"

lemma unat_ucast_16 [simp]: "unat (ucast (x :: 16 word) :: u32) = unat x"
proof -
  have "unat x < 2 ^ LENGTH(16)" by (rule unsigned_less)
  then show ?thesis by (simp add: unsigned_ucast_eq take_bit_nat_eq_self)
qed

lemma unat_mult_small: "unat (a :: u32) * unat b \<le> 1024 \<Longrightarrow> unat (a * b) = unat a * unat b"
  by (simp add: unat_word_ariths)

lemma transferred_inside:
  assumes "inside S q C offset k" and "0 < k" and "n \<le> k"
  shows "unat offset + unat (transferred S q C k n) \<le> unat S"
    and "unat (transferred S q C k n) \<le> 1024"
    and "0 < n \<Longrightarrow> inside S q C (offset + transferred S q C k n) n"
    and "0 < n \<Longrightarrow> inside S q C offset n"
proof -
  have k: "unat k \<le> unat C" "0 < unat k" "unat n \<le> unat k" and S: "unat S \<le> 1024"
    and off: "unat offset \<le> (unat C - unat k) * unat q" and fit: "(unat C - 1) * unat q \<le> unat S"
    using assms by (simp_all add: inside_def word_le_nat_alt word_less_nat_alt)
  have upto: "(unat C - m) * unat q \<le> unat S" if "0 < m" for m
  proof -
    have "unat C - m \<le> unat C - 1" using that by simp
    then have "(unat C - m) * unat q \<le> (unat C - 1) * unat q" by (rule mult_le_mono1)
    then show ?thesis using fit by (rule le_trans)
  qed
  have diff: "unat (k - n) = unat k - unat n" "unat (C - k) = unat C - unat k"
    using assms(1,3) by (simp_all add: unat_sub inside_def)
  have more: "unat (transferred S q C k n) = (unat k - unat n) * unat q
      \<and> unat offset + (unat k - unat n) * unat q \<le> (unat C - unat n) * unat q" if "0 < n"
  proof -
    have "(unat C - unat k) * unat q + (unat k - unat n) * unat q = (unat C - unat n) * unat q"
      using k by (simp add: add_mult_distrib [symmetric])
    then have sum: "unat offset + (unat k - unat n) * unat q \<le> (unat C - unat n) * unat q" using off by linarith
    moreover have "(unat C - unat n) * unat q \<le> 1024" using upto [of "unat n"] that S by (simp add: word_less_nat_alt)
    ultimately have "unat (k - n) * unat q \<le> 1024" unfolding diff by linarith
    then have "unat ((k - n) * q) = (unat k - unat n) * unat q" using diff unat_mult_small by metis
    then show ?thesis using sum that by (simp add: transferred_def)
  qed
  have rest: "unat (transferred S q C k n) = unat S - (unat C - unat k) * unat q" if "\<not> 0 < n"
  proof -
    have le: "(unat C - unat k) * unat q \<le> unat S" by (rule upto [OF k(2)])
    then have "unat ((C - k) * q) = (unat C - unat k) * unat q" using diff(2) S unat_mult_small [of "C - k" q] by simp
    then show ?thesis using that le by (simp add: transferred_def unat_sub word_le_nat_alt)
  qed
  show total: "unat offset + unat (transferred S q C k n) \<le> unat S"
  proof (cases "0 < n")
    case True
    then show ?thesis using more upto [of "unat n"] by (simp add: word_less_nat_alt)
  next
    case False
    then show ?thesis using rest off upto [OF k(2)] by simp
  qed
  then show "unat (transferred S q C k n) \<le> 1024" using S by simp
  show "inside S q C offset n" if "0 < n"
  proof -
    have "(unat C - unat k) * unat q \<le> (unat C - unat n) * unat q" using k by (intro mult_le_mono1) simp
    then have "unat offset \<le> (unat C - unat n) * unat q" using off by linarith
    then show ?thesis using assms(1,3) by (auto simp: inside_def)
  qed
  show "inside S q C (offset + transferred S q C k n) n" if "0 < n"
  proof -
    have "unat offset + unat (transferred S q C k n) < 2 ^ 32" using total S by simp
    then have "unat (offset + transferred S q C k n) = unat offset + unat (transferred S q C k n)"
      by (simp add: unat_word_ariths)
    then show ?thesis using assms(1,3) more that by (auto simp: inside_def)
  qed
qed

lemma inside_start:
  assumes "packets_for pipe (of_nat n) = Inr C" and "n \<le> 1024" and "packet_size pipe \<le> ucast (MaxPacketSizeInBytes pipe)"
  shows "inside (of_nat n) (packet_size pipe) C 0 C"
proof -
  let ?p = "unat (MaxPacketSizeInBytes pipe)"
  have S: "unat (of_nat n :: u32) = n" using assms(2) by (simp add: unat_of_nat)
  have q: "unat (packet_size pipe) \<le> ?p" using assms(3) by (simp add: word_le_nat_alt)
  have "(unat C - 1) * ?p \<le> n"
  proof (cases "(of_nat n :: u32) = 0")
    case True
    then show ?thesis using assms(1) by (simp add: packets_for_def)
  next
    case False
    then have p: "MaxPacketSizeInBytes pipe \<noteq> 0"
      and C: "C = (of_nat n + ucast (MaxPacketSizeInBytes pipe) - 1) div ucast (MaxPacketSizeInBytes pipe)"
      using assms(1) by (simp_all add: packets_for_def split: if_splits)
    have p0: "0 < ?p" using p by (simp add: unat_gt_0)
    have n0: "0 < n" using False by (cases n) simp_all
    have "unat (of_nat n + ucast (MaxPacketSizeInBytes pipe) :: u32) = n + ?p"
    proof -
      have "?p < 2 ^ LENGTH(16)" by (rule unsigned_less)
      then show ?thesis using assms(2) S by (simp add: unat_word_ariths)
    qed
    moreover have "(1 :: u32) \<le> w" if "0 < unat w" for w using that by (simp add: word_le_nat_alt)
    ultimately have "unat (of_nat n + ucast (MaxPacketSizeInBytes pipe) - 1 :: u32) = n + ?p - 1"
      using p0 unat_sub [of 1 "of_nat n + ucast (MaxPacketSizeInBytes pipe) :: u32"] by simp
    then have "unat C = (n + ?p - 1) div ?p" by (simp add: C unat_div)
    also have "\<dots> = (n - 1) div ?p + 1"
    proof -
      have "(n - 1 + ?p) div ?p = (n - 1) div ?p + 1" by (rule div_add_self2) (use p0 in simp)
      moreover have "n + ?p - 1 = n - 1 + ?p" using n0 by linarith
      ultimately show ?thesis by (simp only:)
    qed
    finally have "(unat C - 1) * ?p = (n - 1) div ?p * ?p" by simp
    also have "\<dots> \<le> n - 1" by (rule div_times_less_eq_dividend)
    finally show ?thesis by simp
  qed
  moreover have "(unat C - 1) * unat (packet_size pipe) \<le> (unat C - 1) * ?p" using q by (rule mult_le_mono2)
  ultimately have "(unat C - 1) * unat (packet_size pipe) \<le> n" by linarith
  then show ?thesis using S assms(2) by (simp add: inside_def)
qed

text \<open>A received packet is stored, and the buffer keeps its length.\<close>

lemma take_dma_inside:
  assumes "unat offset + unat n \<le> length buffer" and "unat n \<le> 1024"
  shows "\<exists>b. take_dma d ch offset n buffer = Inr b \<and> length b = length buffer"
  using assms by (simp add: take_dma_def MaxPacketSize_def)

definition in_result :: "u32 \<Rightarrow> u8 list \<Rightarrow> (u32 \<times> u8 list \<times> hcd_channel) res \<Rightarrow> bool" where
  "in_result bytes buffer r \<longleftrightarrow> (\<exists>n b ch. r = Inr (n, b, ch) \<and> (n = 0 \<or> n = bytes) \<and> length b = length buffer)"

definition out_result :: "u32 \<Rightarrow> (u32 \<times> hcd_channel) res \<Rightarrow> bool" where
  "out_result bytes r \<longleftrightarrow> (\<exists>n ch. r = Inr (n, ch) \<and> (n = 0 \<or> n = bytes))"

lemma in_loop_inside:
  assumes "in_loop d co pipe bytes count offset current ctrl buffer ch = Some r"
    and "counts_down d ch" and "left_of ch \<le> current" and "unat bytes = length buffer"
    and "0 < current \<Longrightarrow> inside bytes (packet_size pipe) count offset current"
  shows "in_result bytes buffer r"
proof -
  define P where "P = (\<lambda>(d :: channel_device) (co :: u64) pipe bytes count offset current (ctrl :: send_control) buffer ch r.
    counts_down d ch \<longrightarrow> left_of ch \<le> current \<longrightarrow> unat bytes = length buffer \<longrightarrow>
    (0 < current \<longrightarrow> inside bytes (packet_size pipe) count offset current) \<longrightarrow> in_result bytes buffer r)"
  have "P d co pipe bytes count offset current ctrl buffer ch r"
  proof (rule in_loop.raw_induct [of P, rotated, OF assms(1)])
    fix loop :: "channel_device \<Rightarrow> u64 \<Rightarrow> usb_pipe \<Rightarrow> u32 \<Rightarrow> u32 \<Rightarrow> u32 \<Rightarrow> u32 \<Rightarrow> send_control \<Rightarrow> u8 list \<Rightarrow> hcd_channel \<Rightarrow>
        (u32 \<times> u8 list \<times> hcd_channel) res option"
      and d co pipe bytes count offset current ctrl buffer ch r
    assume IH: "\<And>d co pipe bytes count offset current ctrl buffer ch r.
        loop d co pipe bytes count offset current ctrl buffer ch = Some r \<Longrightarrow> P d co pipe bytes count offset current ctrl buffer ch r"
    define ch1 where "ch1 = launch d (clear_channel d ch)"
    let ?n = "\<lambda>ch2. transferred bytes (packet_size pipe) count current (new_count d ch2)"
    assume body: "(if \<not> 0 < current then Some (Inr (bytes, buffer, ch))
      else
        Option.bind (send_packets d co (Speed pipe \<noteq> USB_SPEED_HIGH) ctrl (launch d (clear_channel d ch))) (\<lambda>(c, ch).
          case c of
            None \<Rightarrow> Some (Inr (0, buffer, ch))
          | Some ctrl \<Rightarrow>
              let (v, ch) = ch_get d (CH_TransferSize ch) ch; new = packet_count v;
                  n = transferred bytes (packet_size pipe) count current new in
              if Success ctrl then
                (case take_dma d ch offset n buffer of
                   Inl e \<Rightarrow> Some (Inl e)
                 | Inr buffer \<Rightarrow> loop d co pipe bytes count (offset + n) new ctrl buffer ch)
              else loop d co pipe bytes count offset new ctrl buffer ch)) = Some r"
    consider "r = Inr (bytes, buffer, ch)"
      | x ch2 where "0 < current" "send_packets d co (Speed pipe \<noteq> USB_SPEED_HIGH) ctrl ch1 = Some (x, ch2)"
          "(case x of
            None \<Rightarrow> Some (Inr (0, buffer, ch2))
          | Some ctrl \<Rightarrow>
              if Success ctrl then
                (case take_dma d (read_count d ch2) offset (?n ch2) buffer of
                   Inl e \<Rightarrow> Some (Inl e)
                 | Inr buffer \<Rightarrow> loop d co pipe bytes count (offset + ?n ch2) (new_count d ch2) ctrl buffer (read_count d ch2))
              else loop d co pipe bytes count offset (new_count d ch2) ctrl buffer (read_count d ch2)) = Some r"
    proof (cases "0 < current")
      case False
      then show ?thesis using body that(1) by simp
    next
      case True
      obtain x ch2 where s: "send_packets d co (Speed pipe \<noteq> USB_SPEED_HIGH) ctrl ch1 = Some (x, ch2)"
        using body True by (auto simp: ch1_def bind_eq_Some_conv)
      show ?thesis
        by (rule that(2) [OF True s], unfold new_count_def read_count_def, use body True s in \<open>cases x\<close>)
          (simp_all add: ch1_def case_prod_beta Let_def)
    qed
    then show "P d co pipe bytes count offset current ctrl buffer ch r"
    proof cases
      case 1
      then show ?thesis by (simp add: P_def in_result_def)
    next
      case (2 x ch2)
      show ?thesis
        unfolding P_def
      proof (intro impI)
        assume down: "counts_down d ch" and left: "left_of ch \<le> current" and bytes: "unat bytes = length buffer"
          and "0 < current \<longrightarrow> inside bytes (packet_size pipe) count offset current"
        then have ins: "inside bytes (packet_size pipe) count offset current" using 2(1) by blast
        have "counted ch ch1" using still_counted [OF still_trans [OF still_clear still_launch]] by (simp add: ch1_def)
        then have c2: "counted ch ch2" using send_packets_counted [OF 2(2)] counted_trans by blast
        have new: "new_count d ch2 \<le> current" by (rule new_count_le [OF down c2 left])
        have c3: "counts_down d (read_count d ch2)"
          using laws_counted(1) [OF c2 down] laws_same_number(1) [OF read_count_facts(1)] by blast
        note step = transferred_inside [OF ins 2(1) new]
        obtain b where b: "take_dma d (read_count d ch2) offset (?n ch2) buffer = Inr b" "length b = length buffer"
          using take_dma_inside step(1,2) bytes by metis
        show "in_result bytes buffer r"
        proof (cases x)
          case None
          then show ?thesis using 2(3) by (auto simp: in_result_def)
        next
          case (Some c)
          then obtain o' b' where "loop d co pipe bytes count o' (new_count d ch2) c b' (read_count d ch2) = Some r"
            "length b' = length buffer" "0 < new_count d ch2 \<longrightarrow> inside bytes (packet_size pipe) count o' (new_count d ch2)"
            using 2(3) b step(3,4) by (cases "Success c") auto
          then have "in_result bytes b' r" using IH c3 bytes unfolding P_def by (metis read_count_facts(2) order_refl)
          then show ?thesis using \<open>length b' = length buffer\<close> by (simp add: in_result_def)
        qed
      qed
    qed
  qed
  then show ?thesis using assms(2-5) by (simp add: P_def)
qed

lemma out_loop_inside:
  assumes "out_loop d co pipe buffer bytes count offset current ctrl ch = Some r"
    and "counts_down d ch" and "left_of ch \<le> current" and "unat bytes = length buffer"
    and "0 < current \<Longrightarrow> inside bytes (packet_size pipe) count offset current"
  shows "out_result bytes r"
proof -
  define P where "P = (\<lambda>(d :: channel_device) (co :: u64) pipe (buffer :: u8 list) bytes count offset current (ctrl :: send_control) ch r.
    counts_down d ch \<longrightarrow> left_of ch \<le> current \<longrightarrow> unat bytes = length buffer \<longrightarrow>
    (0 < current \<longrightarrow> inside bytes (packet_size pipe) count offset current) \<longrightarrow> out_result bytes r)"
  have "P d co pipe buffer bytes count offset current ctrl ch r"
  proof (rule out_loop.raw_induct [of P, rotated, OF assms(1)])
    fix loop :: "channel_device \<Rightarrow> u64 \<Rightarrow> usb_pipe \<Rightarrow> u8 list \<Rightarrow> u32 \<Rightarrow> u32 \<Rightarrow> u32 \<Rightarrow> u32 \<Rightarrow> send_control \<Rightarrow> hcd_channel \<Rightarrow>
        (u32 \<times> hcd_channel) res option"
      and d co pipe buffer bytes count offset current ctrl ch r
    assume IH: "\<And>d co pipe buffer bytes count offset current ctrl ch r.
        loop d co pipe buffer bytes count offset current ctrl ch = Some r \<Longrightarrow> P d co pipe buffer bytes count offset current ctrl ch r"
    assume body: "(if \<not> 0 < current then Some (Inr (bytes, ch))
      else
        (case put_dma offset buffer (clear_channel d ch) of
           Inl e \<Rightarrow> Some (Inl e)
         | Inr ch \<Rightarrow>
             Option.bind (send_packets d co (Speed pipe \<noteq> USB_SPEED_HIGH) ctrl (launch d ch)) (\<lambda>(c, ch).
               case c of
                 None \<Rightarrow> Some (Inr (0, ch))
               | Some ctrl \<Rightarrow>
                   let (v, ch) = ch_get d (CH_TransferSize ch) ch; new = packet_count v;
                       n = transferred bytes (packet_size pipe) count current new in
                   loop d co pipe buffer bytes count (if Success ctrl then offset + n else offset) new ctrl ch))) = Some r"
    show "P d co pipe buffer bytes count offset current ctrl ch r"
      unfolding P_def
    proof (intro impI)
      assume down: "counts_down d ch" and left: "left_of ch \<le> current" and bytes: "unat bytes = length buffer"
        and start: "0 < current \<longrightarrow> inside bytes (packet_size pipe) count offset current"
      show "out_result bytes r"
      proof (cases "0 < current")
        case False
        then show ?thesis using body by (auto simp: out_result_def)
      next
        case True
        with start have ins: "inside bytes (packet_size pipe) count offset current" by blast
        define ch1 where "ch1 = launch d ((clear_channel d ch)
          \<lparr>ch_trace := Noted (DmaOut (drop (unat offset) buffer)) # ch_trace (clear_channel d ch)\<rparr>)"
        have put: "put_dma offset buffer (clear_channel d ch) = Inr ((clear_channel d ch)
            \<lparr>ch_trace := Noted (DmaOut (drop (unat offset) buffer)) # ch_trace (clear_channel d ch)\<rparr>)"
          using transferred_inside(1) [OF ins True order_refl] bytes by (simp add: put_dma_def)
        obtain x ch2 where s: "send_packets d co (Speed pipe \<noteq> USB_SPEED_HIGH) ctrl ch1 = Some (x, ch2)"
          using body True put by (auto simp: ch1_def bind_eq_Some_conv)
        have rest: "(case x of None \<Rightarrow> Some (Inr (0, ch2))
            | Some ctrl \<Rightarrow> loop d co pipe buffer bytes count
                (if Success ctrl then offset + transferred bytes (packet_size pipe) count current (new_count d ch2) else offset)
                (new_count d ch2) ctrl (read_count d ch2)) = Some r"
          by (unfold new_count_def read_count_def, use body True put s in \<open>cases x\<close>) (simp_all add: ch1_def case_prod_beta Let_def)
        have "still (clear_channel d ch) (clear_channel d ch
            \<lparr>ch_trace := Noted (DmaOut (drop (unat offset) buffer)) # ch_trace (clear_channel d ch)\<rparr>)"
          by (simp add: still_def channel_regs)
        then have "counted ch ch1" unfolding ch1_def by (intro still_counted still_trans [OF still_clear still_trans [OF _ still_launch]])
        then have c2: "counted ch ch2" using send_packets_counted [OF s] counted_trans by blast
        have new: "new_count d ch2 \<le> current" by (rule new_count_le [OF down c2 left])
        have c3: "counts_down d (read_count d ch2)"
          using laws_counted(1) [OF c2 down] laws_same_number(1) [OF read_count_facts(1)] by blast
        show ?thesis
        proof (cases x)
          case None
          then show ?thesis using rest by (auto simp: out_result_def)
        next
          case (Some c)
          then show ?thesis
            using rest IH c3 bytes transferred_inside(3,4) [OF ins True new] unfolding P_def
            by (cases "Success c") (fastforce simp: read_count_facts)+
        qed
      qed
    qed
  qed
  then show ?thesis using assms(2-5) by (simp add: P_def)
qed

text \<open>
  C21: Let the packet counter of the channel never rise, the buffers have at most 1024 bytes, and the packet size of the pipe
  be positive and not below the 8 bytes that low speed uses. Whatever else the device does (errors, stalls, lost or wrong
  packets), a transfer that returns has not touched memory outside of the caller's buffer or the buffer of the
  channel, the caller's buffer keeps its length, and the result is 0 or the size of the whole buffer.
\<close>

theorem transfers_stay_inside:
  assumes "counts_down d ch" and "length buffer \<le> MaxPacketSize" and "length data \<le> MaxPacketSize"
    and "MaxPacketSizeInBytes pipe \<noteq> 0" and "packet_size pipe \<le> ucast (MaxPacketSizeInBytes pipe)"
  shows "(case TransferIn d co pipe ty buffer pid ch of
            None \<Rightarrow> True
          | Some r \<Rightarrow> (\<exists>n b ch'. r = Inr (n, b, ch') \<and> (unat n = 0 \<or> unat n = length buffer) \<and> length b = length buffer)) \<and>
         (case TransferOut d co pipe ty data pid' ch of
            None \<Rightarrow> True
          | Some r \<Rightarrow> (\<exists>n ch'. r = Inr (n, ch') \<and> (unat n = 0 \<or> unat n = length data)))"
    (is "?in \<and> ?out")
proof
  have down: "counts_down d (programmed pipe ty dir bytes count pid ch)" for dir bytes count pid
    using assms(1) laws_same_number(1) [OF programmed_facts(1)] by blast
  have word: "unat (of_nat n :: u32) = n" if "n \<le> MaxPacketSize" for n using that by (simp add: unat_of_nat MaxPacketSize_def)
  define C :: "nat \<Rightarrow> u32" where "C n = (if (of_nat n :: u32) = 0 then 1 else
    (of_nat n + ucast (MaxPacketSizeInBytes pipe) - 1) div ucast (MaxPacketSizeInBytes pipe))" for n
  have C: "packets_for pipe (of_nat n) = Inr (C n)" for n using assms(4) by (simp add: packets_for_def C_def)
  have start: "inside (of_nat n) (packet_size pipe) (C n) 0 (C n)" if "n \<le> MaxPacketSize" for n
    using inside_start [OF C _ assms(5)] that by (simp add: MaxPacketSize_def)
  have "in_result (of_nat (length buffer)) buffer r" if "TransferIn d co pipe ty buffer pid ch = Some r" for r
    using in_loop_inside [OF _ down programmed_facts(2) word [OF assms(2)] start [OF assms(2)]] that
    by (simp add: TransferIn_programmed C)
  then show ?in using word [OF assms(2)] by (cases "TransferIn d co pipe ty buffer pid ch") (force simp: in_result_def)+
  have "out_result (of_nat (length data)) r" if "TransferOut d co pipe ty data pid' ch = Some r" for r
    using out_loop_inside [OF _ down programmed_facts(2) word [OF assms(3)] start [OF assms(3)]] that assms(3)
    by (simp add: TransferOut_programmed C)
  then show ?out using word [OF assms(3)] by (cases "TransferOut d co pipe ty data pid' ch") (force simp: out_result_def)+
qed

theorem transfers_stay_inside_witness:
  "(case TransferIn prompt_device 0x500 (pipe_zero\<lparr>MaxPacketSizeInBytes := 64\<rparr>) USB_TRANSFER_TYPE_CONTROL [1, 2, 3] USB_PID_DATA1 first_channel of
      None \<Rightarrow> True
    | Some r \<Rightarrow> (\<exists>n b ch'. r = Inr (n, b, ch') \<and> (unat n = 0 \<or> unat n = length [1 :: u8, 2, 3]) \<and> length b = length [1 :: u8, 2, 3])) \<and>
   (case TransferOut prompt_device 0x500 (pipe_zero\<lparr>MaxPacketSizeInBytes := 64\<rparr>) USB_TRANSFER_TYPE_CONTROL [4, 5] USB_PID_DATA0 first_channel of
      None \<Rightarrow> True
    | Some r \<Rightarrow> (\<exists>n ch'. r = Inr (n, ch') \<and> (unat n = 0 \<or> unat n = length [4 :: u8, 5])))"
  by (rule transfers_stay_inside [OF prompt_laws(2)])
    (simp_all add: MaxPacketSize_def packet_size_def word_le_nat_alt)

end
