(* ===== verification/Usb_Host.thy ===== *)
theory Usb_Host
  imports Usb_Channel
begin

text \<open>
  The USB host controller, \<^verbatim>\<open>src/DesignWareUsbHost.cpp\<close>: starting the port and the channels, and the interrupts of the
  port and of the channels. Addresses are relative to the core registers. What the port interrupt prints is
  left out, and so is the logging.
\<close>

section \<open>Registers\<close>

definition CONFIG :: nat where "CONFIG = 0x400"
definition HOST_INTERRUPT :: nat where "HOST_INTERRUPT = 0x414"
definition HOST_INTERRUPTMASK :: nat where "HOST_INTERRUPTMASK = 0x418"
definition PORT :: nat where "PORT = 0x440"

lemmas host_regs = CONFIG_def HOST_INTERRUPT_def HOST_INTERRUPTMASK_def PORT_def

text \<open>The bits of the port that a write of 1 changes: the three change flags and the enable flag.\<close>

definition HOSTPORTMASK :: u32 where
  "HOSTPORTMASK = NOT 0x2E"

definition port_Enable :: "bool \<Rightarrow> u32 \<Rightarrow> u32" where "port_Enable b = put_field 1 2 (flag b)"
definition port_Suspend :: "bool \<Rightarrow> u32 \<Rightarrow> u32" where "port_Suspend b = put_field 1 7 (flag b)"
definition port_Reset :: "bool \<Rightarrow> u32 \<Rightarrow> u32" where "port_Reset b = put_field 1 8 (flag b)"
definition port_Power :: "bool \<Rightarrow> u32 \<Rightarrow> u32" where "port_Power b = put_field 1 12 (flag b)"

datatype ClockRate = Clock30_60MHz | Clock48MHz | Clock6MHz

fun clock_code :: "ClockRate \<Rightarrow> u32" where
  "clock_code Clock30_60MHz = 0"
| "clock_code Clock48MHz = 1"
| "clock_code Clock6MHz = 2"

definition host_config :: "ClockRate \<Rightarrow> u32 \<Rightarrow> u32" where
  "host_config clock r = put_field 2 0 (clock_code clock) (put_field 1 2 (flag True) r)"

section \<open>The host\<close>

text \<open>A slot of the free channels holds the number of a channel, or nothing for the null pointer.\<close>

record hcd_host =
  m_NumChannels :: nat
  m_Channels :: "hcd_channel list"
  m_freeChannels :: "nat option list"
  host_trace :: "dma_event reg_trace"

definition MaxChannels :: nat where "MaxChannels = 8"

definition port_get :: "channel_device \<Rightarrow> nat \<Rightarrow> dma_event reg_trace \<Rightarrow> u32 \<times> dma_event reg_trace" where
  "port_get d r t = reg_get (device.truncate d) r t"

definition port_cycle :: "channel_device \<Rightarrow> (u32 \<Rightarrow> u32) \<Rightarrow> dma_event reg_trace \<Rightarrow> dma_event reg_trace" where
  "port_cycle d f t = (let (port, t) = port_get d PORT t in reg_set PORT (f (port AND HOSTPORTMASK)) t)"

definition power_up :: "channel_device \<Rightarrow> dma_event reg_trace \<Rightarrow> dma_event reg_trace" where
  "power_up d t =
     (let (port, t) = port_get d PORT t in
      if \<not> bit port 12 then reg_set PORT (port_Power True (port AND HOSTPORTMASK)) t else t)"

text \<open>The pages asked for, and the channels with their slices of that memory.\<close>

definition dma_pages :: "nat \<Rightarrow> nat" where
  "dma_pages n = (n * MaxPacketSize + 4096 + 1) div 4096"

fun make_channels :: "u64 \<Rightarrow> nat list \<Rightarrow> dma_event reg_trace \<Rightarrow> hcd_channel list \<times> dma_event reg_trace" where
  "make_channels buffer [] t = ([], t)"
| "make_channels buffer (i # is) t =
     (let ch = HCDChannel i (buffer + of_nat (i * MaxPacketSize)) t; (chs, t) = make_channels buffer is (ch_trace ch) in
      (ch # chs, t))"

text \<open>\<open>buffer\<close> is the memory that the allocation of \<open>dma_pages\<close> returned.\<close>

definition Make :: "channel_device \<Rightarrow> ClockRate \<Rightarrow> u8 \<Rightarrow> u64 \<Rightarrow> dma_event reg_trace \<Rightarrow> hcd_host" where
  "Make d clock numChannels buffer t =
     (let t = reg_modify (device.truncate d) CONFIG (host_config clock) t;
          t = pause 1000 (power_up d t);
          t = pause 60000 (port_cycle d (port_Reset True) t);
          t = port_cycle d (port_Reset False) t;
          t = reg_set HOST_INTERRUPTMASK 0 (reg_set HOST_INTERRUPT 0xFFFFFFFF t);
          n = (if MaxChannels < unat numChannels then MaxChannels else unat numChannels);
          (chs, t) = make_channels buffer [0..<n] t;
          t = pause 1000 t;
          t = pause 2000 (port_cycle d (port_Power True) t);
          t = pause 60000 (port_cycle d (\<lambda>p. port_Power True (port_Reset True (port_Suspend False p))) t);
          t = pause 1000 (port_cycle d (port_Reset False) t) in
      \<lparr>m_NumChannels = n, m_Channels = chs, m_freeChannels = map Some [0..<n], host_trace = t\<rparr>)"

section \<open>Interrupts\<close>

definition HandlePortInterrupt :: "channel_device \<Rightarrow> hcd_host \<Rightarrow> hcd_host" where
  "HandlePortInterrupt d h =
     (let (port, t) = port_get d PORT (host_trace h) in h\<lparr>host_trace := reg_set PORT (port_Enable False port) t\<rparr>)"

text \<open>The loop over the channels that are flagged; the result has the coroutines that the sparks resume.\<close>

lemma clear_bit_less: "channelsMask \<noteq> 0 \<Longrightarrow>
    unat (channelsMask AND NOT (push_bit (countr_zero channelsMask) 1)) < unat (channelsMask :: u32)"
proof -
  assume "channelsMask \<noteq> 0"
  then have b: "bit channelsMask (countr_zero channelsMask)"
    using countr_zero_at [of channelsMask] countr_zero_less [of channelsMask] by simp
  have "channelsMask AND NOT (push_bit (countr_zero channelsMask) 1) \<le> channelsMask" by (rule word_and_le2)
  moreover have "channelsMask AND NOT (push_bit (countr_zero channelsMask) 1) \<noteq> channelsMask"
  proof
    assume "channelsMask AND NOT (push_bit (countr_zero channelsMask) 1) = channelsMask"
    then have "bit (channelsMask AND NOT (push_bit (countr_zero channelsMask) 1)) (countr_zero channelsMask)" using b by simp
    then show False using bit_imp_le_length [OF b] by (simp add: bit_simps)
  qed
  ultimately show ?thesis by (simp add: word_le_nat_alt word_unat_eq_iff)
qed

function handle_channels :: "channel_device \<Rightarrow> u32 \<Rightarrow> hcd_host \<Rightarrow> (u64 option list \<times> hcd_host) res" where
  "handle_channels d channelsMask h =
     (if channelsMask = 0 then Inr ([], h)
      else
        let c = countr_zero channelsMask; m = channelsMask AND NOT (push_bit c 1) in
        if m_NumChannels h \<le> c then Inl (Panic ''HCD: Channel interrupt received'')
        else
          let (spark, ch) = HandleInterrupt d ((m_Channels h ! c)\<lparr>ch_trace := host_trace h\<rparr>);
              h = h\<lparr>m_Channels := (m_Channels h)[c := ch], host_trace := ch_trace ch\<rparr> in
          rbind (handle_channels d m h) (\<lambda>(sparks, h). Inr (spark # sparks, h)))"
  by auto
termination
  by (relation "measure (\<lambda>(d, m, h). unat m)") (use clear_bit_less in auto)

definition HandleChannelInterrupt :: "channel_device \<Rightarrow> hcd_host \<Rightarrow> (u64 option list \<times> hcd_host) res" where
  "HandleChannelInterrupt d h =
     (let (i, t) = port_get d HOST_INTERRUPT (host_trace h) in
      rbind (handle_channels d i (h\<lparr>host_trace := t\<rparr>)) (\<lambda>(sparks, h).
        Inr (sparks, h\<lparr>host_trace := reg_set HOST_INTERRUPT i (host_trace h)\<rparr>)))"

declare handle_channels.simps [simp del]

section \<open>Channel interrupts resume the transfers that wait\<close>

text \<open>The bits of a mask from the lowest up, the order in which the loop takes them.\<close>

definition bits_of :: "u32 \<Rightarrow> nat list" where
  "bits_of m = filter (bit m) [0..<32]"

lemma bits_of_0 [simp]: "bits_of 0 = []"
  by (simp add: bits_of_def)

lemma set_bits_of [simp]: "set (bits_of m) = {i. bit m i}"
  using bit_imp_le_length [of m] by (auto simp: bits_of_def)

lemma bits_of_step:
  assumes "m \<noteq> 0"
  shows "bits_of m = countr_zero m # bits_of (m AND NOT (push_bit (countr_zero m) 1))"
proof -
  let ?c = "countr_zero m"
  have c: "?c < 32" using countr_zero_less [OF assms] by simp
  have "[0..<32] = [0..<?c] @ ?c # [Suc ?c..<32]" using upt_add_eq_append [of 0 ?c "32 - ?c"] c upt_conv_Cons [of ?c 32] by simp
  moreover have "filter (bit m) [0..<?c] = []" using countr_zero_below [of _ m] by (auto simp: filter_empty_conv)
  moreover have "filter (bit (m AND NOT (push_bit ?c 1))) [0..<?c] = []"
    using countr_zero_below [of _ m] by (auto simp: filter_empty_conv bit_simps)
  moreover have "\<not> bit (m AND NOT (push_bit ?c 1)) ?c" by (simp add: bit_simps)
  moreover have "filter (bit (m AND NOT (push_bit ?c 1))) [Suc ?c..<32] = filter (bit m) [Suc ?c..<32]"
    by (rule filter_cong) (auto simp: bit_simps)
  ultimately show ?thesis using c countr_zero_at [of m] by (simp add: bits_of_def)
qed

definition waiting :: "hcd_channel \<Rightarrow> u64 option" where
  "waiting ch = (if snd (m_waitingCoroutineHandle ch) \<noteq> 0 then Some (snd (m_waitingCoroutineHandle ch)) else None)"

lemma HandleInterrupt_waiting:
  "fst (HandleInterrupt d ch) = waiting ch"
  "m_waitingCoroutineHandle (snd (HandleInterrupt d ch)) = (0, 0)"
  by (simp_all add: HandleInterrupt_def waiting_def Let_def ch_get_def ch_set_def reg_get_def)

lemma waiting_trace [simp]: "waiting (ch\<lparr>ch_trace := t\<rparr>) = waiting ch"
  by (simp add: waiting_def)

lemma handle_channels_resumes:
  assumes "\<forall>c. bit m c \<longrightarrow> c < m_NumChannels h" and "length (m_Channels h) = m_NumChannels h"
  shows "\<exists>h'. handle_channels d m h = Inr (map (\<lambda>c. waiting (m_Channels h ! c)) (bits_of m), h') \<and>
    m_NumChannels h' = m_NumChannels h \<and> m_freeChannels h' = m_freeChannels h \<and> length (m_Channels h') = m_NumChannels h \<and>
    (\<forall>c < m_NumChannels h. if bit m c then m_waitingCoroutineHandle (m_Channels h' ! c) = (0, 0) else m_Channels h' ! c = m_Channels h ! c)"
  using assms
proof (induction d m h rule: handle_channels.induct)
  case (1 d m h)
  show ?case
  proof (cases "m = 0")
    case True
    then show ?thesis using "1.prems" by (subst handle_channels.simps) simp
  next
    case False
    define c where "c = countr_zero m"
    define m' where "m' = m AND NOT (push_bit c 1)"
    define r where "r = HandleInterrupt d ((m_Channels h ! c)\<lparr>ch_trace := host_trace h\<rparr>)"
    define h1 where "h1 = h\<lparr>m_Channels := (m_Channels h)[c := snd r], host_trace := ch_trace (snd r)\<rparr>"
    have bits: "bit m' k \<longleftrightarrow> bit m k \<and> k \<noteq> c" for k using bit_imp_le_length [of m k] by (auto simp: m'_def bit_simps)
    have c: "bit m c" using countr_zero_at [of m] countr_zero_less [OF False] by (simp add: c_def)
    then have cn: "c < m_NumChannels h" using "1.prems"(1) by blast
    have r: "fst r = waiting (m_Channels h ! c)" "m_waitingCoroutineHandle (snd r) = (0, 0)"
      by (simp_all add: r_def HandleInterrupt_waiting)
    obtain h' where h': "handle_channels d m' h1 = Inr (map (\<lambda>c. waiting (m_Channels h1 ! c)) (bits_of m'), h')"
      "m_NumChannels h' = m_NumChannels h1 \<and> m_freeChannels h' = m_freeChannels h1 \<and> length (m_Channels h') = m_NumChannels h1"
      and each: "\<forall>c < m_NumChannels h1. if bit m' c then m_waitingCoroutineHandle (m_Channels h' ! c) = (0, 0)
        else m_Channels h' ! c = m_Channels h1 ! c"
      using "1.IH" [OF False c_def m'_def _ r_def prod.collapse h1_def] cn "1.prems" bits by (auto simp: h1_def)
    have same: "map (\<lambda>c. waiting (m_Channels h1 ! c)) (bits_of m') = map (\<lambda>c. waiting (m_Channels h ! c)) (bits_of m')"
      using bits by (simp add: h1_def)
    have "bits_of m = c # bits_of m'" using bits_of_step [OF False] by (simp add: c_def m'_def)
    moreover have "handle_channels d m h = Inr (fst r # map (\<lambda>c. waiting (m_Channels h ! c)) (bits_of m'), h')"
      using False cn h'(1) same
      by (subst handle_channels.simps)
        (simp add: c_def [symmetric] m'_def [symmetric] r_def [symmetric] h1_def [symmetric] case_prod_beta Let_def del: push_bit_of_1)
    moreover have "if bit m k then m_waitingCoroutineHandle (m_Channels h' ! k) = (0, 0) else m_Channels h' ! k = m_Channels h ! k"
      if "k < m_NumChannels h" for k
      using each that bits [of k] c cn r(2) "1.prems"(2) by (cases "k = c") (auto simp: h1_def split: if_splits)
    ultimately show ?thesis using h'(2) r(1) "1.prems"(2) by (simp add: h1_def)
  qed
qed

lemma handle_channels_panics:
  assumes "bit m k" and "m_NumChannels h \<le> k"
  shows "handle_channels d m h = Inl (Panic ''HCD: Channel interrupt received'')"
  using assms
proof (induction d m h rule: handle_channels.induct)
  case (1 d m h)
  define c where "c = countr_zero m"
  define m' where "m' = m AND NOT (push_bit c 1)"
  define r where "r = HandleInterrupt d ((m_Channels h ! c)\<lparr>ch_trace := host_trace h\<rparr>)"
  define h1 where "h1 = h\<lparr>m_Channels := (m_Channels h)[c := snd r], host_trace := ch_trace (snd r)\<rparr>"
  have m: "m \<noteq> 0" using "1.prems"(1) by auto
  have bits: "bit m' k" if "k \<noteq> c" using that "1.prems"(1) bit_imp_le_length [of m k] by (auto simp: m'_def bit_simps)
  have "handle_channels d m' h1 = Inl (Panic ''HCD: Channel interrupt received'')" if "\<not> m_NumChannels h \<le> c"
    using "1.IH" [OF m c_def m'_def that r_def prod.collapse h1_def] bits that "1.prems"(2) by (auto simp: h1_def)
  then show ?case
    using m by (subst handle_channels.simps)
      (simp add: c_def [symmetric] m'_def [symmetric] r_def [symmetric] h1_def [symmetric] case_prod_beta Let_def del: push_bit_of_1)
qed

text \<open>
  C19: Let the host have a channel object for each of its channels, and let \<open>i\<close> be what the interrupt register of the host
  reads. If \<open>i\<close> flags existing channels only, the handler resumes the coroutine that waits on each flagged channel
  once, from the lowest channel up, leaves no flagged channel with a waiting coroutine, does not touch the other
  channels or the free list, and acknowledges exactly the flags that it has read; if \<open>i\<close> flags any other channel, it panics.
\<close>

theorem channel_interrupts_resume:
  assumes "length (m_Channels h) = m_NumChannels h" and "i = reads d (host_trace h) HOST_INTERRUPT"
  shows "if \<forall>c. bit i c \<longrightarrow> c < m_NumChannels h
    then \<exists>h'. HandleChannelInterrupt d h = Inr (map (\<lambda>c. waiting (m_Channels h ! c)) (bits_of i), h') \<and>
      m_freeChannels h' = m_freeChannels h \<and> last_write HOST_INTERRUPT (host_trace h') = Some i \<and>
      (\<forall>c < m_NumChannels h.
         if bit i c then m_waitingCoroutineHandle (m_Channels h' ! c) = (0, 0) else m_Channels h' ! c = m_Channels h ! c)
    else HandleChannelInterrupt d h = Inl (Panic ''HCD: Channel interrupt received'')"
proof -
  let ?h = "h\<lparr>host_trace := RegRead HOST_INTERRUPT i # host_trace h\<rparr>"
  have step: "HandleChannelInterrupt d h =
      rbind (handle_channels d i ?h) (\<lambda>(sparks, h). Inr (sparks, h\<lparr>host_trace := reg_set HOST_INTERRUPT i (host_trace h)\<rparr>))"
    by (simp add: HandleChannelInterrupt_def port_get_def reg_get_def assms(2) Let_def device.defs)
  show ?thesis
  proof (cases "\<forall>c. bit i c \<longrightarrow> c < m_NumChannels h")
    case True
    then show ?thesis
      using handle_channels_resumes [of i ?h d] assms(1) by (auto simp: step reg_set_def)
  next
    case False
    then obtain c where "bit i c" "m_NumChannels ?h \<le> c" by auto
    then show ?thesis using handle_channels_panics [of i c ?h d] False by (simp add: step)
  qed
qed

text \<open>A host with one channel on which the coroutine at \<open>0x500\<close> waits, and a device that flags it.\<close>

definition flagging_device :: channel_device where
  "flagging_device = \<lparr>reads = (\<lambda>t r. if r = HOST_INTERRUPT then 1 else 0), counter = (\<lambda>t. 0), interrupts = (\<lambda>t. True), dma = (\<lambda>t i. 0)\<rparr>"

definition waiting_host :: hcd_host where
  "waiting_host = \<lparr>m_NumChannels = 1, m_Channels = [(HCDChannel 0 0x10000 [])\<lparr>m_waitingCoroutineHandle := (1, 0x500)\<rparr>],
     m_freeChannels = [None], host_trace = []\<rparr>"

theorem channel_interrupts_resume_witness:
  "\<exists>h'. HandleChannelInterrupt flagging_device waiting_host = Inr ([Some 0x500], h') \<and>
     m_waitingCoroutineHandle (m_Channels h' ! 0) = (0, 0)"
proof -
  have i: "reads flagging_device (host_trace waiting_host) HOST_INTERRUPT = 1" by (simp add: flagging_device_def)
  have "(1 :: u32) = reads flagging_device (host_trace waiting_host) HOST_INTERRUPT" by (rule i [symmetric])
  note resume = channel_interrupts_resume [OF _ this]
  have "bits_of 1 = [0]" by code_simp
  then show ?thesis using resume by (auto simp: waiting_host_def waiting_def bit_1_iff)
qed

section \<open>A host that has started\<close>

lemma make_channels_result:
  "map m_Number (fst (make_channels buffer is t)) = is"
  "map m_DmaBuffer (fst (make_channels buffer is t)) = map (\<lambda>i. buffer + of_nat (i * MaxPacketSize)) is"
  "map waiting (fst (make_channels buffer is t)) = map (\<lambda>i. None) is"
  by (induction "is" arbitrary: t) (simp_all add: Let_def case_prod_beta HCDChannel_def ch_set_def waiting_def)

text \<open>No write to the port register has a 1 in the enable flag or in one of the change flags, which would change them.\<close>

definition careful :: "u32 \<Rightarrow> bool" where
  "careful v \<longleftrightarrow> (\<forall>k \<in> {1, 2, 3, 5}. \<not> bit v k)"

definition port_careful :: "dma_event reg_trace \<Rightarrow> bool" where
  "port_careful t \<longleftrightarrow> (\<forall>v. (PORT, v) \<in> set (register_writes t) \<longrightarrow> careful v)"

lemma careful_masked: "careful (p AND HOSTPORTMASK)"
  by (simp add: careful_def HOSTPORTMASK_def bit_simps)

lemma careful_fields:
  assumes "careful p"
  shows "careful (port_Power b p)" and "careful (port_Reset b p)" and "careful (port_Suspend b p)"
  using assms by (auto simp: careful_def port_Power_def port_Reset_def port_Suspend_def bit_put_field)

lemma port_careful_simps [simp]:
  "port_careful (pause us t) = port_careful t"
  "port_careful (RegRead r v # t) = port_careful t"
  "r \<noteq> PORT \<Longrightarrow> port_careful (reg_set r v t) = port_careful t"
  "port_careful (reg_set PORT v t) \<longleftrightarrow> port_careful t \<and> careful v"
  by (auto simp: port_careful_def pause_def reg_set_def)

lemma port_careful_steps:
  assumes "port_careful t"
  shows "port_careful (power_up d t)" and "(\<And>p. careful p \<Longrightarrow> careful (f p)) \<Longrightarrow> port_careful (port_cycle d f t)"
    and "r \<noteq> PORT \<Longrightarrow> port_careful (reg_modify e r g t)"
  using assms careful_masked careful_fields
  by (auto simp: power_up_def port_cycle_def port_get_def reg_modify_def reg_get_def Let_def)

lemma port_careful_channels: "port_careful t \<Longrightarrow> port_careful (snd (make_channels buffer is t))"
  by (induction "is" arbitrary: t)
    (simp_all add: Let_def case_prod_beta HCDChannel_def ch_set_def host_regs channel_regs)

text \<open>
  Starting the host makes \<open>min 8 n\<close> channels: each has its number, no waiting coroutine and its own slice of
  the DMA memory, which lies inside the pages that were allocated, and every channel is free. No write to the port
  register during the start sets one of the flags that a 1 would clear.
\<close>

theorem host_starts:
  assumes "port_careful t"
  shows "let h = Make d clock numChannels buffer t; n = min 8 (unat numChannels) in
    m_NumChannels h = n \<and> m_freeChannels h = map Some [0..<n] \<and>
    map m_Number (m_Channels h) = [0..<n] \<and> map waiting (m_Channels h) = replicate n None \<and>
    (\<forall>i < n. m_DmaBuffer (m_Channels h ! i) = buffer + of_nat (i * 1024) \<and> i * 1024 + 1024 \<le> dma_pages n * 4096) \<and>
    port_careful (host_trace h)"
proof -
  define n where "n = min 8 (unat numChannels)"
  define h where "h = Make d clock numChannels buffer t"
  have limit: "(if MaxChannels < unat numChannels then MaxChannels else unat numChannels) = n"
    by (simp add: MaxChannels_def n_def)
  obtain t1 where chs: "m_Channels h = fst (make_channels buffer [0..<n] t1)"
    by (simp add: h_def Make_def Let_def case_prod_beta limit)
  have n: "m_NumChannels h = n" "m_freeChannels h = map Some [0..<n]"
    by (simp_all add: h_def Make_def Let_def case_prod_beta limit)
  have numbers: "map m_Number (m_Channels h) = [0..<n]" "map waiting (m_Channels h) = replicate n None"
    and buffers: "map m_DmaBuffer (m_Channels h) = map (\<lambda>i. buffer + of_nat (i * MaxPacketSize)) [0..<n]"
    by (simp_all add: chs make_channels_result map_replicate_const)
  have len: "length (m_Channels h) = n" using numbers(1) by (metis length_map length_upt minus_nat.diff_0)
  have slice: "m_DmaBuffer (m_Channels h ! i) = buffer + of_nat (i * 1024)" if "i < n" for i
    using arg_cong [OF buffers, of "\<lambda>l. l ! i"] that len by (simp add: MaxPacketSize_def)
  have pages: "i * 1024 + 1024 \<le> dma_pages n * 4096" if "i < n" for i
  proof -
    let ?x = "n * 1024 + 4096 + 1"
    have "?x div 4096 * 4096 + ?x mod 4096 = ?x" and "?x mod 4096 < 4096" by (rule div_mult_mod_eq) simp
    then have "n * 1024 \<le> dma_pages n * 4096" unfolding dma_pages_def MaxPacketSize_def by linarith
    then show ?thesis using that by linarith
  qed
  have "port_careful (host_trace h)"
    unfolding h_def Make_def Let_def case_prod_beta
    using assms by (simp add: port_careful_steps port_careful_channels careful_fields host_regs)
  then show ?thesis using n numbers slice pages by (simp add: Let_def h_def n_def)
qed

theorem host_starts_witness:
  "m_freeChannels (Make flagging_device Clock48MHz 16 0x10000 []) = map Some [0..<8]"
  using host_starts [where t = "[]" and d = flagging_device and clock = Clock48MHz and numChannels = "16" and buffer = "0x10000"] by (simp add: port_careful_def Let_def)

end
