(* ===== verification/Channel_Pool.thy ===== *)
theory Channel_Pool
  imports Usb_Host
begin

text \<open>
  Reserving a channel, \<^verbatim>\<open>HCDHost::GetChannel\<close> and \<^verbatim>\<open>ReleaseChannel\<close> of \<^verbatim>\<open>src/DesignWareUsbHost.cpp\<close>, by callers that run at the
  same time: every access to an atomic slot and to the interrupt mask is a step of one caller, and any caller may
  make the next step. The delay between two searches is the step that starts the next search.
\<close>

section \<open>The steps\<close>

datatype pool_pc =
    Outside
  | Looking nat
  | Swapping nat nat
  | ReadingMask nat
  | WritingMask nat u32
  | HoldingChannel nat
  | ReadingUnmask nat
  | WritingUnmask nat u32
  | PuttingBack nat

record channel_pool =
  free_slots :: "nat option list"
  irq_mask :: u32
  callers :: "nat \<Rightarrow> pool_pc"

definition channel_bit :: "nat \<Rightarrow> u32" where
  "channel_bit n = push_bit n 1"

text \<open>The next step of caller \<open>c\<close>, with \<open>n\<close> channels. Outside, it calls \<open>GetChannel\<close>; with a channel, it releases it.\<close>

definition GetChannel_step :: "nat \<Rightarrow> nat \<Rightarrow> channel_pool \<Rightarrow> channel_pool" where
  "GetChannel_step n c p =
     (case callers p c of
        Outside \<Rightarrow> p\<lparr>callers := (callers p)(c := Looking 0)\<rparr>
      | Looking i \<Rightarrow>
          if \<not> i < n then p\<lparr>callers := (callers p)(c := Looking 0)\<rparr>
          else (case free_slots p ! i of
              None \<Rightarrow> p\<lparr>callers := (callers p)(c := Looking (i + 1))\<rparr>
            | Some ch \<Rightarrow> p\<lparr>callers := (callers p)(c := Swapping i ch)\<rparr>)
      | Swapping i ch \<Rightarrow>
          if free_slots p ! i = Some ch
          then p\<lparr>free_slots := (free_slots p)[i := None], callers := (callers p)(c := ReadingMask ch)\<rparr>
          else p\<lparr>callers := (callers p)(c := Looking (i + 1))\<rparr>
      | ReadingMask ch \<Rightarrow> p\<lparr>callers := (callers p)(c := WritingMask ch (irq_mask p))\<rparr>
      | WritingMask ch m \<Rightarrow> p\<lparr>irq_mask := m OR channel_bit ch, callers := (callers p)(c := HoldingChannel ch)\<rparr>
      | _ \<Rightarrow> p)"

definition ReleaseChannel_step :: "nat \<Rightarrow> channel_pool \<Rightarrow> channel_pool" where
  "ReleaseChannel_step c p =
     (case callers p c of
        HoldingChannel ch \<Rightarrow> p\<lparr>callers := (callers p)(c := ReadingUnmask ch)\<rparr>
      | ReadingUnmask ch \<Rightarrow> p\<lparr>callers := (callers p)(c := WritingUnmask ch (irq_mask p))\<rparr>
      | WritingUnmask ch m \<Rightarrow> p\<lparr>irq_mask := m AND NOT (channel_bit ch), callers := (callers p)(c := PuttingBack ch)\<rparr>
      | PuttingBack ch \<Rightarrow> p\<lparr>free_slots := (free_slots p)[ch := Some ch], callers := (callers p)(c := Outside)\<rparr>
      | _ \<Rightarrow> p)"

text \<open>The callers make their moves in any order. At the start all channels are free and masked.\<close>

datatype pool_move = Get nat | Release nat

fun make_move :: "nat \<Rightarrow> pool_move \<Rightarrow> channel_pool \<Rightarrow> channel_pool" where
  "make_move n (Get c) = GetChannel_step n c"
| "make_move n (Release c) = ReleaseChannel_step c"

definition started_pool :: "nat \<Rightarrow> channel_pool" where
  "started_pool n = \<lparr>free_slots = map Some [0..<n], irq_mask = 0, callers = (\<lambda>c. Outside)\<rparr>"

inductive pool_reach :: "nat \<Rightarrow> channel_pool \<Rightarrow> bool" for n where
  start: "pool_reach n (started_pool n)"
| move: "pool_reach n p \<Longrightarrow> pool_reach n (make_move n m p)"

section \<open>A channel has one owns_channel at most\<close>

fun owned :: "pool_pc \<Rightarrow> nat option" where
  "owned (ReadingMask ch) = Some ch"
| "owned (WritingMask ch m) = Some ch"
| "owned (HoldingChannel ch) = Some ch"
| "owned (ReadingUnmask ch) = Some ch"
| "owned (WritingUnmask ch m) = Some ch"
| "owned (PuttingBack ch) = Some ch"
| "owned _ = None"

definition owns_channel :: "channel_pool \<Rightarrow> nat \<Rightarrow> nat \<Rightarrow> bool" where
  "owns_channel p c ch \<longleftrightarrow> owned (callers p c) = Some ch"

definition slots_ok :: "nat \<Rightarrow> channel_pool \<Rightarrow> bool" where
  "slots_ok n p \<longleftrightarrow>
     length (free_slots p) = n \<and>
     (\<forall>i < n. free_slots p ! i = (if \<exists>c. owns_channel p c i then None else Some i)) \<and>
     (\<forall>c i ch. callers p c = Swapping i ch \<longrightarrow> i < n \<and> ch = i) \<and>
     (\<forall>c ch. owns_channel p c ch \<longrightarrow> ch < n) \<and>
     (\<forall>c c' ch. owns_channel p c ch \<and> owns_channel p c' ch \<longrightarrow> c = c')"

lemma owns_update: "owns_channel (p\<lparr>callers := (callers p)(c := pc)\<rparr>) k ch \<longleftrightarrow> (if k = c then owned pc = Some ch else owns_channel p k ch)"
  by (simp add: owns_channel_def)

text \<open>Moves that change neither the ownership nor the slots.\<close>

lemma slots_ok_same:
  assumes "slots_ok n p" and "free_slots p' = free_slots p" and "callers p' = (callers p)(c := pc)"
    and "owned pc = owned (callers p c)" and "\<And>i ch. pc = Swapping i ch \<Longrightarrow> i < n \<and> ch = i"
  shows "slots_ok n p'"
proof -
  have "owns_channel p' k ch = owns_channel p k ch" for k ch using assms(3,4) by (simp add: owns_channel_def)
  then show ?thesis using assms by (auto simp: slots_ok_def)
qed

lemma slots_okD:
  assumes "slots_ok n p"
  shows "length (free_slots p) = n"
    and "i < n \<Longrightarrow> free_slots p ! i = None \<or> free_slots p ! i = Some i"
    and "i < n \<Longrightarrow> free_slots p ! i = None \<longleftrightarrow> (\<exists>c. owns_channel p c i)"
    and "callers p c = Swapping i ch \<Longrightarrow> i < n \<and> ch = i"
    and "owns_channel p c i \<Longrightarrow> i < n"
    and "owns_channel p c i \<Longrightarrow> owns_channel p c' i \<Longrightarrow> c = c'"
  using assms unfolding slots_ok_def by (auto split: if_splits) metis

lemma slots_ok_take:
  assumes "slots_ok n p" and "callers p c = Swapping i i" and "free_slots p ! i = Some i"
  shows "slots_ok n (p\<lparr>free_slots := (free_slots p)[i := None], callers := (callers p)(c := ReadingMask i)\<rparr>)" (is "slots_ok n ?p")
proof -
  note ok = slots_okD [OF assms(1)]
  have i: "i < n" using ok(4) [OF assms(2)] by blast
  have free: "\<not> owns_channel p k i" for k using ok(3) [OF i] assms(3) by auto
  have none: "\<not> owns_channel p c ch" for ch using assms(2) by (simp add: owns_channel_def)
  have own: "owns_channel ?p k ch \<longleftrightarrow> (if k = c then ch = i else owns_channel p k ch)" for k ch by (auto simp: owns_channel_def)
  have "(\<exists>k. owns_channel ?p k j) \<longleftrightarrow> j = i \<or> (\<exists>k. owns_channel p k j)" for j using own none by (metis (full_types))
  then have "free_slots ?p ! j = (if \<exists>k. owns_channel ?p k j then None else Some j)" if "j < n" for j
    using that i ok(1) ok(2,3) [OF that] by (auto simp: nth_list_update)
  moreover have "k = k'" if "owns_channel ?p k ch" "owns_channel ?p k' ch" for k k' ch
    using that free ok(6) unfolding own by (auto split: if_splits)
  moreover have "ch < n" if "owns_channel ?p k ch" for k ch using that i ok(5) unfolding own by (auto split: if_splits)
  ultimately show ?thesis using ok(1,4) unfolding slots_ok_def by auto
qed

lemma slots_ok_put:
  assumes "slots_ok n p" and "callers p c = PuttingBack ch"
  shows "slots_ok n (p\<lparr>free_slots := (free_slots p)[ch := Some ch], callers := (callers p)(c := Outside)\<rparr>)" (is "slots_ok n ?p")
proof -
  note ok = slots_okD [OF assms(1)]
  have c: "owns_channel p c j \<longleftrightarrow> j = ch" for j using assms(2) by (auto simp: owns_channel_def)
  then have ch: "ch < n" and only: "owns_channel p k ch \<Longrightarrow> k = c" for k using ok(5,6) by blast+
  have own: "owns_channel ?p k j \<longleftrightarrow> k \<noteq> c \<and> owns_channel p k j" for k j by (auto simp: owns_channel_def)
  have "(\<exists>k. owns_channel ?p k j) \<longleftrightarrow> j \<noteq> ch \<and> (\<exists>k. owns_channel p k j)" for j using own c only by metis
  then have "free_slots ?p ! j = (if \<exists>k. owns_channel ?p k j then None else Some j)" if "j < n" for j
    using that ch ok(1) ok(2,3) [OF that] by (auto simp: nth_list_update)
  then show ?thesis using ok(1,4,5,6) own unfolding slots_ok_def by auto
qed

lemma slots_ok_move:
  assumes "slots_ok n p"
  shows "slots_ok n (make_move n m p)"
proof (cases m)
  case (Get c)
  note same = slots_ok_same [OF assms, of _ c]
  show ?thesis
  proof (cases "callers p c")
    case (Looking i)
    have "free_slots p ! i = Some ch \<Longrightarrow> i < n \<Longrightarrow> ch = i" for ch using slots_okD(2) [OF assms, of i] by auto
    then show ?thesis
      using Get Looking by (auto simp: GetChannel_step_def split: option.split intro!: same)
  next
    case (Swapping i ch)
    then have "ch = i" using slots_okD(4) [OF assms] by blast
    then show ?thesis
      using Get Swapping slots_ok_take [OF assms, of c i] by (auto simp: GetChannel_step_def intro!: same)
  qed (use Get assms in \<open>auto simp: GetChannel_step_def intro!: same\<close>)
next
  case (Release c)
  note same = slots_ok_same [OF assms, of _ c]
  show ?thesis
    by (cases "callers p c")
      (use Release assms slots_ok_put in \<open>auto simp: ReleaseChannel_step_def intro!: same\<close>)
qed

lemma pool_reach_ok: "pool_reach n p \<Longrightarrow> slots_ok n p"
proof (induction rule: pool_reach.induct)
  case start
  show ?case by (auto simp: slots_ok_def started_pool_def owns_channel_def)
qed (rule slots_ok_move)

text \<open>
  C14: Whatever the callers of \<open>GetChannel\<close> and of the release do at the same time, and however their accesses to the
  slots and to the interrupt mask interleave: a channel never belongs to two callers, a channel is in its slot
  exactly when it belongs to nobody, so none is lost, and a caller that puts its channel back finds the slot empty, so the
  release of a released channel is never reported.
\<close>

theorem channels_are_exclusive:
  assumes "pool_reach n p"
  shows "(owns_channel p c ch \<and> owns_channel p c' ch \<longrightarrow> c = c') \<and>
    (\<forall>i < n. free_slots p ! i = (if \<exists>c. owns_channel p c i then None else Some i)) \<and>
    (callers p c = PuttingBack ch \<longrightarrow> ch < n \<and> free_slots p ! ch = None)"
proof -
  note ok = slots_okD [OF pool_reach_ok [OF assms]]
  have "ch < n \<and> free_slots p ! ch = None" if "callers p c = PuttingBack ch"
  proof -
    have "owns_channel p c ch" using that by (simp add: owns_channel_def)
    then show ?thesis using ok(3,5) by blast
  qed
  then show ?thesis using pool_reach_ok [OF assms] unfolding slots_ok_def by blast
qed

fun run_moves :: "nat \<Rightarrow> pool_move list \<Rightarrow> channel_pool \<Rightarrow> channel_pool" where
  "run_moves n [] p = p"
| "run_moves n (m # ms) p = run_moves n ms (make_move n m p)"

lemma pool_reach_run: "pool_reach n p \<Longrightarrow> pool_reach n (run_moves n ms p)"
  by (induction ms arbitrary: p) (simp_all add: pool_reach.move)

theorem channels_are_exclusive_witness:
  "free_slots (run_moves 2 [Get 0, Get 1, Get 0, Get 1, Get 1, Get 0] (started_pool 2)) ! 0 = None \<and>
   callers (run_moves 2 [Get 0, Get 1, Get 0, Get 1, Get 1, Get 0] (started_pool 2)) 0 = Looking 1"
proof -
  let ?p = "run_moves 2 [Get 0, Get 1, Get 0, Get 1, Get 1, Get 0] (started_pool 2)"
  have c: "callers ?p 1 = ReadingMask 0" "callers ?p 0 = Looking 1"
    by (simp_all add: GetChannel_step_def started_pool_def)
  have "owns_channel ?p 1 0" using c by (simp add: owns_channel_def)
  then have "free_slots ?p ! 0 = None"
    using channels_are_exclusive [OF pool_reach_run [OF pool_reach.start], of 2 "[Get 0, Get 1, Get 0, Get 1, Get 1, Get 0]"] by auto
  then show ?thesis using c(2) by blast
qed

section \<open>A lone caller gets a channel\<close>

definition alone :: "nat \<Rightarrow> nat \<Rightarrow> nat \<Rightarrow> channel_pool \<Rightarrow> channel_pool" where
  "alone n c k p = (GetChannel_step n c ^^ k) p"

lemma alone_Suc: "alone n c (Suc k) p = alone n c k (GetChannel_step n c p)"
  by (simp add: alone_def funpow_swap1)

lemma alone_0 [simp]: "alone n c 0 p = p"
  by (simp add: alone_def)

lemma looking_alone:
  assumes "callers p c = Looking j" and "j \<le> i" and "i < n" and "free_slots p ! i = Some i"
    and "\<forall>k. j \<le> k \<and> k < i \<longrightarrow> free_slots p ! k = None"
  shows "alone n c (i - j + 4) p = p\<lparr>free_slots := (free_slots p)[i := None], irq_mask := irq_mask p OR channel_bit i,
    callers := (callers p)(c := HoldingChannel i)\<rparr>"
  using assms
proof (induction "i - j" arbitrary: j p)
  case 0
  then show ?case by (simp add: numeral_eq_Suc alone_Suc GetChannel_step_def) (simp add: fun_upd_def)
next
  case (Suc d)
  let ?p = "p\<lparr>callers := (callers p)(c := Looking (Suc j))\<rparr>"
  have "GetChannel_step n c p = ?p" using Suc by (simp add: GetChannel_step_def)
  moreover have "alone n c (i - Suc j + 4) ?p = ?p\<lparr>free_slots := (free_slots ?p)[i := None],
      irq_mask := irq_mask ?p OR channel_bit i, callers := (callers ?p)(c := HoldingChannel i)\<rparr>"
    using Suc.hyps(2) Suc.prems by (intro Suc.hyps(1)) auto
  moreover have "i - j + 4 = Suc (i - Suc j + 4)" using Suc.hyps(2) by simp
  ultimately show ?case by (simp add: alone_Suc)
qed

text \<open>
  C24: A caller of \<open>GetChannel\<close> that nobody disturbs while some channel is free gets the lowest free channel after as many
  accesses as there are lower slots, and a few more; the channel's slot is then empty and its interrupt is unmasked.
\<close>

theorem lone_caller_gets_the_lowest_channel:
  assumes "pool_reach n p" and "callers p c = Outside" and "i < n" and "free_slots p ! i \<noteq> None"
    and "\<forall>k < i. free_slots p ! k = None"
  shows "let p' = alone n c (i + 5) p in
    callers p' c = HoldingChannel i \<and> free_slots p' ! i = None \<and> bit (irq_mask p') i = (i < 32) \<and>
    (\<forall>c'. c' \<noteq> c \<longrightarrow> callers p' c' = callers p c')"
proof -
  let ?p = "p\<lparr>callers := (callers p)(c := Looking 0)\<rparr>"
  note ok = slots_okD [OF pool_reach_ok [OF assms(1)]]
  have slot: "free_slots p ! i = Some i" using ok(2) [OF assms(3)] assms(4) by blast
  have "alone n c (i + 5) p = alone n c (i + 4) ?p"
    using assms(2) by (simp add: numeral_eq_Suc alone_Suc GetChannel_step_def)
  moreover have "alone n c (i - 0 + 4) ?p = ?p\<lparr>free_slots := (free_slots ?p)[i := None],
      irq_mask := irq_mask ?p OR channel_bit i, callers := (callers ?p)(c := HoldingChannel i)\<rparr>"
    using assms(3,5) slot by (intro looking_alone) simp_all
  ultimately show ?thesis using assms(3) ok(1) bit_imp_le_length [of "irq_mask p" i]
    by (auto simp: Let_def channel_bit_def bit_simps)
qed

theorem lone_caller_gets_the_lowest_channel_witness:
  "callers (alone 4 7 5 (started_pool 4)) 7 = HoldingChannel 0"
  using lone_caller_gets_the_lowest_channel [OF pool_reach.start, of 4 7 0] by (simp add: started_pool_def Let_def)

section \<open>The interrupt mask is not exclusive\<close>

text \<open>
  The mask is read and written back in two accesses. When one caller reserves a channel between the two accesses of another
  that releases its own, the mask of the first is lost: it has a channel whose interrupt does not come.
\<close>

lemma unmasked_channel_is_lost:
  "\<exists>p. pool_reach 2 p \<and> callers p 1 = HoldingChannel 1 \<and> \<not> bit (irq_mask p) 1"
proof -
  let ?ms = "replicate 5 (Get 0) @ replicate 2 (Release 0) @ replicate 6 (Get 1) @ [Release 0]"
  have "callers (run_moves 2 ?ms (started_pool 2)) 1 = HoldingChannel 1 \<and> irq_mask (run_moves 2 ?ms (started_pool 2)) = 0"
    by (simp add: numeral_eq_Suc GetChannel_step_def ReleaseChannel_step_def started_pool_def channel_bit_def)
  then show ?thesis using pool_reach_run [OF pool_reach.start] by (metis bit_0_eq bot_fun_def bot_bool_def)
qed

end
