(* ===== verification/Usb_Core.thy ===== *)
theory Usb_Core
  imports Usb_Host Mailbox Cpu_Time
begin

text \<open>
  The core of the USB controller, \<^verbatim>\<open>src/DesignWareUsb.cpp\<close>: power through the mailbox, the resets and FIFO flushes with
  their time-outs, the start of the controller and its interrupt handler. Addresses are relative to the core
  registers. The text for interrupts that nobody handles is left out, and so is the logging.
\<close>

unbundle bit_operations_syntax

section \<open>Registers\<close>

abbreviation (input) CORE_OTGCONTROL :: nat where "CORE_OTGCONTROL \<equiv> 0x00"
abbreviation (input) CORE_AHB :: nat where "CORE_AHB \<equiv> 0x08"
abbreviation (input) CORE_CONTROL :: nat where "CORE_CONTROL \<equiv> 0x0C"
abbreviation (input) CORE_RESET :: nat where "CORE_RESET \<equiv> 0x10"
abbreviation (input) CORE_INTERRUPT :: nat where "CORE_INTERRUPT \<equiv> 0x14"
abbreviation (input) CORE_INTERRUPTMASK :: nat where "CORE_INTERRUPTMASK \<equiv> 0x18"
abbreviation (input) CORE_RECEIVESIZE :: nat where "CORE_RECEIVESIZE \<equiv> 0x24"
abbreviation (input) CORE_NONPERIODICFIFO_SIZE :: nat where "CORE_NONPERIODICFIFO_SIZE \<equiv> 0x28"
abbreviation (input) CORE_USERID :: nat where "CORE_USERID \<equiv> 0x3C"
abbreviation (input) CORE_VENDORID :: nat where "CORE_VENDORID \<equiv> 0x40"
abbreviation (input) CORE_HARDWARE1 :: nat where "CORE_HARDWARE1 \<equiv> 0x48"
abbreviation (input) CORE_PERIODICINFO_HostSize :: nat where "CORE_PERIODICINFO_HostSize \<equiv> 0x100"
abbreviation (input) POWER_AND_CLOCK :: nat where "POWER_AND_CLOCK \<equiv> 0xE00"

definition set_flag :: "nat \<Rightarrow> bool \<Rightarrow> u32 \<Rightarrow> u32" where
  "set_flag k b = put_field 1 k (flag b)"

text \<open>\<open>CoreHardware1\<close>\<close>

definition OperatingMode :: "u32 \<Rightarrow> u32" where "OperatingMode h = get_field 3 0 h"
definition Architecture :: "u32 \<Rightarrow> u32" where "Architecture h = get_field 2 3 h"
definition HighSpeedPhysical :: "u32 \<Rightarrow> u32" where "HighSpeedPhysical h = get_field 2 6 h"
definition FullSpeedPhysical :: "u32 \<Rightarrow> u32" where "FullSpeedPhysical h = get_field 2 8 h"
definition HostChannelMax :: "u32 \<Rightarrow> u32" where "HostChannelMax h = get_field 4 14 h"

definition FifoSize :: "u32 \<Rightarrow> u32 \<Rightarrow> u32 \<Rightarrow> u32" where
  "FifoSize start depth r = put_field 16 0 start (put_field 16 16 depth r)"

abbreviation (input) FifoBytes :: u32 where "FifoBytes \<equiv> 20480"

text \<open>An interrupt register has flag 24 for the port and flag 25 for the channels.\<close>

definition irq_Port :: "u32 \<Rightarrow> bool" where "irq_Port i = bit i 24"
definition irq_HostChannel :: "u32 \<Rightarrow> bool" where "irq_HostChannel i = bit i 25"

section \<open>The state\<close>

record usb_core =
  core_trace :: "dma_event reg_trace"
  PhyInitialized :: bool
  Host :: "hcd_host option"
  usb_enabled :: bool
  usb_mbox :: mbox_hw

definition core_get :: "channel_device \<Rightarrow> nat \<Rightarrow> usb_core \<Rightarrow> u32 \<times> usb_core" where
  "core_get d r s = (let (v, t) = reg_get (device.truncate d) r (core_trace s) in (v, s\<lparr>core_trace := t\<rparr>))"

definition core_set :: "nat \<Rightarrow> u32 \<Rightarrow> usb_core \<Rightarrow> usb_core" where
  "core_set r v s = s\<lparr>core_trace := reg_set r v (core_trace s)\<rparr>"

definition core_modify :: "channel_device \<Rightarrow> nat \<Rightarrow> (u32 \<Rightarrow> u32) \<Rightarrow> usb_core \<Rightarrow> usb_core" where
  "core_modify d r f s = s\<lparr>core_trace := reg_modify (device.truncate d) r f (core_trace s)\<rparr>"

definition core_pause :: "nat \<Rightarrow> usb_core \<Rightarrow> usb_core" where
  "core_pause us s = s\<lparr>core_trace := pause us (core_trace s)\<rparr>"

section \<open>Power\<close>

text \<open>The words of the message, whose first two the mailbox fills in; \<open>addr\<close> is the GPU address of the buffer.\<close>

definition power_message :: "u32 \<Rightarrow> u32 list" where
  "power_message on = [8, 0, 0x28001, 8, 8, 3, on, 0]"

definition send_power ::
  "(u32 list \<Rightarrow> u32 list) \<Rightarrow> u64 \<Rightarrow> u64 \<Rightarrow> u32 \<Rightarrow> mbox_hw \<Rightarrow> (bool \<times> mbox_hw) res option" where
  "send_power firmware GpuMemBase addr on hw =
     Option.bind (SendTags_span firmware GpuMemBase addr (power_message on) hw) (\<lambda>r.
       Some (rbind r (\<lambda>(ok, data, hw). Inr (ok \<and> data ! 4 = 0x80000008, hw))))"

definition PowerOnUsb :: "(u32 list \<Rightarrow> u32 list) \<Rightarrow> u64 \<Rightarrow> u64 \<Rightarrow> mbox_hw \<Rightarrow> (bool \<times> mbox_hw) res option" where
  "PowerOnUsb firmware GpuMemBase addr hw = send_power firmware GpuMemBase addr 1 hw"

definition PowerOffUsb :: "(u32 list \<Rightarrow> u32 list) \<Rightarrow> u64 \<Rightarrow> u64 \<Rightarrow> mbox_hw \<Rightarrow> (DWCRESULT \<times> mbox_hw) res option" where
  "PowerOffUsb firmware GpuMemBase addr hw =
     Option.bind (send_power firmware GpuMemBase addr 0 hw) (\<lambda>r.
       Some (rbind r (\<lambda>(ok, hw). Inr (if ok then DwcOk else DwcErrorDevice, hw))))"

section \<open>Waiting with a time-out\<close>

text \<open>Ticks for a signed number of microseconds: the product wraps as a 64-bit one, and the quotient is truncated.\<close>

definition ticks_for_us :: "u64 \<Rightarrow> int \<Rightarrow> int" where
  "ticks_for_us freq us = (let n = sint (of_int us * freq) in sgn n * (\<bar>n\<bar> div 1000000))"

text \<open>The loops differ in what they wait for. Each looks at the clock first and at the register then.\<close>

partial_function (option) await_reset ::
  "channel_device \<Rightarrow> int \<Rightarrow> u64 \<Rightarrow> (u32 \<Rightarrow> bool) \<Rightarrow> usb_core \<Rightarrow> (DWCRESULT \<times> usb_core) option" where
  "await_reset d ticks start ready s =
     (let (now, t) = GetPerformanceCounter (device.truncate d) (core_trace s); s = s\<lparr>core_trace := t\<rparr> in
      if ticks < time_diff now start then Some (DwcErrorTimeout, s)
      else
        let (r, s) = core_get d CORE_RESET s in
        if ready r then Some (DwcOk, s) else await_reset d ticks start ready s)"

definition wait_reset ::
  "channel_device \<Rightarrow> u64 \<Rightarrow> (u32 \<Rightarrow> bool) \<Rightarrow> usb_core \<Rightarrow> (DWCRESULT \<times> usb_core) option" where
  "wait_reset d freq ready s =
     (let (start, t) = GetPerformanceCounter (device.truncate d) (core_trace s) in
      await_reset d (ticks_for_us freq 100000) start ready (s\<lparr>core_trace := t\<rparr>))"

definition AhbMasterIdle :: "u32 \<Rightarrow> bool" where "AhbMasterIdle r = bit r 31"
definition CoreSoft :: "u32 \<Rightarrow> bool" where "CoreSoft r = bit r 0"

definition HCDReset :: "channel_device \<Rightarrow> u64 \<Rightarrow> usb_core \<Rightarrow> (DWCRESULT \<times> usb_core) option" where
  "HCDReset d freq s =
     Option.bind (wait_reset d freq AhbMasterIdle s) (\<lambda>(r, s).
       if r \<noteq> DwcOk then Some (DwcErrorTimeout, s)
       else wait_reset d freq (\<lambda>v. \<not> CoreSoft v \<and> AhbMasterIdle v) (core_modify d CORE_RESET (set_flag 0 True) s))"

definition HCDTransmitFifoFlush :: "channel_device \<Rightarrow> u64 \<Rightarrow> u32 \<Rightarrow> usb_core \<Rightarrow> (DWCRESULT \<times> usb_core) option" where
  "HCDTransmitFifoFlush d freq fifo s =
     wait_reset d freq (\<lambda>v. \<not> bit v 5)
       (core_modify d CORE_RESET (set_flag 5 True) (core_modify d CORE_RESET (put_field 5 6 fifo) s))"

definition HCDReceiveFifoFlush :: "channel_device \<Rightarrow> u64 \<Rightarrow> usb_core \<Rightarrow> (DWCRESULT \<times> usb_core) option" where
  "HCDReceiveFifoFlush d freq s = wait_reset d freq (\<lambda>v. \<not> bit v 4) (core_modify d CORE_RESET (set_flag 4 True) s)"

section \<open>Starting the controller\<close>

definition vendor_ok :: "u32 \<Rightarrow> bool" where
  "vendor_ok v \<longleftrightarrow> get_field 8 24 v = 0x4F \<and> get_field 8 16 v = 0x54 \<and> get_field 4 12 v = 2"

definition core_compatible :: "channel_device \<Rightarrow> usb_core \<Rightarrow> bool \<times> usb_core" where
  "core_compatible d s =
     (let (vendorId, s) = core_get d CORE_VENDORID s; (userId, s) = core_get d CORE_USERID s in
      if \<not> vendor_ok vendorId then (False, s)
      else
        let (h, s) = core_get d CORE_HARDWARE1 s in
        if Architecture h \<noteq> 2 then (False, s)
        else let (h, s) = core_get d CORE_HARDWARE1 s in (HighSpeedPhysical h \<noteq> 0, s))"

definition core_mask_interrupts :: "channel_device \<Rightarrow> usb_core \<Rightarrow> usb_core" where
  "core_mask_interrupts d s =
     core_set CORE_INTERRUPT 0xFFFFFFFF (core_set CORE_INTERRUPTMASK 0 (core_modify d CORE_AHB (set_flag 0 False) s))"

definition core_vbus :: "channel_device \<Rightarrow> usb_core \<Rightarrow> usb_core" where
  "core_vbus d s = core_pause 1000 (core_modify d CORE_CONTROL (\<lambda>c. set_flag 22 False (set_flag 20 False c)) s)"

definition core_phy :: "channel_device \<Rightarrow> u64 \<Rightarrow> usb_core \<Rightarrow> (DWCRESULT \<times> usb_core) option" where
  "core_phy d freq s =
     (if PhyInitialized s then Some (DwcOk, s)
      else HCDReset d freq
        (core_modify d CORE_CONTROL (\<lambda>c. set_flag 3 False (set_flag 4 True c)) (s\<lparr>PhyInitialized := True\<rparr>)))"

definition ulpi_dedicated :: "channel_device \<Rightarrow> usb_core \<Rightarrow> bool \<times> usb_core" where
  "ulpi_dedicated d s =
     (let (h, s) = core_get d CORE_HARDWARE1 s in
      if HighSpeedPhysical h \<noteq> 2 then (False, s)
      else let (h, s) = core_get d CORE_HARDWARE1 s in (FullSpeedPhysical h = 1, s))"

definition core_ulpi :: "channel_device \<Rightarrow> usb_core \<Rightarrow> usb_core" where
  "core_ulpi d s =
     (let (coreUsb, s) = core_get d CORE_CONTROL s; (b, s) = ulpi_dedicated d s in
      core_pause 1000 (core_set CORE_CONTROL (set_flag 19 b (set_flag 17 b coreUsb)) s))"

definition core_dma :: "channel_device \<Rightarrow> usb_core \<Rightarrow> usb_core" where
  "core_dma d s = core_pause 1000 (core_modify d CORE_AHB (\<lambda>a. set_flag 23 False (set_flag 5 True a)) s)"

definition hnp_srp :: "u32 \<Rightarrow> u32 \<Rightarrow> u32" where
  "hnp_srp mode c =
     (if mode = 0 then set_flag 8 True (set_flag 9 True c)
      else if mode = 1 \<or> mode = 3 \<or> mode = 5 then set_flag 8 True (set_flag 9 False c)
      else if mode = 2 \<or> mode = 4 \<or> mode = 6 then set_flag 8 False (set_flag 9 False c)
      else c)"

definition core_mode :: "channel_device \<Rightarrow> usb_core \<Rightarrow> u32 \<times> usb_core" where
  "core_mode d s =
     (let (coreUsb, s) = core_get d CORE_CONTROL s; (h, s) = core_get d CORE_HARDWARE1 s;
          coreUsb = hnp_srp (OperatingMode h) coreUsb in
      (coreUsb, core_pause 1000 (core_set CORE_CONTROL coreUsb s)))"

definition core_fifos :: "channel_device \<Rightarrow> usb_core \<Rightarrow> usb_core" where
  "core_fifos d s =
     (let s = core_pause 1000 (core_set POWER_AND_CLOCK 0 s);
          s = core_pause 1000 (core_set CORE_RECEIVESIZE FifoBytes s);
          s = core_pause 1000 (core_modify d CORE_NONPERIODICFIFO_SIZE (FifoSize FifoBytes FifoBytes) s);
          s = core_pause 1000 (core_modify d CORE_PERIODICINFO_HostSize (FifoSize (FifoBytes + FifoBytes) FifoBytes) s) in
      core_pause 1000 (core_modify d CORE_OTGCONTROL (set_flag 10 True) s))"

text \<open>
  The last part is reached only when every earlier one was successful. The channel count is computed in 8 bits and
  \<open>buffer\<close> is the DMA memory. \<open>EnableUsb\<close> installs the handler before the interrupts are enabled.
\<close>

definition core_finish :: "channel_device \<Rightarrow> u64 \<Rightarrow> u32 \<Rightarrow> usb_core \<Rightarrow> hcd_host \<times> usb_core" where
  "core_finish d buffer coreUsb s =
     (let (b, s) = ulpi_dedicated d s; clockRate = (if b \<and> bit coreUsb 17 then Clock48MHz else Clock30_60MHz);
          (h, s) = core_get d CORE_HARDWARE1 s;
          host = Make d clockRate (ucast (HostChannelMax h) + 1) buffer (core_trace s);
          s = s\<lparr>core_trace := host_trace host, Host := Some host, usb_enabled := True\<rparr>;
          s = core_modify d CORE_AHB (set_flag 0 True) s;
          s = core_set CORE_INTERRUPTMASK (set_flag 25 True 0) (core_set CORE_INTERRUPT 0xFFFFFFFF s) in
      (host, s))"

definition core_start :: "channel_device \<Rightarrow> u64 \<Rightarrow> u64 \<Rightarrow> usb_core \<Rightarrow> ((DWCRESULT + hcd_host) \<times> usb_core) option" where
  "core_start d freq buffer s =
     Option.bind (HCDReset d freq (core_vbus d s)) (\<lambda>(r, s).
     if r \<noteq> DwcOk then Some (Inl r, s)
     else Option.bind (core_phy d freq (core_pause 1000 s)) (\<lambda>(r, s).
     if r \<noteq> DwcOk then Some (Inl r, s)
     else
       let s = core_dma d (core_ulpi d (core_pause 1000 s)); (coreUsb, s) = core_mode d s in
       Option.bind (HCDTransmitFifoFlush d freq 16 (core_fifos d s)) (\<lambda>(r, s).
       if r \<noteq> DwcOk then Some (Inl r, s)
       else Option.bind (HCDReceiveFifoFlush d freq (core_pause 1000 s)) (\<lambda>(r, s).
       if r \<noteq> DwcOk then Some (Inl r, s)
       else let (host, s) = core_finish d buffer coreUsb (core_pause 1000 s) in Some (Inr host, s)))))"

definition HCDInitialize ::
  "channel_device \<Rightarrow> u64 \<Rightarrow> (u32 list \<Rightarrow> u32 list) \<Rightarrow> u64 \<Rightarrow> u64 \<Rightarrow> u64 \<Rightarrow> usb_core \<Rightarrow>
   ((DWCRESULT + hcd_host) \<times> usb_core) res option" where
  "HCDInitialize d freq firmware GpuMemBase addr buffer s =
     (let (ok, s) = core_compatible d s in
      if \<not> ok then Some (Inr (Inl DwcErrorIncompatible, s))
      else
        let s = core_mask_interrupts d s in
        Option.bind (PowerOnUsb firmware GpuMemBase addr (usb_mbox s)) (\<lambda>r.
        case r of
          Inl e \<Rightarrow> Some (Inl e)
        | Inr (ok, hw) \<Rightarrow>
            let s = s\<lparr>usb_mbox := hw\<rparr> in
            if \<not> ok then Some (Inr (Inl DwcErrorIncompatible, s))
            else Option.bind (core_start d freq buffer s) (\<lambda>x. Some (Inr x))))"

definition HCDGetHostChannelCount :: "channel_device \<Rightarrow> usb_core \<Rightarrow> u8 \<times> usb_core" where
  "HCDGetHostChannelCount d s = (let (h, s) = core_get d CORE_HARDWARE1 s in (ucast (HostChannelMax h) + 1, s))"

section \<open>Interrupts\<close>

text \<open>The interrupt handler with the host that the start left; it says which coroutines the sparks resume.\<close>

definition core_interrupt :: "channel_device \<Rightarrow> hcd_host \<Rightarrow> (u64 option list \<times> hcd_host) res" where
  "core_interrupt d h =
     (let (interrupts, t) = reg_get (device.truncate d) CORE_INTERRUPT (host_trace h);
          (irqmask, t) = reg_get (device.truncate d) CORE_INTERRUPTMASK t;
          i = interrupts AND irqmask; h = h\<lparr>host_trace := t\<rparr>;
          h = (if irq_Port i then HandlePortInterrupt d h else h) in
      rbind (if irq_HostChannel i then HandleChannelInterrupt d h else Inr ([], h)) (\<lambda>(sparks, h).
        Inr (sparks, h\<lparr>host_trace := reg_set CORE_INTERRUPT i (host_trace h)\<rparr>)))"

end
