(* ===== verification/Core_Start.thy ===== *)
theory Core_Start
  imports Usb_Core
begin

text \<open>
  The waits of the USB core end, in time or with a time-out, and a start that fails leaves the controller silent: no
  handler, no host, no interrupt enabled.
\<close>

section \<open>Waits end when the clock runs\<close>

fun last_tick :: "'e reg_trace \<Rightarrow> u64 option" where
  "last_tick [] = None"
| "last_tick (Ticked v # t) = Some v"
| "last_tick (_ # t) = last_tick t"

text \<open>Between two looks at the counter, it advances, and by less than a quarter of its range.\<close>

definition clock_runs :: "channel_device \<Rightarrow> bool" where
  "clock_runs d \<longleftrightarrow>
     (\<forall>t v. last_tick t = Some v \<longrightarrow> 1 \<le> time_diff (counter d t) v \<and> time_diff (counter d t) v \<le> 2 ^ 62)"

lemma truncate_device [simp]: "reads (device.truncate d) = reads d" "counter (device.truncate d) = counter d"
  by (simp_all add: device.defs)

lemma sint_sum:
  fixes x y :: u64
  assumes "0 \<le> sint x" and "sint x < 2 ^ 62" and "0 \<le> sint y" and "sint y \<le> 2 ^ 62"
  shows "sint (y + x) = sint y + sint x"
  using assms by (simp add: sint_word_ariths signed_take_bit_int_eq_self)

lemma time_diff_chain:
  assumes "0 \<le> time_diff b a" and "time_diff b a < 2 ^ 62" and "0 \<le> time_diff c b" and "time_diff c b \<le> 2 ^ 62"
  shows "time_diff c a = time_diff c b + time_diff b a"
proof -
  have "c - a = (c - b) + (b - a)" by simp
  moreover have "sint ((c - b) + (b - a)) = sint (c - b) + sint (b - a)"
    using assms unfolding time_diff_def by (rule sint_sum)
  ultimately show ?thesis by (simp add: time_diff_def)
qed

text \<open>What a wait says about its last look at the register or at the clock.\<close>

definition wait_result :: "(u32 \<Rightarrow> bool) \<Rightarrow> DWCRESULT \<Rightarrow> usb_core \<Rightarrow> bool" where
  "wait_result ready r s \<longleftrightarrow>
     r = DwcOk \<and> (\<exists>v t. core_trace s = RegRead CORE_RESET v # t \<and> ready v) \<or>
     r = DwcErrorTimeout \<and> (\<exists>v t. core_trace s = Ticked v # t)"

lemma await_reset_total:
  assumes "clock_runs d" and "last_tick (core_trace s) = Some v" and "0 \<le> time_diff v start" and "time_diff v start \<le> ticks"
    and "ticks < 2 ^ 62"
  shows "\<exists>r s'. await_reset d ticks start ready s = Some (r, s') \<and> wait_result ready r s'"
  using assms(2-4)
proof (induction "nat (ticks - time_diff v start)" arbitrary: v s rule: less_induct)
  case less
  define now where "now = counter d (core_trace s)"
  have step: "1 \<le> time_diff now v" "time_diff now v \<le> 2 ^ 62"
    using assms(1) less.prems(1) unfolding clock_runs_def now_def by blast+
  have sum: "time_diff now start = time_diff now v + time_diff v start"
    using step less.prems(2,3) assms(5) by (intro time_diff_chain) auto
  let ?s = "s\<lparr>core_trace := Ticked now # core_trace s\<rparr>"
  let ?v = "reads d (Ticked now # core_trace s) CORE_RESET"
  let ?s' = "?s\<lparr>core_trace := RegRead CORE_RESET ?v # Ticked now # core_trace s\<rparr>"
  have unfold: "await_reset d ticks start ready s =
      (if ticks < time_diff now start then Some (DwcErrorTimeout, ?s)
       else if ready ?v then Some (DwcOk, ?s') else await_reset d ticks start ready ?s')"
    by (subst await_reset.simps) (simp add: GetPerformanceCounter_def core_get_def reg_get_def now_def Let_def)
  show ?case
  proof (cases "ticks < time_diff now start \<or> ready ?v")
    case True
    then show ?thesis using unfold by (auto simp: wait_result_def)
  next
    case False
    then have "nat (ticks - time_diff now start) < nat (ticks - time_diff v start)" using sum step by simp
    then have "\<exists>r s'. await_reset d ticks start ready ?s' = Some (r, s') \<and> wait_result ready r s'"
      using False sum step less.prems(2) by (intro less.hyps [of now ?s']) simp_all
    then show ?thesis using False unfold by simp
  qed
qed

lemma ticks_small: "ticks_for_us freq us < 2 ^ 62"
proof -
  let ?n = "sint (of_int us * freq :: u64)"
  have "\<bar>?n\<bar> \<le> 2 ^ 63" using sint_ge [of "of_int us * freq :: u64"] sint_lt [of "of_int us * freq :: u64"] by (simp add: abs_le_iff)
  then have "\<bar>?n\<bar> div 1000000 < 2 ^ 62" by simp
  moreover have "sgn ?n * (\<bar>?n\<bar> div 1000000) \<le> \<bar>?n\<bar> div 1000000" by (cases "?n" "0 :: int" rule: linorder_cases) simp_all
  ultimately show "ticks_for_us freq us < 2 ^ 62" by (simp add: ticks_for_us_def Let_def)
qed

lemma wait_reset_total:
  assumes "clock_runs d"
  shows "\<exists>r s'. wait_reset d freq ready s = Some (r, s') \<and> wait_result ready r s'"
proof (cases "0 \<le> ticks_for_us freq 100000")
  case True
  let ?v = "counter d (core_trace s)"
  have "\<exists>r s'. await_reset d (ticks_for_us freq 100000) ?v ready (s\<lparr>core_trace := Ticked ?v # core_trace s\<rparr>) = Some (r, s') \<and>
      wait_result ready r s'"
    using assms True ticks_small by (intro await_reset_total [where v = ?v]) (simp_all add: time_diff_def)
  then show ?thesis by (simp add: wait_reset_def GetPerformanceCounter_def Let_def)
next
  case False
  let ?v = "counter d (core_trace s)"
  let ?now = "counter d (Ticked ?v # core_trace s)"
  have "1 \<le> time_diff ?now ?v" using assms unfolding clock_runs_def by simp
  then show ?thesis
    using False unfolding wait_reset_def
    by (subst await_reset.simps) (simp add: GetPerformanceCounter_def wait_result_def Let_def)
qed

text \<open>
  C20: While the counter runs, the reset of the core and both FIFO flushes return. They report success only when the
  register was seen, last of all, with the core idle and the reset or flush bit gone; otherwise they report a time-out,
  and the last thing they looked at was the clock.
\<close>

theorem resets_return:
  assumes "clock_runs d"
  shows "(\<exists>r s'. HCDReset d freq s = Some (r, s') \<and> wait_result (\<lambda>v. \<not> CoreSoft v \<and> AhbMasterIdle v) r s') \<and>
    (\<exists>r s'. HCDTransmitFifoFlush d freq fifo s = Some (r, s') \<and> wait_result (\<lambda>v. \<not> bit v 5) r s') \<and>
    (\<exists>r s'. HCDReceiveFifoFlush d freq s = Some (r, s') \<and> wait_result (\<lambda>v. \<not> bit v 4) r s')"
proof -
  note wait = wait_reset_total [OF assms]
  obtain r1 s1 where first: "wait_reset d freq AhbMasterIdle s = Some (r1, s1)" "wait_result AhbMasterIdle r1 s1" using wait by blast
  have "\<exists>r s'. HCDReset d freq s = Some (r, s') \<and> wait_result (\<lambda>v. \<not> CoreSoft v \<and> AhbMasterIdle v) r s'"
  proof (cases "r1 = DwcOk")
    case True
    then show ?thesis using first(1) wait by (simp add: HCDReset_def)
  next
    case False
    then show ?thesis using first by (auto simp: HCDReset_def wait_result_def)
  qed
  then show ?thesis using wait by (simp add: HCDTransmitFifoFlush_def HCDReceiveFifoFlush_def)
qed

text \<open>
  A device whose counter advances by one with everything that happens, and which is always idle; a mailbox that answers
  at once.
\<close>

definition idle_device :: channel_device where
  "idle_device = \<lparr>reads = (\<lambda>t r. if r = CORE_RESET then 0x80000000 else 0),
     counter = (\<lambda>t. case last_tick t of None \<Rightarrow> 0 | Some v \<Rightarrow> v + 1), interrupts = (\<lambda>t. True), dma = (\<lambda>t i. 0)\<rparr>"

definition cold_core :: "mbox_hw \<Rightarrow> usb_core" where
  "cold_core hw = \<lparr>core_trace = [], PhyInitialized = False, Host = None, usb_enabled = False, usb_mbox = hw\<rparr>"

definition good_mailbox :: mbox_hw where
  "good_mailbox = \<lparr>RSTATUS = (\<lambda>n. if n = 0 then 0x40000000 else 0), READ = (\<lambda>n. 0x1008), WSTATUS = (\<lambda>n. 0),
     rs_reads = 0, rd_reads = 0, ws_reads = 0, written = []\<rparr>"

theorem resets_return_witness:
  "\<exists>r s'. HCDReset idle_device 19200000 (cold_core good_mailbox) = Some (r, s') \<and> (r = DwcOk \<or> r = DwcErrorTimeout)"
proof -
  have "clock_runs idle_device" by (simp add: clock_runs_def idle_device_def time_diff_def)
  then show ?thesis using resets_return [of idle_device 19200000 "cold_core good_mailbox" 16] by (auto simp: wait_result_def)
qed

section \<open>A start that fails is silent\<close>

text \<open>No interrupt of the core was unmasked so far.\<close>

definition masked :: "usb_core \<Rightarrow> bool" where
  "masked s \<longleftrightarrow> (\<forall>v. (CORE_INTERRUPTMASK, v) \<in> set (register_writes (core_trace s)) \<longrightarrow> v = 0)"

definition silent :: "usb_core \<Rightarrow> usb_core \<Rightarrow> bool" where
  "silent s s' \<longleftrightarrow> Host s' = Host s \<and> usb_enabled s' = usb_enabled s \<and> (masked s \<longrightarrow> masked s')"

lemma silent_refl: "silent s s"
  by (simp add: silent_def)

lemma silent_trans: "silent a b \<Longrightarrow> silent b c \<Longrightarrow> silent a c"
  by (simp add: silent_def)

lemma masked_simps [simp]:
  "masked (s\<lparr>core_trace := pause us (core_trace s)\<rparr>) = masked s"
  "masked (s\<lparr>core_trace := Ticked n # core_trace s\<rparr>) = masked s"
  "masked (s\<lparr>core_trace := RegRead r v # core_trace s\<rparr>) = masked s"
  "r \<noteq> CORE_INTERRUPTMASK \<Longrightarrow> masked (s\<lparr>core_trace := reg_set r v (core_trace s)\<rparr>) = masked s"
  by (simp_all add: masked_def pause_def reg_set_def)

text \<open>Steps that no comparison can tell from doing nothing.\<close>

lemma silent_steps [simp]:
  "silent a (snd (core_get d r s)) = silent a s"
  "silent a (core_pause us s) = silent a s"
  "r \<noteq> CORE_INTERRUPTMASK \<Longrightarrow> silent a (core_set r v s) = silent a s"
  "r \<noteq> CORE_INTERRUPTMASK \<Longrightarrow> silent a (core_modify d r f s) = silent a s"
  "silent a (s\<lparr>usb_mbox := hw\<rparr>) = silent a s"
  "silent a (s\<lparr>PhyInitialized := b\<rparr>) = silent a s"
  "silent a (s\<lparr>core_trace := Ticked n # core_trace s\<rparr>) = silent a s"
  by (auto simp: silent_def core_get_def core_pause_def core_set_def core_modify_def reg_modify_def reg_get_def Let_def masked_def
      reg_set_def pause_def)

lemma silent_mask: "silent a s \<Longrightarrow> silent a (core_set CORE_INTERRUPTMASK 0 s)"
  by (auto simp: silent_def core_set_def masked_def reg_set_def)

lemma silent_wait:
  assumes "wait_reset d freq ready s = Some (r, s')"
  shows "silent s s'"
proof -
  define P where "P = (\<lambda>(d :: channel_device) (ticks :: int) (start :: u64) (ready :: u32 \<Rightarrow> bool) s (r :: DWCRESULT \<times> usb_core). silent s (snd r))"
  have "P d ticks start ready s r" if "await_reset d ticks start ready s = Some r" for d ticks start ready s r
  proof (rule await_reset.raw_induct [of P, rotated, OF that])
    fix loop :: "channel_device \<Rightarrow> int \<Rightarrow> u64 \<Rightarrow> (u32 \<Rightarrow> bool) \<Rightarrow> usb_core \<Rightarrow> (DWCRESULT \<times> usb_core) option"
      and d ticks start ready s r
    assume IH: "\<And>d ticks start ready s r. loop d ticks start ready s = Some r \<Longrightarrow> P d ticks start ready s r"
      and body: "(let (now, t) = GetPerformanceCounter (device.truncate d) (core_trace s); s = s\<lparr>core_trace := t\<rparr> in
        if ticks < time_diff now start then Some (DwcErrorTimeout, s)
        else
          let (r, s) = core_get d CORE_RESET s in
          if ready r then Some (DwcOk, s) else loop d ticks start ready s) = Some r"
    let ?s1 = "s\<lparr>core_trace := Ticked (counter d (core_trace s)) # core_trace s\<rparr>"
    let ?s2 = "snd (core_get d CORE_RESET ?s1)"
    have silent: "silent s ?s1" "silent s ?s2" using silent_refl by simp_all
    from body consider "snd r = ?s1" | "snd r = ?s2" | "loop d ticks start ready ?s2 = Some r"
      by (auto simp: GetPerformanceCounter_def Let_def case_prod_beta split: if_splits)
    then show "P d ticks start ready s r"
      unfolding P_def using silent IH [unfolded P_def] silent_trans by cases metis+
  qed
  then have "silent (s\<lparr>core_trace := Ticked (counter d (core_trace s)) # core_trace s\<rparr>) s'"
    using assms by (fastforce simp: wait_reset_def GetPerformanceCounter_def P_def Let_def)
  moreover have "silent s (s\<lparr>core_trace := Ticked (counter d (core_trace s)) # core_trace s\<rparr>)" by (simp add: silent_refl)
  ultimately show ?thesis by (rule silent_trans [rotated])
qed

lemma silent_after: "silent s b \<Longrightarrow> silent b s' \<Longrightarrow> silent a s \<Longrightarrow> silent a s'"
  using silent_trans by blast

lemma silent_wait_to: "wait_reset d freq ready b = Some (r, s') \<Longrightarrow> silent a b \<Longrightarrow> silent a s'"
  using silent_wait silent_trans by blast

lemma silent_reset:
  assumes "HCDReset d freq s = Some (r, s')" and "silent a s"
  shows "silent a s'"
proof -
  obtain r1 s1 where w: "wait_reset d freq AhbMasterIdle s = Some (r1, s1)"
    and rest: "(if r1 \<noteq> DwcOk then Some (DwcErrorTimeout, s1)
      else wait_reset d freq (\<lambda>v. \<not> CoreSoft v \<and> AhbMasterIdle v) (core_modify d CORE_RESET (set_flag 0 True) s1)) = Some (r, s')"
    using assms(1) by (auto simp: HCDReset_def bind_eq_Some_conv)
  have s1: "silent a s1" by (rule silent_wait_to [OF w assms(2)])
  then have "silent a (core_modify d CORE_RESET (set_flag 0 True) s1)" by simp
  then show ?thesis using rest s1 silent_wait_to by (auto split: if_splits)
qed

lemma silent_flush:
  "HCDTransmitFifoFlush d freq fifo s = Some (r, s') \<Longrightarrow> silent a s \<Longrightarrow> silent a s'"
  "HCDReceiveFifoFlush d freq s = Some (r, s') \<Longrightarrow> silent a s \<Longrightarrow> silent a s'"
  unfolding HCDTransmitFifoFlush_def HCDReceiveFifoFlush_def by (auto elim!: silent_wait_to)

lemma silent_parts [simp]:
  "silent a (snd (core_compatible d s)) = silent a s"
  "silent a (core_vbus d s) = silent a s"
  "silent a (snd (ulpi_dedicated d s)) = silent a s"
  "silent a (core_ulpi d s) = silent a s"
  "silent a (core_dma d s) = silent a s"
  "silent a (snd (core_mode d s)) = silent a s"
  "silent a (core_fifos d s) = silent a s"
  by (simp_all add: core_compatible_def core_vbus_def ulpi_dedicated_def core_ulpi_def core_dma_def core_mode_def core_fifos_def
      Let_def case_prod_beta)

lemma silent_mask_interrupts: "silent a s \<Longrightarrow> silent a (core_mask_interrupts d s)"
  by (simp add: core_mask_interrupts_def silent_mask)

lemma silent_phy: "core_phy d freq s = Some (r, s') \<Longrightarrow> silent a s \<Longrightarrow> silent a s'"
  by (auto simp: core_phy_def split: if_splits elim!: silent_reset)

text \<open>The end of a start: the handler first, then the interrupts of the channels only, with nothing pending.\<close>

definition running :: "usb_core \<Rightarrow> bool" where
  "running s \<longleftrightarrow> usb_enabled s \<and> (\<exists>t. core_trace s = RegWrite CORE_INTERRUPTMASK 0x02000000 # RegWrite CORE_INTERRUPT 0xFFFFFFFF # t)"

lemma finish_runs:
  "Host (snd (core_finish d buffer c s)) = Some (fst (core_finish d buffer c s)) \<and> running (snd (core_finish d buffer c s))"
  by (auto simp: core_finish_def Let_def case_prod_beta core_set_def core_modify_def running_def set_flag_def put_field_def
      flag_def reg_set_def)

lemma core_start_outcome:
  assumes "core_start d freq buffer s = Some (r, s')"
  shows "case r of Inl e \<Rightarrow> e \<noteq> DwcOk \<and> silent s s' | Inr host \<Rightarrow> Host s' = Some host \<and> running s'"
proof -
  obtain r1 s1 where 1: "HCDReset d freq (core_vbus d s) = Some (r1, s1)"
    using assms by (auto simp: core_start_def bind_eq_Some_conv)
  have s1: "silent s s1" using silent_reset [OF 1] silent_refl by simp
  show ?thesis
  proof (cases "r1 = DwcOk")
    case False
    then show ?thesis using assms 1 s1 by (auto simp: core_start_def)
  next
    case ok1: True
    obtain r2 s2 where 2: "core_phy d freq (core_pause 1000 s1) = Some (r2, s2)"
      using assms 1 ok1 by (auto simp: core_start_def bind_eq_Some_conv)
    have s2: "silent s s2" using silent_phy [OF 2] s1 by simp
    show ?thesis
    proof (cases "r2 = DwcOk")
      case False
      then show ?thesis using assms 1 2 ok1 s2 by (auto simp: core_start_def)
    next
      case ok2: True
      define s3 where "s3 = core_dma d (core_ulpi d (core_pause 1000 s2))"
      define m where "m = core_mode d s3"
      obtain r4 s4 where 4: "HCDTransmitFifoFlush d freq 16 (core_fifos d (snd m)) = Some (r4, s4)"
        using assms 1 2 ok1 ok2 by (auto simp: core_start_def bind_eq_Some_conv Let_def case_prod_beta s3_def m_def)
      have s4: "silent s s4" using silent_flush(1) [OF 4] s2 by (simp add: m_def s3_def)
      show ?thesis
      proof (cases "r4 = DwcOk")
        case False
        then show ?thesis using assms 1 2 4 ok1 ok2 s4 by (auto simp: core_start_def Let_def case_prod_beta s3_def m_def)
      next
        case ok4: True
        obtain r5 s5 where 5: "HCDReceiveFifoFlush d freq (core_pause 1000 s4) = Some (r5, s5)"
          using assms 1 2 4 ok1 ok2 ok4
          by (auto simp: core_start_def bind_eq_Some_conv Let_def case_prod_beta s3_def m_def)
        have s5: "silent s s5" using silent_flush(2) [OF 5] s4 by simp
        show ?thesis
          using assms 1 2 4 5 ok1 ok2 ok4 s5 finish_runs [of d buffer "fst m" "core_pause 1000 s5"]
          by (cases "r5 = DwcOk") (auto simp: core_start_def Let_def case_prod_beta s3_def m_def)
      qed
    qed
  qed
qed

text \<open>
  C18: When the start of the USB controller returns an error, then no handler was installed, there is no host, and every value
  that was written to the interrupt mask of the core is 0; in particular nothing at all was written when the
  hardware is not the expected one. When it returns a host, the handler is installed, and the last two writes
  are those that clear what is pending and unmask the channel interrupts, and only those.
\<close>

theorem failed_start_is_silent:
  assumes "HCDInitialize d freq firmware GpuMemBase addr buffer (cold_core hw) = Some (Inr (r, s'))"
  shows "case r of
      Inl e \<Rightarrow> e \<noteq> DwcOk \<and> Host s' = None \<and> \<not> usb_enabled s' \<and> masked s' \<and>
        (\<not> fst (core_compatible d (cold_core hw)) \<longrightarrow> e = DwcErrorIncompatible \<and> register_writes (core_trace s') = [])
    | Inr host \<Rightarrow> fst (core_compatible d (cold_core hw)) \<and> Host s' = Some host \<and> running s'"
proof -
  let ?s0 = "cold_core hw"
  let ?s1 = "snd (core_compatible d ?s0)"
  let ?s2 = "core_mask_interrupts d ?s1"
  have s1: "silent ?s0 ?s1" using silent_refl by simp
  then have s2: "silent ?s0 ?s2" by (rule silent_mask_interrupts)
  have quiet: "silent ?s0 s \<Longrightarrow> Host s = None \<and> \<not> usb_enabled s \<and> masked s" for s
    by (simp add: silent_def cold_core_def masked_def)
  show ?thesis
  proof (cases "fst (core_compatible d ?s0)")
    case False
    have "register_writes (core_trace ?s1) = []"
      by (simp add: core_compatible_def core_get_def cold_core_def reg_get_def Let_def case_prod_beta)
    then show ?thesis using assms False quiet [OF s1] by (auto simp: HCDInitialize_def Let_def case_prod_beta)
  next
    case True
    then obtain y where y: "PowerOnUsb firmware GpuMemBase addr (usb_mbox ?s2) = Some y"
      using assms by (auto simp: HCDInitialize_def Let_def case_prod_beta bind_eq_Some_conv)
    then obtain ok hw' where power: "PowerOnUsb firmware GpuMemBase addr (usb_mbox ?s2) = Some (Inr (ok, hw'))"
      using assms True by (cases y) (auto simp: HCDInitialize_def Let_def case_prod_beta)
    let ?s3 = "?s2\<lparr>usb_mbox := hw'\<rparr>"
    have s3: "silent ?s0 ?s3" using s2 by simp
    show ?thesis
    proof (cases ok)
      case False
      then show ?thesis using assms True power quiet [OF s3] by (auto simp: HCDInitialize_def Let_def case_prod_beta)
    next
      case ok: True
      then have start: "core_start d freq buffer ?s3 = Some (r, s')"
        using assms True power by (auto simp: HCDInitialize_def Let_def case_prod_beta bind_eq_Some_conv)
      show ?thesis
        using core_start_outcome [OF start] True quiet [OF silent_trans [OF s3]] by (auto split: sum.splits)
    qed
  qed
qed

text \<open>A controller of the expected kind that is always idle, and a firmware that switches the power on.\<close>

definition good_device :: channel_device where
  "good_device = \<lparr>reads = (\<lambda>t r. if r = CORE_RESET then 0x80000000 else if r = CORE_VENDORID then 0x4F54280A
       else if r = CORE_HARDWARE1 then 0x50 else 0),
     counter = (\<lambda>t. 0), interrupts = (\<lambda>t. True), dma = (\<lambda>t i. 0)\<rparr>"

definition good_firmware :: "u32 list \<Rightarrow> u32 list" where
  "good_firmware l = l[1 := 0x80000000, 4 := 0x80000008]"

lemma good_power: "\<exists>hw. PowerOnUsb good_firmware 0 0x1000 good_mailbox = Some (Inr (True, hw))"
  by (simp add: PowerOnUsb_def send_power_def SendTags_span_def Send_pointer_def Send_def good_mailbox_def good_firmware_def
      power_message_def drain.simps wait_not_full.simps wait_answer.simps receive.simps MAILBOX_EMPTY_def MAILBOX_FULL_def)

lemma good_wait:
  assumes "ready 0x80000000"
  shows "\<exists>s'. wait_reset good_device 19200000 ready s = Some (DwcOk, s')"
  using assms unfolding wait_reset_def
  by (subst await_reset.simps) (simp add: GetPerformanceCounter_def core_get_def reg_get_def Let_def good_device_def time_diff_def ticks_for_us_def)

lemma good_parts:
  "\<exists>s'. HCDReset good_device 19200000 s = Some (DwcOk, s')"
  "\<exists>s'. HCDTransmitFifoFlush good_device 19200000 fifo s = Some (DwcOk, s')"
  "\<exists>s'. HCDReceiveFifoFlush good_device 19200000 s = Some (DwcOk, s')"
proof -
  obtain s1 where "wait_reset good_device 19200000 AhbMasterIdle s = Some (DwcOk, s1)"
    using good_wait [of AhbMasterIdle] by (auto simp: AhbMasterIdle_def)
  then show "\<exists>s'. HCDReset good_device 19200000 s = Some (DwcOk, s')"
    using good_wait by (simp add: HCDReset_def CoreSoft_def AhbMasterIdle_def)
qed (simp_all add: HCDTransmitFifoFlush_def HCDReceiveFifoFlush_def good_wait)

lemma good_start: "\<exists>host s'. core_start good_device 19200000 buffer s = Some (Inr host, s')"
proof -
  obtain s1 where 1: "HCDReset good_device 19200000 (core_vbus good_device s) = Some (DwcOk, s1)" using good_parts(1) by blast
  have "\<exists>s2. core_phy good_device 19200000 (core_pause 1000 s1) = Some (DwcOk, s2)" using good_parts(1) by (simp add: core_phy_def)
  then obtain s2 where 2: "core_phy good_device 19200000 (core_pause 1000 s1) = Some (DwcOk, s2)" by blast
  let ?m = "core_mode good_device (core_dma good_device (core_ulpi good_device (core_pause 1000 s2)))"
  obtain s4 where 4: "HCDTransmitFifoFlush good_device 19200000 16 (core_fifos good_device (snd ?m)) = Some (DwcOk, s4)"
    using good_parts(2) by blast
  obtain s5 where 5: "HCDReceiveFifoFlush good_device 19200000 (core_pause 1000 s4) = Some (DwcOk, s5)" using good_parts(3) by blast
  show ?thesis using 1 2 4 5 by (simp add: core_start_def Let_def case_prod_beta)
qed

theorem failed_start_is_silent_witness:
  "\<exists>host s'. HCDInitialize good_device 19200000 good_firmware 0 0x1000 0x20000 (cold_core good_mailbox) = Some (Inr (Inr host, s')) \<and>
     usb_enabled s'"
proof -
  have ok: "fst (core_compatible good_device (cold_core good_mailbox))"
    by (simp add: core_compatible_def core_get_def reg_get_def good_device_def vendor_ok_def Architecture_def HighSpeedPhysical_def
        get_field_def Let_def)
  let ?s2 = "core_mask_interrupts good_device (snd (core_compatible good_device (cold_core good_mailbox)))"
  have m: "usb_mbox (core_mask_interrupts good_device (snd (core_compatible good_device (cold_core good_mailbox)))) = good_mailbox"
    by (simp add: core_compatible_def core_get_def core_mask_interrupts_def core_set_def core_modify_def cold_core_def Let_def case_prod_beta)
  obtain hw where "PowerOnUsb good_firmware 0 0x1000 (usb_mbox ?s2) = Some (Inr (True, hw))" unfolding m using good_power by blast
  moreover obtain host s' where "core_start good_device 19200000 0x20000 (?s2\<lparr>usb_mbox := hw\<rparr>) = Some (Inr host, s')"
    using good_start by blast
  ultimately have run: "HCDInitialize good_device 19200000 good_firmware 0 0x1000 0x20000 (cold_core good_mailbox) =
      Some (Inr (Inr host, s'))"
    using ok by (simp add: HCDInitialize_def Let_def case_prod_beta)
  then show ?thesis using failed_start_is_silent [OF run] by (auto simp: running_def)
qed

end
