(* ===== verification/Pcie.thy ===== *)
theory Pcie
  imports Gpio
begin

text \<open>
  The PCIe bridge of the Raspberry Pi 4, \<^verbatim>\<open>src/PCIe.cpp\<close>: the bring-up of the bridge, access to the configuration
  space, base address registers, capabilities, and the list of devices. What a read returns is an argument that
  depends on everything that happened before; a width is in bytes. Locks, barriers and what is printed are left out.
\<close>

unbundle bit_operations_syntax

section \<open>The bus\<close>

datatype pci_event = PciRead nat u64 u32 | PciWrite nat u64 u32 | PciPause nat

type_synonym pci_bus = "pci_event list \<Rightarrow> nat \<Rightarrow> u64 \<Rightarrow> u32"

record device_info =
  Address :: u32
  VendorId :: u16
  DeviceId :: u16
  info_ClassCode :: u32

text \<open>\<open>lastAddress\<close> is the static variable of the constructor of \<open>Configuration\<close>.\<close>

record pci =
  pci_trace :: "pci_event list"
  g_initialized :: bool
  pci_initialized :: bool
  pci_devices :: "device_info list"
  lastAddress :: u32
  NextUnusedMapOffsetAddress :: u64

definition pci_get :: "pci_bus \<Rightarrow> nat \<Rightarrow> u64 \<Rightarrow> pci \<Rightarrow> u32 \<times> pci" where
  "pci_get d w a s = (let v = take_bit (8 * w) (d (pci_trace s) w a) in (v, s\<lparr>pci_trace := PciRead w a v # pci_trace s\<rparr>))"

definition pci_put :: "nat \<Rightarrow> u64 \<Rightarrow> u32 \<Rightarrow> pci \<Rightarrow> pci" where
  "pci_put w a v s = s\<lparr>pci_trace := PciWrite w a (take_bit (8 * w) v) # pci_trace s\<rparr>"

definition pci_pause :: "nat \<Rightarrow> pci \<Rightarrow> pci" where
  "pci_pause us s = s\<lparr>pci_trace := PciPause us # pci_trace s\<rparr>"

abbreviation (input) Rpi4_PCIE_REGS_BASE :: u64 where "Rpi4_PCIE_REGS_BASE \<equiv> 0x47D500000"
abbreviation (input) Rpi4_PCIE_REGS_SIZE :: u64 where "Rpi4_PCIE_REGS_SIZE \<equiv> 0x9310"
abbreviation (input) CONFIG_BASE :: u64 where "CONFIG_BASE \<equiv> 0x600000000"
abbreviation (input) CONFIG_SIZE :: u64 where "CONFIG_SIZE \<equiv> 0x4000000"
abbreviation (input) RPI_PCIE_DEVICE_OFFSET :: u64 where "RPI_PCIE_DEVICE_OFFSET \<equiv> 0x8000"

text \<open>A register of the bridge, by its offset.\<close>

definition bridge :: "u64 \<Rightarrow> u64" where
  "bridge offset = Rpi4_PCIE_REGS_BASE + offset"

definition reachable_address :: "u64 \<Rightarrow> bool" where
  "reachable_address a \<longleftrightarrow>
     CONFIG_BASE \<le> a \<and> a < CONFIG_BASE + CONFIG_SIZE \<or>
     Rpi4_PCIE_REGS_BASE \<le> a \<and> a < Rpi4_PCIE_REGS_BASE + Rpi4_PCIE_REGS_SIZE"

definition read_hardware_register :: "pci_bus \<Rightarrow> nat \<Rightarrow> u64 \<Rightarrow> pci \<Rightarrow> u32 \<times> pci" where
  "read_hardware_register d w a s = (if reachable_address a then pci_get d w a s else (take_bit (8 * w) 0xFFFFFFFF, s))"

definition write_hardware_register :: "nat \<Rightarrow> u64 \<Rightarrow> u32 \<Rightarrow> pci \<Rightarrow> pci" where
  "write_hardware_register w a v s = (if reachable_address a then pci_put w a v s else s)"

section \<open>Bring-up\<close>

definition reset_bridge :: "pci_bus \<Rightarrow> pci \<Rightarrow> pci" where
  "reset_bridge d s =
     (let (init, s) = pci_get d 4 (bridge 0x9210) s;
          s = pci_put 4 (bridge 0x9210) (init OR 3) s; (_, s) = pci_get d 4 (bridge 0x9210) s;
          s = pci_pause 1000 s;
          (init, s) = pci_get d 4 (bridge 0x9210) s;
          s = pci_put 4 (bridge 0x9210) (init AND NOT 2) s; (_, s) = pci_get d 4 (bridge 0x9210) s;
          (_, s) = pci_get d 4 (bridge 0x406C) s;
          s = pci_put 4 (bridge 0x4314) 0xFFFFFFFF s;
          s = pci_put 4 (bridge 0x4310) 0xFFFFFFFF s;
          (init, s) = pci_get d 4 (bridge 0x9210) s in
      pci_put 4 (bridge 0x9210) (init AND NOT 1) s)"

definition link_up :: "u32 \<Rightarrow> bool" where
  "link_up status \<longleftrightarrow> status AND 0x30 = 0x30"

fun await_link :: "pci_bus \<Rightarrow> nat \<Rightarrow> u32 \<Rightarrow> pci \<Rightarrow> u32 \<times> pci" where
  "await_link d 0 status s = (status, s)"
| "await_link d (Suc n) status s =
     (if link_up status then (status, s)
      else let (status, s) = pci_get d 4 (bridge 0x4068) (pci_pause 1000 s) in await_link d n status s)"

definition set_class :: "pci_bus \<Rightarrow> pci \<Rightarrow> pci" where
  "set_class d s =
     (let (ccode, s) = pci_get d 4 (bridge 0x043C) s in
      if ccode AND 0xFFFFFF \<noteq> 0x060400 then pci_put 4 (bridge 0x043C) ((ccode AND NOT 0xFFFFFF) OR 0x060400) s else s)"

text \<open>The window of the processor onto the bus, as the code computes the three registers.\<close>

definition window_lo :: "u64 \<Rightarrow> u64 \<Rightarrow> u32" where
  "window_lo start fin = ucast ((drop_bit 16 start AND 0xFFF0) OR push_bit 20 (drop_bit 20 fin - 1))"

definition set_window :: "pci \<Rightarrow> pci" where
  "set_window s =
     (let cpu_addr_start = 0x600000000; cpu_addr_end = cpu_addr_start + 0x100000000;
          s = pci_put 4 (bridge 0x4010) 0 (pci_put 4 (bridge 0x400C) 0xF8000000 s);
          s = pci_put 4 (bridge 0x4070) (window_lo cpu_addr_start cpu_addr_end) s;
          s = pci_put 4 (bridge 0x4080) (ucast (drop_bit 32 (cpu_addr_start :: u64))) s in
      pci_put 4 (bridge 0x4084) (ucast (drop_bit 32 (cpu_addr_end :: u64))) s)"

definition init_platform_stub :: "pci_bus \<Rightarrow> pci \<Rightarrow> bool \<times> pci" where
  "init_platform_stub d s =
     (let (status, s) = pci_get d 4 (bridge 0x4068) (reset_bridge d s); (status, s) = await_link d 100 status s in
      if \<not> link_up status then (False, s)
      else
        let (vid, s) = pci_get d 2 (bridge 0) (set_window (set_class d s)) in
        if vid \<noteq> 0x14E4 then (False, s)
        else (True, (pci_put 1 (bridge 0x19) 1 (pci_put 1 (bridge 0x18) 1 s))\<lparr>g_initialized := True\<rparr>))"

definition cleanup_platform_stub :: "pci \<Rightarrow> pci" where
  "cleanup_platform_stub s = s\<lparr>g_initialized := False\<rparr>"

text \<open>The arithmetic of the aligned allocation: its total size, and the aligned address for the raw one.\<close>

definition simple_alloc_total :: "u64 \<Rightarrow> u64 \<Rightarrow> u64" where
  "simple_alloc_total n alignment = ((n + alignment - 1) AND NOT (alignment - 1)) + alignment - 1 + 8"

definition simple_alloc_address :: "u64 \<Rightarrow> u64 \<Rightarrow> u64" where
  "simple_alloc_address alignment raw_ptr = (raw_ptr + 8 + alignment - 1) AND NOT (alignment - 1)"

section \<open>Configuration space\<close>

datatype PCIeError =
    PCIE_SUCCESS | DEVICE_NOT_FOUND | INVALID_ADDRESS | ACCESS_DENIED | PCIE_TIMEOUT | HARDWARE_ERROR | MEMORY_MAP_FAILED
  | INTERRUPT_SETUP_FAILED | INVALID_CONFIGURATION | DRIVER_NOT_INITIALIZED

abbreviation InvalidDeviceAddress :: u32 where "InvalidDeviceAddress \<equiv> 0xFFFFFFFF"

definition DeviceAddress :: "u32 \<Rightarrow> u32 \<Rightarrow> u32 \<Rightarrow> u32" where
  "DeviceAddress bus dev function =
     push_bit 20 (take_bit 8 bus) OR push_bit 15 (take_bit 5 dev) OR push_bit 12 (take_bit 3 function)"

text \<open>A configuration is the base address of its registers; selecting a device writes the index register when it changes.\<close>

definition Configuration :: "u32 \<Rightarrow> pci \<Rightarrow> u64 \<times> pci" where
  "Configuration addr s =
     (if addr = InvalidDeviceAddress then (0, s)
      else if addr = 0 then (bridge 0, s)
      else
        let s = (if lastAddress s \<noteq> addr then pci_put 4 (bridge 0x9000) addr (s\<lparr>lastAddress := addr\<rparr>) else s) in
        (bridge RPI_PCIE_DEVICE_OFFSET, s))"

definition read_register :: "pci_bus \<Rightarrow> nat \<Rightarrow> u64 \<Rightarrow> u32 \<Rightarrow> pci \<Rightarrow> u32 \<times> pci" where
  "read_register d w base offset s =
     (if 4096 < unat offset + w then (take_bit (8 * w) 0xFFFFFFFF, s)
      else
        let (v, s) = read_hardware_register d w (base + ucast offset) s in
        (if offset = 0 \<and> v = 0 then take_bit (8 * w) 0xFFFF else v, s))"

definition write_register :: "nat \<Rightarrow> u64 \<Rightarrow> u32 \<Rightarrow> u32 \<Rightarrow> pci \<Rightarrow> PCIeError \<times> pci" where
  "write_register w base offset v s =
     (if 4096 < unat offset + w then (INVALID_ADDRESS, s)
      else (PCIE_SUCCESS, if offset \<in> {0x00, 0x02, 0x08, 0x0E} then s else write_hardware_register w (base + ucast offset) v s))"

definition pci_vendor_id :: "pci_bus \<Rightarrow> u64 \<Rightarrow> pci \<Rightarrow> u16 \<times> pci" where
  "pci_vendor_id d base s = (let (v, s) = read_register d 2 base 0x00 s in (ucast v, s))"

definition pci_device_id :: "pci_bus \<Rightarrow> u64 \<Rightarrow> pci \<Rightarrow> u16 \<times> pci" where
  "pci_device_id d base s = (let (v, s) = read_register d 2 base 0x02 s in (ucast v, s))"

definition pci_class_code :: "pci_bus \<Rightarrow> u64 \<Rightarrow> pci \<Rightarrow> u32 \<times> pci" where
  "pci_class_code d base s = (let (v, s) = read_register d 4 base 0x08 s in (if v = 0 then 0 else drop_bit 8 v, s))"

definition pci_command :: "pci_bus \<Rightarrow> u64 \<Rightarrow> pci \<Rightarrow> u16 \<times> pci" where
  "pci_command d base s = (let (v, s) = read_register d 2 base 0x04 s in (ucast v, s))"

definition pci_status :: "pci_bus \<Rightarrow> u64 \<Rightarrow> pci \<Rightarrow> u16 \<times> pci" where
  "pci_status d base s = (let (v, s) = read_register d 2 base 0x06 s in (ucast v, s))"

definition set_command :: "u64 \<Rightarrow> u16 \<Rightarrow> pci \<Rightarrow> PCIeError \<times> pci" where
  "set_command base command s = write_register 2 base 0x04 (ucast command) s"

definition enable_device :: "pci_bus \<Rightarrow> u64 \<Rightarrow> pci \<Rightarrow> PCIeError \<times> pci" where
  "enable_device d base s = (let (c, s) = pci_command d base s in set_command base (c OR 7) s)"

definition disable_device :: "pci_bus \<Rightarrow> u64 \<Rightarrow> pci \<Rightarrow> PCIeError \<times> pci" where
  "disable_device d base s = (let (c, s) = pci_command d base s in set_command base (c AND NOT 7) s)"

section \<open>Base address registers\<close>

record BarInfo =
  bar_number :: u8
  bar_physical :: u64
  bar_size :: u64
  bar_flags :: u8
  is_memory_space :: bool
  is_64bit :: bool
  is_prefetchable :: bool

definition no_bar :: BarInfo where
  "no_bar = \<lparr>bar_number = 0, bar_physical = 0, bar_size = 0, bar_flags = 0, is_memory_space = False, is_64bit = False,
     is_prefetchable = False\<rparr>"

text \<open>A register of a BAR is read, set to all ones, read again and restored: its value and its mask.\<close>

definition probe_bar :: "pci_bus \<Rightarrow> u64 \<Rightarrow> u32 \<Rightarrow> u32 \<Rightarrow> pci \<Rightarrow> u32 \<times> pci" where
  "probe_bar d base offset original s =
     (let (_, s) = write_register 4 base offset 0xFFFFFFFF s; (msk, s) = read_register d 4 base offset s;
          (_, s) = write_register 4 base offset original s in
      (msk, s))"

definition memory_bar :: "pci_bus \<Rightarrow> u64 \<Rightarrow> u8 \<Rightarrow> u32 \<Rightarrow> u32 \<Rightarrow> u32 \<Rightarrow> pci \<Rightarrow> BarInfo \<times> pci" where
  "memory_bar d base bar offset low msk s =
     (let info = no_bar\<lparr>bar_number := bar, bar_physical := ucast (low AND 0xFFFFFFF0),
            bar_size := ucast (NOT (msk AND NOT 0xF) + 1 :: u32), bar_flags := ucast (low AND 0xF), is_memory_space := True,
            is_64bit := drop_bit 1 low AND 3 = 2, is_prefetchable := low AND 8 \<noteq> 0\<rparr> in
      if is_64bit info then
        let (high, s) = read_register d 4 base (offset + 4) s; (high_mask, s) = probe_bar d base (offset + 4) high s in
        (info\<lparr>bar_physical := bar_physical info OR push_bit 32 (ucast high),
           bar_size := NOT (push_bit 32 (ucast high_mask) + ucast (msk AND NOT 0xF)) + 1\<rparr>, s)
      else (info, s))"

definition io_bar :: "u8 \<Rightarrow> u32 \<Rightarrow> u32 \<Rightarrow> BarInfo" where
  "io_bar bar low msk = no_bar\<lparr>bar_number := bar, bar_physical := ucast (low AND 0xFFFFFFFC),
     bar_size := ucast (NOT (msk AND NOT 3) + 1 :: u32), bar_flags := ucast (low AND 0xF)\<rparr>"

definition get_bar :: "pci_bus \<Rightarrow> u64 \<Rightarrow> u8 \<Rightarrow> pci \<Rightarrow> BarInfo \<times> pci" where
  "get_bar d base bar s =
     (if 6 \<le> bar then (no_bar, s)
      else
        let offset = 0x10 + ucast bar * 4; (low, s) = read_register d 4 base offset s in
        if low = 0 \<or> low = 0xFFFFFFFF then (no_bar, s)
        else
          let (msk, s) = probe_bar d base offset low s in
          if low AND 1 = 0 then memory_bar d base bar offset low msk s else (io_bar bar low msk, s))"

text \<open>The BARs are stored into the caller's span; the result is their number and the span.\<close>

function enumerate_bars_from ::
  "pci_bus \<Rightarrow> u64 \<Rightarrow> nat \<Rightarrow> nat \<Rightarrow> BarInfo list \<Rightarrow> pci \<Rightarrow> nat \<times> BarInfo list \<times> pci" where
  "enumerate_bars_from d base bar_num count bars s =
     (if bar_num < 6 \<and> count < length bars then
        let (b, s) = get_bar d base (of_nat bar_num) s in
        enumerate_bars_from d base (if is_64bit b then bar_num + 2 else bar_num + 1)
          (if 0 < bar_size b then count + 1 else count) (bars[count := b]) s
      else (count, bars, s))"
  by pat_completeness auto
termination by (relation "measure (\<lambda>(d, base, bar_num, _). 6 - bar_num)") (auto split: if_splits)

declare enumerate_bars_from.simps [simp del]

definition enumerate_bars :: "pci_bus \<Rightarrow> u64 \<Rightarrow> BarInfo list \<Rightarrow> pci \<Rightarrow> nat \<times> BarInfo list \<times> pci" where
  "enumerate_bars d base bars s = enumerate_bars_from d base 0 0 bars s"

text \<open>The span that is mapped is its address and its length; nothing is mapped for an I/O or an empty BAR.\<close>

definition map_bar :: "u64 \<Rightarrow> BarInfo \<Rightarrow> pci \<Rightarrow> (u64 \<times> u64) \<times> BarInfo \<times> pci" where
  "map_bar base bar s =
     (if \<not> is_memory_space bar \<or> bar_size bar = 0 then ((0, 0), bar, s)
      else
        let offset = 0x10 + ucast (bar_number bar) * 4; pciAddress = 0xF8000000 + NextUnusedMapOffsetAddress s;
            (_, s) = write_register 4 base offset ((ucast pciAddress AND NOT 0xF) OR ucast (bar_flags bar)) s;
            s = (if is_64bit bar then snd (write_register 4 base (offset + 4) (ucast (drop_bit 32 pciAddress)) s) else s);
            bar = bar\<lparr>bar_physical := 0x600000000 + NextUnusedMapOffsetAddress s\<rparr>;
            s = s\<lparr>NextUnusedMapOffsetAddress := NextUnusedMapOffsetAddress s + bar_size bar\<rparr> in
        ((bar_physical bar, bar_size bar), bar, s))"

section \<open>Capabilities\<close>

record Capability =
  cap_id :: u8
  cap_next_offset :: u8

partial_function (option) capability_walk :: "pci_bus \<Rightarrow> u64 \<Rightarrow> u8 \<Rightarrow> pci \<Rightarrow> (Capability list \<times> pci) option" where
  "capability_walk d base pointer s =
     (if pointer = 0 then Some ([], s)
      else
        let (v, s) = read_register d 1 base (ucast pointer) s; (n, s) = read_register d 1 base (ucast pointer + 1) s in
        Option.bind (capability_walk d base (ucast n) s)
          (\<lambda>(caps, s). Some (\<lparr>cap_id = ucast v, cap_next_offset = ucast n\<rparr> # caps, s)))"

definition enumerate_capabilities :: "pci_bus \<Rightarrow> u64 \<Rightarrow> pci \<Rightarrow> ((PCIeError + Capability list) \<times> pci) option" where
  "enumerate_capabilities d base s =
     (let (st, s) = pci_status d base s in
      if st = 0xFFFF \<or> st AND 0x10 = 0 then Some (Inr [], s)
      else map_option (\<lambda>(caps, s). (Inr caps, s)) (capability_walk d base 0x34 s))"

definition find_capability :: "pci_bus \<Rightarrow> u64 \<Rightarrow> u8 \<Rightarrow> pci \<Rightarrow> ((PCIeError + Capability option) \<times> pci) option" where
  "find_capability d base wanted s =
     (case enumerate_capabilities d base s of
        None \<Rightarrow> None
      | Some (Inl e, s) \<Rightarrow> Some (Inl e, s)
      | Some (Inr caps, s) \<Rightarrow> Some (Inr (find (\<lambda>cap. cap_id cap = wanted) caps), s))"

section \<open>The list of devices\<close>

definition is_bridge_device :: "u32 \<Rightarrow> bool" where
  "is_bridge_device class_code \<longleftrightarrow> drop_bit 16 class_code = 6"

definition is_endpoint_device :: "u32 \<Rightarrow> bool" where
  "is_endpoint_device class_code \<longleftrightarrow> \<not> is_bridge_device class_code"

definition align_up :: "u64 \<Rightarrow> u64 \<Rightarrow> u64" where
  "align_up v alignment = (v + alignment - 1) AND NOT (alignment - 1)"

definition is_power_of_two :: "u64 \<Rightarrow> bool" where
  "is_power_of_two v \<longleftrightarrow> v \<noteq> 0 \<and> v AND (v - 1) = 0"

definition add_device :: "device_info \<Rightarrow> pci \<Rightarrow> pci" where
  "add_device info s = s\<lparr>pci_devices := pci_devices s @ [info]\<rparr>"

text \<open>The functions of one device. Without its function 0, or when that says there are no others, the scan of it ends.\<close>

fun scan_functions :: "pci_bus \<Rightarrow> u32 \<Rightarrow> u32 \<Rightarrow> u32 list \<Rightarrow> pci \<Rightarrow> pci" where
  "scan_functions d bus dev [] s = s"
| "scan_functions d bus dev (f # fs) s =
     (let addr = DeviceAddress bus dev f; (base, s) = Configuration addr s; (vendor, s) = pci_vendor_id d base s in
      if vendor = 0xFFFF \<or> vendor = 0 then (if f = 0 then s else scan_functions d bus dev fs s)
      else
        let (class_code, s) = pci_class_code d base s; (did, s) = pci_device_id d base s;
            s = add_device \<lparr>Address = addr, VendorId = vendor, DeviceId = did, info_ClassCode = class_code\<rparr> s in
        if f = 0 then
          let (header_type, s) = read_register d 1 base 0x0E s in
          if header_type AND 0x80 = 0 then s else scan_functions d bus dev fs s
        else scan_functions d bus dev fs s)"

definition device_count :: "u32 \<Rightarrow> nat" where
  "device_count bus = (if bus = 0 then 1 else 1)"

definition scan_bus :: "pci_bus \<Rightarrow> u32 \<Rightarrow> pci \<Rightarrow> pci" where
  "scan_bus d bus s = fold (\<lambda>dev. scan_functions d bus (of_nat dev) [0, 1, 2, 3, 4, 5, 6, 7]) [0..<device_count bus] s"

definition add_root :: "pci_bus \<Rightarrow> pci \<Rightarrow> pci" where
  "add_root d s =
     (let (base, s) = Configuration 0 s; (vendor, s) = pci_vendor_id d base s in
      if vendor \<noteq> 0xFFFF then
        let (did, s) = pci_device_id d base s; (class_code, s) = pci_class_code d base s in
        add_device \<lparr>Address = 0, VendorId = vendor, DeviceId = did, info_ClassCode = class_code\<rparr> s
      else s)"

definition initialize :: "pci_bus \<Rightarrow> pci \<Rightarrow> PCIeError \<times> pci" where
  "initialize d s =
     (if pci_initialized s then (PCIE_SUCCESS, s)
      else
        let (ok, s) = init_platform_stub d s in
        if \<not> ok then (HARDWARE_ERROR, s)
        else if \<not> g_initialized s then (HARDWARE_ERROR, cleanup_platform_stub s)
        else
          let (base, s) = Configuration 0 s; (vendor, s) = pci_vendor_id d base s in
          if vendor = 0xFFFF then (DEVICE_NOT_FOUND, cleanup_platform_stub s)
          else (PCIE_SUCCESS, (fold (scan_bus d) [1] (add_root d s))\<lparr>pci_initialized := True\<rparr>))"

definition is_initialized :: "pci \<Rightarrow> bool" where
  "is_initialized s = pci_initialized s"

definition find_devices :: "u16 \<Rightarrow> u16 option \<Rightarrow> pci \<Rightarrow> device_info list" where
  "find_devices vendor dev s =
     filter (\<lambda>info. VendorId info = vendor \<and> (case dev of None \<Rightarrow> True | Some did \<Rightarrow> DeviceId info = did)) (pci_devices s)"

definition find_devices_by_class :: "u32 \<Rightarrow> u32 \<Rightarrow> pci \<Rightarrow> device_info list" where
  "find_devices_by_class class_code msk s =
     filter (\<lambda>info. info_ClassCode info AND msk = class_code AND msk) (pci_devices s)"

definition class_code_to_string :: "u32 \<Rightarrow> string" where
  "class_code_to_string class_code =
     (let names = [''Unclassified'', ''Mass Storage Controller'', ''Network Controller'', ''Display Controller'',
        ''Multimedia Controller'', ''Memory Controller'', ''Bridge Device'', ''Communication Controller'',
        ''Generic System Peripheral'', ''Input Device Controller'', ''Docking Station'', ''Processor'',
        ''Serial Bus Controller'', ''Wireless Controller'', ''Intelligent Controller'', ''Satellite Controller'',
        ''Encryption Controller'', ''Signal Processing Controller'']; i = unat (drop_bit 16 class_code) in
      if i < length names then names ! i else ''Unknown'')"

end
