(* ===== verification/Pcie_Correctness.thy ===== *)
theory Pcie_Correctness
  imports Pcie
begin

text \<open>
  The PCIe bridge on its contract: what a base address register and a bridge do with what is written to them, and
  what the driver makes of it.
\<close>

unbundle bit_operations_syntax

section \<open>Access to the registers\<close>

text \<open>The two places where the registers of a function are: those of the bridge, and those of the selected device.\<close>

definition config_base :: "u64 \<Rightarrow> bool" where
  "config_base base \<longleftrightarrow> base = bridge 0 \<or> base = bridge RPI_PCIE_DEVICE_OFFSET"

lemma config_base [simp]: "config_base (bridge 0)" "config_base (bridge RPI_PCIE_DEVICE_OFFSET)"
  by (simp_all add: config_base_def)

lemma reachable_bridge:
  assumes "x < 0x9310"
  shows "reachable_address (bridge x)"
proof -
  have "unat (Rpi4_PCIE_REGS_BASE + x) = unat Rpi4_PCIE_REGS_BASE + unat x"
    using assms by (subst unat_plus_simple [THEN iffD1]) (simp_all add: word_le_nat_alt word_less_nat_alt unat_word_ariths)
  then show ?thesis using assms by (simp add: reachable_address_def bridge_def word_le_nat_alt word_less_nat_alt)
qed

lemma reachable_register:
  assumes "config_base base" and "unat (offset :: u32) < 4096"
  shows "reachable_address (base + ucast offset)"
proof -
  have small: "(ucast offset :: u64) < 4096" using assms(2) by (simp add: word_less_nat_alt unat_ucast_u64)
  have "reachable_address (bridge (c + ucast offset))" if "c = 0 \<or> c = 0x8000" for c
  proof (rule reachable_bridge)
    show "c + ucast offset < 0x9310" using small that by (elim disjE) (auto simp: word_less_nat_alt unat_word_ariths)
  qed
  moreover have "bridge c + ucast offset = bridge (c + ucast offset)" for c by (simp add: bridge_def)
  ultimately show ?thesis using assms(1) unfolding config_base_def by metis
qed

lemma read_register_config:
  assumes "config_base base" and "0 < w" and "unat offset + w \<le> 4096"
  shows "read_register d w base offset s =
    (let v = take_bit (8 * w) (d (pci_trace s) w (base + ucast offset)) in
     (if offset = 0 \<and> v = 0 then take_bit (8 * w) 0xFFFF else v, s\<lparr>pci_trace := PciRead w (base + ucast offset) v # pci_trace s\<rparr>))"
  using assms reachable_register [of base offset] by (simp add: read_register_def read_hardware_register_def pci_get_def Let_def)

lemma write_register_config:
  assumes "config_base base" and "0 < w" and "unat offset + w \<le> 4096" and "offset \<notin> {0x00, 0x02, 0x08, 0x0E}"
  shows "write_register w base offset v s =
    (PCIE_SUCCESS, s\<lparr>pci_trace := PciWrite w (base + ucast offset) (take_bit (8 * w) v) # pci_trace s\<rparr>)"
  using assms reachable_register [of base offset] by (simp add: write_register_def write_hardware_register_def pci_put_def)

section \<open>Base address registers\<close>

text \<open>
  The last word written to an address. A register of a BAR keeps the bits of the address it decodes and reads its type
  in the others.
\<close>

fun last_pci_write :: "u64 \<Rightarrow> pci_event list \<Rightarrow> u32 option" where
  "last_pci_write a [] = None"
| "last_pci_write a (PciWrite w a' v # t) = (if a' = a then Some v else last_pci_write a t)"
| "last_pci_write a (PciRead w a' v # t) = last_pci_write a t"
| "last_pci_write a (PciPause us # t) = last_pci_write a t"

definition register_keeps :: "pci_bus \<Rightarrow> u64 \<Rightarrow> u32 \<Rightarrow> u32 \<Rightarrow> bool" where
  "register_keeps d a decoded kind \<longleftrightarrow> (\<forall>t v. last_pci_write a t = Some v \<longrightarrow> d t 4 a = (v AND decoded) OR kind)"

definition steady :: "pci_bus \<Rightarrow> u64 \<Rightarrow> bool" where
  "steady d a \<longleftrightarrow> (\<forall>t t'. last_pci_write a t = last_pci_write a t' \<longrightarrow> d t 4 a = d t' 4 a)"

definition wide :: "u32 \<Rightarrow> bool" where
  "wide kind \<longleftrightarrow> drop_bit 1 kind AND 3 = 2"

text \<open>BAR \<open>bar\<close> decodes \<open>2 ^ k\<close> bytes from \<open>addr\<close>; a wide BAR has its upper half in the next register.\<close>

definition bar_offset :: "u8 \<Rightarrow> u32" where
  "bar_offset bar = 0x10 + ucast bar * 4"

definition decodes :: "pci_bus \<Rightarrow> u64 \<Rightarrow> u8 \<Rightarrow> nat \<Rightarrow> u32 \<Rightarrow> bool" where
  "decodes d base bar k kind \<longleftrightarrow>
     (let a = base + ucast (bar_offset bar); h = base + ucast (bar_offset bar + 4) in
      4 \<le> k \<and> kind < 16 \<and> \<not> bit kind 0 \<and>
      register_keeps d a (ucast (NOT (mask k) :: u64)) kind \<and>
      (if wide kind then k < 64 \<and> register_keeps d h (ucast (drop_bit 32 (NOT (mask k) :: u64))) 0 \<and> steady d h else k < 32))"

definition answers_at :: "pci_bus \<Rightarrow> u64 \<Rightarrow> u8 \<Rightarrow> nat \<Rightarrow> u32 \<Rightarrow> u64 \<Rightarrow> pci \<Rightarrow> bool" where
  "answers_at d base bar k kind addr s \<longleftrightarrow>
     addr AND mask k = 0 \<and> d (pci_trace s) 4 (base + ucast (bar_offset bar)) = ucast addr OR kind \<and>
     (if wide kind then d (pci_trace s) 4 (base + ucast (bar_offset bar + 4)) = ucast (drop_bit 32 addr) else addr < 2 ^ 32)"

lemma probe_mask:
  assumes "4 \<le> k" and "kind < (16 :: u32)"
  shows "((0xFFFFFFFF AND (ucast (NOT (mask k) :: u64))) OR kind) AND NOT 0xF = (ucast (NOT (mask k) :: u64) :: u32)"
proof -
  have "kind AND mask 4 = kind" using less_mask_eq [of kind 4] assms(2) by simp
  then have b: "bit kind i \<longleftrightarrow> i < 4 \<and> bit kind i" for i by (metis bit_and_iff bit_mask_iff)
  have f: "(0xFFFFFFFF :: u32) = mask 32" "(0xF :: u32) = mask 4" by (simp_all add: mask_eq_exp_minus_1)
  show ?thesis unfolding f using assms(1)
    by (intro bit_word_eqI) (auto simp: bit_simps dest: b [THEN iffD1])
qed

lemma size_32:
  assumes "k < 32"
  shows "(ucast (NOT (ucast (NOT (mask k) :: u64)) + 1 :: u32) :: u64) = 2 ^ k"
proof -
  have e: "(ucast (NOT (mask k) :: u64) :: u32) = NOT (mask k)" by (rule bit_word_eqI) (auto simp: bit_simps)
  have "(ucast (2 ^ k :: u32) :: u64) = 2 ^ k" using assms by (intro bit_word_eqI) (auto simp: bit_simps)
  moreover have "NOT (NOT (mask k)) + 1 = (2 ^ k :: u32)" by (simp add: mask_eq_exp_minus_1)
  ultimately show ?thesis by (simp add: e)
qed

lemma size_64:
  assumes "k < 64"
  shows "NOT (push_bit 32 (ucast (ucast (drop_bit 32 (NOT (mask k) :: u64)) :: u32)) + ucast (ucast (NOT (mask k) :: u64) :: u32)) + 1 = (2 ^ k :: u64)"
proof -
  let ?m = "NOT (mask k) :: u64"
  have "push_bit 32 (ucast (ucast (drop_bit 32 ?m) :: u32)) + ucast (ucast ?m :: u32) =
      push_bit 32 (ucast (ucast (drop_bit 32 ?m) :: u32)) OR (ucast (ucast ?m :: u32) :: u64)"
    by (rule disjunctive_add_eq_or) (auto intro!: bit_word_eqI simp: bit_simps)
  also have "\<dots> = ?m" by (rule bit_word_eqI) (auto simp: bit_simps)
  finally show ?thesis using assms by (simp add: mask_eq_exp_minus_1)
qed

lemma bar_offset_small:
  assumes "bar < 6"
  shows "unat (bar_offset bar) + 8 \<le> 44" and "bar_offset bar \<notin> {0x00, 0x02, 0x08, 0x0E}"
    and "bar_offset bar + 4 \<notin> {0x00, 0x02, 0x08, 0x0E}" and "unat (bar_offset bar + 4) = unat (bar_offset bar) + 4"
    and "base + ucast (bar_offset bar + 4) \<noteq> base + (ucast (bar_offset bar) :: u64)"
proof -
  have "bar \<in> {0, 1, 2, 3, 4, 5}"
  proof -
    have "unat bar < 6" using assms by (simp add: word_less_nat_alt)
    then have "unat bar \<in> {0, 1, 2, 3, 4, 5}" by auto
    then show ?thesis by (auto simp: word_unat_eq_iff)
  qed
  then show "unat (bar_offset bar) + 8 \<le> 44" "bar_offset bar \<notin> {0x00, 0x02, 0x08, 0x0E}"
    "bar_offset bar + 4 \<notin> {0x00, 0x02, 0x08, 0x0E}" "unat (bar_offset bar + 4) = unat (bar_offset bar) + 4"
    "base + ucast (bar_offset bar + 4) \<noteq> base + (ucast (bar_offset bar) :: u64)"
    by (auto simp: bar_offset_def)
qed

text \<open>What a probe returns, and that it leaves the registers reading what they read before.\<close>

lemma probe_bar_result:
  assumes base: "config_base base" and off: "unat offset + 4 \<le> 4096" "offset \<notin> {0x00, 0x02, 0x08, 0x0E}"
    and a: "a = base + ucast offset" and k: "register_keeps d a decoded kind"
  shows "\<exists>t. probe_bar d base offset original s = ((0xFFFFFFFF AND decoded) OR kind, s\<lparr>pci_trace := t\<rparr>) \<and>
     last_pci_write a t = Some original \<and> (\<forall>b. b \<noteq> a \<longrightarrow> last_pci_write b t = last_pci_write b (pci_trace s))"
proof -
  have m: "take_bit 32 (x :: u32) = x" for x by (simp add: take_bit_word_eq_self)
  have "d (PciWrite 4 a 0xFFFFFFFF # pci_trace s) 4 a = (0xFFFFFFFF AND decoded) OR kind"
    using k unfolding register_keeps_def by simp
  then show ?thesis using off base
    by (auto simp: probe_bar_def write_register_config read_register_config m a Let_def)
qed

lemma aligned_bits: "\<lbrakk>addr AND mask k = (0 :: u64); bit addr i\<rbrakk> \<Longrightarrow> k \<le> i"
  using bit_imp_le_length [of addr i] unfolding and_eq_0_iff_u64 bit_mask_u64 by (auto simp: not_le [symmetric])

lemma low_register:
  assumes "addr AND mask k = (0 :: u64)" and "4 \<le> k" and "kind < (16 :: u32)" and "\<not> bit kind 0"
  shows "((ucast addr OR kind) AND (ucast (NOT (mask k) :: u64))) OR kind = ucast addr OR kind"
    and "(ucast addr OR kind) AND 0xFFFFFFF0 = (ucast addr :: u32)" and "(ucast addr OR kind) AND 0xF = kind"
    and "drop_bit 1 (ucast addr OR kind) AND 3 = drop_bit 1 kind AND (3 :: u32)"
    and "ucast addr OR kind \<noteq> 0xFFFFFFFF" and "(ucast addr OR kind) AND 1 = (0 :: u32)"
    and "(ucast addr OR kind) AND 8 = kind AND (8 :: u32)"
proof -
  have a: "bit addr i \<longrightarrow> k \<le> i" for i using aligned_bits [OF assms(1)] by blast
  have "kind AND mask 4 = kind" using less_mask_eq [of kind 4] assms(3) by simp
  then have b: "bit kind i \<longrightarrow> i < 4" for i by (metis bit_and_iff bit_mask_iff)
  have f: "(0xFFFFFFFF :: u32) = mask 32" "(0xFFFFFFF0 :: u32) = NOT (mask 4)" "(0xF :: u32) = mask 4" "(3 :: u32) = mask 2"
    "(1 :: u32) = mask 1"
    by (simp_all add: mask_eq_exp_minus_1)
  have "(8 :: u32) AND mask 4 = 8" by (simp add: mask_eq_exp_minus_1)
  then have e: "bit (8 :: u32) i \<longrightarrow> i < 4" for i by (metis bit_and_iff bit_mask_iff)
  show "((ucast addr OR kind) AND (ucast (NOT (mask k) :: u64))) OR kind = ucast addr OR kind"
    by (rule bit_word_eqI) (auto simp: bit_simps dest: a [rule_format])
  show "(ucast addr OR kind) AND 0xFFFFFFF0 = (ucast addr :: u32)" unfolding f using assms(2)
    by (intro bit_word_eqI) (auto simp: bit_simps dest: a [rule_format] b [rule_format])
  show "(ucast addr OR kind) AND 0xF = kind" unfolding f using assms(2)
    by (intro bit_word_eqI) (auto simp: bit_simps dest: a [rule_format] b [rule_format])
  show "drop_bit 1 (ucast addr OR kind) AND 3 = drop_bit 1 kind AND (3 :: u32)" unfolding f using assms(2)
    by (intro bit_word_eqI) (auto simp: bit_simps dest: a [rule_format])
  have "\<not> bit (ucast addr OR kind :: u32) 0" using a [of 0] assms(2,4) by (simp add: bit_simps)
  moreover have "bit (0xFFFFFFFF :: u32) 0" by simp
  ultimately show "ucast addr OR kind \<noteq> 0xFFFFFFFF" by metis
  show "(ucast addr OR kind) AND 1 = (0 :: u32)" unfolding f using assms(2,4)
    by (intro bit_word_eqI) (auto simp: bit_simps less_Suc_eq_0_disj dest: a [rule_format] b [rule_format])
  have "\<not> (bit addr i \<and> bit (8 :: u32) i)" for i using a [of i] e [of i] assms(2) by linarith
  then show "(ucast addr OR kind) AND 8 = kind AND (8 :: u32)"
    by (intro bit_word_eqI) (auto simp: bit_and_iff bit_or_iff bit_ucast_iff)
qed

lemma address_halves: "ucast (ucast addr :: u32) OR push_bit 32 (ucast (ucast (drop_bit 32 addr) :: u32)) = (addr :: u64)"
  by (rule bit_word_eqI) (auto simp: bit_simps)

lemma address_low: "addr < 2 ^ 32 \<Longrightarrow> ucast (ucast (addr :: u64) :: u32) = addr"
proof -
  assume "addr < 2 ^ 32"
  then have "addr AND mask 32 = addr" by (rule less_mask_eq)
  moreover have "ucast (ucast addr :: u32) = addr AND mask 32" by (rule bit_word_eqI) (auto simp: bit_simps)
  ultimately show ?thesis by simp
qed

text \<open>A BAR is reported with its size, its address and its type, and answers where it did before.\<close>

lemma bar_is_reported:
  assumes base: "config_base base" and bar: "bar < 6" and dec: "decodes d base bar k kind"
    and at: "answers_at d base bar k kind addr s" and set: "ucast addr OR kind \<noteq> (0 :: u32)"
  shows "\<exists>t. get_bar d base bar s =
      (\<lparr>bar_number = bar, bar_physical = addr, bar_size = 2 ^ k, bar_flags = ucast kind, is_memory_space = True,
        is_64bit = wide kind, is_prefetchable = kind AND 8 \<noteq> 0\<rparr>, s\<lparr>pci_trace := t\<rparr>) \<and>
     answers_at d base bar k kind addr (s\<lparr>pci_trace := t\<rparr>)"
proof -
  let ?off = "bar_offset bar" and ?h = "bar_offset bar + 4"
  let ?a = "base + ucast ?off" and ?b = "base + ucast ?h" and ?m = "ucast (NOT (mask k) :: u64) :: u32"
  let ?low = "ucast addr OR kind" and ?n = "ucast (drop_bit 32 (NOT (mask k) :: u64)) :: u32"
  note off = bar_offset_small [OF bar]
  have m: "take_bit 32 (x :: u32) = x" for x by (simp add: take_bit_word_eq_self)
  from dec have k: "4 \<le> k" "kind < 16" "\<not> bit kind 0" "register_keeps d ?a ?m kind"
    and w: "wide kind \<Longrightarrow> k < 64 \<and> register_keeps d ?b ?n 0 \<and> steady d ?b" "\<not> wide kind \<Longrightarrow> k < 32"
    by (auto simp: decodes_def Let_def split: if_splits)
  from at have al: "addr AND mask k = 0" and low: "d (pci_trace s) 4 ?a = ?low"
    and high: "wide kind \<Longrightarrow> d (pci_trace s) 4 ?b = ucast (drop_bit 32 addr)" "\<not> wide kind \<Longrightarrow> addr < 2 ^ 32"
    by (auto simp: answers_at_def split: if_splits)
  note lw = low_register [OF al k(1-3)] and pm = probe_mask [OF k(1,2)]
  have nz: "?off \<noteq> 0" "?h \<noteq> 0" using off by auto
  let ?s1 = "s\<lparr>pci_trace := PciRead 4 ?a ?low # pci_trace s\<rparr>"
  have r1: "read_register d 4 base ?off s = (?low, ?s1)"
    using read_register_config [OF base, of 4 ?off d s] off nz low m by (simp add: Let_def)
  obtain t where p: "probe_bar d base ?off ?low ?s1 = ((0xFFFFFFFF AND ?m) OR kind, s\<lparr>pci_trace := t\<rparr>)"
    and t: "last_pci_write ?a t = Some ?low" "last_pci_write ?b t = last_pci_write ?b (pci_trace s)"
    using probe_bar_result [OF base _ off(2) refl k(4), of ?low ?s1] off(1) off(5) [of base] by fastforce
  have again: "d t' 4 ?a = ?low" if "last_pci_write ?a t' = Some ?low" for t'
    using k(4) that lw(1) unfolding register_keeps_def by metis
  have g: "get_bar d base bar s = memory_bar d base bar ?off ?low ((0xFFFFFFFF AND ?m) OR kind) (s\<lparr>pci_trace := t\<rparr>)" (is "_ = ?mb")
    using bar set lw(5,6) r1 p by (simp add: get_bar_def bar_offset_def [symmetric] Let_def not_le [symmetric])
  show ?thesis
  proof (cases "wide kind")
    case False
    then have "k < 32" "addr < 2 ^ 32" using w high by auto
    have "?mb = (\<lparr>bar_number = bar, bar_physical = addr, bar_size = 2 ^ k, bar_flags = ucast kind, is_memory_space = True,
        is_64bit = wide kind, is_prefetchable = kind AND 8 \<noteq> 0\<rparr>, s\<lparr>pci_trace := t\<rparr>)"
      unfolding memory_bar_def Let_def pm size_32 [OF \<open>k < 32\<close>] lw(2-4,7) address_low [OF \<open>addr < 2 ^ 32\<close>]
      using False by (simp add: wide_def no_bar_def)
    then show ?thesis using False g again [OF t(1)] al \<open>addr < 2 ^ 32\<close>
      by (intro exI [of _ t]) (simp add: answers_at_def)
  next
    case True
    let ?high = "ucast (drop_bit 32 addr) :: u32"
    let ?s2 = "s\<lparr>pci_trace := PciRead 4 ?b ?high # t\<rparr>"
    have "d t 4 ?b = ?high" using w(1) [OF True] t(2) high(1) [OF True] unfolding steady_def by metis
    then have r2: "read_register d 4 base ?h (s\<lparr>pci_trace := t\<rparr>) = (?high, ?s2)"
      using read_register_config [OF base, of 4 ?h d "s\<lparr>pci_trace := t\<rparr>"] off nz m by (simp add: Let_def)
    obtain t' where p2: "probe_bar d base ?h ?high ?s2 = ((0xFFFFFFFF AND ?n) OR 0, s\<lparr>pci_trace := t'\<rparr>)"
      and t': "last_pci_write ?b t' = Some ?high" "last_pci_write ?a t' = last_pci_write ?a t"
      using probe_bar_result [OF base _ off(3) refl, of d ?n 0 ?high ?s2] w(1) [OF True] off(1,4) off(5) [of base] by fastforce
    have "d t' 4 ?b = (?high AND ?n) OR 0" using w(1) [OF True] t'(1) unfolding register_keeps_def by blast
    moreover have "?high AND ?n = ?high"
      using al by (intro bit_word_eqI) (auto simp: bit_simps and_eq_0_iff_u64)
    ultimately have "d t' 4 ?b = ?high" by simp
    moreover have ones: "0xFFFFFFFF AND x = x" for x :: u32
    proof -
      have "(0xFFFFFFFF :: u32) = - 1" by simp
      then show ?thesis by (simp only: and.left_neutral)
    qed
    moreover have "?mb = (\<lparr>bar_number = bar, bar_physical = addr, bar_size = 2 ^ k, bar_flags = ucast kind,
        is_memory_space = True, is_64bit = wide kind, is_prefetchable = kind AND 8 \<noteq> 0\<rparr>, s\<lparr>pci_trace := t'\<rparr>)"
      unfolding memory_bar_def Let_def pm lw(2-4,7) r2
      using p2 [unfolded ones or.right_neutral] True size_64 [of k] address_halves [of addr] w(1) [OF True] by (simp add: wide_def no_bar_def)
    ultimately show ?thesis using True g again [of t'] t t' al
      by (intro exI [of _ t']) (simp add: answers_at_def)
  qed
qed

lemma kind_round_trip: "kind < 16 \<Longrightarrow> ucast (ucast (kind :: u32) :: u8) = kind"
proof -
  assume "kind < 16"
  then have "kind AND mask 4 = kind" using less_mask_eq [of kind 4] by simp
  then have b: "bit kind i \<longrightarrow> i < 4" for i by (metis bit_and_iff bit_mask_iff)
  show ?thesis by (rule bit_word_eqI) (auto simp: bit_simps dest: b [rule_format])
qed

text \<open>What a BAR keeps of an address that is written to it: the address rounded down to its size.\<close>

definition rounded :: "u64 \<Rightarrow> nat \<Rightarrow> u64" where
  "rounded addr k = addr AND NOT (mask k)"

lemma rounded_low:
  assumes "4 \<le> k"
  shows "((ucast addr AND NOT 0xF) OR kind) AND ucast (NOT (mask k) :: u64) OR kind = (ucast (rounded addr k) OR kind :: u32)"
proof -
  have f: "(0xF :: u32) = mask 4" by (simp add: mask_eq_exp_minus_1)
  show ?thesis using assms unfolding f rounded_def by (intro bit_word_eqI) (auto simp: bit_simps)
qed

lemma rounded_high:
  "(ucast (drop_bit 32 addr) AND ucast (drop_bit 32 (NOT (mask k) :: u64)) :: u32) = ucast (drop_bit 32 (rounded addr k))"
  unfolding rounded_def by (rule bit_word_eqI) (auto simp: bit_simps)

lemma rounded_aligned: "rounded addr k AND mask k = 0"
  unfolding rounded_def by (rule u64_eqI) simp

lemma rounded_le: "rounded addr k \<le> addr"
  unfolding rounded_def by (rule word_and_le2)

lemma rounded_id: "addr AND mask k = 0 \<Longrightarrow> rounded addr k = addr"
  unfolding rounded_def by (rule u64_eqI) (auto dest: aligned_bits)

text \<open>Where the next BAR goes on the bus and in the memory of the processor.\<close>

abbreviation bus_address :: "pci \<Rightarrow> u64" where
  "bus_address s \<equiv> 0xF8000000 + NextUnusedMapOffsetAddress s"

lemma map_bar_answers:
  assumes base: "config_base base" and bar: "bar < 6" and dec: "decodes d base bar k kind"
    and b: "bar_number b = bar" "bar_flags b = ucast kind" "bar_size b = 2 ^ k" "is_memory_space b" "is_64bit b = wide kind"
    and low: "\<not> wide kind \<Longrightarrow> bus_address s < 2 ^ 32"
  shows "\<exists>t. let s' = s\<lparr>pci_trace := t, NextUnusedMapOffsetAddress := NextUnusedMapOffsetAddress s + 2 ^ k\<rparr> in
     map_bar base b s = ((0x600000000 + NextUnusedMapOffsetAddress s, 2 ^ k),
       b\<lparr>bar_physical := 0x600000000 + NextUnusedMapOffsetAddress s\<rparr>, s') \<and>
     answers_at d base bar k kind (rounded (bus_address s) k) s'"
proof -
  let ?off = "bar_offset bar" and ?h = "bar_offset bar + 4" and ?addr = "bus_address s"
  let ?low = "(ucast ?addr AND NOT 0xF) OR kind"
  let ?a = "base + ucast ?off" and ?b = "base + ucast ?h" and ?m = "ucast (NOT (mask k) :: u64) :: u32"
  let ?n = "ucast (drop_bit 32 (NOT (mask k) :: u64)) :: u32"
  let ?t1 = "PciWrite 4 ?a ?low # pci_trace s"
  let ?t2 = "PciWrite 4 ?b (ucast (drop_bit 32 ?addr)) # ?t1"
  note off = bar_offset_small [OF bar]
  have m: "take_bit 32 (x :: u32) = x" for x by (simp add: take_bit_word_eq_self)
  from dec have k: "4 \<le> k" "kind < 16" "\<not> bit kind 0" "register_keeps d ?a ?m kind"
    and w: "wide kind \<Longrightarrow> k < 64 \<and> register_keeps d ?b ?n 0" "\<not> wide kind \<Longrightarrow> k < 32"
    by (auto simp: decodes_def Let_def split: if_splits)
  have "k < 64" using w by (cases "wide kind") auto
  then have nz: "bar_size b \<noteq> 0" using b(3) bit_exp_u64 [of k k] by (metis bit_0_eq bot_apply bot_bool_def)
  have w1: "write_register 4 base ?off ?low s = (PCIE_SUCCESS, s\<lparr>pci_trace := ?t1\<rparr>)"
    using write_register_config [OF base, of 4 ?off] off m by simp
  have w2: "write_register 4 base ?h (ucast (drop_bit 32 ?addr)) (s\<lparr>pci_trace := ?t1\<rparr>) = (PCIE_SUCCESS, s\<lparr>pci_trace := ?t2\<rparr>)"
    using write_register_config [OF base, of 4 ?h] off m by simp
  have again: "d t' 4 ?a = ucast (rounded ?addr k) OR kind" if "last_pci_write ?a t' = Some ?low" for t'
    using k(4) that rounded_low [OF k(1)] unfolding register_keeps_def by metis
  let ?t = "if wide kind then ?t2 else ?t1"
  let ?s = "s\<lparr>pci_trace := ?t, NextUnusedMapOffsetAddress := NextUnusedMapOffsetAddress s + 2 ^ k\<rparr>"
  have "map_bar base b s = ((0x600000000 + NextUnusedMapOffsetAddress s, 2 ^ k),
       b\<lparr>bar_physical := 0x600000000 + NextUnusedMapOffsetAddress s\<rparr>, ?s)"
    using nz b w1 w2 kind_round_trip [OF k(2)]
    by (simp add: map_bar_def bar_offset_def [symmetric] Let_def)
  moreover have "d ?t 4 ?a = ucast (rounded ?addr k) OR kind" using again [of ?t] off(5) [of base] by simp
  moreover have "d ?t 4 ?b = ucast (drop_bit 32 (rounded ?addr k))" if "wide kind"
    using that w(1) rounded_high [of ?addr k] unfolding register_keeps_def by simp
  ultimately show ?thesis using rounded_aligned [of ?addr k] le_less_trans [OF rounded_le low] by (intro exI [of _ ?t]) (simp add: answers_at_def Let_def)
qed


text \<open>A controller behind the bridge: one function on bus 1, with a wide BAR of 4096 bytes. The link is up from the start.\<close>

definition example_bridge :: pci_bus where
  "example_bridge t w a =
     (if a = bridge 0x8010 then case last_pci_write a t of None \<Rightarrow> 4 | Some v \<Rightarrow> (v AND 0xFFFFF000) OR 4
      else if a = bridge 0x8014 then case last_pci_write a t of None \<Rightarrow> 0 | Some v \<Rightarrow> v
      else if a = bridge 0x4068 then 0x30
      else if a = bridge 0 then 0x14E4
      else if a = bridge 0x02 then 0x2711
      else if a = bridge 0x08 then 0x06040000
      else if a = bridge 0x8000 then 0x1106
      else if a = bridge 0x8002 then 0x3483
      else if a = bridge 0x8008 then 0x0C033001
      else 0)"

definition cold_pci :: pci where
  "cold_pci = \<lparr>pci_trace = [], g_initialized = False, pci_initialized = False, pci_devices = [], lastAddress = 0,
     NextUnusedMapOffsetAddress = 0\<rparr>"

lemma example_decodes: "decodes example_bridge (bridge 0x8000) 0 12 4"
proof -
  have a: "bridge 0x8000 + ucast (bar_offset 0) = bridge 0x8010" "bridge 0x8000 + ucast (bar_offset 0 + 4) = bridge 0x8014"
    by (simp_all add: bridge_def bar_offset_def)
  have "(18446744073709547520 :: u32) = 0xFFFFF000" "(0xFFFFFFFF :: u32) = - 1" by simp_all
  then have "v AND 18446744073709547520 = v AND 0xFFFFF000" "v AND 0xFFFFFFFF = v" for v :: u32
    by (simp_all only: and.right_neutral)
  moreover have "bridge 0x8014 \<noteq> bridge 0x8010" by (simp add: bridge_def)
  ultimately show ?thesis
    by (simp add: decodes_def a register_keeps_def steady_def example_bridge_def wide_def mask_eq_exp_minus_1)
qed


text \<open>
  A BAR of 32 bits that was not assigned yet reads zero, and is taken for one that does not exist. A BAR that is mapped
  at an offset that is not a multiple of its size answers below its window, where another BAR may be.
\<close>

lemma unassigned_bar_is_missed:
  assumes "config_base base" and "bar < 6" and "answers_at d base bar k 0 0 s"
  shows "fst (get_bar d base bar s) = no_bar"
  using assms bar_offset_small [OF assms(2)]
  by (auto simp: get_bar_def bar_offset_def [symmetric] read_register_config answers_at_def Let_def not_le [symmetric])

lemma misaligned_bar_answers_elsewhere:
  "rounded (0xF8000000 + 16) 12 = rounded 0xF8000000 4"
  unfolding rounded_def by (simp add: mask_eq_exp_minus_1)

section \<open>The span of the BARs\<close>

text \<open>The BARs that are reported are not empty, fit into the span and come in the order of their numbers.\<close>

lemma get_bar_number:
  "n < 6 \<Longrightarrow> fst (get_bar d base (of_nat n) s) = no_bar \<or> bar_number (fst (get_bar d base (of_nat n) s)) = of_nat n"
  by (auto simp: get_bar_def memory_bar_def io_bar_def case_prod_beta Let_def)

definition bars_ok :: "nat \<Rightarrow> nat \<Rightarrow> BarInfo list \<Rightarrow> bool" where
  "bars_ok n count bars \<longleftrightarrow> count \<le> n \<and> count \<le> length bars \<and> count \<le> 6 \<and>
     (\<forall>i<count. bar_size (bars ! i) \<noteq> 0 \<and> unat (bar_number (bars ! i)) < n) \<and>
     (\<forall>j<count. \<forall>i<j. bar_number (bars ! i) < bar_number (bars ! j))"

lemma bars_ok_skip: "\<lbrakk>bars_ok n count bars; n \<le> n'\<rbrakk> \<Longrightarrow> bars_ok n' count (bars[count := b])"
  by (fastforce simp: bars_ok_def)

lemma bars_ok_add:
  assumes "bars_ok n count bars" and "n < n'" and "n < 6" and "count < length bars" and "bar_size b \<noteq> 0"
    and "unat (bar_number b) = n"
  shows "bars_ok n' (count + 1) (bars[count := b])"
proof -
  have "bar_number (bars ! i) < bar_number b" if "i < count" for i
    using assms(1,6) that by (simp add: bars_ok_def word_less_nat_alt)
  then show ?thesis using assms by (fastforce simp: bars_ok_def nth_list_update less_Suc_eq)
qed

lemma enumerate_bars_from_bars:
  "bars_ok n count bars \<Longrightarrow> case enumerate_bars_from d base n count bars s of (m, bars', s') \<Rightarrow>
    length bars' = length bars \<and> (\<exists>n'. bars_ok n' m bars')"
proof (induction d base n count bars s rule: enumerate_bars_from.induct)
  case (1 d base n count bars s)
  show ?case
  proof (cases "n < 6 \<and> count < length bars")
    case False
    then show ?thesis using "1.prems" by (subst enumerate_bars_from.simps) auto
  next
    case True
    obtain b s1 where g: "get_bar d base (of_nat n) s = (b, s1)" by fastforce
    have n: "unat (of_nat n :: u8) = n" using True by (simp add: unat_of_nat)
    have b: "b = no_bar \<or> bar_number b = of_nat n" using get_bar_number [of n d base s] True g by simp
    let ?n = "if is_64bit b then n + 2 else n + 1" and ?c = "if 0 < bar_size b then count + 1 else count"
    have "bars_ok ?n ?c (bars[count := b])"
    proof (cases "0 < bar_size b")
      case True
      then show ?thesis using b n "1.prems" \<open>n < 6 \<and> count < length bars\<close> bars_ok_add [of n count bars ?n b]
        by (auto simp: no_bar_def)
    next
      case False
      then show ?thesis using "1.prems" bars_ok_skip [of n count bars ?n b] by auto
    qed
    from "1.IH" [OF True g [symmetric] refl this] show ?thesis
      using True g by (subst enumerate_bars_from.simps) (simp add: Let_def)
  qed
qed

lemma enumerate_bars_bars:
  "case enumerate_bars d base bars s of (m, bars', s') \<Rightarrow> m \<le> 6 \<and> m \<le> length bars \<and> length bars' = length bars \<and>
    (\<forall>i<m. bar_size (bars' ! i) \<noteq> 0) \<and> (\<forall>j<m. \<forall>i<j. bar_number (bars' ! i) < bar_number (bars' ! j))"
proof -
  have "bars_ok 0 0 bars" by (simp add: bars_ok_def)
  from enumerate_bars_from_bars [OF this, of d base s] show ?thesis
    by (fastforce simp: enumerate_bars_def bars_ok_def split: prod.splits)
qed

section \<open>Capabilities\<close>

text \<open>
  The list starts at the register that holds the address of the first capability, not at that address: with its second
  byte zero, which is reserved, the only capability reported has that address as its number.
\<close>

lemma capability_pointer_is_reported:
  assumes "config_base base" and "\<And>t. take_bit 8 (d t 1 (base + 0x34)) = p" and "\<And>t. take_bit 8 (d t 1 (base + 0x35)) = 0"
  shows "\<exists>s'. capability_walk d base 0x34 s = Some ([\<lparr>cap_id = ucast p, cap_next_offset = 0\<rparr>], s')"
  using assms
  by (subst capability_walk.simps, subst capability_walk.simps) (simp add: read_register_config Let_def)

end
