(* ===== verification/Pcie_Devices.thy ===== *)
theory Pcie_Devices
  imports Pcie_Correctness
begin

text \<open>
  The list of devices: a bridge in front of one device with up to eight functions, and what the driver lists of them.
\<close>

unbundle bit_operations_syntax

section \<open>What is on the bus\<close>

text \<open>The registers by which a function is identified; \<open>hdr_class\<close> is the register of class and revision.\<close>

record header =
  hdr_vendor :: u16
  hdr_device :: u16
  hdr_class :: u32
  hdr_type :: u8

definition presents :: "pci_bus \<Rightarrow> pci_event list \<Rightarrow> u64 \<Rightarrow> header \<Rightarrow> bool" where
  "presents d t base h \<longleftrightarrow> d t 2 base = ucast (hdr_vendor h) \<and> d t 2 (base + 0x02) = ucast (hdr_device h) \<and>
     d t 4 (base + 0x08) = hdr_class h \<and> d t 1 (base + 0x0E) = ucast (hdr_type h)"

text \<open>The function that is selected: what was last written to the index register. The bridge shows its registers.\<close>

definition selected :: "pci_event list \<Rightarrow> u32" where
  "selected t = (case last_pci_write (bridge 0x9000) t of None \<Rightarrow> 0 | Some v \<Rightarrow> v)"

definition bus_behind :: "pci_bus \<Rightarrow> header \<Rightarrow> (u32 \<Rightarrow> header) \<Rightarrow> bool" where
  "bus_behind d root functions \<longleftrightarrow>
     (\<forall>t. presents d t (bridge 0) root \<and> presents d t (bridge 0x8000) (functions (selected t)))"

definition synced :: "pci \<Rightarrow> bool" where
  "synced s \<longleftrightarrow> selected (pci_trace s) = lastAddress s"

definition present :: "header \<Rightarrow> bool" where
  "present h \<longleftrightarrow> hdr_vendor h \<noteq> 0 \<and> hdr_vendor h \<noteq> 0xFFFF"

definition info_of :: "u32 \<Rightarrow> header \<Rightarrow> device_info" where
  "info_of addr h = \<lparr>Address = addr, VendorId = hdr_vendor h, DeviceId = hdr_device h, info_ClassCode = drop_bit 8 (hdr_class h)\<rparr>"

text \<open>The functions that are to be listed: none without function 0, and only that one unless it says there are more.\<close>

definition listed :: "(u32 \<Rightarrow> header) \<Rightarrow> device_info list" where
  "listed functions =
     (let at = (\<lambda>f. DeviceAddress 1 0 f); h = functions (at 0) in
      if \<not> present h then []
      else if \<not> bit (hdr_type h) 7 then [info_of (at 0) h]
      else map (\<lambda>f. info_of (at f) (functions (at f))) (filter (\<lambda>f. present (functions (at f))) [0, 1, 2, 3, 4, 5, 6, 7]))"

section \<open>Reading a function\<close>

lemma selected_simps [simp]:
  "selected [] = 0"
  "selected (PciRead w a v # t) = selected t"
  "selected (PciPause us # t) = selected t"
  "a \<noteq> bridge 0x9000 \<Longrightarrow> selected (PciWrite w a v # t) = selected t"
  "selected (PciWrite w (bridge 0x9000) v # t) = v"
  by (simp_all add: selected_def)

definition behind :: "pci_bus \<Rightarrow> u64 \<Rightarrow> header \<Rightarrow> pci \<Rightarrow> bool" where
  "behind d base h s \<longleftrightarrow> config_base base \<and> (\<forall>t. selected t = selected (pci_trace s) \<longrightarrow> presents d t base h)"

lemma behind_root: "bus_behind d root functions \<Longrightarrow> behind d (bridge 0) root s"
  by (simp add: bus_behind_def behind_def)

lemma behind_function: "bus_behind d root functions \<Longrightarrow> behind d (bridge 0x8000) (functions (selected (pci_trace s))) s"
  unfolding bus_behind_def behind_def by (metis config_base(2))

text \<open>What reads do to the driver: the trace grows, and the same function is selected.\<close>

definition after_reads :: "pci \<Rightarrow> pci \<Rightarrow> bool" where
  "after_reads s s' \<longleftrightarrow> (\<exists>t. s' = s\<lparr>pci_trace := t\<rparr> \<and> selected t = selected (pci_trace s))"

lemma after_reads_iff:
  "after_reads s s' \<longleftrightarrow> s' = s\<lparr>pci_trace := pci_trace s'\<rparr> \<and> selected (pci_trace s') = selected (pci_trace s)"
  by (auto simp: after_reads_def)

lemma after_reads_refl [simp]: "after_reads s s"
  by (simp add: after_reads_iff)

lemma after_reads_trans: "\<lbrakk>after_reads s s'; after_reads s' s''\<rbrakk> \<Longrightarrow> after_reads s s''"
  by (auto simp: after_reads_def)

lemma after_reads_keeps:
  assumes "after_reads s s'"
  shows "synced s' = synced s" "pci_devices s' = pci_devices s" "selected (pci_trace s') = selected (pci_trace s)"
    "behind d base h s' = behind d base h s" "lastAddress s' = lastAddress s" "g_initialized s' = g_initialized s"
    "pci_initialized s' = pci_initialized s"
  using assms by (auto simp: after_reads_def synced_def behind_def)

lemma read_ids:
  assumes "behind d base h s"
  shows "\<exists>s'. pci_vendor_id d base s = (if hdr_vendor h = 0 then 0xFFFF else hdr_vendor h, s') \<and> after_reads s s'"
    and "\<exists>s'. pci_device_id d base s = (hdr_device h, s') \<and> after_reads s s'"
    and "\<exists>s'. pci_class_code d base s = (drop_bit 8 (hdr_class h), s') \<and> after_reads s s'"
    and "\<exists>s'. read_register d 1 base 0x0E s = (ucast (hdr_type h), s') \<and> after_reads s s'"
proof -
  have b: "config_base base" and p: "presents d (pci_trace s) base h" using assms by (auto simp: behind_def)
  have l: "n < 16" if "bit (x :: u16) n" for x n using bit_imp_le_length [OF that] by simp
  have l': "n < 8" if "bit (x :: u8) n" for x n using bit_imp_le_length [OF that] by simp
  have w: "take_bit 16 (ucast (x :: u16)) = (ucast x :: u32)" "take_bit 32 (y :: u32) = y" "take_bit 8 (ucast (z :: u8)) = (ucast z :: u32)"
    and u: "ucast (ucast x :: u32) = x" for x y z
    by (auto intro!: bit_word_eqI simp: bit_simps dest: l l')
  have z: "((ucast x :: u32) = 0) = (x = 0)" for x :: u16 using u [of x] by (metis ucast_0)
  note r = read_register_config [OF b] pci_vendor_id_def pci_device_id_def pci_class_code_def after_reads_def
  from p show "\<exists>s'. pci_vendor_id d base s = (if hdr_vendor h = 0 then 0xFFFF else hdr_vendor h, s') \<and> after_reads s s'"
    "\<exists>s'. pci_device_id d base s = (hdr_device h, s') \<and> after_reads s s'"
    "\<exists>s'. pci_class_code d base s = (drop_bit 8 (hdr_class h), s') \<and> after_reads s s'"
    "\<exists>s'. read_register d 1 base 0x0E s = (ucast (hdr_type h), s') \<and> after_reads s s'"
    by (auto simp: r presents_def Let_def w u z)
qed

section \<open>Scanning\<close>

lemma select_function:
  assumes "synced s" and "addr \<noteq> 0" and "addr \<noteq> InvalidDeviceAddress"
  shows "\<exists>s'. Configuration addr s = (bridge 0x8000, s') \<and> synced s' \<and> selected (pci_trace s') = addr \<and> pci_devices s' = pci_devices s"
proof -
  have "take_bit 32 addr = addr" by (simp add: take_bit_word_eq_self)
  then show ?thesis using assms by (auto simp: Configuration_def pci_put_def synced_def Let_def)
qed

lemma function_address: "DeviceAddress 1 0 f \<noteq> 0" "DeviceAddress 1 0 f \<noteq> InvalidDeviceAddress"
proof -
  have "bit (DeviceAddress 1 0 f) 20" "\<not> bit (DeviceAddress 1 0 f) 0"
    by (simp_all add: DeviceAddress_def bit_simps)
  moreover have "bit InvalidDeviceAddress 0" by simp
  ultimately show "DeviceAddress 1 0 f \<noteq> 0" "DeviceAddress 1 0 f \<noteq> InvalidDeviceAddress" by (metis bit_0_eq bot_apply bot_bool_def, metis)
qed

text \<open>One step: the function is selected, its vendor is read, and it is added when it is present.\<close>

lemma scan_head:
  assumes "bus_behind d root functions" and "synced s" and h: "h = functions (DeviceAddress 1 0 f)"
  obtains s1 where "synced s1" and "pci_devices s1 = pci_devices s" and "\<not> present h"
      and "scan_functions d 1 0 (f # fs) s = (if f = 0 then s1 else scan_functions d 1 0 fs s1)"
  | s1 where "synced s1" and "pci_devices s1 = pci_devices s @ [info_of (DeviceAddress 1 0 f) h]" and "present h"
      and "scan_functions d 1 0 (f # fs) s = (if f = 0 \<and> \<not> bit (hdr_type h) 7 then s1 else scan_functions d 1 0 fs s1)"
proof -
  let ?a = "DeviceAddress 1 0 f"
  obtain s1 where s1: "Configuration ?a s = (bridge 0x8000, s1)" "synced s1" "selected (pci_trace s1) = ?a" "pci_devices s1 = pci_devices s"
    using select_function [OF assms(2) function_address] by blast
  have b1: "behind d (bridge 0x8000) h s1" using behind_function [OF assms(1), of s1] s1(3) by (simp add: h)
  obtain s2 where s2: "pci_vendor_id d (bridge 0x8000) s1 = (if hdr_vendor h = 0 then 0xFFFF else hdr_vendor h, s2)" "after_reads s1 s2"
    using read_ids(1) [OF b1] by blast
  show thesis
  proof (cases "present h")
    case False
    then show thesis using that(1) [of s2] s1 s2 after_reads_keeps [OF s2(2)]
      by (auto simp: present_def Let_def)
  next
    case True
    obtain s3 where s3: "pci_class_code d (bridge 0x8000) s2 = (drop_bit 8 (hdr_class h), s3)" "after_reads s2 s3"
      using read_ids(3) b1 after_reads_keeps(4) [OF s2(2)] by blast
    obtain s4 where s4: "pci_device_id d (bridge 0x8000) s3 = (hdr_device h, s4)" "after_reads s3 s4"
      using read_ids(2) b1 after_reads_keeps(4) [OF s2(2)] after_reads_keeps(4) [OF s3(2)] by blast
    let ?s4 = "add_device (info_of ?a h) s4"
    note k = after_reads_keeps [OF s2(2)] after_reads_keeps [OF s3(2)] after_reads_keeps [OF s4(2)]
    have b4: "behind d (bridge 0x8000) h ?s4" using b1 k by (simp add: behind_def add_device_def)
    obtain s5 where s5: "read_register d 1 (bridge 0x8000) 0x0E ?s4 = (ucast (hdr_type h), s5)" "after_reads ?s4 s5"
      using read_ids(4) [OF b4] by blast
    have y: "synced ?s4" "pci_devices ?s4 = pci_devices s @ [info_of ?a h]"
      using s1 k by (simp_all add: add_device_def synced_def)
    have bit: "(ucast (hdr_type h) :: u32) AND 0x80 = 0 \<longleftrightarrow> \<not> bit (hdr_type h) 7"
      using and_exp_eq_0_iff_not_bit [of "ucast (hdr_type h) :: u32" 7] by (simp add: bit_simps)
    have run: "scan_functions d 1 0 (f # fs) s =
        (if f = 0 then if bit (hdr_type h) 7 then scan_functions d 1 0 fs s5 else s5 else scan_functions d 1 0 fs ?s4)"
      using True s1(1) s2(1) s3(1) s4(1) s5(1) bit
      by (cases "f = 0") (simp_all add: present_def info_of_def [symmetric] Let_def)
    show thesis
    proof (cases "f = 0")
      case True
      then show thesis using that(2) [of s5] y run after_reads_keeps [OF s5(2)] \<open>present h\<close> by simp
    next
      case False
      then show thesis using that(2) [of ?s4] y run \<open>present h\<close> by simp
    qed
  qed
qed

declare scan_functions.simps(2) [simp del]

lemma scan_rest:
  assumes "bus_behind d root functions" and "synced s" and "0 \<notin> set fs"
  shows "pci_devices (scan_functions d 1 0 fs s) = pci_devices s @
    map (\<lambda>f. info_of (DeviceAddress 1 0 f) (functions (DeviceAddress 1 0 f))) (filter (\<lambda>f. present (functions (DeviceAddress 1 0 f))) fs)"
  using assms(2,3)
proof (induction fs arbitrary: s)
  case (Cons f fs)
  then have f: "f \<noteq> 0" "0 \<notin> set fs" by auto
  show ?case by (rule scan_head [OF assms(1) Cons.prems(1) refl, of f fs]) (use f Cons.IH in simp_all)
qed simp

lemma scan_bus_listed:
  assumes "bus_behind d root functions" and "synced s"
  shows "pci_devices (scan_bus d 1 s) = pci_devices s @ listed functions"
proof -
  have run: "scan_bus d 1 s = scan_functions d 1 0 [0, 1, 2, 3, 4, 5, 6, 7] s" by (simp add: scan_bus_def device_count_def)
  show ?thesis unfolding run
    by (rule scan_head [OF assms refl, of 0 "[1, 2, 3, 4, 5, 6, 7]"])
      (auto simp: listed_def Let_def scan_rest [OF assms(1)])
qed

section \<open>Bring-up\<close>

fun pauses :: "pci_event list \<Rightarrow> nat" where
  "pauses [] = 0"
| "pauses (PciPause us # t) = Suc (pauses t)"
| "pauses (PciRead w a v # t) = pauses t"
| "pauses (PciWrite w a v # t) = pauses t"

text \<open>The status of the link is read once, and once more after each pause.\<close>

fun polls :: "pci_event list \<Rightarrow> nat" where
  "polls [] = 0"
| "polls (PciPause us # t) = polls t"
| "polls (PciRead w a v # t) = (if a = bridge 0x4068 then Suc (polls t) else polls t)"
| "polls (PciWrite w a v # t) = polls t"

text \<open>What the bring-up does to the driver: the trace grows, and nothing is selected.\<close>

definition link_within :: "pci_bus \<Rightarrow> pci \<Rightarrow> nat \<Rightarrow> bool" where
  "link_within d s n \<longleftrightarrow> (\<forall>t. pauses (pci_trace s) + n \<le> pauses t \<longrightarrow> link_up (d t 4 (bridge 0x4068)))"

lemma read_word: "take_bit 32 (x :: u32) = x"
  by (simp add: take_bit_word_eq_self)

lemma reset_bridge_reads:
  "after_reads s (reset_bridge d s)" "pauses (pci_trace (reset_bridge d s)) = Suc (pauses (pci_trace s))"
  "polls (pci_trace (reset_bridge d s)) = polls (pci_trace s)"
proof -
  have "bridge 0x9210 \<noteq> bridge 0x9000" "bridge 0x4314 \<noteq> bridge 0x9000" "bridge 0x4310 \<noteq> bridge 0x9000"
    "bridge 0x9210 \<noteq> bridge 0x4068" "bridge 0x406C \<noteq> bridge 0x4068" by (simp_all add: bridge_def)
  then show "after_reads s (reset_bridge d s)" "pauses (pci_trace (reset_bridge d s)) = Suc (pauses (pci_trace s))"
    "polls (pci_trace (reset_bridge d s)) = polls (pci_trace s)"
    by (simp_all add: after_reads_iff reset_bridge_def pci_get_def pci_put_def pci_pause_def Let_def)
qed

lemma poll_reads:
  "after_reads s (snd (pci_get d 4 (bridge 0x4068) (pci_pause 1000 s)))"
  "polls (pci_trace (snd (pci_get d 4 (bridge 0x4068) (pci_pause 1000 s)))) = Suc (polls (pci_trace s))"
  by (simp_all add: after_reads_iff pci_get_def pci_pause_def Let_def)

lemma await_link_reads: "after_reads s (snd (await_link d n status s))"
  by (induction n arbitrary: status s) (auto simp: case_prod_beta Let_def intro: after_reads_trans [OF poll_reads(1)])

lemma await_link_polls: "polls (pci_trace (snd (await_link d n status s))) \<le> polls (pci_trace s) + n"
proof (induction n arbitrary: status s)
  case (Suc n)
  obtain v s' where g: "pci_get d 4 (bridge 0x4068) (pci_pause 1000 s) = (v, s')" by fastforce
  then have "polls (pci_trace s') = Suc (polls (pci_trace s))" using poll_reads(2) [of d s] by simp
  then show ?case using Suc.IH [of v s'] g by simp
qed simp

lemma await_link_up:
  assumes "\<And>t. p \<le> pauses t \<Longrightarrow> link_up (d t 4 (bridge 0x4068))"
    and "p \<le> pauses (pci_trace s) \<Longrightarrow> link_up status" and "p \<le> pauses (pci_trace s) + n"
  shows "link_up (fst (await_link d n status s))"
  using assms(2,3)
proof (induction n arbitrary: status s)
  case (Suc n)
  obtain v s' where g: "pci_get d 4 (bridge 0x4068) (pci_pause 1000 s) = (v, s')" by fastforce
  have "v = d (PciPause 1000 # pci_trace s) 4 (bridge 0x4068)" "pauses (pci_trace s') = Suc (pauses (pci_trace s))"
    using g by (auto simp: pci_get_def pci_pause_def Let_def read_word)
  then show ?case using Suc.IH [of s' v] Suc.prems assms(1) [of "PciPause 1000 # pci_trace s"] g by auto
qed auto

lemma set_class_reads: "after_reads s (set_class d s)"
proof -
  have "bridge 0x043C \<noteq> bridge 0x9000" by (simp add: bridge_def)
  then show ?thesis by (simp add: after_reads_iff set_class_def pci_get_def pci_put_def Let_def)
qed

lemma set_window_reads: "after_reads s (set_window s)"
proof -
  have "bridge 0x4010 \<noteq> bridge 0x9000" "bridge 0x400C \<noteq> bridge 0x9000" "bridge 0x4070 \<noteq> bridge 0x9000" "bridge 0x4080 \<noteq> bridge 0x9000"
    "bridge 0x4084 \<noteq> bridge 0x9000" by (simp_all add: bridge_def)
  then show ?thesis by (simp add: after_reads_iff set_window_def pci_put_def Let_def)
qed

lemma get_reads: "after_reads s (snd (pci_get d w a s))"
  by (simp add: after_reads_iff pci_get_def Let_def)

lemma put_reads: "a \<noteq> bridge 0x9000 \<Longrightarrow> after_reads s (pci_put w a v s)"
  by (simp add: after_reads_iff pci_put_def)

text \<open>What the bring-up does whatever the bridge answers.\<close>

lemma platform_outcome:
  assumes "init_platform_stub d s = (ok, s')"
  shows "if ok then \<exists>s0. after_reads s s0 \<and> s' = s0\<lparr>g_initialized := True\<rparr> else after_reads s s'"
proof -
  obtain st s2 where g: "pci_get d 4 (bridge 0x4068) (reset_bridge d s) = (st, s2)" by fastforce
  obtain st' s3 where a: "await_link d 100 st s2 = (st', s3)" by fastforce
  have r3: "after_reads s s3"
    using reset_bridge_reads(1) [of s d] get_reads [of "reset_bridge d s" d 4 "bridge 0x4068"] await_link_reads [of s2 d 100 st] g a
    by (auto intro: after_reads_trans)
  obtain vid s4 where v: "pci_get d 2 (bridge 0) (set_window (set_class d s3)) = (vid, s4)" by fastforce
  have r4: "after_reads s s4"
    using r3 set_class_reads [of s3 d] set_window_reads [of "set_class d s3"] get_reads [of "set_window (set_class d s3)" d 2 "bridge 0"] v
    by (auto intro: after_reads_trans)
  have "bridge 0x18 \<noteq> bridge 0x9000" "bridge 0x19 \<noteq> bridge 0x9000" by (simp_all add: bridge_def)
  then have r5: "after_reads s (pci_put 1 (bridge 0x19) 1 (pci_put 1 (bridge 0x18) 1 s4))"
    by (intro after_reads_trans [OF after_reads_trans [OF r4 put_reads] put_reads])
  show ?thesis using assms r3 r4 r5 g a v by (auto simp: init_platform_stub_def Let_def split: if_splits)
qed

lemma platform_ready:
  assumes "bus_behind d root functions" and "hdr_vendor root = 0x14E4" and "link_within d s n" and "n \<le> 101"
  shows "fst (init_platform_stub d s)"
proof -
  obtain st s2 where g: "pci_get d 4 (bridge 0x4068) (reset_bridge d s) = (st, s2)" by fastforce
  then have st: "st = d (pci_trace (reset_bridge d s)) 4 (bridge 0x4068)" and p: "pauses (pci_trace s2) = Suc (pauses (pci_trace s))"
    using reset_bridge_reads(2) [of d s] by (auto simp: pci_get_def Let_def read_word)
  have "link_up (fst (await_link d 100 st s2))"
    using await_link_up [of "pauses (pci_trace s) + n" d s2 st 100] assms(3,4) st p reset_bridge_reads(2) [of d s]
    by (simp add: link_within_def)
  moreover have "fst (pci_get d 2 (bridge 0) u) = 0x14E4" for u
  proof -
    have "d (pci_trace u) 2 (bridge 0) = 0x14E4" using assms(1,2) by (simp add: bus_behind_def presents_def)
    moreover have "take_bit 16 (0x14E4 :: u32) = 0x14E4" by simp
    ultimately show ?thesis by (simp only: pci_get_def Let_def fst_conv) simp
  qed
  ultimately show ?thesis using g by (simp add: init_platform_stub_def case_prod_beta Let_def)
qed

section \<open>The driver\<close>

text \<open>
  C27: When the link comes up within the tries of the driver, \<^verbatim>\<open>PCIe::initialize\<close> succeeds and has listed the bridge and then
  exactly the functions of the device behind it, in order and with their identities: none without function 0, only
  that one when it does not say that there are others, and otherwise each that is present.
\<close>

theorem functions_are_listed:
  assumes "bus_behind d root functions" and "hdr_vendor root = 0x14E4" and "link_within d s n" and "n \<le> 101"
    and "synced s" and "\<not> pci_initialized s"
  shows "\<exists>s'. initialize d s = (PCIE_SUCCESS, s') \<and> pci_initialized s' \<and>
     pci_devices s' = pci_devices s @ info_of 0 root # listed functions"
proof -
  obtain s1 where p: "init_platform_stub d s = (True, s1)" using platform_ready [OF assms(1-4)] by (cases "init_platform_stub d s") auto
  obtain s0 where s0: "after_reads s s0" "s1 = s0\<lparr>g_initialized := True\<rparr>" using platform_outcome [OF p] by auto
  have k1: "synced s1" "pci_devices s1 = pci_devices s" "g_initialized s1"
    using after_reads_keeps [OF s0(1)] assms(5) s0(2) by (simp_all add: synced_def)
  have c: "Configuration 0 u = (bridge 0, u)" for u by (simp add: Configuration_def)
  note root = behind_root [OF assms(1)]
  obtain s2 where s2: "pci_vendor_id d (bridge 0) s1 = (0x14E4, s2)" "after_reads s1 s2" using read_ids(1) [OF root, of s1] assms(2) by auto
  obtain s3 where s3: "pci_vendor_id d (bridge 0) s2 = (0x14E4, s3)" "after_reads s2 s3" using read_ids(1) [OF root, of s2] assms(2) by auto
  obtain s4 where s4: "pci_device_id d (bridge 0) s3 = (hdr_device root, s4)" "after_reads s3 s4" using read_ids(2) [OF root] by blast
  obtain s5 where s5: "pci_class_code d (bridge 0) s4 = (drop_bit 8 (hdr_class root), s5)" "after_reads s4 s5" using read_ids(3) [OF root] by blast
  have r: "after_reads s1 s5" using s2(2) s3(2) s4(2) s5(2) by (blast intro: after_reads_trans)
  let ?s5 = "add_device (info_of 0 root) s5"
  have y: "synced ?s5" "pci_devices ?s5 = pci_devices s @ [info_of 0 root]"
    using k1 after_reads_keeps [OF r] by (simp_all add: add_device_def synced_def)
  have "add_root d s2 = ?s5" using s3 s4 s5 assms(2) c by (simp add: add_root_def info_of_def)
  then have "initialize d s = (PCIE_SUCCESS, (scan_bus d 1 ?s5)\<lparr>pci_initialized := True\<rparr>)"
    using p k1(3) s2(1) c assms(6) by (simp add: initialize_def)
  then show ?thesis using scan_bus_listed [OF assms(1) y(1)] y(2) by simp
qed

definition example_root :: header where
  "example_root = \<lparr>hdr_vendor = 0x14E4, hdr_device = 0x2711, hdr_class = 0x06040000, hdr_type = 0\<rparr>"

definition example_function :: header where
  "example_function = \<lparr>hdr_vendor = 0x1106, hdr_device = 0x3483, hdr_class = 0x0C033001, hdr_type = 0\<rparr>"

theorem functions_are_listed_witness:
  "\<exists>s'. initialize example_bridge cold_pci = (PCIE_SUCCESS, s') \<and>
     pci_devices s' = [\<lparr>Address = 0, VendorId = 0x14E4, DeviceId = 0x2711, info_ClassCode = 0x060400\<rparr>,
       \<lparr>Address = 0x100000, VendorId = 0x1106, DeviceId = 0x3483, info_ClassCode = 0x0C0330\<rparr>]"
proof -
  have b: "bus_behind example_bridge example_root (\<lambda>a. example_function)"
    by (simp add: bus_behind_def presents_def example_bridge_def example_root_def example_function_def bridge_def)
  have "link_within example_bridge cold_pci 0"
    by (simp add: link_within_def example_bridge_def bridge_def link_up_def)
  then show ?thesis using functions_are_listed [OF b, of cold_pci 0]
    by (auto simp: cold_pci_def synced_def listed_def present_def info_of_def DeviceAddress_def example_root_def example_function_def)
qed

text \<open>Without a link the driver gives up, after at most 101 reads of the status.\<close>

lemma await_link_down:
  assumes "\<And>t. \<not> link_up (d t 4 (bridge 0x4068))" and "\<not> link_up status"
  shows "\<not> link_up (fst (await_link d n status s))"
  using assms(2) by (induction n arbitrary: status s) (auto simp: case_prod_beta Let_def pci_get_def read_word assms(1))

lemma no_link_no_bridge:
  assumes "\<And>t. \<not> link_up (d t 4 (bridge 0x4068))" and "\<not> pci_initialized s"
  shows "fst (initialize d s) = HARDWARE_ERROR" and "polls (pci_trace (snd (initialize d s))) \<le> polls (pci_trace s) + 101"
proof -
  obtain st s2 where g: "pci_get d 4 (bridge 0x4068) (reset_bridge d s) = (st, s2)" by fastforce
  then have st: "\<not> link_up st" "polls (pci_trace s2) = Suc (polls (pci_trace s))"
    using assms(1) reset_bridge_reads(3) [of d s] by (auto simp: pci_get_def Let_def read_word)
  have "init_platform_stub d s = (False, snd (await_link d 100 st s2))"
    using g await_link_down [of d, OF assms(1) st(1), of 100 s2] by (simp add: init_platform_stub_def case_prod_beta Let_def)
  then have "initialize d s = (HARDWARE_ERROR, snd (await_link d 100 st s2))" using assms(2) by (simp add: initialize_def)
  then show "fst (initialize d s) = HARDWARE_ERROR" "polls (pci_trace (snd (initialize d s))) \<le> polls (pci_trace s) + 101"
    using await_link_polls [of d 100 st s2] st(2) by simp_all
qed

text \<open>When it fails, nothing was listed and the driver is as it was, so that it can be started again.\<close>

lemma failed_initialize_changes_nothing:
  assumes "initialize d s = (e, s')" and "e \<noteq> PCIE_SUCCESS"
  shows "(e = HARDWARE_ERROR \<or> e = DEVICE_NOT_FOUND) \<and> \<not> pci_initialized s' \<and> pci_devices s' = pci_devices s \<and>
     lastAddress s' = lastAddress s \<and> (synced s \<longrightarrow> synced s') \<and> (g_initialized s' \<longrightarrow> g_initialized s)"
proof -
  obtain ok s1 where p: "init_platform_stub d s = (ok, s1)" by fastforce
  have c: "Configuration 0 u = (bridge 0, u)" for u by (simp add: Configuration_def)
  have v: "after_reads u (snd (pci_vendor_id d (bridge 0) u))" for u
    by (simp add: pci_vendor_id_def read_register_config Let_def after_reads_iff)
  note k = after_reads_keeps [OF v] synced_def cleanup_platform_stub_def
  show ?thesis
  proof (cases ok)
    case True
    then obtain s0 where s0: "after_reads s s0" "s1 = s0\<lparr>g_initialized := True\<rparr>" using platform_outcome [OF p] by auto
    then show ?thesis using assms True after_reads_keeps [OF s0(1)]
      by (auto simp: initialize_def p c k case_prod_beta split: if_splits)
  next
    case False
    then show ?thesis using assms platform_outcome [OF p] by (auto simp: initialize_def p after_reads_keeps split: if_splits)
  qed
qed

definition dead_bus :: pci_bus where
  "dead_bus t w a = 0"

lemma failed_initialize_changes_nothing_witness:
  "\<exists>s'. initialize dead_bus cold_pci = (HARDWARE_ERROR, s') \<and> pci_devices s' = [] \<and> synced s' \<and> \<not> g_initialized s'"
proof -
  have "fst (initialize dead_bus cold_pci) = HARDWARE_ERROR"
    by (rule no_link_no_bridge) (simp_all add: dead_bus_def link_up_def cold_pci_def)
  then obtain s' where "initialize dead_bus cold_pci = (HARDWARE_ERROR, s')" by (metis prod.collapse)
  with failed_initialize_changes_nothing [OF this] show ?thesis by (auto simp: cold_pci_def synced_def)
qed

section \<open>Searching the list\<close>

text \<open>What is found by vendor and device is what is found by vendor and then by device, and a mask of zero finds all.\<close>

lemma find_devices_refines: "find_devices vendor (Some did) s = filter (\<lambda>info. DeviceId info = did) (find_devices vendor None s)"
  by (simp add: find_devices_def conj_commute)

lemma find_all_classes: "find_devices_by_class c 0 s = pci_devices s"
  by (simp add: find_devices_by_class_def)

end
