(* ===== verification/Spec2Isabelle.thy ===== *)
theory Spec2Isabelle
  imports Circular_Fifo Mmu_Correctness Crt Interrupts Stdio Framebuffer Gpio Keyboard Gamepad Device_Tree Loader Usb_Tree Usb_Driver Sd_Correctness
    Channel_Transfers Channel_Pool Core_Start Pcie_Devices "HOL-Library.Code_Target_Nat"
begin

text \<open>
  Verification of a bare-metal kernel for the Raspberry Pi 3 and 4, the C++ sources under \<^verbatim>\<open>src/src\<close>.

  \<^bold>\<open>The program.\<close> The boot code enters the kernel, which sets up page tables, a global heap, the console,
  interrupts and a timer, and then runs sparks (small continuations) and threads on each core. Pages
  come from two pool allocators, one for virtual and one for physical pages; the heap takes its blocks
  from the pages and hands out memory with further pool allocators; the C runtime's \<^verbatim>\<open>malloc\<close> and \<^verbatim>\<open>new\<close> call
  the heap. A timer interrupt reaches the interrupt dispatcher, which calls the timer's handler; the
  handler queues the sparks of due timers on the core and returns the next one to run. Text goes
  through the format routines to the console. The framebuffer talks to the firmware through the
  property mailbox. The USB driver keeps tables of devices, hubs and HID entries; it enumerates the tree of hubs by control
  messages over a host controller, watches the ports for changes and transfers reports, and keyboard and gamepad
  keep the state of the last of them. On the Raspberry Pi 3 the host controller is started by its core, hands out its
  channels to callers on all cores, and each channel runs the packets of one transfer as a coroutine that its interrupt
  resumes. Disk blocks come from the SD card. On the Raspberry Pi 4 devices sit behind a PCIe bridge.

  \<^bold>\<open>Conventions.\<close> A C++ struct is a record, an enum a datatype. Integers of a fixed width are words where bits or
  wrap-around matter, and naturals with the wrap-around written out in the allocators. A halt, a panic
  or undefined behaviour is the left side of a result (\<open>Panic\<close>, \<open>Undefined\<close>, \<open>Diverges\<close>). A loop that may not
  end is a partial function with \<open>None\<close> for not ending, or has fuel; the theorems show that the result is
  there. What a device, another core or the firmware does is an argument: register reads are
  functions from the number of the read to the value, other cores change pool words between the
  atomic accesses, the firmware is a function on the words of a message, the USB bus answers each transfer as a
  function of everything that happened on it before. The SD card and the USB host controller are devices whose registers
  read as a function of the whole trace of reads, writes and delays; a wait of a coroutine is an event of that trace.

  \<^bold>\<open>Theories and sources.\<close>
  \<^item> \<open>Prelude\<close>: results, 32-bit arithmetic, bits of 64-bit words, powers of two.
  \<^item> \<open>Circular_Fifo\<close>, \<open>Bit_Search\<close>, \<open>Pool_Allocator\<close> (\<^verbatim>\<open>Containers.h\<close>): the ring buffer, the searches for runs of
    zero bits, and the lock-free pool with its two bitmaps. Fuel bounds the retries of a contended
    allocation; on one core the number of words plus one is enough. \<open>Pool_Correctness\<close> has the first-fit
    search, \<open>Pool_Blocks\<close> blocks and their disjointness, \<open>Block_Interface\<close> the locale that the clients of a pool
    use, interpreted on the pool.
  \<^item> \<open>Heap\<close> (\<^verbatim>\<open>Heap.cpp\<close>): blocks of pages with a pool each, over a page source.
  \<^item> \<open>Mmu\<close> (\<^verbatim>\<open>Mmu.cpp\<close>): descriptors, the static tables of both boards, mapping and committing pages; the table
    walk of the architecture is the abstract view. \<open>Mmu_Correctness\<close> has the invariant of the tables and the
    refinement of the walk.
  \<^item> \<open>Memory\<close>, \<open>Crt\<close> (\<^verbatim>\<open>Crt.cpp\<close>): byte-addressed memory; block and string routines; the global heap.
  \<^item> \<open>Cpu_Time\<close> (\<^verbatim>\<open>BootLib/Cpu.h\<close>, \<^verbatim>\<open>BootLib/Cpu.cpp\<close>): counter times, their order, delays.
  \<^item> \<open>Scheduler\<close> (\<^verbatim>\<open>Scheduler.cpp\<close>), \<open>Timer\<close> (\<^verbatim>\<open>Timer.cpp\<close>): per-core spark queues and timer slots. \<open>Timer_Correctness\<close> has
    the step relation of a core, the invariant that no spark is lost, and that due timers are served.
  \<^item> \<open>Interrupts\<close> (\<^verbatim>\<open>Interrupts.cpp\<close>): the dispatchers of both boards and the enables.
  \<^item> \<open>Stdio\<close> (\<^verbatim>\<open>emb-stdio.cpp\<close>): the format parser and all conversions, over the locale of a character sink that the
    console and the bounded buffer interpret.
  \<^item> \<open>Uart\<close> (\<^verbatim>\<open>Uart.cpp\<close>): the serial device, number printers and the locked stream.
  \<^item> \<open>Mailbox\<close> (\<^verbatim>\<open>Mailbox.cpp\<close>, \<^verbatim>\<open>Mailbox.h\<close>): the register protocol and the property messages.
  \<^item> \<open>Drawing\<close>, \<open>Framebuffer\<close> (\<^verbatim>\<open>Framebuffer.cpp\<close>): pixels, spans and rectangles; initialisation and page flip.
  \<^item> \<open>Gpio\<close> (\<^verbatim>\<open>Gpio.cpp\<close>): pin functions, detection and pull resistors.
  \<^item> \<open>Keyboard\<close> (\<^verbatim>\<open>Keyboard.cpp\<close>), \<open>Gamepad\<close> (\<^verbatim>\<open>Gamepad.cpp\<close>): report decoding and queries.
  \<^item> \<open>Usb_Spec\<close> (\<^verbatim>\<open>UsbSpec.h\<close>), \<open>Usb_Control\<close>, \<open>Usb_Tables\<close>, \<open>Usb_Enumeration\<close> (\<^verbatim>\<open>UsbDevices.cpp\<close>), \<open>Usb_Hid\<close> (\<^verbatim>\<open>HidUsbDevices.cpp\<close>):
    descriptors; control messages, descriptors and strings read from the bus; the tables, allocation and
    endpoint transfers; enumeration, ports and hubs; reports. Pointers into the tables are indices. Fuel bounds the depth of hubs (33 is
    more than the 32 devices of the table) and the rounds of the walk over a configuration (1024, the bytes of its buffer).
    \<open>Usb_Transfers\<close> has what the control layer does on the bus, \<open>Usb_Tree\<close> the forest of hubs and the locale of freeing a
    subtree, interpreted on the deallocation, \<open>Usb_Typing\<close> the shape of the tables and the step relation of the
    driver, \<open>Usb_Config\<close> the reading of a configuration, \<open>Usb_Driver\<close> the properties of whole runs.
  \<^item> \<open>Register_Bus\<close> (\<^verbatim>\<open>BootLib/RegisterProxy.h\<close>): registers of a device as a trace, and fields of registers.
  \<^item> \<open>Sd_Card\<close> (\<^verbatim>\<open>SdCard.cpp\<close>): commands, clock, set-up and reading of blocks. \<open>Sd_Correctness\<close> has the protocol of a card as
    named hypotheses and what \<^verbatim>\<open>ReadBlock\<close> delivers.
  \<^item> \<open>Usb_Channel\<close> (\<^verbatim>\<open>DesignWareUsbChannel.cpp\<close>): a channel, its interrupt handler and its transfers; \<open>Channel_Transfers\<close>
    shows that they return and stay inside the buffers. \<open>Usb_Host\<close> (\<^verbatim>\<open>DesignWareUsbHost.cpp\<close>): the start of the host and its
    interrupts; \<open>Channel_Pool\<close>: the reservation of channels as single accesses of concurrent callers. \<open>Usb_Core\<close>
    (\<^verbatim>\<open>DesignWareUsb.cpp\<close>): power, resets, start and interrupt handler; \<open>Core_Start\<close> shows that the waits end and that a failed
    start is silent. Addresses in these theories are relative to the registers of the core.
  \<^item> \<open>Pcie\<close> (\<^verbatim>\<open>PCIe.cpp\<close>): the bring-up of the bridge, configuration space, base address registers, capabilities and the list
    of devices; \<open>Pcie_Correctness\<close> has base address registers that keep what they decode, \<open>Pcie_Devices\<close> a bridge with its
    functions. The walk over the capabilities may not end, the wait for the link has its hundred tries.
  \<^item> \<open>Device_Tree\<close> (\<^verbatim>\<open>DeviceTree.cpp\<close>): the walk over the flattened device tree.
  \<^item> \<open>Loader\<close> (\<^verbatim>\<open>KernelLoader/Main.cpp\<close>, \<^verbatim>\<open>BootLib\<close>): the serial kernel loader, and the set-up of the serial device.

  \<^bold>\<open>What the theorems show.\<close> The pool is a first-fit allocator whose live blocks are disjoint, freeing undoes
  allocating, and wrong frees panic (C1 to C4); committed pages are mapped to
  private memory and the aperture stays an identity (C8, C9); heap allocations are fresh and freeing
  removes them (C11, C12); due timers are queued in order, the hardware is armed for the earliest, no spark is lost and due
  ones are served (C13, C15 to C17); block routines equal byte-wise specifications (C23); formatted output denotes its
  numbers, and the bounded buffer truncates the console's text (C25, C26); property calls return the
  firmware's answers (C31); word-wise drawing equals pixel-wise
  drawing and a flip protects the shown half (C33, C34); keys follow reports (C37);
  the device tree is reported as it is (C40); the kernel loader loads what the server sends (C28). For the USB driver:
  deallocation frees exactly a subtree of hubs (C6); every run keeps the tables well-formed, numbers lead back to their
  devices, and interrupt reads stay inside the tables (C7, C36, C38); the tables show the configuration that a device sent (C10);
  a control message succeeds exactly with its three phases (C22); interrupt packets alternate (C30); a port reset is
  bounded and proved by the hub's answer (C32). For the host controller: transfers return when the device answers and counts
  down (C29) and stay inside the buffers (C21); an interrupt resumes the coroutines of the flagged channels (C19);
  channels are exclusive and a lone caller gets one (C14, C24); resets and flushes end, and a failed start is silent
  (C20, C18). For the SD card: reads deliver the blocks that were asked for and never more (C39, C5). For PCIe: the functions behind the
  bridge are listed (C27), and a base address register is found with its size, restored and mapped (C35). Further theorems, without
  a number, show that signed numbers can be read back, that pin settings are independent, that a failed start of PCIe changes
  nothing, that the order of counter values survives wrap-around, that delays end, that interrupts reach the timer or
  panic, what the number printers and the string routines compute, and how sticks are decoded.

  \<^bold>\<open>Not modelled.\<close> The vendored C++ library headers; the controller of the Raspberry Pi 4 (\<^verbatim>\<open>UsbXhci.cpp\<close>);
  the machinery of C++ coroutines (\<^verbatim>\<open>Async.h\<close>); the printing of the USB tree; \<^verbatim>\<open>Exception.cpp\<close> and \<^verbatim>\<open>Debugger.cpp\<close>, which print; system register writes, barriers and cache maintenance;
  the assembly start-up; \<^verbatim>\<open>Main.cpp\<close> and \<^verbatim>\<open>Run.cpp\<close>, which are sequences of calls and demonstrations.
\<close>

section \<open>The pool allocator\<close>

lemma is_pow2_1: "is_pow2 1"
  unfolding is_pow2_def by (rule exI [of _ 0]) simp

text \<open>
  C1: on one core \<^verbatim>\<open>PoolAllocator::Allocate\<close> always returns when its fuel exceeds the number of words,
  keeps the invariant of the two bitmaps, and is a first-fit search: it returns the lowest
  aligned run of free units and marks exactly that run as a new block, and it returns
  \<^verbatim>\<open>UINT32_MAX\<close>, with the pool unchanged, only when no aligned run of free units exists.
\<close>

theorem allocate_first_fit:
  assumes "pool_ok PoolSize ws" and "PoolSize \<le> 4294967232" and "WordCount PoolSize < fuel"
    and "0 < cnt" and "cnt \<le> 4294967232" and "is_pow2 alignment" and "alignment \<le> 2147483648"
  shows "\<exists>r t' ws'. Allocate fuel quiet PoolSize cnt alignment (t, ws) = Inr (r, t', ws') \<and>
    pool_ok PoolSize ws' \<and>
    (if r = UINT32_MAX then ws' = ws \<and> (\<forall>p. \<not> fits ws cnt alignment p)
     else fits ws cnt alignment r \<and> (\<forall>p<r. \<not> fits ws cnt alignment p) \<and>
       marked ws r cnt ws' \<and> block ws' r cnt)"
proof -
  have len: "length ws = WordCount PoolSize" and sb: "starts_in_bitmap ws"
    using assms(1) by (simp_all add: pool_ok_def)
  obtain r t' ws' where r: "Allocate fuel quiet PoolSize cnt alignment (t, ws) = Inr (r, t', ws')"
      "alloc_result ws cnt alignment r ws'"
    using Allocate_quiet [OF assms(6,7,4,5) sb assms(2) len, of fuel t] assms(3) len by auto
  show ?thesis
  proof (cases "r = UINT32_MAX")
    case True
    with r assms(1) show ?thesis by (auto simp: alloc_result_def)
  next
    case False
    then have "fits ws cnt alignment r" "marked ws r cnt ws'" using r(2) by (auto simp: alloc_result_def)
    with pool_ok_marked [OF assms(1,2) this(1) assms(4) this(2)] r False show ?thesis
      by (auto simp: alloc_result_def)
  qed
qed

theorem allocate_first_fit_witness:
  "\<exists>r t' ws'. Allocate 4 quiet 128 70 1 (0, PoolAllocator 128) = Inr (r, t', ws') \<and> pool_ok 128 ws' \<and>
    (if r = UINT32_MAX then ws' = PoolAllocator 128 \<and> (\<forall>p. \<not> fits (PoolAllocator 128) 70 1 p)
     else fits (PoolAllocator 128) 70 1 r \<and> (\<forall>p<r. \<not> fits (PoolAllocator 128) 70 1 p) \<and>
       marked (PoolAllocator 128) r 70 ws' \<and> block ws' r 70)"
  by (rule allocate_first_fit) (simp_all add: pool_ok_new WordCount_def is_pow2_1 del: One_nat_def)



text \<open>
  C3: deallocating what was just allocated restores the words of the pool exactly, and the size
  read back for the block is the size that was asked for.
\<close>

theorem deallocate_undoes_allocate:
  assumes "pool_ok PoolSize ws" and "PoolSize \<le> 4294967232"
    and "0 < cnt" and "cnt \<le> 4294967232" and "is_pow2 alignment" and "alignment \<le> 2147483648"
    and "pool_alloc PoolSize cnt alignment ws = Inr (r, ws')" and "r \<noteq> UINT32_MAX"
  shows "pool_size_of PoolSize r ws' = Inr cnt \<and> pool_free PoolSize r ws' = Inr ws"
  using pool.free_after_alloc [of PoolSize ws cnt alignment r ws'] assms by (simp add: pool_invar_def)

theorem deallocate_undoes_allocate_witness:
  "pool_size_of 192 0 [\<lparr>bitmap = -1, starts = 1\<rparr>, \<lparr>bitmap = 63, starts = 0\<rparr>, empty_word] = Inr 70 \<and>
   pool_free 192 0 [\<lparr>bitmap = -1, starts = 1\<rparr>, \<lparr>bitmap = 63, starts = 0\<rparr>, empty_word] =
     Inr (PoolAllocator 192)"
proof -
  have "pool_alloc 192 70 1 (PoolAllocator 192) =
      Inr (0, [\<lparr>bitmap = -1, starts = 1\<rparr>, \<lparr>bitmap = 63, starts = 0\<rparr>, empty_word])" by code_simp
  then show ?thesis
    by (intro deallocate_undoes_allocate [of 192 "PoolAllocator 192" 70 1])
      (simp_all add: pool_ok_new is_pow2_1 del: One_nat_def)
qed

text \<open>
  C4: deallocating a block twice, or a unit that starts no block, panics instead of corrupting
  the pool.
\<close>

theorem deallocate_unallocated_panics:
  assumes "pool_ok PoolSize ws" and "PoolSize \<le> 4294967232"
  shows "(block_map PoolSize ws s = None \<longrightarrow> (\<exists>msg. pool_free PoolSize s ws = Inl (Panic msg))) \<and>
    (pool_free PoolSize s ws = Inr ws' \<longrightarrow> (\<exists>msg. pool_free PoolSize s ws' = Inl (Panic msg)))"
  using pool.free_bad [of PoolSize ws s] pool.double_free_panics [of PoolSize ws s ws'] assms
  by (simp add: pool_invar_def)

theorem deallocate_unallocated_panics_witness:
  "\<exists>msg. pool_free 64 3 (PoolAllocator 64) = Inl (Panic msg)"
  using deallocate_unallocated_panics [of 64 "PoolAllocator 64" 3] pool_ok_new [of 64]
  by (simp add: block_map_def sbit_def PoolAllocator_def WordCount_def empty_word_def)

text \<open>
  A multi-word allocation that loses a race is not undone completely. With another core
  taking the second word between the search and the commit, the attempt to allocate 128 units
  reports that it must be retried and leaves unit 63 marked as allocated without a start, so it
  can never be deallocated: the mask of the undo is built from the signed maximum.
\<close>

definition other_core :: interference where
  "other_core n ws = (if n = 3 then ws[1 := \<lparr>bitmap = 1, starts = 1\<rparr>] else ws)"

theorem contended_undo_leaks_a_unit:
  "AllocateInternal 5 other_core 192 0 128 1 (0, PoolAllocator 192) =
     Inr ((0, False), 5, [\<lparr>bitmap = 0x8000000000000000, starts = 0\<rparr>, \<lparr>bitmap = 1, starts = 1\<rparr>, empty_word]) \<and>
   \<not> pool_ok 192 [\<lparr>bitmap = 0x8000000000000000, starts = 0\<rparr>, \<lparr>bitmap = 1, starts = 1\<rparr>, empty_word]"
proof
  show "AllocateInternal 5 other_core 192 0 128 1 (0, PoolAllocator 192) =
     Inr ((0, False), 5, [\<lparr>bitmap = 0x8000000000000000, starts = 0\<rparr>, \<lparr>bitmap = 1, starts = 1\<rparr>, empty_word])"
    by code_simp
  let ?ws = "[\<lparr>bitmap = 0x8000000000000000, starts = 0\<rparr>, \<lparr>bitmap = 1, starts = 1\<rparr>, empty_word]"
  have "ubit ?ws 63" "\<not> sbit ?ws 63" "\<not> ubit ?ws 62" by code_simp+
  then show "\<not> pool_ok 192 ?ws" by (auto simp: pool_ok_def units_def intro!: exI [of _ 63])
qed

section \<open>Searching a word\<close>

text \<open>
  \<^verbatim>\<open>FindConsecutiveZerosAligned\<close> returns the lowest position, at the requested power-of-two
  alignment, from which the next \<open>N\<close> bits are clear (bits past the word count as clear), or 64
  when there is none, for every word that has a clear bit.
\<close>

theorem aligned_search_finds_lowest:
  assumes "0 < N" and "data \<noteq> -1" and "is_pow2 a" and "a \<le> 2147483648"
  shows "\<exists>p. FindConsecutiveZerosAligned data N a = Inr p \<and> first_zeros data N a p"
  using assms by (rule FindConsecutiveZerosAligned_correct)

theorem aligned_search_finds_lowest_witness:
  "\<exists>p. FindConsecutiveZerosAligned 5 2 1 = Inr p \<and> first_zeros 5 2 1 p"
  by (rule aligned_search_finds_lowest) (simp_all add: is_pow2_1 del: One_nat_def)

section \<open>The ring buffer\<close>

text \<open>
  Items pushed into an empty ring buffer that has room for them come out in the order they
  were pushed, and the ring is empty afterwards.
\<close>

theorem fifo_order:
  assumes "fifo_ok q" and "fifo_list q = []" and "length xs \<le> fifo_room q"
  shows "\<exists>q1 q2. push_all Push q xs = Inr q1 \<and> pop_many Pop (length xs) q1 = Inr (xs, q2) \<and> IsEmpty q2"
  using assms by (rule ring.pop_after_push_all)

theorem fifo_order_witness:
  "\<exists>q1 q2. push_all Push (new_fifo [0, 0, 0, 0 :: nat]) [7, 8, 9] = Inr q1 \<and>
     pop_many Pop (length [7, 8, 9 :: nat]) q1 = Inr ([7, 8, 9], q2) \<and> IsEmpty q2"
  by (rule fifo_order) (simp_all add: fifo_room_def new_fifo_def fifo_ok_def capacity_def fifo_list_def fifo_size_def)

section \<open>The address space\<close>

text \<open>
  C8: \<^verbatim>\<open>AllocateAndCommitPages\<close>, when enough pages are free, returns a page-aligned range of the virtual
  window every byte of which the table walk maps into the 256 MB of managed physical memory; all
  other addresses of the window translate as before, no two addresses of the window share a
  physical byte, and the invariant of the page tables is kept.
\<close>

theorem committed_pages_are_mapped:
  assumes "mmu_inv m A" and "mmu_avail n m" and "0 < n"
  shows "\<exists>va m' A'. AllocateAndCommitPages n m = Inr (va, m') \<and> mmu_inv m' A' \<and> 4096 dvd va \<and>
    0x100000000 \<le> va \<and> va + 4096 * n \<le> 0x140000000 \<and>
    (\<forall>x. va \<le> x \<and> x < va + 4096 * n \<longrightarrow>
      (\<exists>pa. translate m' x = Some pa \<and> 0x20000000 \<le> pa \<and> pa < 0x30000000)) \<and>
    (\<forall>x. 0x100000000 \<le> x \<and> x < 0x140000000 \<and> \<not> (va \<le> x \<and> x < va + 4096 * n) \<longrightarrow>
      translate m' x = translate m x) \<and>
    (\<forall>x y pa. 0x100000000 \<le> x \<and> x < 0x140000000 \<and> 0x100000000 \<le> y \<and> y < 0x140000000 \<and>
      translate m' x = Some pa \<and> translate m' y = Some pa \<longrightarrow> x = y)"
proof -
  obtain s m' A' where s: "AllocateAndCommitPages n m = Inr (VirtualMemoryAllocatorOffset + 4096 * s, m')"
      "s + n \<le> 262144" and inv: "mmu_inv m' A'"
    and lv: "\<And>v. if s \<le> v \<and> v < s + n then leaves A' v \<noteq> None else leaves A' v = leaves A v"
    by (rule AllocateAndCommitPages_commits [OF assms]) blast
  let ?va = "VirtualMemoryAllocatorOffset + 4096 * s"
  have mapped: "\<exists>pa. translate m' x = Some pa \<and> 0x20000000 \<le> pa \<and> pa < 0x30000000"
    if "?va \<le> x" "x < ?va + 4096 * n" for x
  proof (rule translate_in_ram [OF inv])
    show x: "4294967296 \<le> x" "x < 5368709120" using that s(2) by simp_all
    have "s \<le> window_page x \<and> window_page x < s + n" using window_range [OF x] that by simp
    then show "leaves A' (window_page x) \<noteq> None" using lv [of "window_page x"] by simp
  qed
  have other: "translate m' x = translate m x"
    if "0x100000000 \<le> x" "x < 0x140000000" "\<not> (?va \<le> x \<and> x < ?va + 4096 * n)" for x
  proof -
    have "\<not> (s \<le> window_page x \<and> window_page x < s + n)" using that window_range [OF that(1,2)] by simp
    then have "leaves A' (window_page x) = leaves A (window_page x)" using lv [of "window_page x"] by auto
    then show ?thesis using translate_at [OF assms(1) that(1,2)] translate_at [OF inv that(1,2)] by simp
  qed
  show ?thesis
    by (rule exI [of _ ?va], rule exI [of _ m'], rule exI [of _ A'], intro conjI allI impI)
      (use s inv mapped other translate_inj [OF inv] in auto)
qed

lemma boot_avail: "mmu_avail 16 (boot_mmu b)"
  by (auto simp: mmu_avail_def boot_mmu_def free_pages_def free_set_def block_map_new intro: exI [of _ 0])

theorem committed_pages_are_mapped_witness:
  "\<exists>va m' A'. AllocateAndCommitPages 16 (boot_mmu True) = Inr (va, m') \<and> mmu_inv m' A' \<and> 4096 dvd va \<and>
    0x100000000 \<le> va \<and> va + 4096 * 16 \<le> 0x140000000 \<and>
    (\<forall>x. va \<le> x \<and> x < va + 4096 * 16 \<longrightarrow>
      (\<exists>pa. translate m' x = Some pa \<and> 0x20000000 \<le> pa \<and> pa < 0x30000000)) \<and>
    (\<forall>x. 0x100000000 \<le> x \<and> x < 0x140000000 \<and> \<not> (va \<le> x \<and> x < va + 4096 * 16) \<longrightarrow>
      translate m' x = translate (boot_mmu True) x) \<and>
    (\<forall>x y pa. 0x100000000 \<le> x \<and> x < 0x140000000 \<and> 0x100000000 \<le> y \<and> y < 0x140000000 \<and>
      translate m' x = Some pa \<and> translate m' y = Some pa \<longrightarrow> x = y)"
  by (rule committed_pages_are_mapped [OF boot_inv boot_avail]) simp

text \<open>
  C9: the aperture through which the kernel writes its page tables is the identity on the first
  8 GB of physical memory, at boot and after any page was committed.
\<close>

theorem aperture_is_identity:
  assumes "aperture_ok m" and "mmu_inv m A" and "mmu_avail n m" and "0 < n" and "pa < 0x200000000"
  shows "aperture_ok (boot_mmu b) \<and> translate m (PhysicalMemoryApertureBase + pa) = Some pa \<and>
    (\<exists>va m'. AllocateAndCommitPages n m = Inr (va, m') \<and> aperture_ok m' \<and>
      translate m' (PhysicalMemoryApertureBase + pa) = Some pa)"
proof -
  obtain s m' where s: "AllocateAndCommitPages n m = Inr (VirtualMemoryAllocatorOffset + 4096 * s, m')"
    and l1: "\<And>i. i \<noteq> 4 \<Longrightarrow> l1_page_table m' ! i = l1_page_table m ! i"
    by (rule AllocateAndCommitPages_commits [OF assms(2-4)]) blast
  have "aperture_ok m'" using assms(1) l1 by (simp add: aperture_ok_def)
  moreover have "aperture_ok (boot_mmu b)" by (simp add: aperture_ok_def boot_aperture)
  ultimately show ?thesis using s assms(1,5) translate_aperture [of _ pa] by (simp add: aperture_ok_def)
qed

theorem aperture_is_identity_witness:
  "translate (boot_mmu True) (PhysicalMemoryApertureBase + 0x20000000) = Some 0x20000000"
proof -
  have "aperture_ok (boot_mmu True)" by (simp add: aperture_ok_def boot_aperture)
  from aperture_is_identity [OF this boot_inv boot_avail, where pa = "0x20000000"] show ?thesis by simp
qed

text \<open>
  A failed allocation of virtual pages is not reported. When no run of \<open>n\<close> virtual pages
  is left, \<^verbatim>\<open>AllocatePages\<close> returns \<^verbatim>\<open>0x1'FFFF'F000\<close>, an address outside the window that is not the null
  pointer its callers test for.
\<close>

theorem exhausted_pages_return_bogus_address:
  assumes "mmu_inv m A" and "0 < n" and "n \<le> 4294967232"
    and "\<And>r. r + n \<le> 262144 \<Longrightarrow>
      \<exists>s k. block_map 262144 (VirtualMemoryAllocator m) s = Some k \<and> \<not> apart r n s k"
  shows "AllocatePages n m = Inr (0x1FFFFF000, m)"
proof -
  have pi: "pool_invar 262144 (VirtualMemoryAllocator m)" using assms(1) by (simp add: mmu_inv_def)
  have "pool_alloc 262144 n 1 (VirtualMemoryAllocator m) = Inr (UINT32_MAX, VirtualMemoryAllocator m)"
    using pool.alloc_spec [OF pi assms(2,3) is_pow2_1] assms(4) by fastforce
  then show ?thesis by (simp add: AllocatePages_def wrap32_def)
qed

theorem exhausted_pages_return_bogus_address_witness:
  "AllocatePages 262145 (boot_mmu False) = Inr (0x1FFFFF000, boot_mmu False)"
  by (rule exhausted_pages_return_bogus_address [OF boot_inv]) simp_all

section \<open>The heap\<close>



text \<open>
  C12: freeing a live heap pointer removes exactly that allocation and keeps the heap's invariant;
  freeing an address outside every block panics and freeing the null pointer does nothing.
\<close>

theorem heap_free_removes_allocation:
  assumes "heap_ok own h"
  shows "(live h p n \<longrightarrow> (\<exists>h'. Heap_Deallocate (Some h) p = Inr (Some h') \<and> heap_ok own h' \<and>
      (\<forall>q k. live h' q k \<longleftrightarrow> live h q k \<and> q \<noteq> p))) \<and>
    (p \<noteq> 0 \<and> (\<forall>i<BlockCount h. p < Memory (Blocks h ! i) \<or> Memory (Blocks h ! i) + 65536 \<le> p) \<longrightarrow>
      Heap_Deallocate (Some h) p = Inl (Panic ''Heap::Deallocate: invalid pointer %p'')) \<and>
    Heap_Deallocate (Some h) 0 = Inr (Some h)"
  using Heap_Deallocate_live [OF assms, of p n] dealloc_blocks_miss [OF assms, of p 0]
  by (auto simp: Heap_Deallocate_def)

theorem heap_free_removes_allocation_witness:
  "Heap_Deallocate (Some new_heap) 4096 = Inl (Panic ''Heap::Deallocate: invalid pointer %p'')"
  using heap_free_removes_allocation [OF heap_ok_new, of 4096] by (simp add: new_heap_def)

end
